(* ===== verification/LcPrelude.thy ===== *)
theory LcPrelude
  imports Main "HOL-Library.Multiset" "HOL-Library.Monad_Syntax" "HOL-Library.Signed_Division"
begin

text \<open>
  Shared vocabulary of the development.

  A C computation is a value of type \<^typ>\<open>'a option\<close>: \<^term>\<open>Some y\<close> when it returns
  \<open>y\<close>, \<^term>\<open>None\<close> when the C program has undefined behaviour on the way (an access
  outside an object, a NULL dereference, a signed overflow). Error codes of the source are
  ordinary results. \<open>returns m P\<close> says that \<open>m\<close> is defined and its result satisfies \<open>P\<close>:
  total correctness. The collection \<open>wp\<close> rewrites \<open>returns\<close> through the option monad, so
  that a proof about a C function starts with \<open>simp add: wp\<close>.

  Arrays are lists, read and written with \<open>aget\<close> and \<open>aset\<close> at C indices (type int), which
  are defined only inside the array. \<open>cint\<close> is the range check of a 32-bit signed result.
  The second half holds the order and permutation facts on array segments that the sorting
  theories share.
\<close>

section \<open>Total correctness in the option monad\<close>

named_theorems wp

definition returns :: "'a option \<Rightarrow> ('a \<Rightarrow> bool) \<Rightarrow> bool" where
  "returns m P \<longleftrightarrow> (\<exists>y. m = Some y \<and> P y)"

lemma returns_Some [wp, simp]: "returns (Some x) P \<longleftrightarrow> P x"
  by (simp add: returns_def)

lemma returns_None [wp, simp]: "\<not> returns None P"
  by (simp add: returns_def)

lemma returns_bind [wp]: "returns (m \<bind> f) P \<longleftrightarrow> returns m (\<lambda>x. returns (f x) P)"
  by (cases m) (auto simp: returns_def)

lemma returns_if [wp]:
  "returns (if b then m else n) P \<longleftrightarrow> (if b then returns m P else returns n P)"
  by simp

lemma returns_map_option [wp]: "returns (map_option f m) P \<longleftrightarrow> returns m (\<lambda>x. P (f x))"
  by (cases m) auto

lemma returns_mono:
  assumes "returns m P" and "\<And>x. P x \<Longrightarrow> Q x"
  shows "returns m Q"
  using assms by (auto simp: returns_def)

lemma returns_conj: "returns m P \<Longrightarrow> returns m Q \<Longrightarrow> returns m (\<lambda>x. P x \<and> Q x)"
  by (auto simp: returns_def)

lemma returnsE:
  assumes "returns m P"
  obtains y where "m = Some y" and "P y"
  using assms by (auto simp: returns_def)

lemma returns_exI: "returns m P \<Longrightarrow> \<exists>y. m = Some y \<and> P y"
  by (simp add: returns_def)

text \<open>
  Code that may call \<open>exit\<close>: it ends the program with a status, or goes on with a result. \<open>andthen\<close>
  goes on with the result.
\<close>

datatype 'a run = Exits int | Goes 'a

definition andthen :: "'a run option \<Rightarrow> ('a \<Rightarrow> 'b run option) \<Rightarrow> 'b run option" where
  "andthen m f = do { r \<leftarrow> m; case r of Exits e \<Rightarrow> Some (Exits e) | Goes x \<Rightarrow> f x }"

lemma andthen_simps [simp]:
  "andthen None f = None" "andthen (Some (Exits e)) f = Some (Exits e)" "andthen (Some (Goes x)) f = f x"
  by (simp_all add: andthen_def)

text \<open>A global pointer: NULL, to a live object, or left over after the object was freed.\<close>

datatype 'a gptr = GNull | GLive 'a | GDead

text \<open>Addresses of objects in a heap.\<close>

type_synonym addr = nat

section \<open>State machines\<close>

inductive reachable :: "('s \<Rightarrow> bool) \<Rightarrow> ('s \<Rightarrow> 's \<Rightarrow> bool) \<Rightarrow> 's \<Rightarrow> bool" for start step where
  at_start: "start s \<Longrightarrow> reachable start step s"
| by_step: "reachable start step s \<Longrightarrow> step s s' \<Longrightarrow> reachable start step s'"

text \<open>The interface of a component that runs in steps: an invariant that holds at the start and is kept.\<close>

locale step_system =
  fixes start :: "'s \<Rightarrow> bool" and step :: "'s \<Rightarrow> 's \<Rightarrow> bool" and inv :: "'s \<Rightarrow> bool"
  assumes inv_start: "start s \<Longrightarrow> inv s"
    and inv_step: "step s s' \<Longrightarrow> inv s \<Longrightarrow> inv s'"
begin

lemma reachable_inv: "reachable start step s \<Longrightarrow> inv s"
  by (induction rule: reachable.induct) (auto intro: inv_start inv_step)

end

section \<open>File descriptors\<close>

text \<open>The lowest descriptor that is not open.\<close>

definition lowest_fd :: "(int \<times> string) list \<Rightarrow> int" where
  "lowest_fd fds = hd (filter (\<lambda>n. n \<notin> set (map fst fds)) (map int [0..<Suc (length fds)]))"

lemma lowest_fd_free: "lowest_fd fds \<notin> fst ` set fds" "0 \<le> lowest_fd fds"
proof -
  let ?c = "filter (\<lambda>n. n \<notin> set (map fst fds)) (map int [0..<Suc (length fds)])"
  have "\<not> set (map int [0..<Suc (length fds)]) \<subseteq> set (map fst fds)"
  proof
    assume "set (map int [0..<Suc (length fds)]) \<subseteq> set (map fst fds)"
    then have "card (set (map int [0..<Suc (length fds)])) \<le> card (set (map fst fds))" by (intro card_mono) auto
    also have "\<dots> \<le> length fds" using card_length [of "map fst fds"] by simp
    finally show False by (simp add: card_image del: upt_Suc)
  qed
  then have "?c \<noteq> []" unfolding filter_empty_conv by blast
  then have "lowest_fd fds \<in> set ?c" unfolding lowest_fd_def by (rule hd_in_set)
  then show "lowest_fd fds \<notin> fst ` set fds" "0 \<le> lowest_fd fds" by (auto simp del: upt_Suc)
qed

section \<open>C integers and arrays\<close>

definition INT_MIN :: int where "INT_MIN = - (2 ^ 31)"
definition INT_MAX :: int where "INT_MAX = 2 ^ 31 - 1"

definition cint :: "int \<Rightarrow> int option" where
  "cint x = (if INT_MIN \<le> x \<and> x \<le> INT_MAX then Some x else None)"

lemma returns_cint [wp]: "returns (cint x) P \<longleftrightarrow> INT_MIN \<le> x \<and> x \<le> INT_MAX \<and> P x"
  by (auto simp: cint_def)

lemmas int_limits = INT_MIN_def INT_MAX_def

definition aget :: "'a list \<Rightarrow> int \<Rightarrow> 'a option" where
  "aget xs i = (if 0 \<le> i \<and> i < int (length xs) then Some (xs ! nat i) else None)"

definition aset :: "'a list \<Rightarrow> int \<Rightarrow> 'a \<Rightarrow> 'a list option" where
  "aset xs i v = (if 0 \<le> i \<and> i < int (length xs) then Some (xs[nat i := v]) else None)"

lemma returns_aget [wp]:
  "returns (aget xs i) P \<longleftrightarrow> 0 \<le> i \<and> i < int (length xs) \<and> P (xs ! nat i)"
  by (auto simp: aget_def)

lemma returns_aset [wp]:
  "returns (aset xs i v) P \<longleftrightarrow> 0 \<le> i \<and> i < int (length xs) \<and> P (xs[nat i := v])"
  by (auto simp: aset_def)

lemma aget_int [simp]: "aget xs (int i) = (if i < length xs then Some (xs ! i) else None)"
  by (simp add: aget_def)

lemma aset_int [simp]: "aset xs (int i) v = (if i < length xs then Some (xs[i := v]) else None)"
  by (simp add: aset_def)

text \<open>
  Index arithmetic at natural numbers: \<open>idx\<close> folds the C index expressions back into
  \<^term>\<open>int\<close> of a natural number (used with \<open>del: idx_unfold\<close>).
\<close>

named_theorems idx

lemma int_succ [idx]: "int j + 1 = int (Suc j)" "1 + int j = int (Suc j)"
  by simp_all

lemma int_add [idx]: "int a + int b = int (a + b)"
  by simp

lemma int_pred [idx]: "0 < j \<Longrightarrow> int j - 1 = int (j - 1)"
  by simp

lemmas idx_unfold = of_nat_Suc of_nat_add of_nat_diff

lemma int_sub [idx]: "b \<le> a \<Longrightarrow> int a - int b = int (a - b)"
  by simp

lemma sdiv_2_nonneg [simp]: "0 \<le> a \<Longrightarrow> a sdiv (2::int) = a div 2"
  by (cases "a = 0") (simp_all add: signed_divide_int_def sgn_if)

section \<open>Array segments: permutations and order\<close>

text \<open>
  \<open>perm_on l r xs ys\<close>: \<open>ys\<close> differs from \<open>xs\<close> only by a rearrangement of the cells
  \<open>l, \<dots>, r - 1\<close>.
\<close>

definition perm_on :: "nat \<Rightarrow> nat \<Rightarrow> 'a list \<Rightarrow> 'a list \<Rightarrow> bool" where
  "perm_on l r xs ys \<longleftrightarrow> length ys = length xs \<and> mset ys = mset xs \<and>
     (\<forall>k. k < length xs \<longrightarrow> k < l \<or> r \<le> k \<longrightarrow> ys ! k = xs ! k)"

lemma perm_on_refl [simp, intro]: "perm_on l r xs xs"
  by (simp add: perm_on_def)

lemma perm_on_trans: "perm_on l r xs ys \<Longrightarrow> perm_on l r ys zs \<Longrightarrow> perm_on l r xs zs"
  by (simp add: perm_on_def)

lemma perm_on_widen: "perm_on l r xs ys \<Longrightarrow> l' \<le> l \<Longrightarrow> r \<le> r' \<Longrightarrow> perm_on l' r' xs ys"
  by (auto simp: perm_on_def)

lemma perm_on_length: "perm_on l r xs ys \<Longrightarrow> length ys = length xs"
  by (simp add: perm_on_def)

lemma perm_on_mset: "perm_on l r xs ys \<Longrightarrow> mset ys = mset xs"
  by (simp add: perm_on_def)

lemma perm_on_nth:
  "perm_on l r xs ys \<Longrightarrow> k < length xs \<Longrightarrow> k < l \<or> r \<le> k \<Longrightarrow> ys ! k = xs ! k"
  by (auto simp: perm_on_def)

lemma perm_on_swap:
  assumes "l \<le> i" "i < r" "l \<le> j" "j < r" "i < length xs" "j < length xs"
  shows "perm_on l r xs (xs[i := xs ! j, j := xs ! i])"
  using assms by (auto simp: perm_on_def mset_swap nth_list_update)

text \<open>The cells inside the segment hold the same multiset, so the same values.\<close>

lemma perm_on_segment:
  assumes p: "perm_on l r xs ys" and lr: "l \<le> r" "r \<le> length xs"
  shows "mset (take (r - l) (drop l ys)) = mset (take (r - l) (drop l xs))"
proof -
  have len: "length ys = length xs" using p by (rule perm_on_length)
  have a: "take l ys = take l xs"
    using p lr len by (intro nth_equalityI) (auto simp: perm_on_nth)
  have b: "drop r ys = drop r xs"
    using p lr len by (intro nth_equalityI) (auto simp: perm_on_nth)
  have dec: "zs = take l zs @ take (r - l) (drop l zs) @ drop r zs" if "r \<le> length zs" for zs :: "'a list"
    using lr(1) append_take_drop_id [of l zs] append_take_drop_id [of "r - l" "drop l zs"] by simp
  have "mset (take l ys) + mset (take (r - l) (drop l ys)) + mset (drop r ys)
      = mset (take l xs) + mset (take (r - l) (drop l xs)) + mset (drop r xs)"
    using perm_on_mset [OF p] dec [of ys] dec [of xs] lr len by (metis append.assoc mset_append)
  then show ?thesis by (simp add: a b)
qed

lemma perm_on_all:
  assumes p: "perm_on l r xs ys" and lr: "r \<le> length xs"
    and P: "\<And>k. l \<le> k \<Longrightarrow> k < r \<Longrightarrow> P (xs ! k)" and k: "l \<le> k" "k < r"
  shows "P (ys ! k)"
proof -
  have len: "length ys = length xs" using p by (rule perm_on_length)
  have "ys ! k = take (r - l) (drop l ys) ! (k - l)" using k lr len by simp
  also have "\<dots> \<in> set (take (r - l) (drop l ys))" using k lr len by (intro nth_mem) auto
  also have "set (take (r - l) (drop l ys)) = set (take (r - l) (drop l xs))"
    using perm_on_segment [OF p] k lr by (metis less_imp_le_nat order.trans set_mset_mset)
  finally obtain m where "m < r - l" "ys ! k = xs ! (l + m)"
    using lr by (auto simp: in_set_conv_nth)
  then show ?thesis using P [of "l + m"] by simp
qed

text \<open>
  \<open>ordered_on R l r xs\<close>: the cells \<open>l, \<dots>, r - 1\<close> are pairwise in the order \<open>R\<close>.
  \<open>ordered_but R l r h xs\<close> leaves out the pairs whose upper cell is \<open>h\<close>: the state of an
  insertion whose element stands in cell \<open>h\<close>. Moving the element one cell down keeps it.
\<close>

definition ordered_on :: "('a \<Rightarrow> 'a \<Rightarrow> bool) \<Rightarrow> nat \<Rightarrow> nat \<Rightarrow> 'a list \<Rightarrow> bool" where
  "ordered_on R l r xs \<longleftrightarrow> (\<forall>k m. l \<le> k \<and> k < m \<and> m < r \<longrightarrow> R (xs ! k) (xs ! m))"

definition ordered_but :: "('a \<Rightarrow> 'a \<Rightarrow> bool) \<Rightarrow> nat \<Rightarrow> nat \<Rightarrow> nat \<Rightarrow> 'a list \<Rightarrow> bool" where
  "ordered_but R l r h xs \<longleftrightarrow>
     (\<forall>k m. l \<le> k \<and> k < m \<and> m < r \<and> m \<noteq> h \<longrightarrow> R (xs ! k) (xs ! m))"

abbreviation sorted_on :: "nat \<Rightarrow> nat \<Rightarrow> 'a::linorder list \<Rightarrow> bool" where
  "sorted_on \<equiv> ordered_on (\<le>)"

lemma sorted_on_all: "sorted_on 0 (length xs) xs \<longleftrightarrow> sorted xs"
  by (auto simp: ordered_on_def sorted_iff_nth_mono le_less)

lemma desc_on_all: "ordered_on (\<ge>) 0 (length xs) xs \<longleftrightarrow> sorted (rev (xs::'a::linorder list))"
proof -
  have "sorted (rev xs) \<longleftrightarrow> sorted_wrt (\<ge>) xs" by (simp add: sorted_wrt_rev)
  then show ?thesis by (auto simp: ordered_on_def sorted_wrt_iff_nth_less)
qed

lemma ordered_on_cong:
  "(\<And>k. l \<le> k \<Longrightarrow> k < r \<Longrightarrow> ys ! k = xs ! k) \<Longrightarrow> ordered_on R l r xs \<Longrightarrow> ordered_on R l r ys"
  by (auto simp: ordered_on_def)

lemma ordered_on_small [simp]: "r \<le> Suc l \<Longrightarrow> ordered_on R l r xs"
  by (auto simp: ordered_on_def)

lemma ordered_on_narrow: "ordered_on R l r xs \<Longrightarrow> l \<le> l' \<Longrightarrow> r' \<le> r \<Longrightarrow> ordered_on R l' r' xs"
  by (auto simp: ordered_on_def)

lemma ordered_but_start: "ordered_on R l h xs \<Longrightarrow> ordered_but R l (Suc h) h xs"
  by (auto simp: ordered_on_def ordered_but_def less_Suc_eq)

lemma ordered_but_step:
  assumes "ordered_but R l r (Suc h) xs" "l \<le> h" "Suc h < r" "r \<le> length xs"
    "R (xs ! Suc h) (xs ! h)"
  shows "ordered_but R l r h (xs[Suc h := xs ! h, h := xs ! Suc h])"
  using assms unfolding ordered_but_def
  by (auto simp: nth_list_update)

text \<open>Moving the hole of an insertion down is a swap in the array with the hole filled.\<close>

lemma hole_down:
  assumes "h \<noteq> h'" "h < length ys" "h' < length ys" "xs = ys[h := t]"
  shows "xs[h := xs ! h', h' := xs ! h] = ys[h := ys ! h', h' := t]"
  using assms by simp

lemma ordered_but_done:
  assumes "ordered_but R l r h xs" "transp R" "l < h \<Longrightarrow> R (xs ! (h - 1)) (xs ! h)"
  shows "ordered_on R l r xs"
  unfolding ordered_on_def
proof (intro allI impI, elim conjE)
  fix k m assume km: "l \<le> k" "k < m" "m < r"
  show "R (xs ! k) (xs ! m)"
  proof (cases "m = h")
    case True
    show ?thesis
    proof (cases "k = h - 1")
      case True
      with \<open>m = h\<close> km assms(3) show ?thesis by simp
    next
      case False
      with True km have "l \<le> k \<and> k < h - 1 \<and> h - 1 < r \<and> h - 1 \<noteq> h" by auto
      then have "R (xs ! k) (xs ! (h - 1))"
        using assms(1) unfolding ordered_but_def by blast
      moreover have "R (xs ! (h - 1)) (xs ! h)" using assms(3) km True by simp
      ultimately show ?thesis using assms(2) True by (blast dest: transpD)
    qed
  qed (use km assms(1) in \<open>auto simp: ordered_but_def\<close>)
qed

lemma sort_unique: "sorted ys \<Longrightarrow> mset ys = mset xs \<Longrightarrow> ys = sort xs"
  using properties_for_sort by fastforce

end
