(* ===== verification/Sort_Spec.thy ===== *)
theory Sort_Spec
  imports LcPrelude
begin

text \<open>
  The contracts of the sorting routines of \<open>src/src/csort\<close> as locales. Every routine has the
  C signature \<open>void f(ElementType ori[], int len)\<close>; its model takes the array and the
  length and returns the array afterwards, or \<^term>\<open>None\<close> on undefined behaviour.
  \<open>permuter\<close> is the contract every routine but \<open>Bucketsort\<close> keeps (defined, and the result is
  a rearrangement); \<open>sorter\<close> and \<open>desc_sorter\<close> add the order of the result. \<open>ok\<close> is the
  precondition: the sizes for which no index computation leaves the range of \<open>int\<close>.
\<close>

type_synonym ElementType = int

text \<open>The length of an array that is passed as an \<open>int\<close> is at most \<open>INT_MAX\<close>.\<close>

definition fits_int :: "'a list \<Rightarrow> bool" where
  "fits_int xs \<longleftrightarrow> int (length xs) \<le> INT_MAX"

text \<open>Up to half of the range, sums and doublings of two valid indices do not overflow.\<close>

definition fits_half :: "'a list \<Rightarrow> bool" where
  "fits_half xs \<longleftrightarrow> 2 * int (length xs) \<le> INT_MAX"

locale permuter =
  fixes srt :: "ElementType list \<Rightarrow> int \<Rightarrow> ElementType list option"
    and ok :: "ElementType list \<Rightarrow> bool"
  assumes ok_length: "ok xs \<Longrightarrow> length ys = length xs \<Longrightarrow> ok ys"
    and srt_perm: "ok xs \<Longrightarrow> returns (srt xs (int (length xs))) (\<lambda>ys. mset ys = mset xs)"
begin

lemma contents_kept:
  "ok xs \<Longrightarrow> returns (srt xs (int (length xs))) (\<lambda>ys. length ys = length xs \<and> set ys = set xs)"
  by (erule returns_mono [OF srt_perm]) (metis mset_eq_length mset_eq_setD)

text \<open>Running the routine again on its own result is defined.\<close>

lemma rerun_defined:
  assumes "ok xs"
  shows "returns (srt xs (int (length xs)) \<bind> (\<lambda>ys. srt ys (int (length ys))))
    (\<lambda>zs. mset zs = mset xs)"
  unfolding returns_bind
proof (rule returns_mono [OF srt_perm [OF assms]])
  fix ys assume ys: "mset ys = mset xs"
  then have "ok ys" using assms ok_length mset_eq_length by blast
  from srt_perm [OF this] show "returns (srt ys (int (length ys))) (\<lambda>zs. mset zs = mset xs)"
    by (simp add: ys)
qed

end

locale sorter = permuter +
  assumes srt_sorted: "ok xs \<Longrightarrow> returns (srt xs (int (length xs))) sorted"
begin

text \<open>A sorter computes the one sorted rearrangement of its input.\<close>

lemma srt_eq_sort:
  assumes "ok xs"
  shows "srt xs (int (length xs)) = Some (sort xs)"
  using returns_conj [OF srt_perm [OF assms] srt_sorted [OF assms]]
  by (auto simp: returns_def dest: sort_unique)

lemma srt_idem:
  assumes "ok xs"
  shows "srt xs (int (length xs)) \<bind> (\<lambda>ys. srt ys (int (length ys))) = srt xs (int (length xs))"
  using srt_eq_sort [OF assms] srt_eq_sort [OF ok_length [OF assms, of "sort xs"]]
  by (simp add: sorted_sort_id)

end

locale desc_sorter = permuter +
  assumes srt_desc: "ok xs \<Longrightarrow> returns (srt xs (int (length xs))) (\<lambda>ys. sorted (rev ys))"
begin

lemma srt_eq_rev_sort:
  assumes "ok xs"
  shows "srt xs (int (length xs)) = Some (rev (sort xs))"
  using returns_conj [OF srt_perm [OF assms] srt_desc [OF assms]]
  by (auto simp: returns_def) (metis mset_rev rev_rev_ident sort_unique)

end

end
