(* ===== verification/CSort_Insert.thy ===== *)
theory CSort_Insert
  imports Sort_Spec
begin

text \<open>
  \<open>Bubblesort.c\<close>, \<open>Insertsort.c\<close> and \<open>Shellsort.c\<close>. Each C loop is one recursive
  function over the loop variables; the array is passed along. \<open>Insertsort\<close> is called by
  \<open>Quicksort.c\<close> on a pointer into the middle of the array, so its model takes the array
  object and the offset \<open>base\<close> of the pointer. The inner loops of insertion and shell sort
  keep the element being inserted in \<open>tmp\<close>: their invariant speaks of the array with \<open>tmp\<close>
  put into the hole.
\<close>

section \<open>Bubble sort\<close>

function bubble_inner :: "ElementType list \<Rightarrow> int \<Rightarrow> int \<Rightarrow> ElementType list option" where
  "bubble_inner ori j i =
     (if j < i then do {
        a \<leftarrow> aget ori j;
        b \<leftarrow> aget ori (j + 1);
        ori' \<leftarrow> (if a > b then do {
                   tmp \<leftarrow> aget ori (j + 1);
                   v \<leftarrow> aget ori j;
                   ori1 \<leftarrow> aset ori (j + 1) v;
                   aset ori1 j tmp }
                 else Some ori);
        bubble_inner ori' (j + 1) i }
      else Some ori)"
  by pat_completeness auto
termination
  by (relation "measure (\<lambda>(ori, j, i). nat (i - j))") auto

function bubble_outer :: "ElementType list \<Rightarrow> int \<Rightarrow> ElementType list option" where
  "bubble_outer ori i =
     (if i > 0 then do {
        ori' \<leftarrow> bubble_inner ori 0 i;
        bubble_outer ori' (i - 1) }
      else Some ori)"
  by pat_completeness auto
termination
  by (relation "measure (\<lambda>(ori, i). nat i)") auto

definition Bubblesort :: "ElementType list \<Rightarrow> int \<Rightarrow> ElementType list option" where
  "Bubblesort ori len = bubble_outer ori (len - 1)"

declare bubble_inner.simps [simp del] bubble_outer.simps [simp del]

section \<open>Insertion sort\<close>

function insert_inner ::
  "ElementType list \<Rightarrow> int \<Rightarrow> ElementType \<Rightarrow> int \<Rightarrow> (ElementType list \<times> int) option" where
  "insert_inner ori base tmp j =
     (if j > 0 then do {
        p \<leftarrow> aget ori (base + (j - 1));
        if p > tmp then do {
          q \<leftarrow> aget ori (base + (j - 1));
          ori' \<leftarrow> aset ori (base + j) q;
          insert_inner ori' base tmp (j - 1) }
        else Some (ori, j) }
      else Some (ori, j))"
  by pat_completeness auto
termination
  by (relation "measure (\<lambda>(ori, base, tmp, j). nat j)") auto

function insert_outer ::
  "ElementType list \<Rightarrow> int \<Rightarrow> int \<Rightarrow> int \<Rightarrow> ElementType list option" where
  "insert_outer ori base i len =
     (if i < len then do {
        tmp \<leftarrow> aget ori (base + i);
        (ori1, j) \<leftarrow> insert_inner ori base tmp i;
        ori2 \<leftarrow> aset ori1 (base + j) tmp;
        insert_outer ori2 base (i + 1) len }
      else Some ori)"
  by pat_completeness auto
termination
  by (relation "measure (\<lambda>(ori, base, i, len). nat (len - i))") auto

definition Insertsort :: "ElementType list \<Rightarrow> int \<Rightarrow> int \<Rightarrow> ElementType list option" where
  "Insertsort ori base len = insert_outer ori base 1 len"

declare insert_inner.simps [simp del] insert_outer.simps [simp del]

section \<open>Shell sort\<close>

text \<open>
  The inner loop of the source runs while \<open>j \<ge> increment\<close> and leaves by \<open>break\<close>. The extra
  test \<open>0 < increment\<close> of the two loops below is the guard of the outermost loop of the
  source, under which they run; it makes the functions total.
\<close>

function shell_inner ::
  "ElementType list \<Rightarrow> ElementType \<Rightarrow> int \<Rightarrow> int \<Rightarrow> (ElementType list \<times> int) option" where
  "shell_inner ori tmp j increment =
     (if 0 < increment \<and> j \<ge> increment then do {
        p \<leftarrow> aget ori (j - increment);
        if tmp > p then do {
          q \<leftarrow> aget ori (j - increment);
          ori' \<leftarrow> aset ori j q;
          shell_inner ori' tmp (j - increment) increment }
        else Some (ori, j) }
      else Some (ori, j))"
  by pat_completeness auto
termination
  by (relation "measure (\<lambda>(ori, tmp, j, increment). nat j)") auto

function shell_pass :: "ElementType list \<Rightarrow> int \<Rightarrow> int \<Rightarrow> int \<Rightarrow> ElementType list option" where
  "shell_pass ori i len increment =
     (if i < len then do {
        tmp \<leftarrow> aget ori i;
        (ori1, j) \<leftarrow> shell_inner ori tmp i increment;
        ori2 \<leftarrow> aset ori1 j tmp;
        shell_pass ori2 (i + 1) len increment }
      else Some ori)"
  by pat_completeness auto
termination
  by (relation "measure (\<lambda>(ori, i, len, increment). nat (len - i))") auto

function shell_outer :: "ElementType list \<Rightarrow> int \<Rightarrow> int \<Rightarrow> ElementType list option" where
  "shell_outer ori len increment =
     (if increment > 0 then do {
        ori' \<leftarrow> shell_pass ori increment len increment;
        shell_outer ori' len (increment sdiv 2) }
      else Some ori)"
  by pat_completeness auto
termination
  by (relation "measure (\<lambda>(ori, len, increment). nat increment)") auto

definition Shellsort :: "ElementType list \<Rightarrow> int \<Rightarrow> ElementType list option" where
  "Shellsort ori len = shell_outer ori len (len sdiv 2)"

declare shell_inner.simps [simp del] shell_pass.simps [simp del] shell_outer.simps [simp del]

section \<open>Bubble sort is correct\<close>

lemma bubble_inner_returns:
  assumes "j \<le> i" "i < length xs" "\<And>k. k < j \<Longrightarrow> xs ! k \<le> xs ! j"
  shows "returns (bubble_inner xs (int j) (int i))
    (\<lambda>ys. perm_on 0 (Suc i) xs ys \<and> (\<forall>k\<le>i. ys ! k \<le> ys ! i))"
  using assms
proof (induction "i - j" arbitrary: j xs)
  case 0
  then have "j = i" by simp
  with 0 show ?case by (auto simp: bubble_inner.simps [of xs] le_less)
next
  case (Suc d)
  let ?ys = "xs[Suc j := xs ! j, j := xs ! Suc j]"
  let ?zs = "if xs ! j > xs ! Suc j then ?ys else xs"
  have j: "j < i" using Suc.hyps(2) by simp
  have p: "perm_on 0 (Suc i) xs ?zs"
    using j Suc.prems(2) by (auto intro: perm_on_swap)
  have "?zs ! k \<le> ?zs ! Suc j" if "k < Suc j" for k
    using that j Suc.prems(2) Suc.prems(3) [of k]
    by (auto simp: nth_list_update less_Suc_eq)
  then have "returns (bubble_inner ?zs (int (Suc j)) (int i))
    (\<lambda>ys. perm_on 0 (Suc i) ?zs ys \<and> (\<forall>k\<le>i. ys ! k \<le> ys ! i))"
    using Suc.hyps(2) Suc.prems(2) j by (intro Suc.hyps(1)) auto
  then have "returns (bubble_inner ?zs (int (Suc j)) (int i))
    (\<lambda>ys. perm_on 0 (Suc i) xs ys \<and> (\<forall>k\<le>i. ys ! k \<le> ys ! i))"
    by (rule returns_mono) (use p perm_on_trans in blast)
  then show ?case
    using j Suc.prems(2)
    by (cases "xs ! j > xs ! Suc j")
       (simp_all add: bubble_inner.simps [of xs "int j"] idx wp del: idx_unfold)
qed

lemma bubble_outer_returns:
  assumes "i < length xs" "sorted_on (Suc i) (length xs) xs"
    "\<And>k l. k \<le> i \<Longrightarrow> i < l \<Longrightarrow> l < length xs \<Longrightarrow> xs ! k \<le> xs ! l"
  shows "returns (bubble_outer xs (int i)) (\<lambda>ys. mset ys = mset xs \<and> sorted ys)"
  using assms
proof (induction i arbitrary: xs)
  case 0
  then have "sorted_on 0 (length xs) xs"
    by (auto simp: ordered_on_def) (metis Suc_leI gr0I)
  then show ?case by (simp add: bubble_outer.simps [of xs] sorted_on_all)
next
  case (Suc i)
  have "returns (bubble_inner xs 0 (int (Suc i)))
     (\<lambda>ys. perm_on 0 (Suc (Suc i)) xs ys \<and> (\<forall>k\<le>Suc i. ys ! k \<le> ys ! Suc i))"
    using bubble_inner_returns [of 0 "Suc i" xs] Suc.prems(1) by simp
  then have "returns (bubble_inner xs 0 (int (Suc i)))
     (\<lambda>ys. returns (bubble_outer ys (int i)) (\<lambda>zs. mset zs = mset xs \<and> sorted zs))"
  proof (rule returns_mono)
    fix ys assume ys: "perm_on 0 (Suc (Suc i)) xs ys \<and> (\<forall>k\<le>Suc i. ys ! k \<le> ys ! Suc i)"
    then have len: "length ys = length xs" by (auto simp: perm_on_def)
    have upper: "ys ! k \<le> ys ! l" if "k \<le> Suc i" "Suc i < l" "l < length xs" for k l
      using perm_on_all [of 0 "Suc (Suc i)" xs ys "\<lambda>v. v \<le> xs ! l" k] ys that Suc.prems
      by (auto simp: perm_on_nth less_Suc_eq_le)
    have "sorted_on (Suc (Suc i)) (length xs) ys"
      using Suc.prems(2) ys by (auto simp: perm_on_nth intro: ordered_on_cong [rotated])
    then have "sorted_on (Suc i) (length ys) ys"
      using upper [of "Suc i"] by (auto simp: ordered_on_def len) (metis Suc_leI le_neq_implies_less)
    moreover have "ys ! k \<le> ys ! l" if "k \<le> i" "i < l" "l < length ys" for k l
      using upper [of k l] ys that len by (cases "l = Suc i") auto
    ultimately have "returns (bubble_outer ys (int i)) (\<lambda>zs. mset zs = mset ys \<and> sorted zs)"
      using Suc.prems(1) len by (intro Suc.IH) auto
    then show "returns (bubble_outer ys (int i)) (\<lambda>zs. mset zs = mset xs \<and> sorted zs)"
      using ys by (simp add: perm_on_def)
  qed
  then show ?case by (simp add: bubble_outer.simps [of xs] wp)
qed

lemma Bubblesort_returns:
  "returns (Bubblesort xs (int (length xs))) (\<lambda>ys. mset ys = mset xs \<and> sorted ys)"
proof (cases "xs = []")
  case True
  then show ?thesis by (simp add: Bubblesort_def bubble_outer.simps [of "[]"])
next
  case False
  then show ?thesis using bubble_outer_returns [of "length xs - 1" xs]
    by (simp add: Bubblesort_def idx del: idx_unfold)
qed


section \<open>Insertion sort is correct\<close>

lemma transp_orders [simp]: "transp ((\<le>) :: int \<Rightarrow> int \<Rightarrow> bool)" "transp ((\<ge>) :: int \<Rightarrow> int \<Rightarrow> bool)"
  by (auto intro: transpI)

text \<open>
  \<open>b\<close> is the offset of the pointer, \<open>j\<close> the hole, \<open>xs\<close> the array with \<open>tmp\<close> put into the
  hole.
\<close>

lemma insert_inner_returns:
  assumes "b + i < length ys" "j \<le> i" "xs = ys[b + j := tmp]"
    "ordered_but (\<le>) b (Suc (b + i)) (b + j) xs"
  shows "returns (insert_inner ys (int b) tmp (int j))
    (\<lambda>(zs, j'). \<exists>m. j' = int m \<and> m \<le> i \<and> perm_on b (Suc (b + i)) xs (zs[b + m := tmp]) \<and>
       sorted_on b (Suc (b + i)) (zs[b + m := tmp]))"
  using assms
proof (induction j arbitrary: xs ys)
  case 0
  then have "sorted_on b (Suc (b + i)) xs" by (auto intro: ordered_but_done)
  with 0 show ?case by (auto simp: insert_inner.simps [of ys "int b" tmp 0])
next
  case (Suc j)
  let ?p = "ys ! (b + j)"
  have p: "?p = xs ! (b + j)" "tmp = xs ! (b + Suc j)" using Suc.prems by simp_all
  have len: "length xs = length ys" using Suc.prems(3) by simp
  show ?case
  proof (cases "?p > tmp")
    case False
    have "sorted_on b (Suc (b + i)) xs"
      using Suc.prems(4) p False by (auto intro: ordered_but_done)
    then show ?thesis using False Suc.prems
      by (auto simp: insert_inner.simps [of ys "int b" tmp "int (Suc j)"] idx wp
          simp del: idx_unfold)
  next
    case True
    let ?xs = "xs[b + Suc j := xs ! (b + j), b + j := xs ! (b + Suc j)]"
    let ?ys = "ys[b + Suc j := ?p]"
    have le: "xs ! (b + Suc j) \<le> xs ! (b + j)" using True p by simp
    have "perm_on b (Suc (b + i)) xs ?xs"
      using Suc.prems(1,2) len by (intro perm_on_swap) auto
    moreover have "?xs = ?ys[b + j := tmp]"
      using Suc.prems(1-3) by (intro hole_down) auto
    moreover have "ordered_but (\<le>) b (Suc (b + i)) (b + j) ?xs"
      using ordered_but_step [of "(\<le>)" b "Suc (b + i)" "b + j" xs] Suc.prems(1,2,4) len le by simp
    ultimately have "returns (insert_inner ?ys (int b) tmp (int j))
      (\<lambda>(zs, j'). \<exists>m. j' = int m \<and> m \<le> i \<and> perm_on b (Suc (b + i)) xs (zs[b + m := tmp]) \<and>
         sorted_on b (Suc (b + i)) (zs[b + m := tmp]))"
      using Suc.prems(1,2)
      by (intro returns_mono [OF Suc.IH [of ?ys ?xs]]) (auto intro: perm_on_trans)
    then show ?thesis using True Suc.prems
      by (simp add: insert_inner.simps [of ys "int b" tmp "int (Suc j)"] idx wp
          del: idx_unfold)
  qed
qed


lemma insert_outer_returns:
  assumes "0 < i" "i \<le> n" "b + n \<le> length xs" "sorted_on b (b + i) xs"
  shows "returns (insert_outer xs (int b) (int i) (int n))
    (\<lambda>ys. perm_on b (b + n) xs ys \<and> sorted_on b (b + n) ys)"
  using assms
proof (induction "n - i" arbitrary: i xs)
  case 0
  then show ?case by (simp add: insert_outer.simps [of xs "int b" "int i"])
next
  case (Suc d)
  then have i: "i < n" by simp
  let ?tmp = "xs ! (b + i)"
  have "ordered_but (\<le>) b (Suc (b + i)) (b + i) xs"
    using Suc.prems(4) by (rule ordered_but_start)
  then have "returns (insert_inner xs (int b) ?tmp (int i))
    (\<lambda>(zs, j'). \<exists>m. j' = int m \<and> m \<le> i \<and> perm_on b (Suc (b + i)) xs (zs[b + m := ?tmp]) \<and>
       sorted_on b (Suc (b + i)) (zs[b + m := ?tmp]))"
    using i Suc.prems(3) by (intro insert_inner_returns) auto
  then have "returns (insert_inner xs (int b) ?tmp (int i))
    (\<lambda>(zs, j'). \<exists>m. j' = int m \<and> b + m < length zs \<and>
       returns (insert_outer (zs[b + m := ?tmp]) (int b) (int (Suc i)) (int n))
         (\<lambda>ys. perm_on b (b + n) xs ys \<and> sorted_on b (b + n) ys))"
  proof (rule returns_mono, clarify)
    fix zs j' m
    assume m: "m \<le> i" and pm: "perm_on b (Suc (b + i)) xs (zs[b + m := ?tmp])"
      and so: "sorted_on b (Suc (b + i)) (zs[b + m := ?tmp])"
    have len: "length zs = length xs" using perm_on_length [OF pm] by simp
    have pm': "perm_on b (b + n) xs (zs[b + m := ?tmp])"
      using pm i by (rule_tac perm_on_widen) auto
    have "returns (insert_outer (zs[b + m := ?tmp]) (int b) (int (Suc i)) (int n))
         (\<lambda>ys. perm_on b (b + n) (zs[b + m := ?tmp]) ys \<and> sorted_on b (b + n) ys)"
      using so Suc.hyps(2) Suc.prems(3) len i by (intro Suc.hyps(1)) auto
    then have "returns (insert_outer (zs[b + m := ?tmp]) (int b) (int (Suc i)) (int n))
         (\<lambda>ys. perm_on b (b + n) xs ys \<and> sorted_on b (b + n) ys)"
      by (rule returns_mono) (use pm' perm_on_trans in blast)
    then show "\<exists>ma. int m = int ma \<and> b + ma < length zs \<and>
       returns (insert_outer (zs[b + ma := ?tmp]) (int b) (int (Suc i)) (int n))
         (\<lambda>ys. perm_on b (b + n) xs ys \<and> sorted_on b (b + n) ys)"
      using m i len Suc.prems(3) by auto
  qed
  then show ?case using i Suc.prems(3)
    by (auto simp: insert_outer.simps [of xs "int b" "int i"] idx wp
        simp del: idx_unfold elim!: returns_mono)
qed

lemma Insertsort_returns:
  assumes "b + n \<le> length xs"
  shows "returns (Insertsort xs (int b) (int n))
    (\<lambda>ys. perm_on b (b + n) xs ys \<and> sorted_on b (b + n) ys)"
proof (cases "n = 0")
  case True
  then show ?thesis by (simp add: Insertsort_def insert_outer.simps [of xs])
next
  case False
  then show ?thesis
    using insert_outer_returns [of 1 n b xs] assms by (simp add: Insertsort_def)
qed


section \<open>Shell sort: a permutation, in descending order\<close>

text \<open>
  For every increment a pass is a rearrangement; with increment 1 it is an insertion sort
  with the comparison reversed.
\<close>

lemma shell_inner_returns:
  assumes "0 < h" "i < length ys" "j \<le> i" "xs = ys[j := tmp]"
  shows "returns (shell_inner ys tmp (int j) (int h))
    (\<lambda>(zs, j'). \<exists>m. j' = int m \<and> m \<le> i \<and> perm_on 0 (Suc i) xs (zs[m := tmp]) \<and>
       (h = 1 \<longrightarrow> ordered_but (\<ge>) 0 (Suc i) j xs \<longrightarrow> ordered_on (\<ge>) 0 (Suc i) (zs[m := tmp])))"
  using assms
proof (induction j arbitrary: xs ys rule: less_induct)
  case (less j)
  have len: "length xs = length ys" using less.prems(4) by simp
  have tmp: "xs ! j = tmp" using less.prems by simp
  show ?case
  proof (cases "h \<le> j \<and> tmp > ys ! (j - h)")
    case False
    have p: "xs ! (j - h) = ys ! (j - h)" if "h \<le> j" using less.prems that by simp
    have "ordered_on (\<ge>) 0 (Suc i) xs" if "h = 1" "ordered_but (\<ge>) 0 (Suc i) j xs"
      using False that tmp p by (intro ordered_but_done [OF that(2)]) auto
    moreover have "shell_inner ys tmp (int j) (int h) = Some (ys, int j)"
      using False less.prems(2,3)
      by (cases "h \<le> j") (auto simp: shell_inner.simps [of ys tmp "int j"] idx
          simp del: idx_unfold)
    ultimately show ?thesis using less.prems(3,4) by auto
  next
    case True
    let ?k = "j - h"
    let ?xs = "xs[j := xs ! ?k, ?k := xs ! j]"
    let ?ys = "ys[j := ys ! ?k]"
    have k: "?k < j" using True less.prems(1) by simp
    have p: "xs ! ?k = ys ! ?k" using k less.prems(4) by simp
    have eq: "?xs = ?ys[?k := tmp]"
      using k less.prems(2-4) by (intro hole_down) auto
    have pm: "perm_on 0 (Suc i) xs ?xs"
      using k less.prems(2,3) len by (intro perm_on_swap) auto
    have od: "ordered_but (\<ge>) 0 (Suc i) ?k ?xs" if "h = 1" "ordered_but (\<ge>) 0 (Suc i) j xs"
    proof -
      obtain k' where "j = Suc k'" using k by (cases j) auto
      with that True p tmp less.prems(2,3) len show ?thesis
        using ordered_but_step [of "(\<ge>)" 0 "Suc i" k' xs] by simp
    qed
    have "returns (shell_inner ?ys tmp (int ?k) (int h))
      (\<lambda>(zs, j'). \<exists>m. j' = int m \<and> m \<le> i \<and> perm_on 0 (Suc i) ?xs (zs[m := tmp]) \<and>
       (h = 1 \<longrightarrow> ordered_but (\<ge>) 0 (Suc i) ?k ?xs \<longrightarrow> ordered_on (\<ge>) 0 (Suc i) (zs[m := tmp])))"
      using k less.prems(1-3) eq by (intro less.IH) auto
    then have "returns (shell_inner ?ys tmp (int ?k) (int h))
      (\<lambda>(zs, j'). \<exists>m. j' = int m \<and> m \<le> i \<and> perm_on 0 (Suc i) xs (zs[m := tmp]) \<and>
       (h = 1 \<longrightarrow> ordered_but (\<ge>) 0 (Suc i) j xs \<longrightarrow> ordered_on (\<ge>) 0 (Suc i) (zs[m := tmp])))"
      by (rule returns_mono, clarify) (use perm_on_trans [OF pm] od in blast)
    then show ?thesis using True less.prems(1-3)
      by (simp add: shell_inner.simps [of ys tmp "int j"] idx wp
          del: idx_unfold)
  qed
qed

lemma shell_pass_returns:
  assumes "0 < h" "i \<le> length xs"
  shows "returns (shell_pass xs (int i) (int (length xs)) (int h))
    (\<lambda>ys. perm_on 0 (length xs) xs ys \<and>
       (h = 1 \<longrightarrow> ordered_on (\<ge>) 0 i xs \<longrightarrow> ordered_on (\<ge>) 0 (length xs) ys))"
  using assms
proof (induction "length xs - i" arbitrary: i xs)
  case 0
  then show ?case by (simp add: shell_pass.simps [of xs "int i"])
next
  case (Suc d)
  then have i: "i < length xs" by simp
  let ?tmp = "xs ! i"
  have "returns (shell_inner xs ?tmp (int i) (int h))
    (\<lambda>(zs, j'). \<exists>m. j' = int m \<and> m \<le> i \<and> perm_on 0 (Suc i) xs (zs[m := ?tmp]) \<and>
       (h = 1 \<longrightarrow> ordered_but (\<ge>) 0 (Suc i) i xs \<longrightarrow> ordered_on (\<ge>) 0 (Suc i) (zs[m := ?tmp])))"
    using i Suc.prems by (intro shell_inner_returns) auto
  then have "returns (shell_inner xs ?tmp (int i) (int h))
    (\<lambda>(zs, j'). \<exists>m. j' = int m \<and> m < length zs \<and> length zs = length xs \<and>
       returns (shell_pass (zs[m := ?tmp]) (int (Suc i)) (int (length xs)) (int h))
         (\<lambda>ys. perm_on 0 (length xs) xs ys \<and>
           (h = 1 \<longrightarrow> ordered_on (\<ge>) 0 i xs \<longrightarrow> ordered_on (\<ge>) 0 (length xs) ys)))"
  proof (rule returns_mono, clarify)
    fix zs j' m
    assume m: "m \<le> i" and pm: "perm_on 0 (Suc i) xs (zs[m := ?tmp])"
      and so: "h = 1 \<longrightarrow> ordered_but (\<ge>) 0 (Suc i) i xs \<longrightarrow> ordered_on (\<ge>) 0 (Suc i) (zs[m := ?tmp])"
    have len: "length zs = length xs" using perm_on_length [OF pm] by simp
    have pm': "perm_on 0 (length xs) xs (zs[m := ?tmp])"
      using pm i by (rule_tac perm_on_widen) auto
    have "returns (shell_pass (zs[m := ?tmp]) (int (Suc i)) (int (length (zs[m := ?tmp]))) (int h))
         (\<lambda>ys. perm_on 0 (length (zs[m := ?tmp])) (zs[m := ?tmp]) ys \<and>
           (h = 1 \<longrightarrow> ordered_on (\<ge>) 0 (Suc i) (zs[m := ?tmp]) \<longrightarrow>
              ordered_on (\<ge>) 0 (length (zs[m := ?tmp])) ys))"
      using Suc.hyps(2) Suc.prems(1) len i by (intro Suc.hyps(1)) auto
    then have "returns (shell_pass (zs[m := ?tmp]) (int (Suc i)) (int (length xs)) (int h))
         (\<lambda>ys. perm_on 0 (length xs) xs ys \<and>
           (h = 1 \<longrightarrow> ordered_on (\<ge>) 0 i xs \<longrightarrow> ordered_on (\<ge>) 0 (length xs) ys))"
      unfolding length_list_update len
      by (rule returns_mono) (simp add: perm_on_trans [OF pm'] so ordered_but_start)
    then show "\<exists>ma. int m = int ma \<and> ma < length zs \<and> length zs = length xs \<and>
       returns (shell_pass (zs[ma := ?tmp]) (int (Suc i)) (int (length xs)) (int h))
         (\<lambda>ys. perm_on 0 (length xs) xs ys \<and>
           (h = 1 \<longrightarrow> ordered_on (\<ge>) 0 i xs \<longrightarrow> ordered_on (\<ge>) 0 (length xs) ys))"
      using m i len by auto
  qed
  then show ?case using i
    by (auto simp: shell_pass.simps [of xs "int i"] idx wp
        simp del: idx_unfold elim!: returns_mono)
qed

lemma shell_outer_returns:
  "returns (shell_outer xs (int (length xs)) (int h))
     (\<lambda>ys. mset ys = mset xs \<and> (0 < h \<and> h \<le> length xs \<longrightarrow> ordered_on (\<ge>) 0 (length xs) ys))"
  if "h \<le> length xs"
  using that
proof (induction h arbitrary: xs rule: less_induct)
  case (less h)
  show ?case
  proof (cases "h = 0")
    case True
    then show ?thesis by (simp add: shell_outer.simps [of xs _ 0])
  next
    case False
    then have h: "0 < h" "h div 2 < h" by simp_all
    have sd: "int h sdiv 2 = int (h div 2)" by (simp add: zdiv_int)
    have "returns (shell_pass xs (int h) (int (length xs)) (int h))
      (\<lambda>ys. perm_on 0 (length xs) xs ys \<and>
         (h = 1 \<longrightarrow> ordered_on (\<ge>) 0 h xs \<longrightarrow> ordered_on (\<ge>) 0 (length xs) ys))"
      using h less.prems by (intro shell_pass_returns) auto
    then have "returns (shell_pass xs (int h) (int (length xs)) (int h))
      (\<lambda>ys. returns (shell_outer ys (int (length xs)) (int (h div 2)))
        (\<lambda>zs. mset zs = mset xs \<and> ordered_on (\<ge>) 0 (length xs) zs))"
    proof (rule returns_mono)
      fix ys assume ys: "perm_on 0 (length xs) xs ys \<and>
         (h = 1 \<longrightarrow> ordered_on (\<ge>) 0 h xs \<longrightarrow> ordered_on (\<ge>) 0 (length xs) ys)"
      then have len: "length ys = length xs" and ms: "mset ys = mset xs"
        by (auto simp: perm_on_def)
      show "returns (shell_outer ys (int (length xs)) (int (h div 2)))
        (\<lambda>zs. mset zs = mset xs \<and> ordered_on (\<ge>) 0 (length xs) zs)"
      proof (cases "h = 1")
        case True
        with ys ms show ?thesis by (simp add: shell_outer.simps [of ys _ 0])
      next
        case False
        with h less.prems have "0 < h div 2" "h div 2 \<le> length ys" by (auto simp: len)
        with less.IH [OF h(2), of ys] show ?thesis
          by (auto simp: len ms elim!: returns_mono)
      qed
    qed
    then show ?thesis using h
      by (auto simp: shell_outer.simps [of xs _ "int h"] wp sd elim!: returns_mono)
  qed
qed

lemma Shellsort_returns:
  "returns (Shellsort xs (int (length xs))) (\<lambda>ys. mset ys = mset xs \<and> sorted (rev ys))"
proof -
  have sd: "int (length xs) sdiv 2 = int (length xs div 2)" by (simp add: zdiv_int)
  have "returns (Shellsort xs (int (length xs))) (\<lambda>ys. mset ys = mset xs \<and>
     (0 < length xs div 2 \<longrightarrow> ordered_on (\<ge>) 0 (length xs) ys))"
    unfolding Shellsort_def sd
    by (rule returns_mono [OF shell_outer_returns]) auto
  then show ?thesis
  proof (rule returns_mono)
    fix ys assume ys: "mset ys = mset xs \<and> (0 < length xs div 2 \<longrightarrow> ordered_on (\<ge>) 0 (length xs) ys)"
    then have len: "length ys = length xs" by (metis mset_eq_length)
    have "ordered_on (\<ge>) 0 (length ys) ys"
    proof (cases "length xs div 2 = 0")
      case True
      then have "length ys \<le> Suc 0" using len by linarith
      then show ?thesis by simp
    qed (use ys len in simp)
    then show "mset ys = mset xs \<and> sorted (rev ys)" using ys by (simp add: desc_on_all)
  qed
qed


section \<open>The contracts hold\<close>

interpretation bubble: sorter Bubblesort fits_int
  by unfold_locales
     (auto simp: fits_int_def intro: returns_mono [OF Bubblesort_returns])

lemma Insertsort_whole:
  "returns (Insertsort xs 0 (int (length xs))) (\<lambda>ys. mset ys = mset xs \<and> sorted ys)"
  using Insertsort_returns [of 0 "length xs" xs]
  by (auto simp: perm_on_def sorted_on_all [symmetric] elim!: returns_mono)

interpretation insertion: sorter "\<lambda>xs. Insertsort xs 0" fits_int
  by unfold_locales
     (auto simp: fits_int_def intro: returns_mono [OF Insertsort_whole])

interpretation shell: desc_sorter Shellsort fits_int
  by unfold_locales
     (auto simp: fits_int_def intro: returns_mono [OF Shellsort_returns])

text \<open>Bubblesort never leaves its array and turns it into the sorted array.\<close>

theorem Bubblesort_correct:
  assumes "fits_int xs"
  shows "Bubblesort xs (int (length xs)) = Some (sort xs)"
  using assms by (rule bubble.srt_eq_sort)

theorem Bubblesort_correct_witness:
  "fits_int [34, 8, 64, 51, 32, 21::int] \<and>
   Bubblesort [34, 8, 64, 51, 32, 21] 6 = Some [8, 21, 32, 34, 51, 64]"
  using Bubblesort_correct [of "[34, 8, 64, 51, 32, 21]"]
  by (simp add: fits_int_def int_limits)

text \<open>
  Insertsort on a pointer into an array (offset \<open>b\<close>, \<open>n\<close> elements, as Quicksort calls
  it) sorts exactly these cells, leaves all others alone and stays inside the array.
\<close>

theorem Insertsort_segment:
  assumes "b + n \<le> length xs"
  shows "\<exists>ys. Insertsort xs (int b) (int n) = Some ys \<and>
    take b ys = take b xs \<and> drop (b + n) ys = drop (b + n) xs \<and>
    take n (drop b ys) = sort (take n (drop b xs))"
proof -
  obtain ys where ys: "Insertsort xs (int b) (int n) = Some ys" "perm_on b (b + n) xs ys"
      "sorted_on b (b + n) ys"
    using Insertsort_returns [OF assms] by (elim returnsE) auto
  have len: "length ys = length xs" using ys(2) by (rule perm_on_length)
  have "take b ys = take b xs" "drop (b + n) ys = drop (b + n) xs"
    using ys(2) assms len by (auto intro!: nth_equalityI simp: perm_on_nth)
  moreover have "sorted (take n (drop b ys))"
    using ys(3) assms len
    by (auto simp: sorted_iff_nth_mono_less ordered_on_def)
  moreover have "mset (take n (drop b ys)) = mset (take n (drop b xs))"
    using perm_on_segment [OF ys(2)] assms by simp
  ultimately show ?thesis using ys(1) by (metis sort_unique)
qed

theorem Insertsort_segment_witness:
  "\<exists>ys. Insertsort [9, 3, 2, 1, 0] 1 3 = Some ys \<and> take 1 ys = [9] \<and> drop 4 ys = [0] \<and>
     take 3 (drop 1 ys) = [1, 2, 3]"
  using Insertsort_segment [of 1 3 "[9, 3, 2, 1, 0]"] by simp

text \<open>
  Shellsort returns for every array and leaves it in descending order; the header comment of
  the source announces ascending order.
\<close>

theorem Shellsort_descending:
  assumes "fits_int xs"
  shows "Shellsort xs (int (length xs)) = Some (rev (sort xs))"
  using assms by (rule shell.srt_eq_rev_sort)

theorem Shellsort_descending_witness:
  "fits_int [34, 8, 64, 51, 32, 21::int] \<and>
   Shellsort [34, 8, 64, 51, 32, 21] 6 = Some [64, 51, 34, 32, 21, 8]"
  using Shellsort_descending [of "[34, 8, 64, 51, 32, 21]"]
  by (simp add: fits_int_def int_limits)

end
