(* ===== verification/CSort_Heap.thy ===== *)
theory CSort_Heap
  imports Sort_Spec
begin

text \<open>
  \<open>Heapsort.c\<close>. The sift-down loop keeps the sifted element in \<open>tmp\<close> and moves a hole from
  parent to child; its invariant speaks of the array with \<open>tmp\<close> in the hole. The macro
  \<open>LeftChild(i)\<close> is \<open>2*(i)+1\<close> in \<open>int\<close> arithmetic, so its value is range-checked
  (\<^const>\<open>cint\<close>): for more than \<open>INT_MAX / 2\<close> elements it can overflow.
\<close>

section \<open>The routines\<close>

definition LeftChild :: "int \<Rightarrow> int option" where
  "LeftChild i = cint (2 * i + 1)"

lemma aset_Some_nonneg: "aset xs i v = Some ys \<Longrightarrow> 0 \<le> i"
  by (simp add: aset_def split: if_splits)

function perceDownMax_loop ::
  "ElementType list \<Rightarrow> ElementType \<Rightarrow> int \<Rightarrow> int \<Rightarrow> (ElementType list \<times> int) option" where
  "perceDownMax_loop ori tmp i len = do {
     lc \<leftarrow> LeftChild i;
     if lc < len then do {
       child \<leftarrow> (if lc < len - 1
                 then do { a \<leftarrow> aget ori lc; b \<leftarrow> aget ori (lc + 1); Some (if a < b then lc + 1 else lc) }
                 else Some lc);
       c \<leftarrow> aget ori child;
       if tmp < c then do {
         ori' \<leftarrow> aset ori i c;
         perceDownMax_loop ori' tmp child len }
       else Some (ori, i) }
     else Some (ori, i) }"
  by pat_completeness auto
termination
  by (relation "measure (\<lambda>(ori, tmp, i, len). nat (len - i))")
     (auto simp: LeftChild_def cint_def dest!: aset_Some_nonneg split: if_splits option.splits Option.bind_splits)

definition perceDownMax :: "ElementType list \<Rightarrow> int \<Rightarrow> int \<Rightarrow> ElementType list option" where
  "perceDownMax ori pos len = do {
     tmp \<leftarrow> aget ori pos;
     (ori', i) \<leftarrow> perceDownMax_loop ori tmp pos len;
     aset ori' i tmp }"

function perceDownMin_loop ::
  "ElementType list \<Rightarrow> ElementType \<Rightarrow> int \<Rightarrow> int \<Rightarrow> (ElementType list \<times> int) option" where
  "perceDownMin_loop ori tmp i len = do {
     lc \<leftarrow> LeftChild i;
     if lc < len then do {
       child \<leftarrow> (if lc < len - 1
                 then do { a \<leftarrow> aget ori lc; b \<leftarrow> aget ori (lc + 1); Some (if a > b then lc + 1 else lc) }
                 else Some lc);
       c \<leftarrow> aget ori child;
       if tmp > c then do {
         ori' \<leftarrow> aset ori i c;
         perceDownMin_loop ori' tmp child len }
       else Some (ori, i) }
     else Some (ori, i) }"
  by pat_completeness auto
termination
  by (relation "measure (\<lambda>(ori, tmp, i, len). nat (len - i))")
     (auto simp: LeftChild_def cint_def dest!: aset_Some_nonneg split: if_splits option.splits Option.bind_splits)

definition perceDownMin :: "ElementType list \<Rightarrow> int \<Rightarrow> int \<Rightarrow> ElementType list option" where
  "perceDownMin ori pos len = do {
     tmp \<leftarrow> aget ori pos;
     (ori', i) \<leftarrow> perceDownMin_loop ori tmp pos len;
     aset ori' i tmp }"

function heap_build :: "ElementType list \<Rightarrow> int \<Rightarrow> int \<Rightarrow> ElementType list option" where
  "heap_build ori i len =
     (if i \<ge> 0 then do {
        ori' \<leftarrow> perceDownMax ori i len;
        heap_build ori' (i - 1) len }
      else Some ori)"
  by pat_completeness auto
termination
  by (relation "measure (\<lambda>(ori, i, len). nat (i + 1))") auto

function heap_extract :: "ElementType list \<Rightarrow> int \<Rightarrow> ElementType list option" where
  "heap_extract ori i =
     (if i > 0 then do {
        tmp \<leftarrow> aget ori 0;
        v \<leftarrow> aget ori i;
        ori1 \<leftarrow> aset ori 0 v;
        ori2 \<leftarrow> aset ori1 i tmp;
        ori3 \<leftarrow> perceDownMax ori2 0 i;
        heap_extract ori3 (i - 1) }
      else Some ori)"
  by pat_completeness auto
termination
  by (relation "measure (\<lambda>(ori, i). nat i)") auto

definition Heapsort :: "ElementType list \<Rightarrow> int \<Rightarrow> ElementType list option" where
  "Heapsort ori len = do {
     ori' \<leftarrow> heap_build ori (len sdiv 2) len;
     heap_extract ori' (len - 1) }"

declare perceDownMax_loop.simps [simp del] perceDownMin_loop.simps [simp del]
  heap_build.simps [simp del] heap_extract.simps [simp del]

section \<open>Heaps with a hole\<close>

definition parent :: "nat \<Rightarrow> nat" where
  "parent c = (c - 1) div 2"

lemma parent_less: "0 < c \<Longrightarrow> parent c < c"
  by (simp add: parent_def)

lemma parent_eq: "0 < c \<Longrightarrow> parent c = h \<longleftrightarrow> c = 2 * h + 1 \<or> c = 2 * h + 2"
  by (auto simp: parent_def)

lemma parent_child [simp]: "parent (Suc (2 * h)) = h" "parent (Suc (Suc (2 * h))) = h"
  by (simp_all add: parent_def)

text \<open>
  \<open>heap_from p n xs\<close>: among the first \<open>n\<close> cells, every node from \<open>p\<close> on is at least as
  large as its children. \<open>heap_but\<close> leaves out the children of the hole \<open>h\<close>, which are
  bounded by the parent of the hole instead.
\<close>

definition heap_from :: "nat \<Rightarrow> nat \<Rightarrow> int list \<Rightarrow> bool" where
  "heap_from p n xs \<longleftrightarrow> (\<forall>c. 0 < c \<and> c < n \<and> p \<le> parent c \<longrightarrow> xs ! c \<le> xs ! parent c)"

definition heap_but :: "nat \<Rightarrow> nat \<Rightarrow> nat \<Rightarrow> int list \<Rightarrow> bool" where
  "heap_but p n h xs \<longleftrightarrow>
     (\<forall>c. 0 < c \<and> c < n \<and> p \<le> parent c \<and> parent c \<noteq> h \<longrightarrow> xs ! c \<le> xs ! parent c) \<and>
     (\<forall>c. 0 < c \<and> c < n \<and> parent c = h \<and> 0 < h \<and> p \<le> parent h \<longrightarrow> xs ! c \<le> xs ! parent h)"

lemma heap_but_start: "heap_from (Suc p) n xs \<Longrightarrow> heap_but p n p xs"
  using parent_less [of p] by (auto simp: heap_from_def heap_but_def)

lemma heap_but_done:
  "heap_but p n h xs \<Longrightarrow> (\<And>c. 0 < c \<Longrightarrow> c < n \<Longrightarrow> parent c = h \<Longrightarrow> xs ! c \<le> xs ! h) \<Longrightarrow>
     heap_from p n xs"
  by (auto simp: heap_from_def heap_but_def)

lemma heap_but_step:
  assumes hb: "heap_but p n h xs" and c: "0 < c" "parent c = h" "c < n" "n \<le> length xs" "p \<le> h"
    and lt: "xs ! h < xs ! c"
    and mx: "\<And>d. 0 < d \<Longrightarrow> d < n \<Longrightarrow> parent d = h \<Longrightarrow> xs ! d \<le> xs ! c"
  shows "heap_but p n c (xs[h := xs ! c, c := xs ! h])"
proof -
  let ?ys = "xs[h := xs ! c, c := xs ! h]"
  have hc: "h < c" using parent_less [OF c(1)] c(2) by simp
  have nth: "?ys ! d = (if d = c then xs ! h else if d = h then xs ! c else xs ! d)"
    if "d < n" for d using that hc c by (simp add: nth_list_update)
  have "?ys ! d \<le> ?ys ! parent d" if d: "0 < d" "d < n" "p \<le> parent d" "parent d \<noteq> c" for d
  proof -
    have pd: "parent d < d" using parent_less d by simp
    consider "d = c" | "d \<noteq> c" "parent d = h" | "d = h" | "d \<noteq> c" "d \<noteq> h" "parent d \<noteq> h"
      by blast
    then show ?thesis
      using d pd hc c lt mx [of d] hb nth [of d] nth [of "parent d"]
      by cases (auto simp: heap_but_def)
  qed
  moreover have "?ys ! d \<le> ?ys ! parent c" if d: "0 < d" "d < n" "parent d = c" for d
  proof -
    have pd: "c < d" using parent_less d by blast
    then have "xs ! d \<le> xs ! c" using hb d c hc by (auto simp: heap_but_def)
    then show ?thesis using nth [of d] nth [of h] pd d hc c by simp
  qed
  ultimately show ?thesis by (auto simp: heap_but_def)
qed

text \<open>In a heap the first cell is the largest.\<close>

lemma heap_max:
  assumes "heap_from 0 n xs"
  shows "c < n \<Longrightarrow> xs ! c \<le> xs ! 0"
proof (induction c rule: less_induct)
  case (less c)
  show ?case
  proof (cases "c = 0")
    case False
    then have "xs ! c \<le> xs ! parent c" using assms less.prems by (simp add: heap_from_def)
    also have "\<dots> \<le> xs ! 0" using less parent_less False by fastforce
    finally show ?thesis .
  qed simp
qed

section \<open>Sifting down\<close>

lemma perceDownMax_loop_returns:
  assumes "p \<le> h" "h < n" "n \<le> length ys" "2 * int n \<le> INT_MAX"
    "xs = ys[h := tmp]" "heap_but p n h xs"
  shows "returns (perceDownMax_loop ys tmp (int h) (int n))
    (\<lambda>(zs, i). \<exists>m. i = int m \<and> m < n \<and> perm_on p n xs (zs[m := tmp]) \<and>
       heap_from p n (zs[m := tmp]))"
  using assms
proof (induction "n - h" arbitrary: h xs ys rule: less_induct)
  case less
  have len: "length xs = length ys" using less.prems(5) by simp
  have lc: "LeftChild (int h) = Some (int (Suc (2 * h)))"
    using less.prems(2,4) by (simp add: LeftChild_def cint_def int_limits)
  show ?case
  proof (cases "Suc (2 * h) < n")
    case False
    then have "heap_from p n xs"
      using less.prems(6) by (intro heap_but_done) (auto simp: parent_eq)
    then show ?thesis using less.prems False
      by (auto simp: perceDownMax_loop.simps [of ys tmp "int h"] lc)
  next
    case True
    define c where "c = (if Suc (Suc (2 * h)) < n \<and> ys ! Suc (2 * h) < ys ! Suc (Suc (2 * h))
      then Suc (Suc (2 * h)) else Suc (2 * h))"
    have c: "0 < c" "parent c = h" "c < n" "h < c" using True by (auto simp: c_def)
    have "xs ! d = ys ! d" if "h < d" for d using that less.prems(5) by simp
    then have mx: "xs ! d \<le> xs ! c" if "0 < d" "d < n" "parent d = h" for d
      using that True by (auto simp: parent_eq c_def)
    have xc: "xs ! c = ys ! c" "xs ! h = tmp" using c less.prems(2,3,5) by simp_all
    have unf: "perceDownMax_loop ys tmp (int h) (int n) =
      (if tmp < ys ! c then perceDownMax_loop (ys[h := ys ! c]) tmp (int c) (int n)
       else Some (ys, int h))"
    proof -
      have "(if int (Suc (2 * h)) < int n - 1
           then do { a \<leftarrow> aget ys (int (Suc (2 * h))); b \<leftarrow> aget ys (int (Suc (2 * h)) + 1);
                     Some (if a < b then int (Suc (2 * h)) + 1 else int (Suc (2 * h))) }
           else Some (int (Suc (2 * h)))) = Some (int c)"
        using True less.prems(3) by (auto simp: c_def idx simp del: idx_unfold)
      then show ?thesis
        using True less.prems(2,3) c(3)
        by (simp add: perceDownMax_loop.simps [of ys tmp "int h"] lc del: idx_unfold)
    qed
    show ?thesis
    proof (cases "tmp < ys ! c")
      case False
      then have "xs ! c \<le> xs ! h" using xc by simp
      then have "heap_from p n xs"
        using less.prems(6) mx by (intro heap_but_done) (auto intro: order_trans)
      then show ?thesis using False less.prems by (auto simp: unf)
    next
      case True
      let ?xs = "xs[h := xs ! c, c := xs ! h]"
      have "heap_but p n c ?xs"
        using less.prems(1,3,6) c mx xc True len by (intro heap_but_step) auto
      moreover have "?xs = (ys[h := ys ! c])[c := tmp]"
        using less.prems(2,3,5) c by (intro hole_down) auto
      ultimately have "returns (perceDownMax_loop (ys[h := ys ! c]) tmp (int c) (int n))
        (\<lambda>(zs, i). \<exists>m. i = int m \<and> m < n \<and> perm_on p n ?xs (zs[m := tmp]) \<and>
           heap_from p n (zs[m := tmp]))"
        using less.prems(1-4) c by (intro less.hyps) auto
      moreover have "perm_on p n xs ?xs"
        using less.prems(1-3) c len by (intro perm_on_swap) auto
      ultimately show ?thesis
        by (auto simp: unf True intro: perm_on_trans elim!: returns_mono)
    qed
  qed
qed

lemma perceDownMax_returns:
  assumes "p < n" "n \<le> length xs" "2 * int n \<le> INT_MAX" "heap_from (Suc p) n xs"
  shows "returns (perceDownMax xs (int p) (int n))
    (\<lambda>ys. perm_on p n xs ys \<and> heap_from p n ys)"
proof -
  let ?tmp = "xs ! p"
  have "returns (perceDownMax_loop xs ?tmp (int p) (int n))
    (\<lambda>(zs, i). \<exists>m. i = int m \<and> m < n \<and> perm_on p n xs (zs[m := ?tmp]) \<and>
       heap_from p n (zs[m := ?tmp]))"
    using assms by (intro perceDownMax_loop_returns) (auto intro: heap_but_start)
  then show ?thesis
    using assms(1,2)
    by (auto simp: perceDownMax_def wp perm_on_def elim!: returns_mono)
qed


section \<open>Heapsort is correct\<close>

lemma heap_build_returns:
  assumes "p < length xs" "2 * int (length xs) \<le> INT_MAX" "heap_from (Suc p) (length xs) xs"
  shows "returns (heap_build xs (int p) (int (length xs)))
    (\<lambda>ys. perm_on 0 (length xs) xs ys \<and> heap_from 0 (length xs) ys)"
  using assms
proof (induction p arbitrary: xs)
  case 0
  then have "returns (perceDownMax xs 0 (int (length xs)))
      (\<lambda>ys. perm_on 0 (length xs) xs ys \<and> heap_from 0 (length xs) ys)"
    using perceDownMax_returns [of 0 "length xs" xs] by simp
  then show ?case
    by (auto simp: heap_build.simps [of xs 0] heap_build.simps [of _ "- 1"] wp)
next
  case (Suc p)
  have "returns (perceDownMax xs (int (Suc p)) (int (length xs)))
      (\<lambda>ys. perm_on (Suc p) (length xs) xs ys \<and> heap_from (Suc p) (length xs) ys)"
    using Suc.prems by (intro perceDownMax_returns) auto
  then have "returns (perceDownMax xs (int (Suc p)) (int (length xs)))
      (\<lambda>ys. returns (heap_build ys (int p) (int (length xs)))
        (\<lambda>zs. perm_on 0 (length xs) xs zs \<and> heap_from 0 (length xs) zs))"
  proof (rule returns_mono)
    fix ys assume ys: "perm_on (Suc p) (length xs) xs ys \<and> heap_from (Suc p) (length xs) ys"
    then have len: "length ys = length xs" by (simp add: perm_on_def)
    have pm: "perm_on 0 (length xs) xs ys" using ys by (auto intro: perm_on_widen)
    have "returns (heap_build ys (int p) (int (length ys)))
        (\<lambda>zs. perm_on 0 (length ys) ys zs \<and> heap_from 0 (length ys) zs)"
      using Suc.prems ys len by (intro Suc.IH) auto
    then show "returns (heap_build ys (int p) (int (length xs)))
        (\<lambda>zs. perm_on 0 (length xs) xs zs \<and> heap_from 0 (length xs) zs)"
      unfolding len by (rule returns_mono) (use perm_on_trans [OF pm] in blast)
  qed
  then show ?case
    by (simp add: heap_build.simps [of xs "int (Suc p)"] wp idx del: idx_unfold)
qed

text \<open>
  The extraction loop: cells up to \<open>i\<close> form a heap, the cells above are sorted and no smaller
  than the heap.
\<close>

lemma heap_extract_returns:
  assumes "i < length xs" "2 * int (length xs) \<le> INT_MAX" "heap_from 0 (Suc i) xs"
    "sorted_on (Suc i) (length xs) xs"
    "\<And>k l. k \<le> i \<Longrightarrow> i < l \<Longrightarrow> l < length xs \<Longrightarrow> xs ! k \<le> xs ! l"
  shows "returns (heap_extract xs (int i)) (\<lambda>ys. mset ys = mset xs \<and> sorted ys)"
  using assms
proof (induction i arbitrary: xs)
  case 0
  then have "sorted_on 0 (length xs) xs"
    by (auto simp: ordered_on_def) (metis Suc_leI gr0I)
  then show ?case by (simp add: heap_extract.simps [of xs] sorted_on_all)
next
  case (Suc i)
  let ?xs = "xs[0 := xs ! Suc i, Suc i := xs ! 0]"
  have pm: "perm_on 0 (Suc (Suc i)) xs ?xs"
    using Suc.prems(1) by (intro perm_on_swap) auto
  have "heap_from (Suc 0) (Suc i) ?xs"
    unfolding heap_from_def
  proof (intro allI impI, elim conjE)
    fix c assume c: "0 < c" "c < Suc i" "Suc 0 \<le> parent c"
    with parent_less [OF c(1)] Suc.prems(3) have "xs ! c \<le> xs ! parent c"
      by (simp add: heap_from_def)
    then show "?xs ! c \<le> ?xs ! parent c"
      using c parent_less [OF c(1)] by (simp add: nth_list_update)
  qed
  then have "returns (perceDownMax ?xs 0 (int (Suc i)))
      (\<lambda>ys. perm_on 0 (Suc i) ?xs ys \<and> heap_from 0 (Suc i) ys)"
    using perceDownMax_returns [of 0 "Suc i" ?xs] Suc.prems(1,2) by simp
  then have "returns (perceDownMax ?xs 0 (int (Suc i)))
      (\<lambda>ys. returns (heap_extract ys (int i)) (\<lambda>zs. mset zs = mset xs \<and> sorted zs))"
  proof (rule returns_mono)
    fix ys assume ys: "perm_on 0 (Suc i) ?xs ys \<and> heap_from 0 (Suc i) ys"
    then have py: "perm_on 0 (Suc (Suc i)) xs ys"
      using perm_on_trans [OF pm] perm_on_widen [of 0 "Suc i" ?xs ys 0 "Suc (Suc i)"] by simp
    have len: "length ys = length xs" using py by (rule perm_on_length)
    have top: "ys ! Suc i = xs ! 0"
      using ys Suc.prems(1) perm_on_nth [of 0 "Suc i" ?xs ys "Suc i"] by simp
    have max: "ys ! k \<le> xs ! 0" if "k \<le> Suc i" for k
      using perm_on_all [OF py, of "\<lambda>v. v \<le> xs ! 0" k] heap_max [OF Suc.prems(3)] that Suc.prems(1)
      by simp
    have upper: "ys ! k \<le> ys ! l" if "k \<le> Suc i" "Suc i < l" "l < length xs" for k l
      using perm_on_all [OF py, of "\<lambda>v. v \<le> xs ! l" k] that Suc.prems(1,5) py
      by (auto simp: perm_on_nth)
    have "sorted_on (Suc (Suc i)) (length xs) ys"
      using Suc.prems(4) py by (auto simp: perm_on_nth intro: ordered_on_cong [rotated])
    then have "sorted_on (Suc i) (length ys) ys"
      using upper [of "Suc i"] by (auto simp: ordered_on_def len) (metis Suc_leI le_neq_implies_less)
    moreover have "ys ! k \<le> ys ! l" if "k \<le> i" "i < l" "l < length ys" for k l
      using upper [of k l] max [of k] top that len by (cases "l = Suc i") auto
    ultimately have "returns (heap_extract ys (int i)) (\<lambda>zs. mset zs = mset ys \<and> sorted zs)"
      using ys Suc.prems(1,2) len by (intro Suc.IH) auto
    then show "returns (heap_extract ys (int i)) (\<lambda>zs. mset zs = mset xs \<and> sorted zs)"
      using perm_on_mset [OF py] by simp
  qed
  then show ?case using Suc.prems(1)
    by (auto simp: heap_extract.simps [of xs "int (Suc i)"] wp idx simp del: idx_unfold)
qed

lemma Heapsort_returns:
  assumes "xs \<noteq> []" "fits_half xs"
  shows "returns (Heapsort xs (int (length xs))) (\<lambda>ys. mset ys = mset xs \<and> sorted ys)"
proof -
  have sd: "int (length xs) sdiv 2 = int (length xs div 2)" by (simp add: zdiv_int)
  have lim: "2 * int (length xs) \<le> INT_MAX" using assms(2) by (simp add: fits_half_def)
  have "heap_from (Suc (length xs div 2)) (length xs) xs"
    by (auto simp: heap_from_def parent_def)
  then have "returns (heap_build xs (int (length xs div 2)) (int (length xs)))
    (\<lambda>ys. perm_on 0 (length xs) xs ys \<and> heap_from 0 (length xs) ys)"
    using assms(1) lim by (intro heap_build_returns) auto
  then have "returns (heap_build xs (int (length xs div 2)) (int (length xs)))
    (\<lambda>ys. returns (heap_extract ys (int (length xs) - 1)) (\<lambda>ys. mset ys = mset xs \<and> sorted ys))"
  proof (rule returns_mono)
    fix ys assume ys: "perm_on 0 (length xs) xs ys \<and> heap_from 0 (length xs) ys"
    then have len: "length ys = length xs" and ms: "mset ys = mset xs"
      by (auto simp: perm_on_def)
    show "returns (heap_extract ys (int (length xs) - 1)) (\<lambda>ys. mset ys = mset xs \<and> sorted ys)"
      using heap_extract_returns [of "length xs - 1" ys] ys assms(1) lim len ms
      by (simp add: idx del: idx_unfold)
  qed
  then show ?thesis by (simp add: Heapsort_def sd wp)
qed

interpretation heap: sorter Heapsort "\<lambda>xs. xs \<noteq> [] \<and> fits_half xs"
  by unfold_locales
     (auto simp: fits_half_def intro: returns_mono [OF Heapsort_returns])

section \<open>The minimum variant\<close>

text \<open>
  \<open>perceDownMin\<close> is \<open>perceDownMax\<close> on the negated array, so it restores a minimum heap.
\<close>

lemma aget_uminus: "aget (map uminus xs) i = map_option uminus (aget xs i)"
  by (auto simp: aget_def)

lemma aset_uminus: "aset (map uminus xs) i (- v) = map_option (map uminus) (aset xs i v)"
  by (simp add: aset_def map_update)

lemma perceDownMin_loop_uminus:
  "perceDownMax_loop (map uminus ori) (- tmp) i len =
     map_option (\<lambda>(zs, j). (map uminus zs, j)) (perceDownMin_loop ori tmp i len)"
proof (induction ori tmp i len rule: perceDownMin_loop.induct)
  case (1 ori tmp i len)
  show ?case
    apply (subst perceDownMax_loop.simps, subst perceDownMin_loop.simps)
    using "1.IH"
    by (auto simp: aget_uminus aset_uminus split: option.splits Option.bind_splits if_splits)
qed


lemma perceDownMin_uminus:
  "perceDownMax (map uminus ori) pos len = map_option (map uminus) (perceDownMin ori pos len)"
  by (cases "aget ori pos"; cases "perceDownMin_loop ori (the (aget ori pos)) pos len")
     (auto simp: perceDownMax_def perceDownMin_def aget_uminus perceDownMin_loop_uminus aset_uminus)

definition min_heap_from :: "nat \<Rightarrow> nat \<Rightarrow> int list \<Rightarrow> bool" where
  "min_heap_from p n xs \<longleftrightarrow> (\<forall>c. 0 < c \<and> c < n \<and> p \<le> parent c \<longrightarrow> xs ! parent c \<le> xs ! c)"

lemma heap_from_uminus:
  assumes "n \<le> length xs"
  shows "heap_from p n (map uminus xs) = min_heap_from p n xs"
proof -
  have "map uminus xs ! c \<le> map uminus xs ! parent c \<longleftrightarrow> xs ! parent c \<le> xs ! c"
    if "0 < c" "c < n" for c
    using that assms parent_less [of c] by simp
  then show ?thesis unfolding heap_from_def min_heap_from_def by blast
qed

lemma perm_on_uminus: "perm_on p n (map uminus xs) (map uminus ys) = perm_on p n xs (ys :: int list)"
proof -
  have "image_mset uminus (image_mset uminus M) = M" for M :: "int multiset"
    by (simp add: multiset.map_comp comp_def)
  then have "image_mset uminus (mset ys) = image_mset uminus (mset xs) \<longleftrightarrow> mset ys = mset xs"
    by metis
  then show ?thesis by (auto simp: perm_on_def)
qed

section \<open>Properties\<close>

text \<open>
  C10: Heapsort turns a nonempty array into the sorted array, without leaving it and without
  overflow in the child index, for up to half of \<open>INT_MAX\<close> elements.
\<close>

theorem Heapsort_correct:
  assumes "xs \<noteq> []" "fits_half xs"
  shows "Heapsort xs (int (length xs)) = Some (sort xs)"
  using assms by (intro heap.srt_eq_sort) simp

theorem Heapsort_correct_witness:
  "Heapsort [31, 41, 59, 26, 53, 58, 97] 7 = Some [26, 31, 41, 53, 58, 59, 97]"
  using Heapsort_correct [of "[31, 41, 59, 26, 53, 58, 97]"]
  by (simp add: fits_half_def int_limits)

text \<open>
  On an array of no elements Heapsort reads and writes \<open>ori[0]\<close>: the loop that builds the
  heap runs for \<open>i = 0\<close>, so the call is undefined (the other routines return).
\<close>

theorem Heapsort_empty_undefined: "Heapsort [] 0 = None \<and> Heapsort [] (- 1) = None"
  by (simp add: Heapsort_def heap_build.simps [of "[]"] perceDownMax_def aget_def
      signed_divide_int_def)

text \<open>
  \<open>perceDownMin\<close> restores a minimum heap: if every node after \<open>p\<close> is no larger than its
  children, then afterwards \<open>p\<close> is too, and only cells \<open>p, \<dots>, n - 1\<close> were rearranged.
\<close>

theorem perceDownMin_restores:
  assumes "p < n" "n \<le> length xs" "2 * int n \<le> INT_MAX" "min_heap_from (Suc p) n xs"
  shows "\<exists>ys. perceDownMin xs (int p) (int n) = Some ys \<and> perm_on p n xs ys \<and> min_heap_from p n ys"
proof -
  have "returns (perceDownMax (map uminus xs) (int p) (int n))
    (\<lambda>ys. perm_on p n (map uminus xs) ys \<and> heap_from p n ys)"
    using assms by (intro perceDownMax_returns) (auto simp: heap_from_uminus)
  then have "returns (perceDownMin xs (int p) (int n))
    (\<lambda>ys. perm_on p n xs ys \<and> heap_from p n (map uminus ys))"
    by (simp add: perceDownMin_uminus wp perm_on_uminus)
  then show ?thesis
    using assms(2) by (auto simp: returns_def heap_from_uminus perm_on_length)
qed

theorem perceDownMin_restores_witness:
  "\<exists>ys. perceDownMin [9, 2, 3] 0 3 = Some ys \<and> perm_on 0 3 [9, 2, 3] ys \<and> min_heap_from 0 3 ys"
proof -
  have "min_heap_from (Suc 0) 3 [9, 2, 3::int]"
    by (auto simp: min_heap_from_def parent_def)
  then show ?thesis
    using perceDownMin_restores [of 0 3 "[9, 2, 3]"] by (simp add: int_limits)
qed

end
