(* ===== verification/CSort_Merge.thy ===== *)
theory CSort_Merge
  imports Sort_Spec
begin

text \<open>
  \<open>Mergesort.c\<close>. \<open>Merge\<close> fills the scratch array \<open>tmpA\<close> with three loops and copies it back;
  the model follows the loops and is proved equal to a merge of lists (\<open>merge_lists\<close>), which
  takes the right element when two are equal, as the test \<open>ori[left] < ori[right]\<close> does. The
  middle index \<open>(left + right)/2\<close> is computed in \<open>int\<close> and range-checked. What \<open>malloc\<close>
  returns is a parameter of \<open>Mergesort\<close>: \<^term>\<open>None\<close> for NULL, or a block of the requested
  size with any contents.
\<close>

section \<open>The routines\<close>

function merge_pick ::
  "ElementType list \<Rightarrow> ElementType list \<Rightarrow> int \<Rightarrow> int \<Rightarrow> int \<Rightarrow> int \<Rightarrow> int \<Rightarrow>
     (ElementType list \<times> int \<times> int \<times> int) option" where
  "merge_pick ori tmpA cnt left leftEnd right rightEnd =
     (if left \<le> leftEnd \<and> right \<le> rightEnd then do {
        a \<leftarrow> aget ori left;
        b \<leftarrow> aget ori right;
        if a < b then do {
          v \<leftarrow> aget ori left;
          tmpA' \<leftarrow> aset tmpA cnt v;
          merge_pick ori tmpA' (cnt + 1) (left + 1) leftEnd right rightEnd }
        else do {
          v \<leftarrow> aget ori right;
          tmpA' \<leftarrow> aset tmpA cnt v;
          merge_pick ori tmpA' (cnt + 1) left leftEnd (right + 1) rightEnd } }
      else Some (tmpA, cnt, left, right))"
  by pat_completeness auto
termination
  by (relation "measure (\<lambda>(ori, tmpA, cnt, left, leftEnd, right, rightEnd).
        nat (leftEnd - left + 1) + nat (rightEnd - right + 1))") auto

text \<open>The second and the third loop: copy the rest of one run to \<open>tmpA\<close>.\<close>

function merge_rest ::
  "ElementType list \<Rightarrow> ElementType list \<Rightarrow> int \<Rightarrow> int \<Rightarrow> int \<Rightarrow> (ElementType list \<times> int) option" where
  "merge_rest ori tmpA cnt pos posEnd =
     (if pos \<le> posEnd then do {
        v \<leftarrow> aget ori pos;
        tmpA' \<leftarrow> aset tmpA cnt v;
        merge_rest ori tmpA' (cnt + 1) (pos + 1) posEnd }
      else Some (tmpA, cnt))"
  by pat_completeness auto
termination
  by (relation "measure (\<lambda>(ori, tmpA, cnt, pos, posEnd). nat (posEnd - pos + 1))") auto

function merge_back ::
  "ElementType list \<Rightarrow> ElementType list \<Rightarrow> int \<Rightarrow> int \<Rightarrow> ElementType list option" where
  "merge_back ori tmpA j rightEnd =
     (if j \<ge> 0 then do {
        v \<leftarrow> aget tmpA j;
        ori' \<leftarrow> aset ori rightEnd v;
        merge_back ori' tmpA (j - 1) (rightEnd - 1) }
      else Some ori)"
  by pat_completeness auto
termination
  by (relation "measure (\<lambda>(ori, tmpA, j, rightEnd). nat (j + 1))") auto

definition Merge ::
  "ElementType list \<Rightarrow> ElementType list \<Rightarrow> int \<Rightarrow> int \<Rightarrow> int \<Rightarrow>
     (ElementType list \<times> ElementType list) option" where
  "Merge ori tmpA left right rightEnd = do {
     let leftEnd = right - 1;
     (tmp1, count1, left1, right1) \<leftarrow> merge_pick ori tmpA 0 left leftEnd right rightEnd;
     (tmp2, count2) \<leftarrow> merge_rest ori tmp1 count1 left1 leftEnd;
     (tmp3, count3) \<leftarrow> merge_rest ori tmp2 count2 right1 rightEnd;
     ori' \<leftarrow> merge_back ori tmp3 (count3 - 1) rightEnd;
     Some (ori', tmp3) }"

text \<open>
  \<open>Mergesort\<close> calls \<open>Msort\<close> with \<open>left = 0\<close>. With a negative \<open>left\<close> the truncating division
  can give \<open>centor = right\<close> and the recursion of the source does not end: undefined.
\<close>

function Msort ::
  "ElementType list \<Rightarrow> ElementType list \<Rightarrow> int \<Rightarrow> int \<Rightarrow> (ElementType list \<times> ElementType list) option" where
  "Msort ori tmpA left right =
     (if left < right then if left < 0 then None else do {
        s \<leftarrow> cint (left + right);
        let centor = s sdiv 2;
        (ori1, tmp1) \<leftarrow> Msort ori tmpA left centor;
        (ori2, tmp2) \<leftarrow> Msort ori1 tmp1 (centor + 1) right;
        Merge ori2 tmp2 left (centor + 1) right }
      else Some (ori, tmpA))"
  by pat_completeness auto
termination
  by (relation "measure (\<lambda>(ori, tmpA, left, right). nat (right - left))")
     (auto simp: cint_def split: if_splits)

definition Mergesort ::
  "ElementType list option \<Rightarrow> ElementType list \<Rightarrow> int \<Rightarrow> ElementType list option" where
  "Mergesort malloc_result ori len =
     (case malloc_result of
        Some tmpA \<Rightarrow> map_option fst (Msort ori tmpA 0 (len - 1))
      | None \<Rightarrow> Some ori)"

declare merge_pick.simps [simp del] merge_rest.simps [simp del] merge_back.simps [simp del]
  Msort.simps [simp del]


section \<open>Merge is a merge of lists\<close>

fun merge_lists :: "int list \<Rightarrow> int list \<Rightarrow> int list" where
  "merge_lists [] ys = ys"
| "merge_lists xs [] = xs"
| "merge_lists (x # xs) (y # ys) =
     (if x < y then x # merge_lists xs (y # ys) else y # merge_lists (x # xs) ys)"

lemma merge_lists_Nil2 [simp]: "merge_lists xs [] = xs"
  by (cases xs) auto

lemma mset_merge_lists: "mset (merge_lists xs ys) = mset xs + mset ys"
  by (induction xs ys rule: merge_lists.induct) auto

lemma length_merge_lists [simp]: "length (merge_lists xs ys) = length xs + length ys"
  by (induction xs ys rule: merge_lists.induct) auto

lemma set_merge_lists: "set (merge_lists xs ys) = set xs \<union> set ys"
  by (induction xs ys rule: merge_lists.induct) auto

lemma sorted_merge_lists: "sorted xs \<Longrightarrow> sorted ys \<Longrightarrow> sorted (merge_lists xs ys)"
  by (induction xs ys rule: merge_lists.induct) (auto simp: set_merge_lists)

text \<open>\<open>slice l r xs\<close>: the cells \<open>l, \<dots>, r - 1\<close>.\<close>

definition slice :: "nat \<Rightarrow> nat \<Rightarrow> 'a list \<Rightarrow> 'a list" where
  "slice l r xs = take (r - l) (drop l xs)"

lemma slice_Nil [simp]: "r \<le> l \<Longrightarrow> slice l r xs = []"
  by (simp add: slice_def)

lemma slice_Cons: "l < r \<Longrightarrow> r \<le> length xs \<Longrightarrow> slice l r xs = xs ! l # slice (Suc l) r xs"
  by (simp add: slice_def Cons_nth_drop_Suc [symmetric] take_Cons')

lemma length_slice [simp]: "r \<le> length xs \<Longrightarrow> length (slice l r xs) = r - l"
  by (simp add: slice_def)

lemma take_Suc_update: "c < length xs \<Longrightarrow> take (Suc c) (xs[c := v]) = take c xs @ [v]"
  by (simp add: take_Suc_conv_app_nth)

lemma merge_rest_returns:
  assumes "p \<le> e" "e \<le> length xs" "c + (e - p) \<le> length ts"
  shows "returns (merge_rest xs ts (int c) (int p) (int e - 1))
    (\<lambda>(us, c'). c' = int (c + (e - p)) \<and> length us = length ts \<and>
       take (c + (e - p)) us = take c ts @ slice p e xs)"
  using assms
proof (induction "e - p" arbitrary: p c ts)
  case 0
  then show ?case by (simp add: merge_rest.simps [of xs ts])
next
  case (Suc d)
  have p: "p < e" using Suc.hyps(2) by simp
  have "returns (merge_rest xs (ts[c := xs ! p]) (int (Suc c)) (int (Suc p)) (int e - 1))
    (\<lambda>(us, c'). c' = int (Suc c + (e - Suc p)) \<and> length us = length (ts[c := xs ! p]) \<and>
       take (Suc c + (e - Suc p)) us = take (Suc c) (ts[c := xs ! p]) @ slice (Suc p) e xs)"
    using Suc.hyps(2) Suc.prems p by (intro Suc.hyps(1)) auto
  moreover have "take (Suc c) (ts[c := xs ! p]) @ slice (Suc p) e xs = take c ts @ slice p e xs"
    using p Suc.prems by (simp add: take_Suc_update slice_Cons)
  moreover have "Suc c + (e - Suc p) = c + (e - p)" "int p \<le> int e - 1" using p by simp_all
  ultimately show ?case
    using p Suc.prems
    by (simp add: merge_rest.simps [of xs ts "int c" "int p"] int_succ del: idx_unfold)
qed

text \<open>All three loops together.\<close>

lemma merge_fill_returns:
  assumes "l \<le> le" "le \<le> length xs" "r \<le> re" "re \<le> length xs"
    "c + (le - l) + (re - r) \<le> length ts"
  shows "returns (do {
       (t1, c1, l1, r1) \<leftarrow> merge_pick xs ts (int c) (int l) (int le - 1) (int r) (int re - 1);
       (t2, c2) \<leftarrow> merge_rest xs t1 c1 l1 (int le - 1);
       merge_rest xs t2 c2 r1 (int re - 1) })
    (\<lambda>(us, c'). c' = int (c + (le - l) + (re - r)) \<and> length us = length ts \<and>
       take (c + (le - l) + (re - r)) us = take c ts @ merge_lists (slice l le xs) (slice r re xs))"
  using assms
proof (induction "(le - l) + (re - r)" arbitrary: l r c ts rule: less_induct)
  case less
  show ?case
  proof (cases "l < le \<and> r < re")
    case False
    have "merge_pick xs ts (int c) (int l) (int le - 1) (int r) (int re - 1)
        = Some (ts, int c, int l, int r)"
      using False by (auto simp: merge_pick.simps [of xs ts])
    moreover have "returns (merge_rest xs ts (int c) (int l) (int le - 1))
       (\<lambda>(us, c'). c' = int (c + (le - l)) \<and> length us = length ts \<and>
          take (c + (le - l)) us = take c ts @ slice l le xs)"
      using less.prems by (intro merge_rest_returns) auto
    then have "returns (merge_rest xs ts (int c) (int l) (int le - 1))
       (\<lambda>(t2, c2). returns (merge_rest xs t2 c2 (int r) (int re - 1))
         (\<lambda>(us, c'). c' = int (c + (le - l) + (re - r)) \<and> length us = length ts \<and>
           take (c + (le - l) + (re - r)) us = take c ts @ merge_lists (slice l le xs) (slice r re xs)))"
    proof (rule returns_mono, clarify)
      fix t2 assume t2: "length t2 = length ts" "take (c + (le - l)) t2 = take c ts @ slice l le xs"
      have "returns (merge_rest xs t2 (int (c + (le - l))) (int r) (int re - 1))
        (\<lambda>(us, c'). c' = int (c + (le - l) + (re - r)) \<and> length us = length t2 \<and>
           take (c + (le - l) + (re - r)) us = take (c + (le - l)) t2 @ slice r re xs)"
        using less.prems t2 by (intro merge_rest_returns) auto
      then show "returns (merge_rest xs t2 (int (c + (le - l))) (int r) (int re - 1))
         (\<lambda>(us, c'). c' = int (c + (le - l) + (re - r)) \<and> length us = length ts \<and>
           take (c + (le - l) + (re - r)) us = take c ts @ merge_lists (slice l le xs) (slice r re xs))"
        using t2 False by (auto elim!: returns_mono)
    qed
    ultimately show ?thesis by (simp add: wp case_prod_unfold)
  next
    case True
    define b where "b = (xs ! l < xs ! r)"
    define l' r' v where "l' = (if b then Suc l else l)" and "r' = (if b then r else Suc r)"
      and "v = (if b then xs ! l else xs ! r)"
    have len: "(le - l') + (re - r') < (le - l) + (re - r)" "l' \<le> le" "r' \<le> re"
       "Suc c + (le - l') + (re - r') = c + (le - l) + (re - r)"
      using True by (auto simp: l'_def r'_def)
    have unf: "merge_pick xs ts (int c) (int l) (int le - 1) (int r) (int re - 1)
        = merge_pick xs (ts[c := v]) (int (Suc c)) (int l') (int le - 1) (int r') (int re - 1)"
    proof -
      have "int l \<le> int le - 1" "int r \<le> int re - 1" "c < length ts" using True less.prems by auto
      then show ?thesis using True less.prems
        by (simp add: merge_pick.simps [of xs ts "int c" "int l" _ "int r"]
            b_def l'_def r'_def v_def int_succ del: idx_unfold)
    qed
    have mg: "take (Suc c) (ts[c := v]) @ merge_lists (slice l' le xs) (slice r' re xs)
        = take c ts @ merge_lists (slice l le xs) (slice r re xs)"
    proof -
      have "c < length ts" using True less.prems by auto
      then show ?thesis using True less.prems
        by (simp add: take_Suc_update slice_Cons [of l] slice_Cons [of r] b_def l'_def r'_def v_def)
    qed
    show ?thesis
      unfolding unf using less.hyps [OF len(1), of "Suc c" "ts[c := v]"] less.prems len
      by (simp add: mg del: idx_unfold)
  qed
qed


lemma merge_back_returns:
  assumes "length vs \<le> length ts" "take (length vs) ts = vs" "length vs \<le> e" "e \<le> length xs"
  shows "returns (merge_back xs ts (int (length vs) - 1) (int e - 1))
    (\<lambda>ys. ys = take (e - length vs) xs @ vs @ drop e xs)"
  using assms
proof (induction vs arbitrary: xs e rule: rev_induct)
  case Nil
  then show ?case by (simp add: merge_back.simps [of xs])
next
  case (snoc v vs)
  have v: "ts ! length vs = v" "length vs < length ts" "take (length vs) ts = vs"
    using snoc.prems(1,2) nth_take [of "length vs" "Suc (length vs)" ts]
    by (auto simp: take_Suc_conv_app_nth)
  obtain e' where e': "e = Suc e'" using snoc.prems by (cases e) auto
  have "returns (merge_back (xs[e' := v]) ts (int (length vs) - 1) (int e' - 1))
    (\<lambda>ys. ys = take (e' - length vs) (xs[e' := v]) @ vs @ drop e' (xs[e' := v]))"
    using snoc.prems v e' by (intro snoc.IH) auto
  moreover have "drop e' (xs[e' := v]) = v # drop e xs"
    using snoc.prems e' by (simp add: Cons_nth_drop_Suc [symmetric])
  ultimately show ?case
    using v snoc.prems e' by (simp add: merge_back.simps [of xs ts "int (length vs)"])
qed

lemma Merge_returns:
  assumes "l \<le> m" "m \<le> e" "e \<le> length xs" "e - l \<le> length ts"
  shows "returns (Merge xs ts (int l) (int m) (int e - 1))
    (\<lambda>(ys, us). length us = length ts \<and>
       ys = take l xs @ merge_lists (slice l m xs) (slice m e xs) @ drop e xs)"
proof -
  let ?vs = "merge_lists (slice l m xs) (slice m e xs)"
  have len: "length ?vs = e - l" using assms by simp
  have "returns (do {
       (t1, c1, l1, r1) \<leftarrow> merge_pick xs ts (int 0) (int l) (int m - 1) (int m) (int e - 1);
       (t2, c2) \<leftarrow> merge_rest xs t1 c1 l1 (int m - 1);
       merge_rest xs t2 c2 r1 (int e - 1) })
    (\<lambda>(us, c'). c' = int (0 + (m - l) + (e - m)) \<and> length us = length ts \<and>
       take (0 + (m - l) + (e - m)) us = take 0 ts @ ?vs)"
    using assms by (intro merge_fill_returns) auto
  moreover have "returns (merge_back xs us (int (e - l) - 1) (int e - 1))
      (\<lambda>ys. ys = take l xs @ ?vs @ drop e xs)"
    if "length us = length ts" "take (e - l) us = ?vs" for us
    using merge_back_returns [of ?vs us e xs] that assms len by simp
  ultimately show ?thesis
    using assms by (auto simp: Merge_def Let_def wp case_prod_unfold elim!: returns_mono)
qed

text \<open>\<open>sort_slice l e xs\<close>: the array with the cells \<open>l, \<dots>, e - 1\<close> sorted.\<close>

definition sort_slice :: "nat \<Rightarrow> nat \<Rightarrow> int list \<Rightarrow> int list" where
  "sort_slice l e xs = take l xs @ sort (slice l e xs) @ drop e xs"

lemma length_sort_slice [simp]: "l \<le> e \<Longrightarrow> e \<le> length xs \<Longrightarrow> length (sort_slice l e xs) = length xs"
  by (simp add: sort_slice_def slice_def)

lemma sort_slice_small: "e \<le> Suc l \<Longrightarrow> l \<le> e \<Longrightarrow> e \<le> length xs \<Longrightarrow> sort_slice l e xs = xs"
proof -
  assume a: "e \<le> Suc l" "l \<le> e" "e \<le> length xs"
  then have "length (slice l e xs) \<le> 1" by simp
  then have "sort (slice l e xs) = slice l e xs" by (cases "slice l e xs") auto
  then show ?thesis
    using a append_take_drop_id [of "e - l" "drop l xs"] by (simp add: sort_slice_def slice_def)
qed

lemma merge_sort_lists: "merge_lists (sort xs) (sort ys) = sort (xs @ ys)"
  by (rule sort_unique) (simp_all add: mset_merge_lists sorted_merge_lists)

lemma sort_slice_merge:
  assumes "l \<le> m" "m \<le> e" "e \<le> length xs"
  defines "ys \<equiv> sort_slice m e (sort_slice l m xs)"
  shows "take l ys @ merge_lists (slice l m ys) (slice m e ys) @ drop e ys = sort_slice l e xs"
proof -
  obtain a b c d where xs: "xs = a @ b @ c @ d" "length a = l" "length b = m - l" "length c = e - m"
  proof
    show "xs = take l xs @ slice l m xs @ slice m e xs @ drop e xs"
      using assms(1,2) append_take_drop_id [of "m - l" "drop l xs"]
        append_take_drop_id [of "e - m" "drop m xs"] by (simp add: slice_def)
  qed (use assms in simp_all)
  have "sort_slice l m xs = a @ sort b @ c @ d"
    using assms(1) xs by (simp add: sort_slice_def slice_def)
  then have "ys = a @ sort b @ sort c @ d"
    using assms(1,2) xs by (simp add: ys_def sort_slice_def slice_def)
  then show ?thesis
    using assms(1,2) xs by (simp add: sort_slice_def slice_def merge_sort_lists)
qed

text \<open>\<open>Msort\<close> sorts its segment.\<close>

lemma Msort_returns:
  assumes "l \<le> e" "e \<le> length xs" "e - l \<le> length ts" "2 * int (length xs) \<le> INT_MAX"
  shows "returns (Msort xs ts (int l) (int e - 1))
    (\<lambda>(ys, us). length us = length ts \<and> ys = sort_slice l e xs)"
  using assms
proof (induction "e - l" arbitrary: l e xs ts rule: less_induct)
  case less
  show ?case
  proof (cases "Suc l < e")
    case False
    then show ?thesis using less.prems
      by (auto simp: Msort.simps [of xs] sort_slice_small)
  next
    case True
    define m where "m = Suc ((l + (e - 1)) div 2)"
    have m: "l < m" "m < e" using True by (auto simp: m_def)
    have cen: "(int l + (int e - 1)) sdiv 2 = int m - 1"
      using True by (auto simp: m_def zdiv_int of_nat_diff)
    have ci: "cint (int l + (int e - 1)) = Some (int l + (int e - 1))"
      using less.prems(1,2,4) by (simp add: cint_def int_limits)
    let ?xs1 = "sort_slice l m xs"
    let ?xs2 = "sort_slice m e ?xs1"
    have s1: "returns (Msort xs ts (int l) (int m - 1))
       (\<lambda>(ys, us). length us = length ts \<and> ys = ?xs1)"
      using m less.prems by (intro less.hyps) auto
    have s2: "returns (Msort ?xs1 us (int m) (int e - 1))
       (\<lambda>(ys, us'). length us' = length us \<and> ys = ?xs2)" if "length us = length ts" for us
      using m less.prems that by (intro less.hyps) auto
    have s3: "returns (Merge ?xs2 us (int l) (int m) (int e - 1))
       (\<lambda>(ys, us'). length us' = length us \<and> ys = sort_slice l e xs)"
      if "length us = length ts" for us
      using Merge_returns [of l m e ?xs2 us] sort_slice_merge [of l m e xs] m less.prems that
      by simp
    have s23: "returns (Msort ?xs1 us (int m) (int e - 1)) (\<lambda>(o2, t2).
          returns (Merge o2 t2 (int l) (int m) (int e - 1))
            (\<lambda>(ys, us). length us = length ts \<and> ys = sort_slice l e xs))"
      if "length us = length ts" for us
      by (rule returns_mono [OF s2 [OF that]]) (use s3 that in auto)
    have "returns (Msort xs ts (int l) (int m - 1)) (\<lambda>(o1, t1).
        returns (Msort o1 t1 (int m) (int e - 1)) (\<lambda>(o2, t2).
          returns (Merge o2 t2 (int l) (int m) (int e - 1))
            (\<lambda>(ys, us). length us = length ts \<and> ys = sort_slice l e xs)))"
      using s23 by (intro returns_mono [OF s1]) auto
    then show ?thesis using True
      by (simp add: Msort.simps [of xs ts "int l" "int e - 1"] Let_def ci cen wp case_prod_unfold)
  qed
qed

lemma Mergesort_returns:
  assumes "length buf = length xs" "fits_half xs"
  shows "Mergesort (Some buf) xs (int (length xs)) = Some (sort xs)"
proof -
  have "returns (Msort xs buf (int 0) (int (length xs) - 1))
    (\<lambda>(ys, us). length us = length buf \<and> ys = sort_slice 0 (length xs) xs)"
    using assms by (intro Msort_returns) (auto simp: fits_half_def)
  then show ?thesis
    by (auto simp: returns_def Mergesort_def sort_slice_def slice_def)
qed

interpretation merge: sorter "\<lambda>xs len. Mergesort (Some (replicate (nat len) v)) xs len" fits_half for v
  by unfold_locales (auto simp: Mergesort_returns fits_half_def)

section \<open>Properties\<close>

text \<open>
  Merge equals the merge of the two runs as lists, written back over the cells of both;
  everything outside them is kept.
\<close>

theorem Merge_refines:
  assumes "l \<le> m" "m \<le> e" "e \<le> length xs" "e - l \<le> length tmpA"
  shows "\<exists>us. Merge xs tmpA (int l) (int m) (int e - 1) =
    Some (take l xs @ merge_lists (slice l m xs) (slice m e xs) @ drop e xs, us)"
  using Merge_returns [OF assms] by (auto simp: returns_def)

theorem Merge_refines_witness:
  "\<exists>us. Merge [9, 1, 4, 2, 3] [0, 0, 0, 0] 1 3 4 = Some ([9, 1, 2, 3, 4], us)"
  using Merge_refines [of 1 3 5 "[9, 1, 4, 2, 3]" "[0, 0, 0, 0]"] by (simp add: slice_def)

text \<open>
  C4: With a scratch block of the requested size, whatever it holds, Mergesort turns the array
  into the sorted array, for up to half of \<open>INT_MAX\<close> elements; when \<open>malloc\<close> fails the array
  is left as it is.
\<close>

theorem Mergesort_correct:
  assumes "length buf = length xs" "fits_half xs"
  shows "Mergesort (Some buf) xs (int (length xs)) = Some (sort xs) \<and>
    Mergesort None xs (int (length xs)) = Some xs"
  using assms by (simp add: Mergesort_returns) (simp add: Mergesort_def)

theorem Mergesort_correct_witness:
  "Mergesort (Some [7, 7, 7, 7]) [24, 13, 26, 1] 4 = Some [1, 13, 24, 26]"
  using Mergesort_correct [of "[7, 7, 7, 7]" "[24, 13, 26, 1]"]
  by (simp add: fits_half_def int_limits)

text \<open>
  The middle index overflows for large arrays: with more than half of \<open>INT_MAX\<close> elements
  the right half of the recursion computes \<open>left + right\<close> beyond \<open>INT_MAX\<close>.
\<close>

theorem Msort_middle_overflow:
  assumes "left < right" "0 \<le> left" "INT_MAX < left + right"
  shows "Msort ori tmpA left right = None"
  using assms by (simp add: Msort.simps [of ori] cint_def)

theorem Msort_middle_overflow_witness: "Msort [] [] 1073741824 2147483646 = None"
  using Msort_middle_overflow [of 1073741824 2147483646 "[]" "[]"] by (simp add: int_limits)

end
