(* ===== verification/CSort_Quick.thy ===== *)
theory CSort_Quick
  imports CSort_Insert
begin

text \<open>
  \<open>Quicksort.c\<close> and \<open>Bucketsort.c\<close>. The scanning loops of \<open>Qsort\<close> have no bound of their own:
  they stop at sentinels that \<open>median3\<close> puts at both ends, so in-range accesses and the end
  of the recursion rest on what \<open>median3\<close> and the partition loop leave in the array.
\<close>

section \<open>Quicksort\<close>

definition swap :: "ElementType list \<Rightarrow> int \<Rightarrow> int \<Rightarrow> ElementType list option" where
  "swap ori a b = do {
     tmp \<leftarrow> aget ori a;
     v \<leftarrow> aget ori b;
     ori1 \<leftarrow> aset ori a v;
     aset ori1 b tmp }"

definition median3 :: "ElementType list \<Rightarrow> int \<Rightarrow> int \<Rightarrow> (ElementType list \<times> ElementType) option" where
  "median3 ori left right = do {
     s \<leftarrow> cint (left + right);
     let centor = s sdiv 2;
     c1 \<leftarrow> aget ori centor;
     l1 \<leftarrow> aget ori left;
     ori1 \<leftarrow> (if c1 < l1 then swap ori left right else Some ori);
     r2 \<leftarrow> aget ori1 right;
     c2 \<leftarrow> aget ori1 centor;
     ori2 \<leftarrow> (if r2 < c2 then swap ori1 right centor else Some ori1);
     c3 \<leftarrow> aget ori2 centor;
     l3 \<leftarrow> aget ori2 left;
     ori3 \<leftarrow> (if c3 < l3 then swap ori2 centor left else Some ori2);
     ori4 \<leftarrow> swap ori3 centor (right - 1);
     p \<leftarrow> aget ori4 (right - 1);
     Some (ori4, p) }"

lemma aget_SomeD: "aget xs i = Some v \<Longrightarrow> 0 \<le> i \<and> i < int (length xs) \<and> v = xs ! nat i"
  by (auto simp: aget_def split: if_splits)

lemma aset_SomeD: "aset xs i v = Some ys \<Longrightarrow> 0 \<le> i \<and> i < int (length xs) \<and> ys = xs[nat i := v]"
  by (auto simp: aset_def split: if_splits)

text \<open>\<open>while(ori[++i] < pivot);\<close> and \<open>while(ori[--j] > pivot);\<close>\<close>

function scan_up :: "ElementType list \<Rightarrow> ElementType \<Rightarrow> int \<Rightarrow> int option" where
  "scan_up ori pivot i = do {
     v \<leftarrow> aget ori (i + 1);
     if v < pivot then scan_up ori pivot (i + 1) else Some (i + 1) }"
  by pat_completeness auto
termination
  by (relation "measure (\<lambda>(ori, pivot, i). nat (int (length ori) - i))") (auto dest: aget_SomeD)

function scan_down :: "ElementType list \<Rightarrow> ElementType \<Rightarrow> int \<Rightarrow> int option" where
  "scan_down ori pivot j = do {
     v \<leftarrow> aget ori (j - 1);
     if v > pivot then scan_down ori pivot (j - 1) else Some (j - 1) }"
  by pat_completeness auto
termination
  by (relation "measure (\<lambda>(ori, pivot, j). nat j)") (auto dest: aget_SomeD)

declare scan_up.simps [simp del] scan_down.simps [simp del]

lemma scan_up_Some:
  "scan_up ori pivot i = Some i' \<Longrightarrow>
     i < i' \<and> 0 \<le> i' \<and> i' < int (length ori) \<and> pivot \<le> ori ! nat i' \<and>
     (\<forall>k. i < k \<and> k < i' \<longrightarrow> 0 \<le> k \<and> ori ! nat k < pivot)"
proof (induction ori pivot i rule: scan_up.induct)
  case (1 ori pivot i)
  obtain v where v: "aget ori (i + 1) = Some v"
    using "1.prems" by (cases "aget ori (i + 1)") (auto simp: scan_up.simps [of ori pivot i])
  note vD = aget_SomeD [OF v]
  show ?case
  proof (cases "v < pivot")
    case True
    with "1.prems" v have "scan_up ori pivot (i + 1) = Some i'"
      by (simp add: scan_up.simps [of ori pivot i])
    from "1.IH" [OF v True this] show ?thesis
      using vD True by (auto simp: not_less) (metis add1_zle_eq order_le_less)+
  next
    case False
    with "1.prems" v have "i' = i + 1" by (simp add: scan_up.simps [of ori pivot i])
    with vD False show ?thesis by auto
  qed
qed

lemma scan_down_Some:
  "scan_down ori pivot j = Some j' \<Longrightarrow>
     j' < j \<and> 0 \<le> j' \<and> j' < int (length ori) \<and> ori ! nat j' \<le> pivot \<and>
     (\<forall>k. j' < k \<and> k < j \<longrightarrow> k < int (length ori) \<and> pivot < ori ! nat k)"
proof (induction ori pivot j rule: scan_down.induct)
  case (1 ori pivot j)
  obtain v where v: "aget ori (j - 1) = Some v"
    using "1.prems" by (cases "aget ori (j - 1)") (auto simp: scan_down.simps [of ori pivot j])
  note vD = aget_SomeD [OF v]
  show ?case
  proof (cases "v > pivot")
    case True
    with "1.prems" v have "scan_down ori pivot (j - 1) = Some j'"
      by (simp add: scan_down.simps [of ori pivot j])
    from "1.IH" [OF v True this] show ?thesis
      using vD True by (auto simp: not_less) (metis int_one_le_iff_zero_less order_le_less zle_diff1_eq)+
  next
    case False
    with "1.prems" v have "j' = j - 1" by (simp add: scan_down.simps [of ori pivot j])
    with vD False show ?thesis by auto
  qed
qed

function partition ::
  "ElementType list \<Rightarrow> ElementType \<Rightarrow> int \<Rightarrow> int \<Rightarrow> (ElementType list \<times> int) option" where
  "partition ori pivot i j = do {
     i' \<leftarrow> scan_up ori pivot i;
     j' \<leftarrow> scan_down ori pivot j;
     if i' < j' then do {
       ori' \<leftarrow> swap ori i' j';
       partition ori' pivot i' j' }
     else Some (ori, i') }"
  by pat_completeness auto
termination
  by (relation "measure (\<lambda>(ori, pivot, i, j). nat j)") (auto dest: scan_down_Some)

declare partition.simps [simp del]

lemma swap_eq:
  "swap ori a b =
     (if 0 \<le> a \<and> a < int (length ori) \<and> 0 \<le> b \<and> b < int (length ori)
      then Some (ori[nat a := ori ! nat b, nat b := ori ! nat a]) else None)"
  by (auto simp: swap_def aget_def aset_def)

lemma returns_swap [wp]:
  "returns (swap ori a b) P \<longleftrightarrow>
     0 \<le> a \<and> a < int (length ori) \<and> 0 \<le> b \<and> b < int (length ori) \<and>
     P (ori[nat a := ori ! nat b, nat b := ori ! nat a])"
  by (auto simp: swap_eq)


lemma partition_Some:
  assumes "partition ori pivot i j = Some (ori', i')" "0 \<le> i" "i < e" "j \<le> e"
    "e < int (length ori)" "pivot \<le> ori ! nat e"
  shows "i < i' \<and> i' \<le> e \<and> perm_on (Suc (nat i)) (nat j) ori ori' \<and>
    (\<forall>k. i < k \<and> k < i' \<longrightarrow> ori' ! nat k \<le> pivot) \<and>
    (\<forall>k. i' \<le> k \<and> k < j \<longrightarrow> pivot \<le> ori' ! nat k)"
  using assms
proof (induction ori pivot i j arbitrary: ori' i' rule: partition.induct)
  case (1 ori pivot i j)
  obtain i1 where i1: "scan_up ori pivot i = Some i1"
    using "1.prems"(1) by (cases "scan_up ori pivot i") (auto simp: partition.simps [of ori])
  obtain j1 where j1: "scan_down ori pivot j = Some j1"
    using "1.prems"(1) i1 by (cases "scan_down ori pivot j") (auto simp: partition.simps [of ori])
  note iD = scan_up_Some [OF i1] and jD = scan_down_Some [OF j1]
  have i1e: "i1 \<le> e" using iD "1.prems"(3,6) by (metis not_less)
  show ?case
  proof (cases "i1 < j1")
    case False
    with "1.prems"(1) i1 j1 have eq: "ori' = ori" "i' = i1" by (auto simp: partition.simps [of ori])
    have "pivot \<le> ori ! nat k" if "i1 \<le> k" "k < j" for k
      using iD jD that False by (cases "k = i1") (auto simp: less_imp_le)
    then show ?thesis using eq iD i1e by (auto simp: less_imp_le)
  next
    case True
    define ori1 where "ori1 = ori[nat i1 := ori ! nat j1, nat j1 := ori ! nat i1]"
    have sw: "swap ori i1 j1 = Some ori1" using iD jD by (simp add: swap_eq ori1_def)
    have rec: "partition ori1 pivot i1 j1 = Some (ori', i')"
      using "1.prems"(1) i1 j1 True sw by (simp add: partition.simps [of ori pivot i j])
    have len: "length ori1 = length ori" by (simp add: ori1_def)
    have e1: "ori1 ! nat e = ori ! nat e"
      using True jD "1.prems"(4) iD by (simp add: ori1_def nat_eq_iff)
    have IH: "i1 < i' \<and> i' \<le> e \<and> perm_on (Suc (nat i1)) (nat j1) ori1 ori' \<and>
      (\<forall>k. i1 < k \<and> k < i' \<longrightarrow> ori' ! nat k \<le> pivot) \<and>
      (\<forall>k. i' \<le> k \<and> k < j1 \<longrightarrow> pivot \<le> ori' ! nat k)"
      using "1.IH" [OF i1 j1 True sw rec] "1.prems" True iD jD len e1 by simp
    have p1: "perm_on (Suc (nat i)) (nat j) ori ori1"
      unfolding ori1_def using iD jD True "1.prems"(2) by (intro perm_on_swap) auto
    from IH have p: "perm_on (Suc (nat i1)) (nat j1) ori1 ori'" by simp
    have p2: "perm_on (Suc (nat i)) (nat j) ori1 ori'"
      by (rule perm_on_widen [OF p]) (use iD jD in auto)
    have out: "ori' ! nat k = ori1 ! nat k" if "0 \<le> k" "k < int (length ori)" "k \<le> i1 \<or> j1 \<le> k" for k
      by (rule perm_on_nth [OF p]) (use that len iD in auto)
    have low: "ori' ! nat k \<le> pivot" if "i < k" "k \<le> i1" for k
      using that out [of k] iD jD True "1.prems"(2)
      by (cases "k = i1") (auto simp: ori1_def nth_list_update nat_eq_iff less_imp_le)
    have high: "pivot \<le> ori' ! nat k" if "j1 \<le> k" "k < j" for k
      using that out [of k] iD jD True "1.prems"(4,5)
      by (cases "k = j1") (auto simp: ori1_def nth_list_update nat_eq_iff less_imp_le)
    show ?thesis
      using IH low high iD perm_on_trans [OF p1 p2] by (metis not_le order.strict_trans)
  qed
qed

lemma scan_up_returns:
  "pivot \<le> ori ! nat e \<Longrightarrow> i < e \<Longrightarrow> 0 \<le> i + 1 \<Longrightarrow> e < int (length ori) \<Longrightarrow>
     \<exists>i'. scan_up ori pivot i = Some i'"
proof (induction ori pivot i rule: scan_up.induct)
  case (1 ori pivot i)
  let ?v = "ori ! nat (i + 1)"
  have v: "aget ori (i + 1) = Some ?v" using "1.prems" by (simp add: aget_def)
  show ?case
  proof (cases "?v < pivot")
    case True
    with "1.prems" have "i + 1 < e" by (metis not_le zless_add1_eq order_le_less add1_zle_eq)
    with "1.IH" [OF v True] "1.prems" True v show ?thesis
      by (simp add: scan_up.simps [of ori pivot i])
  qed (simp add: scan_up.simps [of ori pivot i] v)
qed

lemma scan_down_returns:
  "ori ! nat e \<le> pivot \<Longrightarrow> e < j \<Longrightarrow> 0 \<le> e \<Longrightarrow> j \<le> int (length ori) \<Longrightarrow>
     \<exists>j'. scan_down ori pivot j = Some j' \<and> e \<le> j'"
proof (induction ori pivot j rule: scan_down.induct)
  case (1 ori pivot j)
  let ?v = "ori ! nat (j - 1)"
  have v: "aget ori (j - 1) = Some ?v" using "1.prems" by (simp add: aget_def)
  show ?case
  proof (cases "?v > pivot")
    case True
    with "1.prems" have "e < j - 1" by (metis not_le zle_diff1_eq order_le_less)
    with "1.IH" [OF v True] "1.prems" True v show ?thesis
      by (simp add: scan_down.simps [of ori pivot j])
  qed (use "1.prems" in \<open>simp add: scan_down.simps [of ori pivot j] v\<close>)
qed

lemma partition_returns:
  assumes "0 \<le> i" "i < j" "j \<le> e" "e < int (length ori)" "ori ! nat i \<le> pivot" "pivot \<le> ori ! nat e"
  shows "\<exists>r. partition ori pivot i j = Some r"
  using assms
proof (induction ori pivot i j rule: partition.induct)
  case (1 ori pivot i j)
  obtain i1 where i1: "scan_up ori pivot i = Some i1"
    using scan_up_returns [of pivot ori e i] "1.prems" by auto
  obtain j1 where j1: "scan_down ori pivot j = Some j1"
    using scan_down_returns [of ori i pivot j] "1.prems" by auto
  note iD = scan_up_Some [OF i1] and jD = scan_down_Some [OF j1]
  show ?case
  proof (cases "i1 < j1")
    case True
    define ori1 where "ori1 = ori[nat i1 := ori ! nat j1, nat j1 := ori ! nat i1]"
    have sw: "swap ori i1 j1 = Some ori1" using iD jD by (simp add: swap_eq ori1_def)
    have "ori1 ! nat e = ori ! nat e" "ori1 ! nat i1 = ori ! nat j1"
      using True iD jD "1.prems"(3) by (auto simp: ori1_def nat_eq_iff nth_list_update)
    then have "\<exists>r. partition ori1 pivot i1 j1 = Some r"
      using "1.prems" iD jD True by (intro "1.IH" [OF i1 j1 True sw]) (auto simp: ori1_def)
    then show ?thesis using i1 j1 True sw by (simp add: partition.simps [of ori pivot i j])
  qed (simp add: partition.simps [of ori pivot i j] i1 j1)
qed


text \<open>
  \<open>median3\<close> on \<open>l, \<dots>, r\<close>: the pivot lies in cell \<open>r - 1\<close> and cell \<open>l\<close> is no larger. Cell
  \<open>r\<close> is no smaller than the pivot exactly unless \<open>ori[centor] < ori[left] < ori[right]\<close>:
  the first exchange of the source swaps \<open>left\<close> with \<open>right\<close>, not with \<open>centor\<close>.
\<close>

lemma median3_returns:
  assumes "l + 3 \<le> r" "r < length xs" "2 * int (length xs) \<le> INT_MAX"
  shows "returns (median3 xs (int l) (int r)) (\<lambda>(ys, p).
    perm_on l (Suc r) xs ys \<and> ys ! (r - 1) = p \<and> ys ! l \<le> p \<and>
    (p \<le> ys ! r \<longleftrightarrow> \<not> (xs ! ((l + r) div 2) < xs ! l \<and> xs ! l < xs ! r)))"
proof -
  define c where "c = (l + r) div 2"
  have c: "l < c" "c < r - 1" "(int l + int r) sdiv 2 = int c" using assms(1)
    by (auto simp: c_def zdiv_int)
  have ci: "cint (int l + int r) = Some (int l + int r)"
    using assms by (simp add: cint_def int_limits)
  have r1: "int r - 1 = int (r - 1)" using assms(1) by simp
  have sw: "swap ys (int a) (int b) = Some (ys[a := ys ! b, b := ys ! a])"
    if "a < length ys" "b < length ys" for a b and ys :: "int list"
    using that by (simp add: swap_eq)
  define xs1 where "xs1 = (if xs ! c < xs ! l then xs[l := xs ! r, r := xs ! l] else xs)"
  define xs2 where "xs2 = (if xs1 ! r < xs1 ! c then xs1[r := xs1 ! c, c := xs1 ! r] else xs1)"
  define xs3 where "xs3 = (if xs2 ! c < xs2 ! l then xs2[c := xs2 ! l, l := xs2 ! c] else xs2)"
  define xs4 where "xs4 = xs3[c := xs3 ! (r - 1), r - 1 := xs3 ! c]"
  have len: "length xs1 = length xs" "length xs2 = length xs" "length xs3 = length xs"
    "length xs4 = length xs"
    by (simp_all add: xs1_def xs2_def xs3_def xs4_def)
  have lt: "l < length xs" "c < length xs" "r - 1 < length xs" using assms(1,2) c by auto
  have st: "(if xs ! c < xs ! l then swap xs (int l) (int r) else Some xs) = Some xs1"
    "(if xs1 ! r < xs1 ! c then swap xs1 (int r) (int c) else Some xs1) = Some xs2"
    "(if xs2 ! c < xs2 ! l then swap xs2 (int c) (int l) else Some xs2) = Some xs3"
    "swap xs3 (int c) (int (r - Suc 0)) = Some xs4"
    using lt assms(2) len by (simp_all add: xs1_def xs2_def xs3_def xs4_def sw del: idx_unfold)
  have m: "median3 xs (int l) (int r) = Some (xs4, xs4 ! (r - 1))"
    using lt assms(2) len by (simp add: median3_def ci Let_def c(3) r1 st
        del: idx_unfold split del: if_split cong: if_cong)
  have sw_if: "perm_on l (Suc r) ys (if b then ys[i := ys ! j, j := ys ! i] else ys)"
    if "length ys = length xs" "i \<in> {l, c, r}" "j \<in> {l, c, r}" for ys :: "int list" and b i j
    using that assms(1,2) c by (auto intro: perm_on_swap)
  have "perm_on l (Suc r) xs xs1" unfolding xs1_def by (rule sw_if) auto
  moreover have "perm_on l (Suc r) xs1 xs2" unfolding xs2_def by (rule sw_if) (use len in auto)
  moreover have "perm_on l (Suc r) xs2 xs3" unfolding xs3_def by (rule sw_if) (use len in auto)
  moreover have "perm_on l (Suc r) xs3 xs4"
    unfolding xs4_def using assms(1,2) c len by (intro perm_on_swap) auto
  ultimately have "perm_on l (Suc r) xs xs4" by (blast intro: perm_on_trans)
  moreover have "xs4 ! l \<le> xs4 ! (r - 1)"
    "xs4 ! (r - 1) \<le> xs4 ! r \<longleftrightarrow> \<not> (xs ! c < xs ! l \<and> xs ! l < xs ! r)"
  proof -
    have ne: "l \<noteq> c" "l \<noteq> r" "c \<noteq> r" "l \<noteq> r - 1" "c \<noteq> r - 1" "r - 1 \<noteq> r"
      and lt: "l < length xs" "c < length xs" "r < length xs" "r - 1 < length xs"
      using assms(1,2) c by auto
    have 1: "xs1 ! l = (if xs ! c < xs ! l then xs ! r else xs ! l)" "xs1 ! c = xs ! c"
      "xs1 ! r = (if xs ! c < xs ! l then xs ! l else xs ! r)"
      using ne lt by (simp_all add: xs1_def)
    have 2: "xs2 ! l = xs1 ! l" "xs2 ! c = min (xs1 ! c) (xs1 ! r)" "xs2 ! r = max (xs1 ! c) (xs1 ! r)"
      using ne lt len by (simp_all add: xs2_def)
    have 3: "xs3 ! l = min (xs2 ! c) (xs2 ! l)" "xs3 ! c = max (xs2 ! c) (xs2 ! l)" "xs3 ! r = xs2 ! r"
      using ne lt len by (simp_all add: xs3_def)
    have 4: "xs4 ! l = xs3 ! l" "xs4 ! (r - 1) = xs3 ! c" "xs4 ! r = xs3 ! r"
      using ne lt len by (simp_all add: xs4_def)
    show "xs4 ! l \<le> xs4 ! (r - 1)" unfolding 3 4 by simp
    show "xs4 ! (r - 1) \<le> xs4 ! r \<longleftrightarrow> \<not> (xs ! c < xs ! l \<and> xs ! l < xs ! r)"
      unfolding 1 2 3 4 by auto
  qed
  ultimately show ?thesis by (simp add: m c_def)
qed

lemma median3_pivot:
  "median3 ori left right = Some (ori', p) \<Longrightarrow>
     0 \<le> right - 1 \<and> right - 1 < int (length ori') \<and> ori' ! nat (right - 1) = p"
  by (auto simp: median3_def Let_def split: Option.bind_splits if_splits dest!: aget_SomeD)

lemma median3_left: "median3 ori left right = Some (ori', p) \<Longrightarrow> 0 \<le> left"
  by (auto simp: median3_def Let_def split: Option.bind_splits if_splits dest!: aget_SomeD)

function Qsort :: "ElementType list \<Rightarrow> int \<Rightarrow> int \<Rightarrow> ElementType list option" where
  "Qsort ori left right = do {
     lim \<leftarrow> cint (left + 3);
     if lim \<le> right then do {
       (ori1, pivot) \<leftarrow> median3 ori left right;
       (ori2, i) \<leftarrow> partition ori1 pivot left (right - 1);
       ori3 \<leftarrow> swap ori2 i (right - 1);
       ori4 \<leftarrow> Qsort ori3 left (i - 1);
       Qsort ori4 (i + 1) right }
     else Insertsort ori left (right - left + 1) }"
  by pat_completeness auto
termination
proof (relation "measure (\<lambda>(ori, left, right). nat (right - left + 1))", goal_cases)
  case (2 ori left right lim x ori1 pivot y ori2 i ori3)
  then have "left < i \<and> i \<le> right - 1"
    using median3_pivot [of ori left right ori1 pivot] median3_left [of ori left right ori1 pivot]
      partition_Some [of ori1 pivot left "right - 1" ori2 i "right - 1"]
    by (auto simp: cint_def split: if_splits)
  with 2 show ?case by simp
next
  case (3 ori left right lim x ori1 pivot y ori2 i ori3 ori4)
  then have "left < i \<and> i \<le> right - 1"
    using median3_pivot [of ori left right ori1 pivot] median3_left [of ori left right ori1 pivot]
      partition_Some [of ori1 pivot left "right - 1" ori2 i "right - 1"]
    by (auto simp: cint_def split: if_splits)
  with 3 show ?case by simp
qed simp

definition Quicksort :: "ElementType list \<Rightarrow> int \<Rightarrow> ElementType list option" where
  "Quicksort ori len = Qsort ori 0 (len - 1)"

declare Qsort.simps [simp del]


section \<open>Quicksort stays inside the array and permutes it\<close>

lemma Qsort_step:
  assumes "l + 3 \<le> r" "r < length xs" "2 * int (length xs) \<le> INT_MAX"
  shows "returns (do {
       (o1, p) \<leftarrow> median3 xs (int l) (int r);
       (o2, i) \<leftarrow> partition o1 p (int l) (int r - 1);
       o3 \<leftarrow> swap o2 i (int r - 1);
       Some (o3, i, p) })
    (\<lambda>(ys, i, p). \<exists>m. i = int m \<and> l < m \<and> m < r \<and> perm_on l (Suc r) xs ys \<and> ys ! m = p \<and>
       (\<forall>k. l \<le> k \<and> k < m \<longrightarrow> ys ! k \<le> p) \<and> (\<forall>k. m \<le> k \<and> k < r \<longrightarrow> p \<le> ys ! k) \<and>
       (p \<le> ys ! r \<longleftrightarrow> \<not> (xs ! ((l + r) div 2) < xs ! l \<and> xs ! l < xs ! r)))"
proof -
  obtain o1 p where m3: "median3 xs (int l) (int r) = Some (o1, p)" "perm_on l (Suc r) xs o1"
      "o1 ! (r - 1) = p" "o1 ! l \<le> p"
      "p \<le> o1 ! r \<longleftrightarrow> \<not> (xs ! ((l + r) div 2) < xs ! l \<and> xs ! l < xs ! r)"
    using median3_returns [OF assms] by (elim returnsE) auto
  have len1: "length o1 = length xs" using m3(2) by (rule perm_on_length)
  have nr: "nat (int r - 1) = r - 1" "0 < r" using assms(1) by auto
  obtain o2 i where pt: "partition o1 p (int l) (int r - 1) = Some (o2, i)"
    using partition_returns [of "int l" "int r - 1" "int r - 1" o1 p] m3 assms len1 nr
    by (auto simp: of_nat_diff)
  have ps: "int l < i \<and> i \<le> int r - 1 \<and> perm_on (Suc l) (r - 1) o1 o2 \<and>
    (\<forall>k. int l < k \<and> k < i \<longrightarrow> o2 ! nat k \<le> p) \<and> (\<forall>k. i \<le> k \<and> k < int r - 1 \<longrightarrow> p \<le> o2 ! nat k)"
    using partition_Some [OF pt, of "int r - 1"] m3 assms len1 nr by simp
  define m where "m = nat i"
  have m: "i = int m" "l < m" "m < r" using ps by (auto simp: m_def)
  have p2: "perm_on (Suc l) (r - 1) o1 o2" using ps by simp
  have len2: "length o2 = length xs" using perm_on_length [OF p2] len1 by simp
  define ys where "ys = o2[m := o2 ! (r - 1), r - 1 := o2 ! m]"
  have sw: "swap o2 i (int r - 1) = Some ys"
    using m assms(2) len2 nr by (simp add: swap_eq ys_def)
  have o2: "o2 ! l = o1 ! l" "o2 ! (r - 1) = p" "o2 ! r = o1 ! r"
    using perm_on_nth [OF p2] m3(3) assms len1 by auto
  have "perm_on l (Suc r) o1 o2" by (rule perm_on_widen [OF p2]) (use assms in auto)
  moreover have "perm_on l (Suc r) o2 ys"
    unfolding ys_def using m assms(2) len2 by (intro perm_on_swap) auto
  ultimately have perm: "perm_on l (Suc r) xs ys"
    using m3(2) by (blast intro: perm_on_trans)
  have low: "ys ! k \<le> p" if "l \<le> k" "k < m" for k
    using that m o2 m3(4) ps [THEN conjunct2, THEN conjunct2, THEN conjunct2, THEN conjunct1, rule_format, of "int k"]
      assms(1) len2 by (cases "k = l") (auto simp: ys_def nth_list_update)
  have high: "p \<le> ys ! k" if "m \<le> k" "k < r" for k
  proof -
    have h: "p \<le> o2 ! k'" if "m \<le> k'" "k' < r - 1" for k'
      using that ps [THEN conjunct2, THEN conjunct2, THEN conjunct2, THEN conjunct2, rule_format, of "int k'"] m
      by auto
    then have "p \<le> o2 ! m" using m o2(2) by (cases "m = r - 1") auto
    with h [of k] that o2(2) m assms(2) len2 show ?thesis
      by (auto simp: ys_def nth_list_update)
  qed
  have "ys ! m = p" "ys ! r = o1 ! r"
    using m assms(2) len2 o2 by (auto simp: ys_def nth_list_update)
  moreover have run: "do {
       (o1, p) \<leftarrow> median3 xs (int l) (int r);
       (o2, i) \<leftarrow> partition o1 p (int l) (int r - 1);
       o3 \<leftarrow> swap o2 i (int r - 1);
       Some (o3, i, p) } = Some (ys, i, p)" by (simp add: m3(1) pt sw)
  ultimately show ?thesis
    unfolding run using m perm low high m3(5) by auto
qed


lemma Qsort_returns:
  assumes "l \<le> e" "e \<le> length xs" "2 * int (length xs) \<le> INT_MAX"
  shows "returns (Qsort xs (int l) (int e - 1)) (\<lambda>ys. perm_on l e xs ys)"
  using assms
proof (induction "e - l" arbitrary: l e xs rule: less_induct)
  case less
  have lim: "cint (int l + 3) = Some (int l + 3)"
    using less.prems by (simp add: cint_def int_limits)
  show ?case
  proof (cases "l + 3 \<le> e - 1")
    case False
    have n: "int e - 1 - int l + 1 = int (e - l)" using less.prems(1) by simp
    have "returns (Insertsort xs (int l) (int (e - l)))
      (\<lambda>ys. perm_on l (l + (e - l)) xs ys \<and> sorted_on l (l + (e - l)) ys)"
      using less.prems by (intro Insertsort_returns) auto
    then have "returns (Insertsort xs (int l) (int (e - l))) (\<lambda>ys. perm_on l e xs ys)"
      by (rule returns_mono) (use less.prems(1) in simp)
    moreover have "\<not> int l + 3 \<le> int e - 1" using False by linarith
    ultimately show ?thesis by (simp add: Qsort.simps [of xs] lim n del: idx_unfold)
  next
    case True
    define r where "r = e - 1"
    have r: "int e - 1 = int r" "Suc r = e" "l + 3 \<le> r" "r < length xs"
      using True less.prems by (auto simp: r_def)
    have "returns (do {
       (o1, p) \<leftarrow> median3 xs (int l) (int r);
       (o2, i) \<leftarrow> partition o1 p (int l) (int r - 1);
       o3 \<leftarrow> swap o2 i (int r - 1);
       Some (o3, i, p) })
      (\<lambda>(ys, i, p). returns (Qsort ys (int l) (i - 1)) (\<lambda>zs.
         returns (Qsort zs (i + 1) (int r)) (\<lambda>zs. perm_on l e xs zs)))"
    proof (rule returns_mono [OF Qsort_step [OF r(3,4) less.prems(3)]], clarify)
      fix ys i p m
      assume m: "l < m" "m < r" and pm: "perm_on l (Suc r) xs ys"
      have pm: "perm_on l e xs ys" using pm r by simp
      have len: "length ys = length xs" using pm by (rule perm_on_length)
      have "returns (Qsort ys (int l) (int m - 1)) (\<lambda>zs. perm_on l m ys zs)"
        using m r less.prems len by (intro less.hyps) auto
      then show "returns (Qsort ys (int l) (int m - 1)) (\<lambda>zs.
         returns (Qsort zs (int m + 1) (int r)) (\<lambda>zs. perm_on l e xs zs))"
      proof (rule returns_mono)
        fix zs assume "perm_on l m ys zs"
        then have pz: "perm_on l e ys zs" by (rule perm_on_widen) (use m r in auto)
        have lz: "length zs = length xs" using perm_on_length [OF pz] len by simp
        have "returns (Qsort zs (int (Suc m)) (int e - 1)) (\<lambda>ws. perm_on (Suc m) e zs ws)"
          using m r less.prems lz by (intro less.hyps) auto
        then have "returns (Qsort zs (int m + 1) (int r)) (\<lambda>ws. perm_on (Suc m) e zs ws)"
          by (simp add: r(1) int_succ del: idx_unfold)
        then show "returns (Qsort zs (int m + 1) (int r)) (\<lambda>zs. perm_on l e xs zs)"
        proof (rule returns_mono)
          fix ws assume "perm_on (Suc m) e zs ws"
          then have "perm_on l e zs ws" by (rule perm_on_widen) (use m in auto)
          with pm pz show "perm_on l e xs ws" by (blast intro: perm_on_trans)
        qed
      qed
    qed
    then show ?thesis
      using r(3) by (simp add: Qsort.simps [of xs "int l" "int r"] r(1) lim wp case_prod_unfold)
  qed
qed

lemma Quicksort_returns:
  assumes "fits_half xs"
  shows "returns (Quicksort xs (int (length xs))) (\<lambda>ys. mset ys = mset xs)"
  using Qsort_returns [of 0 "length xs" xs] assms
  by (auto simp: Quicksort_def fits_half_def perm_on_def elim!: returns_mono)

interpretation quick: permuter Quicksort fits_half
  by unfold_locales (auto simp: fits_half_def intro: Quicksort_returns)

section \<open>Bucket sort\<close>

text \<open>
  \<open>buckets\<close> is a block of \<open>max\<close> cells filled with \<open>-1\<close> (the bytes are set to \<open>0xff\<close>); for a
  nonpositive \<open>max\<close> it has no cell.
\<close>

function GetMax_loop :: "ElementType list \<Rightarrow> int \<Rightarrow> int \<Rightarrow> ElementType \<Rightarrow> ElementType option" where
  "GetMax_loop A i N mx =
     (if i < N then do {
        v \<leftarrow> aget A i;
        GetMax_loop A (i + 1) N (if mx < v then v else mx) }
      else Some mx)"
  by pat_completeness auto
termination
  by (relation "measure (\<lambda>(A, i, N, mx). nat (N - i))") auto

definition GetMax :: "ElementType list \<Rightarrow> int \<Rightarrow> ElementType option" where
  "GetMax A N = do { mx \<leftarrow> aget A 0; GetMax_loop A 1 N mx }"

function bucket_fill :: "ElementType list \<Rightarrow> ElementType list \<Rightarrow> int \<Rightarrow> int \<Rightarrow> ElementType list option" where
  "bucket_fill A buckets i N =
     (if i < N then do {
        v \<leftarrow> aget A i;
        buckets' \<leftarrow> aset buckets v v;
        bucket_fill A buckets' (i + 1) N }
      else Some buckets)"
  by pat_completeness auto
termination
  by (relation "measure (\<lambda>(A, buckets, i, N). nat (N - i))") auto

function bucket_collect ::
  "ElementType list \<Rightarrow> ElementType list \<Rightarrow> int \<Rightarrow> int \<Rightarrow> int \<Rightarrow> ElementType list option" where
  "bucket_collect A buckets i j mx =
     (if i < mx then do {
        b \<leftarrow> aget buckets i;
        if b \<noteq> - 1 then do {
          A' \<leftarrow> aset A j b;
          bucket_collect A' buckets (i + 1) (j + 1) mx }
        else bucket_collect A buckets (i + 1) j mx }
      else Some A)"
  by pat_completeness auto
termination
  by (relation "measure (\<lambda>(A, buckets, i, j, mx). nat (mx - i))") auto

definition Bucketsort :: "ElementType list \<Rightarrow> int \<Rightarrow> ElementType list option" where
  "Bucketsort A N = do {
     mx \<leftarrow> GetMax A N;
     let buckets = replicate (nat mx) (- 1);
     buckets' \<leftarrow> bucket_fill A buckets 0 N;
     bucket_collect A buckets' 0 0 mx }"

declare GetMax_loop.simps [simp del] bucket_fill.simps [simp del] bucket_collect.simps [simp del]

lemma GetMax_loop_returns:
  assumes "i \<le> length A" "m = Max (set (take i A))" "0 < i"
  shows "GetMax_loop A (int i) (int (length A)) m = Some (Max (set A))"
  using assms
proof (induction "length A - i" arbitrary: i m)
  case 0
  then show ?case by (simp add: GetMax_loop.simps [of A "int i"])
next
  case (Suc d)
  then have i: "i < length A" by simp
  have ne: "take i A \<noteq> []" using Suc.prems(3) i by auto
  have "Max (set (take (Suc i) A)) = max (A ! i) m"
    using i ne Suc.prems(2) by (simp add: take_Suc_conv_app_nth max.commute)
  then have "(if m < A ! i then A ! i else m) = Max (set (take (Suc i) A))" by auto
  then have "GetMax_loop A (int (Suc i)) (int (length A)) (if m < A ! i then A ! i else m)
      = Some (Max (set A))"
    using Suc.hyps(2) i by (intro Suc.hyps(1)) auto
  then show ?case using i by (simp add: GetMax_loop.simps [of A "int i"] int_succ del: idx_unfold)
qed

lemma bucket_fill_overflow:
  assumes "i \<le> k" "k < length A" "A ! k = int (length bs)"
  shows "bucket_fill A bs (int i) (int (length A)) = None"
  using assms
proof (induction "length A - i" arbitrary: i bs)
  case 0
  then show ?case by simp
next
  case (Suc d)
  then have i: "i < length A" by simp
  show ?case
  proof (cases "aset bs (A ! i) (A ! i)")
    case None
    then show ?thesis using i by (simp add: bucket_fill.simps [of A bs "int i"])
  next
    case (Some bs')
    then have bs': "length bs' = length bs" "A ! i < int (length bs)" by (auto dest: aset_SomeD)
    with Suc.prems have "i < k" by (metis le_neq_implies_less less_irrefl)
    then have "bucket_fill A bs' (int (Suc i)) (int (length A)) = None"
      using Suc.hyps(2) Suc.prems bs' by (intro Suc.hyps(1)) auto
    then show ?thesis
      using i Some by (simp add: bucket_fill.simps [of A bs "int i"] int_succ del: idx_unfold)
  qed
qed

lemma bucket_fill_no_cell:
  assumes "A \<noteq> []" shows "bucket_fill A [] 0 (int (length A)) = None"
  using assms by (auto simp: bucket_fill.simps [of A "[]" 0] aget_def aset_def)

section \<open>Properties\<close>

text \<open>
  \<open>Quicksort\<close> stays inside its array, terminates and leaves a rearrangement of the input, for
  every array whose length is at most half of the range of int. (It need not be sorted, see
  below.)
\<close>

theorem Quicksort_permutes:
  assumes "fits_half xs"
  shows "\<exists>ys. Quicksort xs (int (length xs)) = Some ys \<and> mset ys = mset xs"
  using quick.srt_perm [OF assms] by (rule returns_exI)

theorem Quicksort_permutes_witness:
  "\<exists>ys. Quicksort [4, 1, 3, 1, 5] (int (length [4, 1, 3, 1, 5::int])) = Some ys \<and>
     mset ys = mset [4, 1, 3, 1, 5]"
  by (rule Quicksort_permutes) (simp add: fits_half_def int_limits)

text \<open>
  One pass of \<open>Qsort\<close> (\<open>median3\<close>, the partition loop and the exchange that restores the pivot)
  on the cells \<open>l, \<dots>, r\<close>: it is defined, rearranges only these cells, and leaves the pivot in a
  cell \<open>m\<close> with smaller or equal values below it and larger or equal values above it up to
  cell \<open>r - 1\<close>. The last cell obeys the same rule unless
  \<open>ori[centor] < ori[left] < ori[right]\<close> held at the start: exactly then the pass is wrong.
\<close>

theorem Qsort_partition_pass:
  assumes "l + 3 \<le> r" "r < length xs" "fits_half xs"
  shows "returns (do {
       (o1, p) \<leftarrow> median3 xs (int l) (int r);
       (o2, i) \<leftarrow> partition o1 p (int l) (int r - 1);
       o3 \<leftarrow> swap o2 i (int r - 1);
       Some (o3, i, p) })
    (\<lambda>(ys, i, p). \<exists>m. i = int m \<and> l < m \<and> m < r \<and> perm_on l (Suc r) xs ys \<and> ys ! m = p \<and>
       (\<forall>k. l \<le> k \<and> k < m \<longrightarrow> ys ! k \<le> p) \<and> (\<forall>k. m \<le> k \<and> k < r \<longrightarrow> p \<le> ys ! k) \<and>
       (p \<le> ys ! r \<longleftrightarrow> \<not> (xs ! ((l + r) div 2) < xs ! l \<and> xs ! l < xs ! r)))"
  using assms by (intro Qsort_step) (simp_all add: fits_half_def)

theorem Qsort_partition_pass_witness:
  "returns (do {
       (o1, p) \<leftarrow> median3 [9, 2, 7, 1, 5] (int 0) (int 4);
       (o2, i) \<leftarrow> partition o1 p (int 0) (int 4 - 1);
       o3 \<leftarrow> swap o2 i (int 4 - 1);
       Some (o3, i, p) })
    (\<lambda>(ys, i, p). \<exists>m. i = int m \<and> 0 < m \<and> m < 4 \<and> perm_on 0 (Suc 4) [9, 2, 7, 1, 5] ys \<and> ys ! m = p \<and>
       (\<forall>k. 0 \<le> k \<and> k < m \<longrightarrow> ys ! k \<le> p) \<and> (\<forall>k. m \<le> k \<and> k < 4 \<longrightarrow> p \<le> ys ! k) \<and>
       (p \<le> ys ! 4 \<longleftrightarrow> \<not> ([9, 2, 7, 1, 5 :: int] ! ((0 + 4) div 2) < [9, 2, 7, 1, 5] ! 0 \<and>
          [9, 2, 7, 1, 5] ! 0 < ([9, 2, 7, 1, 5] :: int list) ! 4)))"
  by (rule Qsort_partition_pass) (simp_all add: fits_half_def int_limits)

text \<open>
  \<open>Quicksort\<close> does not sort: on \<open>2, 1, 0, 3\<close> it leaves \<open>0, 1, 3, 2\<close>. The first exchange of
  \<open>median3\<close> swaps the ends where the comparison asks for left and center.
\<close>

theorem Quicksort_not_sorting:
  "Quicksort [2, 1, 0, 3] 4 = Some [0, 1, 3, 2] \<and> \<not> sorted [0, 1, 3, 2 :: ElementType]"
  by code_simp

text \<open>
  \<open>Bucketsort\<close> writes outside its block of buckets on every nonempty array: the block has as
  many cells as the largest element, which is itself used as an index.
\<close>

theorem Bucketsort_overflow:
  assumes "A \<noteq> []"
  shows "GetMax A (int (length A)) = Some (Max (set A)) \<and> Bucketsort A (int (length A)) = None"
proof -
  have "GetMax_loop A (int 1) (int (length A)) (A ! 0) = Some (Max (set A))"
    using assms by (intro GetMax_loop_returns) (cases A; simp)+
  then have mx: "GetMax A (int (length A)) = Some (Max (set A))"
    using assms by (simp add: GetMax_def aget_def)
  have "bucket_fill A (replicate (nat (Max (set A))) (- 1)) 0 (int (length A)) = None"
  proof (cases "0 < Max (set A)")
    case True
    obtain k where k: "k < length A" "A ! k = Max (set A)"
      using assms by (metis List.finite_set Max_in in_set_conv_nth set_empty)
    show ?thesis using bucket_fill_overflow [of 0 k A] k True by simp
  next
    case False
    then have "nat (Max (set A)) = 0" by (simp only: nat_0_iff not_less)
    then show ?thesis using bucket_fill_no_cell [OF assms] by simp
  qed
  with mx show ?thesis by (simp add: Bucketsort_def Let_def)
qed

theorem Bucketsort_overflow_witness:
  "GetMax [3, 1, 2] (int (length [3, 1, 2 :: int])) = Some (Max (set [3, 1, 2])) \<and>
     Bucketsort [3, 1, 2] (int (length [3, 1, 2 :: int])) = None"
  by (rule Bucketsort_overflow) simp

end
