(* ===== verification/CString.thy ===== *)
theory CString
  imports LcPrelude "HOL-Library.Word"
begin

text \<open>
  C strings and the libc functions on them that the utilities call. A pointer into a character
  array is the list of the characters from it to the end of the array; the C string there ends
  at the first NUL, and reading a string that has none before the end of the array is undefined.
  A string value whose terminator is known to be in place is a plain character list without NUL.
  \<open>atoi\<close>, \<open>strtoul\<close> and the integer conversions of \<open>sscanf\<close> read a decimal number the way the
  C standard says; a value that the result type cannot hold is undefined where the standard
  leaves it so (\<open>atoi\<close>, \<open>sscanf\<close>) and saturates in \<open>strtoul\<close>.
\<close>

section \<open>Strings in character arrays\<close>

abbreviation NUL :: char where "NUL \<equiv> CHR 0x00"
abbreviation NL :: char where "NL \<equiv> CHR 0x0A"
abbreviation CR :: char where "CR \<equiv> CHR 0x0D"
abbreviation TAB :: char where "TAB \<equiv> CHR 0x09"

definition no_nul :: "string \<Rightarrow> bool" where
  "no_nul s \<longleftrightarrow> NUL \<notin> set s"

definition cstring :: "char list \<Rightarrow> string option" where
  "cstring s = (if NUL \<in> set s then Some (takeWhile (\<lambda>c. c \<noteq> NUL) s) else None)"

definition strlen :: "char list \<Rightarrow> int option" where
  "strlen s = map_option (\<lambda>t. int (length t)) (cstring s)"

lemma takeWhile_no_nul [simp]: "no_nul s \<Longrightarrow> takeWhile (\<lambda>c. c \<noteq> NUL) s = s"
  by (auto simp: no_nul_def takeWhile_eq_all_conv)

lemma takeWhile_nul_append: "no_nul s \<Longrightarrow> takeWhile (\<lambda>c. c \<noteq> NUL) (s @ NUL # t) = s"
  by (induction s) (auto simp: no_nul_def)

lemma no_nul_takeWhile [simp]: "no_nul (takeWhile (\<lambda>c. c \<noteq> NUL) s)"
  by (auto simp: no_nul_def dest: set_takeWhileD)

lemma no_nul_Nil [simp]: "no_nul []"
  by (simp add: no_nul_def)

lemma no_nul_Cons [simp]: "no_nul (c # s) \<longleftrightarrow> c \<noteq> NUL \<and> no_nul s"
  by (auto simp: no_nul_def)

lemma no_nul_append [simp]: "no_nul (s @ t) \<longleftrightarrow> no_nul s \<and> no_nul t"
  by (auto simp: no_nul_def)

lemma no_nul_take [simp]: "no_nul s \<Longrightarrow> no_nul (take n s)"
  by (auto simp: no_nul_def dest: in_set_takeD)

lemma no_nul_drop [simp]: "no_nul s \<Longrightarrow> no_nul (drop n s)"
  by (auto simp: no_nul_def dest: in_set_dropD)

lemma cstring_terminated [simp]: "no_nul s \<Longrightarrow> cstring (s @ NUL # t) = Some s"
  by (simp add: cstring_def takeWhile_nul_append)

lemma strlen_terminated [simp]: "no_nul s \<Longrightarrow> strlen (s @ NUL # t) = Some (int (length s))"
  by (simp add: strlen_def)

text \<open>
  \<open>char line[n]; memset(line, 0, n); memcpy(line, src, len); line[len] = '\0';\<close> the string
  that \<open>line\<close> holds then. The terminator has to fit as well.
\<close>

definition fill_line :: "nat \<Rightarrow> char list \<Rightarrow> int \<Rightarrow> string option" where
  "fill_line n src len =
     (if 0 \<le> len \<and> len < int n \<and> len \<le> int (length src)
      then Some (takeWhile (\<lambda>c. c \<noteq> NUL) (take (nat len) src)) else None)"

lemma fill_line_no_nul: "fill_line n src len = Some s \<Longrightarrow> no_nul s"
  by (auto simp: fill_line_def split: if_splits)

lemma fill_line_length: "fill_line n src len = Some s \<Longrightarrow> length s \<le> nat len"
  by (auto simp: fill_line_def split: if_splits intro!: le_trans [OF length_takeWhile_le])

text \<open>\<open>strchr\<close> as the index of the first occurrence.\<close>

fun strchr :: "string \<Rightarrow> char \<Rightarrow> nat option" where
  "strchr [] c = None"
| "strchr (x # s) c = (if x = c then Some 0 else map_option Suc (strchr s c))"

lemma strchr_None [simp]: "strchr s c = None \<longleftrightarrow> c \<notin> set s"
  by (induction s) auto

lemma strchr_first [simp]: "c \<notin> set s \<Longrightarrow> strchr (s @ c # t) c = Some (length s)"
  by (induction s) auto

lemma strchr_Some:
  "strchr s c = Some k \<Longrightarrow> k < length s \<and> s ! k = c \<and> c \<notin> set (take k s)"
  by (induction s arbitrary: k) (auto split: if_splits)

text \<open>\<open>strstr(hay, needle) != NULL\<close>\<close>

fun strstr :: "string \<Rightarrow> string \<Rightarrow> bool" where
  "strstr [] needle = (needle = [])"
| "strstr (x # s) needle = (take (length needle) (x # s) = needle \<or> strstr s needle)"

section \<open>Decimal numbers\<close>

definition isspace :: "char \<Rightarrow> bool" where
  "isspace c \<longleftrightarrow> c = CHR '' '' \<or> (of_char c :: nat) \<in> {9, 10, 11, 12, 13}"

definition isdigit :: "char \<Rightarrow> bool" where
  "isdigit c \<longleftrightarrow> (48 :: nat) \<le> of_char c \<and> of_char c \<le> (57 :: nat)"

definition digit :: "char \<Rightarrow> int" where
  "digit c = int (of_char c) - 48"

definition digits_value :: "string \<Rightarrow> int" where
  "digits_value ds = foldl (\<lambda>a c. 10 * a + digit c) 0 ds"

text \<open>The number at the start of a string: blanks, an optional sign, digits.\<close>

definition scan_dec :: "string \<Rightarrow> int option" where
  "scan_dec s =
     (let t = dropWhile isspace s;
          neg = (t \<noteq> [] \<and> hd t = CHR ''-'');
          u = (if t \<noteq> [] \<and> (hd t = CHR ''-'' \<or> hd t = CHR ''+'') then tl t else t);
          ds = takeWhile isdigit u
      in if ds = [] then None else Some (if neg then - digits_value ds else digits_value ds))"

definition atoi :: "string \<Rightarrow> int option" where
  "atoi s = (case scan_dec s of None \<Rightarrow> Some 0 | Some v \<Rightarrow> cint v)"

definition strtoul :: "string \<Rightarrow> int" where
  "strtoul s = (case scan_dec s of None \<Rightarrow> 0
     | Some v \<Rightarrow> if \<bar>v\<bar> < 2 ^ 64 then v mod 2 ^ 64 else 2 ^ 64 - 1)"

text \<open>\<open>sscanf(s, "%d", p)\<close>: the new value of \<open>*p\<close>, the old one when there is no number.\<close>

definition sscanf_d :: "string \<Rightarrow> int \<Rightarrow> int option" where
  "sscanf_d s old = (case scan_dec s of None \<Rightarrow> Some old | Some v \<Rightarrow> cint v)"

text \<open>\<open>%u\<close> and \<open>%lu\<close> with an unsigned object of \<open>w\<close> bits.\<close>

definition sscanf_u :: "nat \<Rightarrow> string \<Rightarrow> int \<Rightarrow> int option" where
  "sscanf_u w s old = (case scan_dec s of None \<Rightarrow> Some old
     | Some v \<Rightarrow> if \<bar>v\<bar> < 2 ^ w then Some (v mod 2 ^ w) else None)"

text \<open>Printing a number (\<open>%d\<close>), to state that the conversions read back what was printed.\<close>

fun show_nat :: "nat \<Rightarrow> string" where
  "show_nat n = (if n < 10 then [char_of (48 + n)] else show_nat (n div 10) @ [char_of (48 + n mod 10)])"

definition show_int :: "int \<Rightarrow> string" where
  "show_int i = (if i < 0 then CHR ''-'' # show_nat (nat (- i)) else show_nat (nat i))"

declare show_nat.simps [simp del]

lemma digit_char [simp]: "d < 10 \<Longrightarrow> digit (char_of (48 + d :: nat)) = int d"
  by (simp add: digit_def)

lemma isdigit_char [simp]: "d < 10 \<Longrightarrow> isdigit (char_of (48 + d :: nat))"
  by (simp add: isdigit_def)

lemma digits_value_snoc [simp]: "digits_value (ds @ [c]) = 10 * digits_value ds + digit c"
  by (simp add: digits_value_def)

lemma show_nat_digits: "show_nat n \<noteq> [] \<and> (\<forall>c \<in> set (show_nat n). isdigit c) \<and>
    digits_value (show_nat n) = int n"
proof (induction n rule: show_nat.induct)
  case (1 n)
  show ?case
  proof (cases "n < 10")
    case True
    then show ?thesis using digits_value_snoc [of "[]"]
      by (simp add: show_nat.simps [of n] digits_value_def)
  next
    case False
    have "10 * int (n div 10) + int (n mod 10) = int n"
      by (metis mult_div_mod_eq of_nat_add of_nat_mult of_nat_numeral)
    with False 1 show ?thesis by (simp add: show_nat.simps [of n])
  qed
qed

lemma no_nul_show_nat: "no_nul (show_nat n)"
  using show_nat_digits [of n] by (auto simp: no_nul_def isdigit_def)

lemma no_nul_show_int: "no_nul (show_int i)"
  by (simp add: show_int_def no_nul_show_nat)

lemma isdigit_not_special: "isdigit c \<Longrightarrow> \<not> isspace c \<and> c \<noteq> CHR ''-'' \<and> c \<noteq> CHR ''+''"
  by (auto simp: isdigit_def isspace_def)

lemma scan_dec_show: "scan_dec (show_int i) = Some i"
proof -
  have d: "takeWhile isdigit (show_nat n) = show_nat n" "dropWhile isspace (show_nat n) = show_nat n"
    "show_nat n \<noteq> []" "hd (show_nat n) \<noteq> CHR ''-''" "hd (show_nat n) \<noteq> CHR ''+''"
    "digits_value (show_nat n) = int n" for n
    using show_nat_digits [of n] isdigit_not_special
    by (auto simp: takeWhile_eq_all_conv dropWhile_eq_self_iff)
  show ?thesis
    by (simp add: scan_dec_def show_int_def d Let_def isspace_def)
qed

end
