(* ===== verification/Glib_Hash.thy ===== *)
theory Glib_Hash
  imports LcPrelude
begin

text \<open>
  GLib's hash table with string keys (\<open>g_str_hash\<close>, \<open>g_str_equal\<close>) is a library outside the
  repository: the definitions that use it take its operations as an argument of type
  \<open>ghash\<close>, and \<open>ghash_laws\<close> collects what its documentation promises. A table maps the text of
  a key to the stored key pointer and the value pointer. \<open>gh_insert\<close> and \<open>gh_remove_all\<close> also
  report the pointers handed to the key and value destroy functions: on a key that is present
  already, the documentation of \<open>g_hash_table_insert\<close> says that the old value is destroyed, the
  stored key stays and the passed key is destroyed.

  \<open>alist_ghash\<close> is a concrete table (an association list) that has these laws.
\<close>

record ('t, 'k, 'v) ghash =
  gh_new :: 't
  gh_lookup :: "'t \<Rightarrow> string \<Rightarrow> ('k \<times> 'v) option"
  gh_insert :: "'t \<Rightarrow> string \<Rightarrow> 'k \<Rightarrow> 'v \<Rightarrow> 't \<times> 'k list \<times> 'v list"
  gh_remove_all :: "'t \<Rightarrow> 't \<times> 'k list \<times> 'v list"
  gh_entries :: "'t \<Rightarrow> (string \<times> 'k \<times> 'v) list"

definition gh_old :: "('k \<times> 'v) option \<Rightarrow> 'a \<Rightarrow> ('k \<Rightarrow> 'v \<Rightarrow> 'a) \<Rightarrow> 'a" where
  "gh_old e d f = (case e of None \<Rightarrow> d | Some (p, v) \<Rightarrow> f p v)"

lemma gh_old_simps [simp]: "gh_old None d f = d" "gh_old (Some (p, v)) d f = f p v"
  by (simp_all add: gh_old_def)

text \<open>What \<open>g_hash_table_insert\<close> does, from the entry of the key before the call.\<close>

definition insert_law :: "('t, 'k, 'v) ghash \<Rightarrow> bool" where
  "insert_law h \<longleftrightarrow> (\<forall>t k p v t' ks vs. gh_insert h t k p v = (t', ks, vs) \<longrightarrow>
     gh_lookup h t' = (gh_lookup h t)(k \<mapsto> (gh_old (gh_lookup h t k) p (\<lambda>p0 v0. p0), v)) \<and>
     ks = gh_old (gh_lookup h t k) [] (\<lambda>p0 v0. [p]) \<and>
     vs = gh_old (gh_lookup h t k) [] (\<lambda>p0 v0. [v0]))"

definition entries_law :: "('t, 'k, 'v) ghash \<Rightarrow> bool" where
  "entries_law h \<longleftrightarrow> (\<forall>t. distinct (map fst (gh_entries h t)) \<and>
     (\<forall>k p v. (k, p, v) \<in> set (gh_entries h t) \<longleftrightarrow> gh_lookup h t k = Some (p, v)))"

definition remove_all_law :: "('t, 'k, 'v) ghash \<Rightarrow> bool" where
  "remove_all_law h \<longleftrightarrow> (\<forall>t t' ks vs. gh_remove_all h t = (t', ks, vs) \<longrightarrow>
     gh_lookup h t' = Map.empty \<and>
     ks = map (\<lambda>(k, p, v). p) (gh_entries h t) \<and> vs = map (\<lambda>(k, p, v). v) (gh_entries h t))"

definition ghash_laws :: "('t, 'k, 'v) ghash \<Rightarrow> bool" where
  "ghash_laws h \<longleftrightarrow> gh_lookup h (gh_new h) = Map.empty \<and> insert_law h \<and> entries_law h \<and> remove_all_law h"

text \<open>The consequences the client proofs use.\<close>

lemma gh_lookup_new: "ghash_laws h \<Longrightarrow> gh_lookup h (gh_new h) = Map.empty"
  by (simp add: ghash_laws_def)

lemma gh_insert_laws:
  assumes "ghash_laws h" "gh_insert h t k p v = (t', ks, vs)"
  shows "gh_lookup h t' = (gh_lookup h t)(k \<mapsto> (gh_old (gh_lookup h t k) p (\<lambda>p0 v0. p0), v))"
    and "ks = gh_old (gh_lookup h t k) [] (\<lambda>p0 v0. [p])"
    and "vs = gh_old (gh_lookup h t k) [] (\<lambda>p0 v0. [v0])"
  using assms unfolding ghash_laws_def insert_law_def by (metis (no_types, lifting))+

lemma gh_entries_iff:
  "ghash_laws h \<Longrightarrow> (k, p, v) \<in> set (gh_entries h t) \<longleftrightarrow> gh_lookup h t k = Some (p, v)"
  by (simp add: ghash_laws_def entries_law_def)

lemma gh_entries_distinct: "ghash_laws h \<Longrightarrow> distinct (map fst (gh_entries h t))"
  by (simp add: ghash_laws_def entries_law_def)

lemma gh_remove_all_laws:
  assumes "ghash_laws h" "gh_remove_all h t = (t', ks, vs)"
  shows "gh_lookup h t' = Map.empty" and "vs = map (\<lambda>(k, p, v). v) (gh_entries h t)"
    and "ks = map (\<lambda>(k, p, v). p) (gh_entries h t)"
  using assms unfolding ghash_laws_def remove_all_law_def by blast+

lemma gh_values:
  assumes laws: "ghash_laws h" and rm: "gh_remove_all h t = (t', ks, vs)"
    and inj: "\<forall>k k' p p' v. gh_lookup h t k = Some (p, v) \<and> gh_lookup h t k' = Some (p', v) \<longrightarrow> k = k'"
  shows "distinct vs" "v \<in> set vs \<longleftrightarrow> (\<exists>k p. gh_lookup h t k = Some (p, v))"
proof -
  have vs: "vs = map (\<lambda>(k, p, v). v) (gh_entries h t)" using gh_remove_all_laws(2) [OF laws rm] .
  show "v \<in> set vs \<longleftrightarrow> (\<exists>k p. gh_lookup h t k = Some (p, v))"
    using gh_entries_iff [OF laws, of _ _ v t] by (force simp: vs image_iff)
  have "inj_on (\<lambda>(k, p, v). v) (set (gh_entries h t))"
  proof (rule inj_onI)
    fix x y assume xy: "x \<in> set (gh_entries h t)" "y \<in> set (gh_entries h t)" "(case x of (k, p, v) \<Rightarrow> v) = (case y of (k, p, v) \<Rightarrow> v)"
    obtain k p v k' p' where e: "x = (k, p, v)" "y = (k', p', v)" using xy(3) by (cases x; cases y) auto
    then have l: "gh_lookup h t k = Some (p, v)" "gh_lookup h t k' = Some (p', v)" using xy gh_entries_iff [OF laws] by blast+
    then have "k = k'" using inj by blast
    with l e show "x = y" by simp
  qed
  then show "distinct vs" using gh_entries_distinct [OF laws, of t] by (simp add: vs distinct_map)
qed

section \<open>A concrete table\<close>

fun al_put :: "(string \<times> 'k \<times> 'v) list \<Rightarrow> string \<Rightarrow> 'k \<Rightarrow> 'v \<Rightarrow> (string \<times> 'k \<times> 'v) list" where
  "al_put [] k p v = [(k, p, v)]"
| "al_put ((k', p', v') # t) k p v =
     (if k' = k then (k', p', v) # t else (k', p', v') # al_put t k p v)"

typedef ('k, 'v) altab = "{t :: (string \<times> 'k \<times> 'v) list. distinct (map fst t)}"
  by (rule exI [of _ "[]"]) simp

setup_lifting type_definition_altab

lemma al_put_keys: "set (map fst (al_put t k p v)) = insert k (set (map fst t))"
  by (induction t k p v rule: al_put.induct) auto

lemma al_put_distinct: "distinct (map fst t) \<Longrightarrow> distinct (map fst (al_put t k p v))"
proof (induction t k p v rule: al_put.induct)
  case (2 k' p' v' t k p v)
  then show ?case using al_put_keys [of t k p v] by auto
qed simp

lemma al_put_lookup:
  "map_of (al_put t k p v) = (map_of t)(k \<mapsto> (gh_old (map_of t k) p (\<lambda>p0 v0. p0), v))"
  by (induction t k p v rule: al_put.induct) (auto simp: fun_eq_iff)

lift_definition at_empty :: "('k, 'v) altab" is "[]" by simp
lift_definition at_put :: "('k, 'v) altab \<Rightarrow> string \<Rightarrow> 'k \<Rightarrow> 'v \<Rightarrow> ('k, 'v) altab" is al_put
  by (rule al_put_distinct)
lift_definition at_get :: "('k, 'v) altab \<Rightarrow> string \<Rightarrow> ('k \<times> 'v) option" is map_of .
lift_definition at_list :: "('k, 'v) altab \<Rightarrow> (string \<times> 'k \<times> 'v) list" is "\<lambda>t. t" .

definition alist_ghash :: "(('k, 'v) altab, 'k, 'v) ghash" where
  "alist_ghash =
     \<lparr>gh_new = at_empty, gh_lookup = at_get,
      gh_insert = (\<lambda>t k p v. case at_get t k of None \<Rightarrow> (at_put t k p v, [], [])
         | Some (p0, v0) \<Rightarrow> (at_put t k p v, [p], [v0])),
      gh_remove_all = (\<lambda>t. (at_empty, map (\<lambda>(k, p, v). p) (at_list t), map (\<lambda>(k, p, v). v) (at_list t))),
      gh_entries = at_list\<rparr>"

lemma at_get_empty: "at_get at_empty = Map.empty"
  by transfer auto

lemma at_get_put:
  "at_get (at_put t k p v) = (at_get t)(k \<mapsto> (gh_old (at_get t k) p (\<lambda>p0 v0. p0), v))"
  by transfer (rule al_put_lookup)

lemma at_list_iff: "(k, p, v) \<in> set (at_list t) \<longleftrightarrow> at_get t k = Some (p, v)"
  by transfer (simp add: map_of_eq_Some_iff)

lemma at_list_distinct: "distinct (map fst (at_list t))"
  by transfer

lemma alist_ghash_laws: "ghash_laws alist_ghash"
proof -
  have "insert_law alist_ghash"
    by (auto simp: insert_law_def alist_ghash_def at_get_put split: option.splits)
  moreover have "entries_law alist_ghash"
    by (simp add: entries_law_def alist_ghash_def at_list_iff at_list_distinct)
  moreover have "remove_all_law alist_ghash"
    by (auto simp: remove_all_law_def alist_ghash_def at_get_empty)
  ultimately show ?thesis by (simp add: ghash_laws_def alist_ghash_def at_get_empty)
qed

end
