(* ===== verification/Conf_Core.thy ===== *)
theory Conf_Core
  imports CString Glib_Hash
begin

text \<open>
  \<open>src/src/utils/config/iridium_conf_core.c\<close>: the reader of block-structured configuration
  files.

  A pointer into the read buffer is the list of the bytes from it to the end of the bytes read;
  the buffer itself has \<open>MAX_CONF_FILE_SIZE\<close> bytes and is zero behind them, so reading at the
  end gives NUL, or is undefined when the file fills the whole buffer (\<open>full\<close>). The character
  fields of the structures are zero-filled arrays that are only ever read as C strings; the
  model holds the string. A \<open>conf_pairs_t\<close> is a heap object: the table stores its address as
  value, and as key a pointer to its own \<open>mode_name\<close>, which is why the key is only good as long
  as the object is. \<open>mem\<close> maps the addresses of live objects to their contents. The table
  pointer of the manager is NULL, a live table, or the address of a destroyed one.

  Parameters: \<open>h\<close>, the operations of GLib's hash table; \<open>mal\<close>, whether the \<open>malloc\<close> for the block
  that starts so many bytes before the end succeeds; \<open>rd_ok\<close>, the \<open>malloc\<close> of the buffer; \<open>file\<close>,
  the bytes of the file, or none when it cannot be opened. Log output is not modelled.
\<close>

section \<open>Data\<close>

definition REPEAT_INIT_ERR :: int where "REPEAT_INIT_ERR = - 3"
definition OPEN_FILE_ERR :: int where "OPEN_FILE_ERR = - 4"
definition MALLOC_BUF_ERR :: int where "MALLOC_BUF_ERR = - 6"
definition CONF_CLOSE_ALL :: int where "CONF_CLOSE_ALL = - 9"
definition MAX_CONF_FILE_SIZE :: nat where "MAX_CONF_FILE_SIZE = 1024 * 1024 * 2"
definition MAX_LINE_LEN :: nat where "MAX_LINE_LEN = 1024"
definition CONF_STRING_MAX_LEN :: nat where "CONF_STRING_MAX_LEN = 128"
definition CONF_MAX_NODE_NUM :: nat where "CONF_MAX_NODE_NUM = 64"
definition IRI_CONF_FINISH_INIT :: int where "IRI_CONF_FINISH_INIT = 1"
definition LOG_SWITCH_STR :: string where "LOG_SWITCH_STR = ''CONF_SWITCH''"

lemmas conf_consts = REPEAT_INIT_ERR_def OPEN_FILE_ERR_def MALLOC_BUF_ERR_def CONF_CLOSE_ALL_def
  MAX_LINE_LEN_def CONF_STRING_MAX_LEN_def CONF_MAX_NODE_NUM_def IRI_CONF_FINISH_INIT_def

record single_conf_pair_t =
  name :: string
  "value" :: string

record conf_pairs_t =
  mode_name :: string
  pairs :: "single_conf_pair_t list"
  cur_pos :: int

datatype 't tabptr = NullTab | LiveTab 't | DeadTab

record 't iri_conf_manager_t =
  iri_conf :: "'t tabptr"
  mode_count :: int
  init_flag :: int


record 't conf_world =
  manager :: "'t iri_conf_manager_t"
  mem :: "addr \<Rightarrow> conf_pairs_t option"
  brk :: addr

type_synonym 't conf_hash = "('t, addr, addr) ghash"

section \<open>Lines\<close>

definition blank :: "char \<Rightarrow> bool" where
  "blank c \<longleftrightarrow> c = CHR '' '' \<or> c = TAB"

definition is_level_true :: "char \<Rightarrow> int" where
  "is_level_true c = (if \<not> isdigit c then - 1 else if digit c = 1 then 1 else if digit c = 0 then 0 else - 1)"

definition check_comment_line :: "char list \<Rightarrow> int \<Rightarrow> int option" where
  "check_comment_line start len = do {
     buf \<leftarrow> fill_line MAX_LINE_LEN start len;
     Some (case strchr buf (CHR ''#'') of
       None \<Rightarrow> len
     | Some k \<Rightarrow> if list_all blank (take k buf) then 0 else int k) }"

text \<open>
  \<open>get_string dst src len\<close>: the new \<open>dst\<close> and the return value. The test of \<open>dst[string_len - 1]\<close>
  lies before the array when the token is empty.
\<close>

definition get_string :: "string \<Rightarrow> char list \<Rightarrow> int \<Rightarrow> (string \<times> int) option" where
  "get_string dst src len = do {
     len' \<leftarrow> (if len = - 1 then strlen src else Some len);
     line \<leftarrow> fill_line 256 src len';
     let start = dropWhile blank line;
     let tok = takeWhile (\<lambda>c. \<not> blank c) start;
     if length tok < CONF_STRING_MAX_LEN - 1 then
       if tok = [] then None
       else Some (if last tok = CR then butlast tok else tok, 0)
     else Some (dst, - 1) }"

definition iri_conf_line_handle ::
  "single_conf_pair_t \<Rightarrow> char list \<Rightarrow> int \<Rightarrow> (single_conf_pair_t \<times> int) option" where
  "iri_conf_line_handle single_pair buf len =
     (if len > 255 then Some (single_pair, - 1)
      else do {
        line \<leftarrow> fill_line 256 buf len;
        case strchr line (CHR ''='') of
          None \<Rightarrow> Some (single_pair, - 1)
        | Some mid \<Rightarrow> do {
            (n, r) \<leftarrow> get_string (name single_pair) (line @ [NUL]) (int mid);
            let single_pair1 = single_pair\<lparr>name := n\<rparr>;
            if r = 0 then do {
              (v, r') \<leftarrow> get_string (value single_pair1) (drop (Suc mid) line @ [NUL]) (- 1);
              Some (single_pair1\<lparr>value := v\<rparr>, if r' = 0 then 0 else - 1) }
            else Some (single_pair1, - 1) } })"

section \<open>Blocks\<close>

definition empty_pair :: single_conf_pair_t where
  "empty_pair = \<lparr>name = [], value = []\<rparr>"

definition empty_pairs :: conf_pairs_t where
  "empty_pairs = \<lparr>mode_name = [], pairs = replicate CONF_MAX_NODE_NUM empty_pair, cur_pos = 0\<rparr>"

lemma length_tl_dropWhile [simp]: "p \<noteq> [] \<Longrightarrow> length (dropWhile P p) - Suc 0 < length p"
  using length_dropWhile_le [of P p] by (cases p) auto

text \<open>
  The loop of \<open>handle_conf_block\<close> on the text between \<open>start\<close> and \<open>end\<close>; the result is the
  content of the new object, or none where the source returns NULL.
\<close>

function handle_conf_block_loop ::
  "bool \<Rightarrow> conf_pairs_t option \<Rightarrow> char list \<Rightarrow> conf_pairs_t option option" where
  "handle_conf_block_loop mok conf_pairs p =
     (if p = [] then Some conf_pairs
      else
        let line = takeWhile (\<lambda>c. c \<noteq> NL) p; q = dropWhile (\<lambda>c. c \<noteq> NL) p
        in if q = [] then Some conf_pairs
           else if length line > MAX_LINE_LEN - 1 then Some conf_pairs
           else do {
             len \<leftarrow> check_comment_line line (int (length line));
             if len > 0 then
               case conf_pairs of
                 None \<Rightarrow>
                   if \<not> mok then Some None
                   else do {
                     (mn, r) \<leftarrow> get_string [] line len;
                     if r < 0 then Some None
                     else handle_conf_block_loop mok (Some (empty_pairs\<lparr>mode_name := mn\<rparr>)) (tl q) }
               | Some c \<Rightarrow> do {
                   slot \<leftarrow> aget (pairs c) (cur_pos c);
                   (pair, r) \<leftarrow> iri_conf_line_handle slot line len;
                   if r < 0 then Some None
                   else do {
                     pairs' \<leftarrow> aset (pairs c) (cur_pos c) pair;
                     let c' = c\<lparr>pairs := pairs', cur_pos := cur_pos c + 1\<rparr>;
                     if cur_pos c' \<ge> int CONF_MAX_NODE_NUM then Some (Some c')
                     else handle_conf_block_loop mok (Some c') (tl q) } }
             else handle_conf_block_loop mok conf_pairs (tl q) })"
  by pat_completeness auto

termination
  by (relation "measure (\<lambda>(mok, c, p). length p)") auto

declare handle_conf_block_loop.simps [simp del]

definition handle_conf_block :: "bool \<Rightarrow> char list option \<Rightarrow> char list \<Rightarrow> conf_pairs_t option option" where
  "handle_conf_block mok start end =
     (case start of
        None \<Rightarrow> Some None
      | Some s \<Rightarrow> handle_conf_block_loop mok None (take (length s - length end) s))"

section \<open>The manager and its table\<close>

text \<open>The destroy function of the values: \<open>free\<close>.\<close>

definition key_value_destroy :: "addr \<Rightarrow> (addr \<Rightarrow> conf_pairs_t option) \<Rightarrow> (addr \<Rightarrow> conf_pairs_t option) option" where
  "key_value_destroy a m = (if m a = None then None else Some (m(a := None)))"

fun destroy_values :: "addr list \<Rightarrow> (addr \<Rightarrow> conf_pairs_t option) \<Rightarrow> (addr \<Rightarrow> conf_pairs_t option) option" where
  "destroy_values [] m = Some m"
| "destroy_values (a # as) m = do { m' \<leftarrow> key_value_destroy a m; destroy_values as m' }"

text \<open>
  A lookup compares the given name with the stored key of that text (and calls \<open>g_str_equal\<close> on
  it): undefined when the object that holds the stored key has been freed.
\<close>

definition table_lookup :: "'t conf_hash \<Rightarrow> 't \<Rightarrow> (addr \<Rightarrow> conf_pairs_t option) \<Rightarrow> string \<Rightarrow> addr option option" where
  "table_lookup h t m k =
     (case gh_lookup h t k of
        None \<Rightarrow> Some None
      | Some (p, v) \<Rightarrow> if m p = None then None else Some (Some v))"

definition insert_new_node :: "'t conf_hash \<Rightarrow> addr \<Rightarrow> 't conf_world \<Rightarrow> 't conf_world option" where
  "insert_new_node h a w =
     (case iri_conf (manager w) of
        NullTab \<Rightarrow> Some w
      | DeadTab \<Rightarrow> None
      | LiveTab t \<Rightarrow> do {
          c \<leftarrow> mem w a;
          table_lookup h t (mem w) (mode_name c);
          let (t', ks, vs) = gh_insert h t (mode_name c) a a;
          m' \<leftarrow> destroy_values vs (mem w);
          Some (w\<lparr>manager := (manager w)\<lparr>iri_conf := LiveTab t'\<rparr>, mem := m'\<rparr>) })"

definition init_manager :: "'t conf_hash \<Rightarrow> 't conf_world \<Rightarrow> 't conf_world" where
  "init_manager h w =
     w\<lparr>manager := \<lparr>iri_conf = LiveTab (gh_new h), mode_count = 0, init_flag = IRI_CONF_FINISH_INIT\<rparr>\<rparr>"

definition destroy_iri_conf :: "'t conf_hash \<Rightarrow> 't conf_world \<Rightarrow> 't conf_world option" where
  "destroy_iri_conf h w =
     (case iri_conf (manager w) of
        NullTab \<Rightarrow> Some w
      | DeadTab \<Rightarrow> None
      | LiveTab t \<Rightarrow> do {
          let (t', ks, vs) = gh_remove_all h t;
          m' \<leftarrow> destroy_values vs (mem w);
          Some (w\<lparr>manager := (manager w)\<lparr>iri_conf := DeadTab\<rparr>, mem := m'\<rparr>) })"

definition get_conf_pairs :: "'t conf_hash \<Rightarrow> 't conf_world \<Rightarrow> string \<Rightarrow> addr option option" where
  "get_conf_pairs h w mode =
     (case iri_conf (manager w) of
        NullTab \<Rightarrow> Some None
      | DeadTab \<Rightarrow> None
      | LiveTab t \<Rightarrow> table_lookup h t (mem w) mode)"

function get_value_loop :: "conf_pairs_t \<Rightarrow> string \<Rightarrow> int \<Rightarrow> string option option" where
  "get_value_loop c nm i =
     (if i < cur_pos c then do {
        pair \<leftarrow> aget (pairs c) i;
        if nm = name pair then Some (Some (value pair)) else get_value_loop c nm (i + 1) }
      else Some None)"
  by pat_completeness auto
termination
  by (relation "measure (\<lambda>(c, nm, i). nat (cur_pos c - i))") auto

declare get_value_loop.simps [simp del]

definition get_value :: "(addr \<Rightarrow> conf_pairs_t option) \<Rightarrow> addr \<Rightarrow> string \<Rightarrow> string option option" where
  "get_value m conf_pairs nm = do { c \<leftarrow> m conf_pairs; get_value_loop c nm 0 }"

text \<open>The pairs that \<open>print_key_value\<close> prints for one object, and the walk over the table.\<close>

definition print_key_value :: "(addr \<Rightarrow> conf_pairs_t option) \<Rightarrow> addr \<times> addr \<Rightarrow> (string \<times> (string \<times> string) list) option" where
  "print_key_value m kv = do {
     k \<leftarrow> m (fst kv);
     c \<leftarrow> m (snd kv);
     if cur_pos c \<le> int (length (pairs c))
     then Some (mode_name k, map (\<lambda>p. (name p, value p)) (take (nat (cur_pos c)) (pairs c)))
     else None }"

definition go_through_conf_manager ::
  "'t conf_hash \<Rightarrow> 't conf_world \<Rightarrow> (string \<times> (string \<times> string) list) list option" where
  "go_through_conf_manager h w =
     (case iri_conf (manager w) of
        LiveTab t \<Rightarrow> those (map (\<lambda>(k, kv). print_key_value (mem w) kv) (gh_entries h t))
      | _ \<Rightarrow> None)"

section \<open>Reading the file\<close>

definition skip_blanks :: "char list \<Rightarrow> char list" where
  "skip_blanks p = dropWhile blank p"

definition skip_line :: "char list \<Rightarrow> char list" where
  "skip_line p = dropWhile (\<lambda>c. c \<noteq> NL) p"

text \<open>\<open>*p\<close> for a pointer into the read buffer.\<close>

definition deref :: "bool \<Rightarrow> char list \<Rightarrow> char option" where
  "deref full p = (case p of [] \<Rightarrow> if full then None else Some NUL | c # _ \<Rightarrow> Some c)"

text \<open>\<open>strncmp(p, pat, strlen(pat)) == 0\<close>: reads up to the first difference.\<close>

fun strncmp_eq :: "bool \<Rightarrow> char list \<Rightarrow> string \<Rightarrow> bool option" where
  "strncmp_eq full p [] = Some True"
| "strncmp_eq full p (x # pat) = do {
     c \<leftarrow> deref full p;
     if c = x then strncmp_eq full (tl p) pat else Some False }"

text \<open>
  The line of a configuration switch: up to 125 of its characters are copied to
  \<open>log_switch_buf\<close>; the result says whether it closes the configuration.
\<close>

definition conf_switch_closes :: "char list \<Rightarrow> bool" where
  "conf_switch_closes line =
     (let log_switch_buf = take 125 line
      in if strstr (takeWhile (\<lambda>c. c \<noteq> NUL) log_switch_buf) LOG_SWITCH_STR then
           let rest = dropWhile blank (drop 1 (dropWhile (\<lambda>c. c \<noteq> CHR ''='') log_switch_buf))
           in rest \<noteq> [] \<and> is_level_true (hd rest) = 0
         else False)"

text \<open>A block that ends at \<open>p\<close>: parse it, and enter it under its mode name.\<close>

definition finish_block ::
  "'t conf_hash \<Rightarrow> (nat \<Rightarrow> bool) \<Rightarrow> char list option \<Rightarrow> char list \<Rightarrow> 't conf_world \<Rightarrow> 't conf_world option" where
  "finish_block h mal block_start p w = do {
     new_pairs \<leftarrow> handle_conf_block (mal (case block_start of None \<Rightarrow> 0 | Some s \<Rightarrow> length s)) block_start p;
     case new_pairs of
       None \<Rightarrow> Some w
     | Some c \<Rightarrow> do {
         w1 \<leftarrow> insert_new_node h (brk w) (w\<lparr>mem := (mem w)(brk w \<mapsto> c), brk := Suc (brk w)\<rparr>);
         Some (w1\<lparr>manager := (manager w1)\<lparr>mode_count := mode_count (manager w1) + 1\<rparr>\<rparr>) } }"

lemma length_skip_blanks: "length (skip_blanks p) \<le> length p"
  by (simp add: skip_blanks_def length_dropWhile_le)

lemma length_skip_line: "length (skip_line p) \<le> length p"
  by (simp add: skip_line_def length_dropWhile_le)

lemma length_scan_step:
  assumes "p \<noteq> []" "q = skip_blanks p \<or> q = skip_line (skip_blanks p)"
  shows "length (skip_line (tl q)) - Suc 0 < length p" "length (skip_line q) - Suc 0 < length p"
proof -
  have "length q \<le> length p"
    using assms(2) length_skip_blanks [of p] length_skip_line [of "skip_blanks p"] by auto
  moreover have "0 < length p" using assms(1) by simp
  moreover have "length (skip_line (tl q)) \<le> length q - 1" using length_skip_line [of "tl q"] by simp
  moreover have "length (skip_line q) \<le> length q" by (rule length_skip_line)
  ultimately show "length (skip_line (tl q)) - Suc 0 < length p" "length (skip_line q) - Suc 0 < length p"
    by linarith+
qed

text \<open>
  The main loop. \<open>open_block\<close> is \<open>block_start\<close> while \<open>block_start_flag\<close> is 0, and none while the
  flag is 1 (its value is not used then). The result is the state and \<open>ret\<close>.
\<close>

function conf_scan ::
  "'t conf_hash \<Rightarrow> (nat \<Rightarrow> bool) \<Rightarrow> bool \<Rightarrow> char list \<Rightarrow> char list option \<Rightarrow> 't conf_world \<Rightarrow>
     ('t conf_world \<times> int) option" where
  "conf_scan h mal full p open_block w =
     (if p = [] then Some (w, 0)
      else do {
        let p1 = skip_blanks p;
        c1 \<leftarrow> deref full p1;
        let p2 = (if c1 = CHR ''#'' then skip_line p1 else p1);
        c2 \<leftarrow> deref full p2;
        if c2 = CHR ''@'' then
          if conf_switch_closes (takeWhile (\<lambda>c. c \<noteq> NL) (tl p2)) then Some (w, CONF_CLOSE_ALL)
          else conf_scan h mal full (tl (skip_line (tl p2))) open_block w
        else if c2 = CHR ''-'' \<and> open_block \<noteq> None then do {
          is_end \<leftarrow> strncmp_eq full p2 ''-end'';
          if \<not> is_end then Some (w, 0)
          else do {
            w' \<leftarrow> finish_block h mal open_block p2 w;
            let p3 = skip_line p2;
            if p3 = [] then Some (w', 0) else conf_scan h mal full (tl p3) None w' } }
        else do {
          let open' = (if c2 = CHR ''-'' then Some (tl p2) else open_block);
          let p3 = skip_line (if c2 = CHR ''-'' then tl p2 else p2);
          if p3 = [] then Some (w, 0) else conf_scan h mal full (tl p3) open' w } })"
  by pat_completeness auto

termination
  by (relation "measure (\<lambda>(h, mal, full, p, b, w). length p)") (simp_all add: length_scan_step split: if_splits)

declare conf_scan.simps [simp del]

definition get_conf_info_from_file ::
  "'t conf_hash \<Rightarrow> (nat \<Rightarrow> bool) \<Rightarrow> bool \<Rightarrow> char list option \<Rightarrow> 't conf_world \<Rightarrow> ('t conf_world \<times> int) option" where
  "get_conf_info_from_file h mal rd_ok file w =
     (if init_flag (manager w) \<noteq> IRI_CONF_FINISH_INIT then
        let w1 = init_manager h w
        in case file of
             None \<Rightarrow> Some (w1, OPEN_FILE_ERR)
           | Some bytes \<Rightarrow>
               if \<not> rd_ok then Some (w1, MALLOC_BUF_ERR)
               else do {
                 let rd_buf = take MAX_CONF_FILE_SIZE bytes;
                 (w2, ret) \<leftarrow> conf_scan h mal (length rd_buf = MAX_CONF_FILE_SIZE) rd_buf None w1;
                 w3 \<leftarrow> (if ret \<noteq> 0 then destroy_iri_conf h w2 else Some w2);
                 Some (w3, ret) }
      else Some (w, REPEAT_INIT_ERR))"

end
