(* ===== verification/Conf_Spec.thy ===== *)
theory Conf_Spec
  imports Conf_Core
begin

text \<open>
  The language of configuration files and the correctness of the reader of \<open>Conf_Core\<close> on it.
  A file is a list of items: empty lines and comment lines, switch lines, and blocks
  \<open>-mode\<close>, \<open>key = value\<close> lines, \<open>-end\<close>, with free blanks around the words, trailing comments,
  and comment or empty lines inside a block. \<open>conf_text\<close> writes a file with a given layout;
  reading it back gives the modes and their pairs.
\<close>

section \<open>Configuration files with their layout\<close>

definition blanks :: "string \<Rightarrow> bool" where
  "blanks s \<longleftrightarrow> list_all blank s"

definition conf_word :: "string \<Rightarrow> bool" where
  "conf_word s \<longleftrightarrow> s \<noteq> [] \<and> length s < CONF_STRING_MAX_LEN - 1 \<and> last s \<noteq> CR \<and>
     list_all (\<lambda>c. c \<noteq> NUL \<and> c \<noteq> NL \<and> c \<noteq> CHR ''#'' \<and> \<not> blank c) s"

definition conf_key :: "string \<Rightarrow> bool" where
  "conf_key s \<longleftrightarrow> conf_word s \<and> CHR ''='' \<notin> set s \<and> hd s \<noteq> CHR ''-'' \<and> hd s \<noteq> CHR ''@''"

text \<open>What may follow the last word of a line: blanks, and possibly a comment.\<close>

type_synonym line_tail = "string \<times> string option"

definition tail_text :: "line_tail \<Rightarrow> string" where
  "tail_text t = fst t @ (case snd t of None \<Rightarrow> [] | Some c \<Rightarrow> CHR ''#'' # c)"

definition tail_ok :: "line_tail \<Rightarrow> bool" where
  "tail_ok t \<longleftrightarrow> blanks (fst t) \<and> (case snd t of None \<Rightarrow> True | Some c \<Rightarrow> NL \<notin> set c \<and> NUL \<notin> set c)"

datatype conf_line =
  EmptyLine
| Remark string string
| Setting string string string string string line_tail

fun line_text :: "conf_line \<Rightarrow> string" where
  "line_text EmptyLine = []"
| "line_text (Remark b t) = b @ CHR ''#'' # t"
| "line_text (Setting b1 k b2 b3 v t) = b1 @ k @ b2 @ ''='' @ b3 @ v @ tail_text t"

fun line_ok :: "conf_line \<Rightarrow> bool" where
  "line_ok EmptyLine = True"
| "line_ok (Remark b t) = (blanks b \<and> NL \<notin> set t \<and> NUL \<notin> set t \<and> length b + length t < 1023)"
| "line_ok (Setting b1 k b2 b3 v t) =
     (blanks b1 \<and> conf_key k \<and> blanks b2 \<and> blanks b3 \<and> conf_word v \<and> tail_ok t \<and>
      length b1 + length k + length b2 + length b3 + length v + length (fst t) < 255 \<and>
      length b1 + length k + length b2 + length b3 + length v + length (tail_text t) < 1023)"

fun line_pairs :: "conf_line list \<Rightarrow> (string \<times> string) list" where
  "line_pairs [] = []"
| "line_pairs (Setting b1 k b2 b3 v t # ls) = (k, v) # line_pairs ls"
| "line_pairs (_ # ls) = line_pairs ls"

datatype conf_item =
  Outside conf_line
| Switch string string
| Block string string string line_tail "conf_line list" string

definition lines_text :: "conf_line list \<Rightarrow> string" where
  "lines_text ls = concat (map (\<lambda>l. line_text l @ [NL]) ls)"

fun item_text :: "conf_item \<Rightarrow> string" where
  "item_text (Outside l) = line_text l @ [NL]"
| "item_text (Switch b s) = b @ CHR ''@'' # s @ [NL]"
| "item_text (Block b0 b m t ls e) =
     b0 @ ''-'' @ b @ m @ tail_text t @ [NL] @ lines_text ls @ ''-end'' @ e @ [NL]"

fun item_wf :: "conf_item \<Rightarrow> bool" where
  "item_wf (Outside l) = line_ok l"
| "item_wf (Switch b s) = (blanks b \<and> NL \<notin> set s)"
| "item_wf (Block b0 b m t ls e) =
     (blanks b0 \<and> blanks b \<and> conf_word m \<and> tail_ok t \<and>
      length b + length m + length (fst t) < 256 \<and> length b + length m + length (tail_text t) < 1024 \<and>
      list_all line_ok ls \<and> length (line_pairs ls) \<le> CONF_MAX_NODE_NUM \<and> NL \<notin> set e)"

text \<open>No switch line closes the configuration.\<close>

definition item_ok :: "conf_item \<Rightarrow> bool" where
  "item_ok i \<longleftrightarrow> item_wf i \<and> (case i of Switch b s \<Rightarrow> \<not> conf_switch_closes s | _ \<Rightarrow> True)"

lemma block_item_ok: "item_ok (Block b0 b m t ls e) \<longleftrightarrow> item_wf (Block b0 b m t ls e)"
  by (simp add: item_ok_def)

text \<open>The effect of the switch lines of a file, from the effect \<open>sw\<close> of one.\<close>

fun run_sw :: "(string \<Rightarrow> 's \<Rightarrow> 's option) \<Rightarrow> conf_item list \<Rightarrow> 's \<Rightarrow> 's option" where
  "run_sw sw [] s = Some s"
| "run_sw sw (Switch b l # is) s = do { s' \<leftarrow> sw l s; run_sw sw is s' }"
| "run_sw sw (_ # is) s = run_sw sw is s"

lemma run_sw_upd:
  assumes "\<And>l s. sw l (u s) = map_option u (sw l s)"
  shows "run_sw sw is (u s) = map_option u (run_sw sw is s)"
proof (induction "is" arbitrary: s)
  case (Cons i "is")
  show ?case
  proof (cases i)
    case (Switch b l)
    then show ?thesis using Cons assms [of l s] by (cases "sw l s") simp_all
  qed (use Cons in simp_all)
qed simp

definition conf_text :: "conf_item list \<Rightarrow> string" where
  "conf_text is = concat (map item_text is)"

fun item_modes :: "conf_item list \<Rightarrow> (string \<times> (string \<times> string) list) list" where
  "item_modes [] = []"
| "item_modes (Block b0 b m t ls e # is) = (m, line_pairs ls) # item_modes is"
| "item_modes (_ # is) = item_modes is"

definition conf_ok :: "conf_item list \<Rightarrow> bool" where
  "conf_ok is \<longleftrightarrow> list_all item_ok is \<and> distinct (map fst (item_modes is)) \<and>
     length (conf_text is) < MAX_CONF_FILE_SIZE"

section \<open>One line\<close>

lemma blanks_Nil [simp]: "blanks []"
  by (simp add: blanks_def)

lemma blanks_Cons [simp]: "blanks (c # s) \<longleftrightarrow> blank c \<and> blanks s"
  by (simp add: blanks_def)

lemma blank_chars [simp]: "blank (CHR '' '')" "blank TAB" "\<not> blank NUL" "\<not> blank NL"
  "\<not> blank (CHR ''#'')" "\<not> blank (CHR ''='')" "\<not> blank (CHR ''-'')" "\<not> blank (CHR ''@'')"
  by (simp_all add: blank_def)

lemma blanks_notin: "blanks s \<Longrightarrow> \<not> blank c \<Longrightarrow> c \<notin> set s"
  by (auto simp: blanks_def list_all_iff)

lemma no_nul_blanks [simp]: "blanks s \<Longrightarrow> no_nul s"
  by (simp add: no_nul_def blanks_notin)

lemma dropWhile_blanks: "blanks b \<Longrightarrow> dropWhile blank (b @ s) = dropWhile blank s"
  by (simp add: blanks_def list_all_iff dropWhile_append2)

lemma takeWhile_word: "conf_word w \<Longrightarrow> blanks b \<Longrightarrow> takeWhile (\<lambda>c. \<not> blank c) (w @ b) = w"
  by (cases b) (auto simp: conf_word_def list_all_iff takeWhile_append2 takeWhile_eq_all_conv)

lemma conf_wordD:
  assumes "conf_word w"
  shows "w \<noteq> []" "length w < 127" "last w \<noteq> CR" "no_nul w" "NL \<notin> set w" "CHR ''#'' \<notin> set w"
    "\<not> blank (hd w)" "dropWhile blank (w @ s) = w @ s"
proof -
  show "w \<noteq> []" "length w < 127" "last w \<noteq> CR" "no_nul w" "NL \<notin> set w" "CHR ''#'' \<notin> set w" "\<not> blank (hd w)"
    using assms by (auto simp: conf_word_def list_all_iff no_nul_def conf_consts)
  then show "dropWhile blank (w @ s) = w @ s" by (cases w) auto
qed

lemma fill_line_all:
  "no_nul s \<Longrightarrow> length s < n \<Longrightarrow> fill_line n (s @ t) (int (length s)) = Some s"
  by (simp add: fill_line_def)

lemma get_string_word:
  assumes "blanks b1" "conf_word w" "blanks b2" "length b1 + length w + length b2 < 256"
  shows "get_string dst (b1 @ w @ b2 @ s) (int (length b1 + length w + length b2)) = Some (w, 0)"
proof -
  have "fill_line 256 ((b1 @ w @ b2) @ s) (int (length (b1 @ w @ b2))) = Some (b1 @ w @ b2)"
    using assms conf_wordD [OF assms(2)] by (intro fill_line_all) auto
  then have "fill_line 256 (b1 @ w @ b2 @ s) (int (length b1 + length w + length b2)) = Some (b1 @ w @ b2)"
    by (simp add: add.assoc)
  then show ?thesis
    using conf_wordD [OF assms(2)] takeWhile_word [OF assms(2,3)] assms(1)
    by (simp add: get_string_def Let_def dropWhile_blanks conf_consts)
qed

lemma get_string_rest:
  assumes "blanks b1" "conf_word w" "blanks b2" "length b1 + length w + length b2 < 256"
  shows "get_string dst (b1 @ w @ b2 @ [NUL]) (- 1) = Some (w, 0)"
proof -
  have "no_nul (b1 @ w @ b2)" using assms conf_wordD [OF assms(2)] by simp
  then have "strlen ((b1 @ w @ b2) @ NUL # []) = Some (int (length (b1 @ w @ b2)))"
    by (rule strlen_terminated)
  then have "strlen (b1 @ w @ b2 @ [NUL]) = Some (int (length b1 + length w + length b2))"
    by (simp add: add.assoc)
  then show ?thesis
    using get_string_word [OF assms, of dst "[NUL]"] by (simp add: get_string_def)
qed

lemma line_handle_setting:
  assumes "line_ok (Setting b1 k b2 b3 v t)"
  shows "iri_conf_line_handle slot (b1 @ k @ b2 @ ''='' @ b3 @ v @ fst t @ s)
      (int (length b1 + length k + length b2 + 1 + length b3 + length v + length (fst t)))
    = Some (\<lparr>name = k, value = v\<rparr>, 0)"
proof -
  define line where "line = b1 @ k @ b2 @ ''='' @ b3 @ v @ fst t"
  have w: "conf_word k" "conf_word v" "blanks b1" "blanks b2" "blanks b3" "blanks (fst t)"
    "CHR ''='' \<notin> set k" and
    len: "length b1 + length k + length b2 + length b3 + length v + length (fst t) < 255"
    using assms by (auto simp: conf_key_def tail_ok_def)
  have "no_nul line" using w conf_wordD(4) by (auto simp: line_def)
  then have fl: "fill_line 256 (b1 @ k @ b2 @ ''='' @ b3 @ v @ fst t @ s)
      (int (length b1 + length k + length b2 + 1 + length b3 + length v + length (fst t))) = Some line"
    using fill_line_all [of line 256 s] len by (simp add: line_def add.assoc)
  have "CHR ''='' \<notin> set (b1 @ k @ b2)" using w by (auto simp: blanks_notin)
  then have sc: "strchr line (CHR ''='') = Some (length b1 + length k + length b2)"
    using strchr_first [of "CHR ''=''" "b1 @ k @ b2" "b3 @ v @ fst t"] by (simp add: line_def add.assoc)
  have g1: "get_string d (line @ [NUL]) (int (length b1 + length k + length b2)) = Some (k, 0)" for d
    using get_string_word [OF w(3) w(1) w(4), of d "''='' @ b3 @ v @ fst t @ [NUL]"] len
    by (simp add: line_def)
  have dr: "drop (Suc (length b1 + length k + length b2)) line = b3 @ v @ fst t" by (simp add: line_def)
  have g2: "get_string d (b3 @ v @ fst t @ [NUL]) (- 1) = Some (v, 0)" for d
    using get_string_rest [OF w(5) w(2) w(6)] len by simp
  show ?thesis
    using fl sc g1 g2 dr len by (simp add: iri_conf_line_handle_def Let_def)
qed

lemma check_comment_words:
  assumes "no_nul pre" "CHR ''#'' \<notin> set pre" "\<not> blanks pre" "length (pre @ cm) < 1024"
    "cm = [] \<or> (\<exists>c. cm = CHR ''#'' # c \<and> no_nul c)"
  shows "check_comment_line (pre @ cm) (int (length (pre @ cm))) = Some (int (length pre))"
proof -
  have nn: "no_nul (pre @ cm)" using assms(1,5) by auto
  have fl: "fill_line 1024 (pre @ cm) (int (length (pre @ cm))) = Some (pre @ cm)"
    using fill_line_all [OF nn, of 1024 "[]"] assms(4) by simp
  show ?thesis
  proof (cases "cm = []")
    case True
    with fl assms(2) show ?thesis
      by (simp add: check_comment_line_def conf_consts option.case_eq_if)
  next
    case False
    then have "strchr (pre @ cm) (CHR ''#'') = Some (length pre)" using assms(2,5) by auto
    with fl assms(3) show ?thesis
      by (simp add: check_comment_line_def conf_consts blanks_def del: length_append of_nat_add)
  qed
qed

lemma tail_text_cases:
  assumes "tail_ok t"
  obtains cm where "tail_text t = fst t @ cm" "cm = [] \<or> (\<exists>c. cm = CHR ''#'' # c \<and> no_nul c \<and> NL \<notin> set c)"
  using assms by (auto simp: tail_text_def tail_ok_def no_nul_def split: option.splits)

lemma check_comment_setting:
  assumes "line_ok (Setting b1 k b2 b3 v t)"
  shows "check_comment_line (line_text (Setting b1 k b2 b3 v t)) (int (length (line_text (Setting b1 k b2 b3 v t))))
    = Some (int (length b1 + length k + length b2 + 1 + length b3 + length v + length (fst t)))"
proof -
  define pre where "pre = b1 @ k @ b2 @ ''='' @ b3 @ v @ fst t"
  have ok: "conf_word k" "conf_word v" "blanks b1" "blanks b2" "blanks b3" "blanks (fst t)" "tail_ok t"
    using assms by (auto simp: conf_key_def tail_ok_def)
  obtain cm where cm: "tail_text t = fst t @ cm" "cm = [] \<or> (\<exists>c. cm = CHR ''#'' # c \<and> no_nul c)"
    using tail_text_cases [OF ok(7)] by metis
  have "check_comment_line (pre @ cm) (int (length (pre @ cm))) = Some (int (length pre))"
  proof (rule check_comment_words)
    show "no_nul pre" "CHR ''#'' \<notin> set pre"
      using ok conf_wordD(4,6) by (auto simp: pre_def blanks_notin)
    have "CHR ''='' \<in> set pre" by (simp add: pre_def)
    then show "\<not> blanks pre" using blanks_notin [of pre] by auto
    show "length (pre @ cm) < 1024" using assms cm(1) by (simp add: pre_def)
  qed (rule cm(2))
  then show ?thesis by (simp add: pre_def cm(1) add.assoc)
qed

lemma check_comment_mode:
  assumes "blanks b" "conf_word m" "tail_ok t" "length b + length m + length (tail_text t) < 1024"
  shows "check_comment_line (b @ m @ tail_text t) (int (length (b @ m @ tail_text t)))
    = Some (int (length b + length m + length (fst t)))"
proof -
  obtain cm where cm: "tail_text t = fst t @ cm" "cm = [] \<or> (\<exists>c. cm = CHR ''#'' # c \<and> no_nul c)"
    using tail_text_cases [OF assms(3)] by metis
  have bt: "blanks (fst t)" using assms(3) by (simp add: tail_ok_def)
  have "check_comment_line ((b @ m @ fst t) @ cm) (int (length ((b @ m @ fst t) @ cm)))
      = Some (int (length (b @ m @ fst t)))"
  proof (rule check_comment_words)
    show "no_nul (b @ m @ fst t)" "CHR ''#'' \<notin> set (b @ m @ fst t)"
      using assms bt conf_wordD(4,6) by (auto simp: blanks_notin)
    have "hd m \<in> set (b @ m @ fst t)" using conf_wordD(1) [OF assms(2)] by simp
    then show "\<not> blanks (b @ m @ fst t)" using blanks_notin conf_wordD(7) [OF assms(2)] by blast
    show "length ((b @ m @ fst t) @ cm) < 1024" using assms(4) cm(1) by simp
  qed (rule cm(2))
  then show ?thesis by (simp add: cm(1) add.assoc)
qed

lemma check_comment_remark:
  assumes "line_ok l" "\<And>b1 k b2 b3 v t. l \<noteq> Setting b1 k b2 b3 v t"
  shows "check_comment_line (line_text l) (int (length (line_text l))) = Some 0"
proof (cases l)
  case EmptyLine
  then show ?thesis by (simp add: check_comment_line_def fill_line_def conf_consts)
next
  case (Remark b t)
  then have ok: "blanks b" "no_nul (b @ CHR ''#'' # t)" "length (b @ CHR ''#'' # t) < 1024"
    using assms(1) by (auto simp: no_nul_def blanks_notin)
  then have "strchr (b @ CHR ''#'' # t) (CHR ''#'') = Some (length b)"
    by (intro strchr_first) (simp add: blanks_notin)
  then show ?thesis using fill_line_all [OF ok(2,3), of "[]"] ok(1)
    by (simp add: Remark check_comment_line_def conf_consts blanks_def)
qed (use assms in auto)

lemma line_text_no_nl: "line_ok l \<Longrightarrow> NL \<notin> set (line_text l)"
  by (cases l) (auto simp: blanks_notin conf_key_def dest: conf_wordD(5) elim!: tail_text_cases split: option.splits
    simp: tail_ok_def tail_text_def)

lemma line_text_short: "line_ok l \<Longrightarrow> length (line_text l) \<le> MAX_LINE_LEN - 1"
  by (cases l) (auto simp: conf_consts)

section \<open>One block\<close>

definition pair_of :: "string \<times> string \<Rightarrow> single_conf_pair_t" where
  "pair_of kv = \<lparr>name = fst kv, value = snd kv\<rparr>"

text \<open>The object for a mode and its pairs.\<close>

definition block_pairs :: "string \<Rightarrow> (string \<times> string) list \<Rightarrow> conf_pairs_t" where
  "block_pairs m kvs =
     \<lparr>mode_name = m, pairs = map pair_of kvs @ replicate (CONF_MAX_NODE_NUM - length kvs) empty_pair,
      cur_pos = int (length kvs)\<rparr>"

text \<open>One step of the block loop on a complete line.\<close>

lemma block_loop_line:
  assumes "NL \<notin> set l" "length l \<le> MAX_LINE_LEN - 1"
  shows "handle_conf_block_loop mok cp (l @ NL # rest) = do {
     len \<leftarrow> check_comment_line l (int (length l));
     if len > 0 then
       case cp of
         None \<Rightarrow> if \<not> mok then Some None
           else do {
             (mn, r) \<leftarrow> get_string [] l len;
             if r < 0 then Some None
             else handle_conf_block_loop mok (Some (empty_pairs\<lparr>mode_name := mn\<rparr>)) rest }
       | Some c \<Rightarrow> do {
           slot \<leftarrow> aget (pairs c) (cur_pos c);
           (pair, r) \<leftarrow> iri_conf_line_handle slot l len;
           if r < 0 then Some None
           else do {
             pairs' \<leftarrow> aset (pairs c) (cur_pos c) pair;
             let c' = c\<lparr>pairs := pairs', cur_pos := cur_pos c + 1\<rparr>;
             if cur_pos c' \<ge> int CONF_MAX_NODE_NUM then Some (Some c')
             else handle_conf_block_loop mok (Some c') rest } }
     else handle_conf_block_loop mok cp rest }"
proof -
  have "\<forall>x \<in> set l. x \<noteq> NL" using assms(1) by metis
  then have tw: "takeWhile (\<lambda>c. c \<noteq> NL) (l @ NL # rest) = l" "dropWhile (\<lambda>c. c \<noteq> NL) (l @ NL # rest) = NL # rest"
    by (simp_all add: takeWhile_append2 dropWhile_append2)
  show ?thesis
    unfolding handle_conf_block_loop.simps [of mok cp "l @ NL # rest"] Let_def tw list.sel
    using assms(2) by simp
qed

lemma block_loop_skip:
  assumes "line_ok l" "\<And>b1 k b2 b3 v t. l \<noteq> Setting b1 k b2 b3 v t"
  shows "handle_conf_block_loop mok cp (line_text l @ NL # rest) = handle_conf_block_loop mok cp rest"
  using block_loop_line [OF line_text_no_nl line_text_short, OF assms(1,1), of mok cp rest]
    check_comment_remark [OF assms] by simp

lemma block_loop_setting:
  assumes l: "l = Setting b1 k b2 b3 v t" and "line_ok l" "0 \<le> cur_pos c" "cur_pos c < int (length (pairs c))"
  shows "handle_conf_block_loop mok (Some c) (line_text l @ NL # rest) =
    (let c' = c\<lparr>pairs := (pairs c)[nat (cur_pos c) := pair_of (k, v)], cur_pos := cur_pos c + 1\<rparr>
     in if cur_pos c + 1 \<ge> int CONF_MAX_NODE_NUM then Some (Some c')
        else handle_conf_block_loop mok (Some c') rest)"
proof -
  have ok: "line_ok (Setting b1 k b2 b3 v t)" using assms by simp
  obtain cm where cm: "line_text l = b1 @ k @ b2 @ ''='' @ b3 @ v @ fst t @ cm"
    using ok by (auto simp: l tail_text_def)
  note cc = check_comment_setting [OF ok, folded l]
  have lh: "iri_conf_line_handle slot (line_text l)
      (int (length b1 + length k + length b2 + 1 + length b3 + length v + length (fst t)))
    = Some (pair_of (k, v), 0)" for slot
    unfolding cm using line_handle_setting [OF ok] by (simp add: pair_of_def)
  show ?thesis
    unfolding block_loop_line [OF line_text_no_nl line_text_short, OF assms(2,2)] cc
    using assms(3,4) lh by (simp add: aget_def aset_def Let_def)
qed

text \<open>The state of the loop after \<open>kvs\<close>, and the rest of the lines of the block.\<close>

lemma block_pairs_snoc:
  assumes "length kvs < CONF_MAX_NODE_NUM"
  shows "(block_pairs m kvs)\<lparr>pairs := (pairs (block_pairs m kvs))[length kvs := pair_of kv],
      cur_pos := int (length kvs) + 1\<rparr> = block_pairs m (kvs @ [kv])"
proof -
  obtain n where n: "CONF_MAX_NODE_NUM - length kvs = Suc n"
    using assms by (metis Suc_diff_Suc)
  then have "CONF_MAX_NODE_NUM - Suc (length kvs) = n" by simp
  with n show ?thesis by (simp add: block_pairs_def list_update_append)
qed

lemma block_loop_body:
  "list_all line_ok ls \<Longrightarrow> length kvs < CONF_MAX_NODE_NUM \<Longrightarrow>
     length kvs + length (line_pairs ls) \<le> CONF_MAX_NODE_NUM \<Longrightarrow>
   handle_conf_block_loop mok (Some (block_pairs m kvs)) (lines_text ls) =
     Some (Some (block_pairs m (kvs @ line_pairs ls)))"
proof (induction ls arbitrary: kvs)
  case Nil
  then show ?case by (simp add: lines_text_def handle_conf_block_loop.simps [of _ _ "[]"])
next
  case (Cons l ls)
  have tx: "lines_text (l # ls) = line_text l @ NL # lines_text ls" by (simp add: lines_text_def)
  have skip: ?case if no: "\<And>b1 k b2 b3 v t. l \<noteq> Setting b1 k b2 b3 v t"
  proof -
    have "line_pairs (l # ls) = line_pairs ls" by (cases l; simp) (use no in blast)
    with Cons show ?thesis unfolding tx by (simp add: block_loop_skip [OF _ no])
  qed
  show ?case
  proof (cases l)
    case (Setting b1 k b2 b3 v t)
    have cur: "cur_pos (block_pairs m kvs) = int (length kvs)"
      "length (pairs (block_pairs m kvs)) = CONF_MAX_NODE_NUM"
      using Cons.prems(2) by (simp_all add: block_pairs_def)
    have step: "handle_conf_block_loop mok (Some (block_pairs m kvs)) (lines_text (l # ls)) =
      (if Suc (length kvs) \<ge> CONF_MAX_NODE_NUM then Some (Some (block_pairs m (kvs @ [(k, v)])))
       else handle_conf_block_loop mok (Some (block_pairs m (kvs @ [(k, v)]))) (lines_text ls))"
      unfolding tx using Cons.prems
      by (subst block_loop_setting [OF Setting])
        (auto simp: cur Let_def block_pairs_snoc)
    show ?thesis
    proof (cases "Suc (length kvs) \<ge> CONF_MAX_NODE_NUM")
      case True
      have "Suc (length kvs) + length (line_pairs ls) \<le> CONF_MAX_NODE_NUM"
        using Cons.prems(3) Setting by simp
      with True have "length (line_pairs ls) = 0" by linarith
      with True step Setting show ?thesis by simp
    next
      case False
      then have "handle_conf_block_loop mok (Some (block_pairs m kvs)) (lines_text (l # ls)) =
          handle_conf_block_loop mok (Some (block_pairs m (kvs @ [(k, v)]))) (lines_text ls)"
        using step by simp
      also have "\<dots> = Some (Some (block_pairs m ((kvs @ [(k, v)]) @ line_pairs ls)))"
        using Cons.prems False Setting by (intro Cons.IH) auto
      finally show ?thesis using Setting by simp
    qed
  qed (rule skip; simp)+
qed

lemma handle_block_text:
  assumes "item_wf (Block b0 b m t ls e)"
  shows "handle_conf_block True (Some (b @ m @ tail_text t @ NL # lines_text ls @ rest)) rest =
    Some (Some (block_pairs m (line_pairs ls)))"
proof -
  have ok: "blanks b" "conf_word m" "tail_ok t" "blanks (fst t)" "list_all line_ok ls"
    "length (line_pairs ls) \<le> CONF_MAX_NODE_NUM"
    and len: "length b + length m + length (fst t) < 256" "length b + length m + length (tail_text t) < 1024"
    using assms by (auto simp: tail_ok_def)
  have "NL \<notin> set (tail_text t)" 
    by (rule tail_text_cases [OF ok(3)]) (use ok(4) in \<open>auto simp: blanks_notin\<close>)
  then have nl: "NL \<notin> set (b @ m @ tail_text t)"
    using ok by (auto simp: blanks_notin dest: conf_wordD(5))
  obtain cm where cm: "tail_text t = fst t @ cm" by (simp add: tail_text_def)
  have gs: "get_string [] (b @ m @ tail_text t) (int (length b + length m + length (fst t))) = Some (m, 0)"
    unfolding cm using get_string_word [OF ok(1,2,4) len(1)] by simp
  define n where "n = length b + length m + length (fst t)"
  have n: "0 < int n" using conf_wordD(1) [OF ok(2)] by (simp add: n_def del: of_nat_add)
  have ep: "empty_pairs\<lparr>mode_name := m\<rparr> = block_pairs m []"
    by (simp add: empty_pairs_def block_pairs_def)
  have body: "handle_conf_block_loop True (Some (block_pairs m [])) (lines_text ls)
      = Some (Some (block_pairs m (line_pairs ls)))"
    using block_loop_body [of ls "[]"] ok by (simp add: conf_consts)
  have "length (b @ m @ tail_text t) \<le> MAX_LINE_LEN - 1" using len(2) by (simp add: conf_consts)
  note step = block_loop_line [OF nl this, of True None "lines_text ls"]
  have "handle_conf_block_loop True None ((b @ m @ tail_text t) @ NL # lines_text ls) =
      Some (Some (block_pairs m (line_pairs ls)))"
    unfolding step check_comment_mode [OF ok(1-3) len(2), folded n_def]
    using n by (simp add: gs [folded n_def] ep body)
  then show ?thesis by (simp add: handle_conf_block_def)
qed

section \<open>The lines of a file\<close>

lemma skip_line_at: "NL \<notin> set l \<Longrightarrow> skip_line (l @ NL # rest) = NL # rest"
  unfolding skip_line_def by (subst dropWhile_append2) auto

lemma skip_blanks_at: "blanks b \<Longrightarrow> \<not> blank c \<Longrightarrow> skip_blanks (b @ c # s) = c # s"
  by (simp add: skip_blanks_def dropWhile_blanks)

lemma deref_Cons [simp]: "deref full (c # p) = Some c"
  by (simp add: deref_def)

lemma tail_no_nl: "tail_ok t \<Longrightarrow> NL \<notin> set (tail_text t)"
  by (auto simp: tail_ok_def tail_text_def blanks_notin split: option.splits)

section \<open>The table\<close>

text \<open>
  The state after a load: a live table in which the key of every entry points into the object
  that is its value, that object is alive, and carries the name it is entered under.
\<close>

definition pairs_list :: "conf_pairs_t \<Rightarrow> (string \<times> string) list" where
  "pairs_list c = map (\<lambda>p. (name p, value p)) (take (nat (cur_pos c)) (pairs c))"

definition conf_inv :: "'t conf_hash \<Rightarrow> 't conf_world \<Rightarrow> bool" where
  "conf_inv h w \<longleftrightarrow> (\<exists>t. iri_conf (manager w) = LiveTab t \<and>
     (\<forall>k p v. gh_lookup h t k = Some (p, v) \<longrightarrow> p = v \<and> v < brk w \<and>
        (\<exists>c. mem w v = Some c \<and> mode_name c = k \<and> cur_pos c \<le> int (length (pairs c)))))"

text \<open>What a client sees: the pairs of each mode.\<close>

definition conf_view :: "'t conf_hash \<Rightarrow> 't conf_world \<Rightarrow> string \<Rightarrow> (string \<times> string) list option" where
  "conf_view h w mode =
     (case iri_conf (manager w) of
        LiveTab t \<Rightarrow> do { (p, v) \<leftarrow> gh_lookup h t mode; c \<leftarrow> mem w v; Some (pairs_list c) }
      | _ \<Rightarrow> None)"

text \<open>The addresses that are values of the table; \<open>no_leak\<close>: every live object is one of them.\<close>

definition owned :: "'t conf_hash \<Rightarrow> 't conf_world \<Rightarrow> addr set" where
  "owned h w = {v. \<exists>t k p. iri_conf (manager w) = LiveTab t \<and> gh_lookup h t k = Some (p, v)}"

definition no_leak :: "'t conf_hash \<Rightarrow> 't conf_world \<Rightarrow> bool" where
  "no_leak h w \<longleftrightarrow> (\<forall>a. mem w a \<noteq> None \<longrightarrow> a \<in> owned h w)"

lemma block_pairs_facts [simp]:
  "length kvs \<le> CONF_MAX_NODE_NUM \<Longrightarrow> cur_pos (block_pairs m kvs) \<le> int (length (pairs (block_pairs m kvs)))"
  "pairs_list (block_pairs m kvs) = kvs" "mode_name (block_pairs m kvs) = m"
  by (simp_all add: block_pairs_def pairs_list_def pair_of_def comp_def)

lemma insert_fresh:
  assumes laws: "ghash_laws h" and inv: "conf_inv h w" and fresh: "conf_view h w m = None"
    and n: "length kvs \<le> CONF_MAX_NODE_NUM"
  shows "returns (insert_new_node h (brk w) (w\<lparr>mem := (mem w)(brk w \<mapsto> block_pairs m kvs), brk := Suc (brk w)\<rparr>))
    (\<lambda>w'. conf_inv h w' \<and> conf_view h w' = (conf_view h w)(m \<mapsto> kvs) \<and> (no_leak h w \<longrightarrow> no_leak h w') \<and>
       mode_count (manager w') = mode_count (manager w) \<and> init_flag (manager w') = init_flag (manager w))"
proof -
  obtain t where t: "iri_conf (manager w) = LiveTab t"
    and ent: "\<And>k p v. gh_lookup h t k = Some (p, v) \<Longrightarrow> p = v \<and> v < brk w \<and>
        (\<exists>c. mem w v = Some c \<and> mode_name c = k \<and> cur_pos c \<le> int (length (pairs c)))"
    using inv by (auto simp: conf_inv_def)
  have none: "gh_lookup h t m = None"
    using fresh ent t by (fastforce simp: conf_view_def split: Option.bind_splits)
  obtain t' ks vs where ins: "gh_insert h t m (brk w) (brk w) = (t', ks, vs)"
    by (metis prod_cases3)
  note il = gh_insert_laws [OF laws ins]
  let ?w' = "w\<lparr>mem := (mem w)(brk w \<mapsto> block_pairs m kvs), brk := Suc (brk w),
    manager := (manager w)\<lparr>iri_conf := LiveTab t'\<rparr>\<rparr>"
  have run: "insert_new_node h (brk w) (w\<lparr>mem := (mem w)(brk w \<mapsto> block_pairs m kvs), brk := Suc (brk w)\<rparr>) = Some ?w'"
    using il(3) by (simp add: insert_new_node_def t none ins table_lookup_def)
  have lk: "gh_lookup h t' = (gh_lookup h t)(m \<mapsto> (brk w, brk w))" using il(1) none by simp
  have "conf_inv h ?w'" using ent n by (auto simp: conf_inv_def lk less_Suc_eq)
  moreover have "conf_view h ?w' k = ((conf_view h w)(m \<mapsto> kvs)) k" for k
    using ent [of k] by (cases "gh_lookup h t k") (auto simp: conf_view_def lk t)
  moreover have "no_leak h ?w'" if nl: "no_leak h w"
    unfolding no_leak_def
  proof (intro allI impI)
    fix a assume a: "mem ?w' a \<noteq> None"
    show "a \<in> owned h ?w'"
    proof (cases "a = brk w")
      case False
      with a nl obtain k p where "gh_lookup h t k = Some (p, a)" by (auto simp: no_leak_def owned_def t)
      moreover from this none have "k \<noteq> m" by auto
      ultimately have "gh_lookup h t' k = Some (p, a)" by (simp add: lk)
      then show ?thesis by (auto simp: owned_def)
    qed (auto simp: owned_def lk)
  qed
  ultimately show ?thesis unfolding run by auto
qed

lemma count_conf_view [simp]:
  "conf_inv h (w\<lparr>manager := (manager w)\<lparr>mode_count := n\<rparr>\<rparr>) = conf_inv h w"
  "conf_view h (w\<lparr>manager := (manager w)\<lparr>mode_count := n\<rparr>\<rparr>) = conf_view h w"
  "no_leak h (w\<lparr>manager := (manager w)\<lparr>mode_count := n\<rparr>\<rparr>) = no_leak h w"
  by (simp_all add: conf_inv_def conf_view_def no_leak_def owned_def fun_eq_iff split: tabptr.split)

section \<open>Scanners of configuration files\<close>

text \<open>
  The reader of \<open>utils/config\<close> and the one of the log library share their main loop, except for
  what a switch line does. \<open>block_scanner\<close> is what the proofs need of such a loop: its state holds
  a \<open>conf_world\<close> (read with \<open>wof\<close>, written with \<open>upd\<close>); \<open>sw\<close> is the effect of a switch line that does
  not stop the loop.
\<close>

locale block_scanner =
  fixes h :: "'t conf_hash" and mal :: "nat \<Rightarrow> bool" and full :: bool
    and scan :: "char list \<Rightarrow> char list option \<Rightarrow> 's \<Rightarrow> 'r option"
    and wof :: "'s \<Rightarrow> 't conf_world" and upd :: "'t conf_world \<Rightarrow> 's \<Rightarrow> 's"
    and sw :: "string \<Rightarrow> 's \<Rightarrow> 's option"
  assumes step_plain: "p \<noteq> [] \<Longrightarrow> skip_blanks p = c1 # s1 \<Longrightarrow>
      (if c1 = CHR ''#'' then skip_line (c1 # s1) else c1 # s1) = c2 # s2 \<Longrightarrow>
      c2 \<noteq> CHR ''@'' \<Longrightarrow> c2 \<noteq> CHR ''-'' \<Longrightarrow> skip_line (c2 # s2) = NL # rest \<Longrightarrow> scan p ob s = scan rest ob s"
    and step_end: "p \<noteq> [] \<Longrightarrow> skip_blanks p = p \<Longrightarrow> deref full p = Some (CHR ''-'') \<Longrightarrow>
      strncmp_eq full p ''-end'' = Some True \<Longrightarrow> skip_line p = NL # rest \<Longrightarrow>
      scan p (Some b) s = do { w' \<leftarrow> finish_block h mal (Some b) p (wof s); scan rest None (upd w' s) }"
    and step_open: "p \<noteq> [] \<Longrightarrow> skip_blanks p = CHR ''-'' # q \<Longrightarrow> skip_line q = NL # rest \<Longrightarrow>
      scan p None s = scan rest (Some q) s"
    and step_switch: "p \<noteq> [] \<Longrightarrow> skip_blanks p = CHR ''@'' # q \<Longrightarrow> skip_line q = NL # rest \<Longrightarrow>
      sw (takeWhile (\<lambda>c. c \<noteq> NL) q) s = Some s' \<Longrightarrow> scan p ob s = scan rest ob s'"
    and wof_upd [simp]: "wof (upd w s) = w"
    and upd_upd [simp]: "upd w (upd w' s) = upd w s"
    and upd_wof [simp]: "upd (wof s) s = s"
    and sw_wof: "sw l s = Some s' \<Longrightarrow> wof s' = wof s"
    and sw_upd: "sw l (upd w s) = map_option (upd w) (sw l s)"
begin

lemma other_line:
  assumes "NL \<notin> set l" "blanks b" "l = b @ f" "f = [] \<or> (\<exists>c g. f = c # g \<and> \<not> blank c \<and> c \<noteq> CHR ''@'' \<and> c \<noteq> CHR ''-'')"
  shows "scan (l @ NL # rest) ob s = scan rest ob s"
proof -
  have nl: "skip_line (NL # rest) = NL # rest" using skip_line_at [of "[]"] by simp
  show ?thesis
  proof (cases f)
    case Nil
    then have "skip_blanks (l @ NL # rest) = NL # rest" using assms(2,3) skip_blanks_at [of b] by simp
    then show ?thesis by (intro step_plain [of _ NL rest NL rest]) (use nl in simp_all)
  next
    case (Cons c g)
    with assms(4) have c: "\<not> blank c" "c \<noteq> CHR ''@''" "c \<noteq> CHR ''-''" by auto
    then have p1: "skip_blanks (l @ NL # rest) = c # g @ NL # rest"
      using assms(2,3) skip_blanks_at [of b] Cons by simp
    have sl: "skip_line (c # g @ NL # rest) = NL # rest"
      using assms(1,3) Cons skip_line_at [of "c # g"] by simp
    show ?thesis
      by (rule step_plain [OF _ p1, of "if c = CHR ''#'' then NL else c"
            "if c = CHR ''#'' then rest else g @ NL # rest"]) (use c sl nl in auto)
  qed
qed

lemma switch_line:
  assumes "NL \<notin> set l" "blanks b" "sw l s = Some s'"
  shows "scan (b @ CHR ''@'' # l @ NL # rest) ob s = scan rest ob s'"
proof -
  have tw: "takeWhile (\<lambda>c. c \<noteq> NL) (l @ NL # rest) = l"
    by (subst takeWhile_append2) (use assms(1) in auto)
  have p1: "skip_blanks (b @ CHR ''@'' # l @ NL # rest) = CHR ''@'' # l @ NL # rest"
    using skip_blanks_at [OF assms(2)] by simp
  show ?thesis
    by (rule step_switch [OF _ p1 skip_line_at [OF assms(1)], unfolded tw, OF _ assms(3)]) simp
qed

lemma plain_line:
  assumes "line_ok l"
  shows "scan (line_text l @ NL # rest) ob s = scan rest ob s"
proof (cases l)
  case EmptyLine
  then show ?thesis using other_line [of "[]" "[]" "[]"] by simp
next
  case (Remark b t)
  then show ?thesis
    using assms line_text_no_nl [OF assms] other_line [of "line_text l" b "CHR ''#'' # t"] by simp
next
  case (Setting b1 k b2 b3 v t)
  then obtain c g where "k = c # g" "\<not> blank c" "c \<noteq> CHR ''@''" "c \<noteq> CHR ''-''"
    using assms conf_wordD(1,7) [of k] by (cases k) (auto simp: conf_key_def)
  then show ?thesis
    using assms Setting line_text_no_nl [OF assms]
      other_line [of "line_text l" b1 "k @ b2 @ ''='' @ b3 @ v @ tail_text t"] by simp
qed

lemma plain_lines: "list_all line_ok ls \<Longrightarrow> scan (lines_text ls @ rest) ob s = scan rest ob s"
  by (induction ls) (simp_all add: lines_text_def plain_line)

text \<open>A whole block: parsed, and its object entered into the table.\<close>

lemma whole_block:
  assumes ok: "item_wf (Block b0 b m t ls e)" and mal: "\<And>n. mal n"
  shows "scan (item_text (Block b0 b m t ls e) @ rest) None s = do {
     w1 \<leftarrow> insert_new_node h (brk (wof s))
       ((wof s)\<lparr>mem := (mem (wof s))(brk (wof s) \<mapsto> block_pairs m (line_pairs ls)), brk := Suc (brk (wof s))\<rparr>);
     scan rest None (upd (w1\<lparr>manager := (manager w1)\<lparr>mode_count := mode_count (manager w1) + 1\<rparr>\<rparr>) s) }"
proof -
  define eb where "eb = ''-end'' @ e @ NL # rest"
  define q where "q = b @ m @ tail_text t @ NL # lines_text ls @ eb"
  have nl: "NL \<notin> set (b @ m @ tail_text t)"
    using ok by (auto simp: blanks_notin tail_no_nl dest: conf_wordD(5))
  have fb: "finish_block h mal (Some q) eb w = do {
     w1 \<leftarrow> insert_new_node h (brk w)
       (w\<lparr>mem := (mem w)(brk w \<mapsto> block_pairs m (line_pairs ls)), brk := Suc (brk w)\<rparr>);
     Some (w1\<lparr>manager := (manager w1)\<lparr>mode_count := mode_count (manager w1) + 1\<rparr>\<rparr>) }" for w
    using handle_block_text [OF ok, of eb] mal by (simp add: finish_block_def q_def)
  have "scan (b0 @ CHR ''-'' # q) None s = scan (lines_text ls @ eb) (Some q) s"
    using ok skip_blanks_at [of b0] skip_line_at [OF nl] by (intro step_open) (simp_all add: q_def)
  also have "\<dots> = scan eb (Some q) s" using ok by (simp add: plain_lines)
  also have "\<dots> = do { w' \<leftarrow> finish_block h mal (Some q) eb (wof s); scan rest None (upd w' s) }"
  proof (rule step_end)
    have "skip_line ((''-end'' @ e) @ NL # rest) = NL # rest"
      using ok by (intro skip_line_at) auto
    then show "skip_line eb = NL # rest" by (simp add: eb_def)
  qed (simp_all add: eb_def skip_blanks_def)
  finally show ?thesis unfolding fb by (simp add: eb_def q_def)
qed

lemma whole_text:
  assumes laws: "ghash_laws h" and mal: "\<And>n. mal n"
  shows "list_all item_wf is \<Longrightarrow> distinct (map fst (item_modes is)) \<Longrightarrow> conf_inv h (wof s) \<Longrightarrow>
     (\<And>m. m \<in> fst ` set (item_modes is) \<Longrightarrow> conf_view h (wof s) m = None) \<Longrightarrow> run_sw sw is s = Some s1 \<Longrightarrow>
   \<exists>w'. (\<forall>rest. scan (conf_text is @ rest) None s = scan rest None (upd w' s1)) \<and>
     conf_inv h w' \<and> conf_view h w' = conf_view h (wof s) ++ map_of (item_modes is) \<and> (no_leak h (wof s) \<longrightarrow> no_leak h w') \<and>
     mode_count (manager w') = mode_count (manager (wof s)) + int (length (item_modes is))"
proof (induction "is" arbitrary: s s1)
  case Nil
  then show ?case by (intro exI [of _ "wof s"]) (simp add: conf_text_def)
next
  case (Cons i "is")
  have tx: "conf_text (j # is) @ r = item_text j @ conf_text is @ r" for j r by (simp add: conf_text_def)
  show ?case
  proof (cases i)
    case (Outside l)
    then show ?thesis using Cons.prems Cons.IH [of s s1] by (simp add: tx plain_line)
  next
    case (Switch b l)
    then obtain s2 where s2: "sw l s = Some s2" "run_sw sw is s2 = Some s1"
      using Cons.prems(5) by (auto split: Option.bind_splits)
    then show ?thesis
      using Cons.prems Switch Cons.IH [of s2 s1] by (simp add: tx switch_line sw_wof [OF s2(1)])
  next
    case (Block b0 b m t ls e)
    let ?kvs = "line_pairs ls" and ?w = "wof s"
    have n: "length ?kvs \<le> CONF_MAX_NODE_NUM" and ok: "item_wf (Block b0 b m t ls e)"
      using Cons.prems(1) Block by auto
    have m: "conf_view h ?w m = None" using Cons.prems(4) Block by simp
    obtain w1 where ins: "insert_new_node h (brk ?w) (?w\<lparr>mem := (mem ?w)(brk ?w \<mapsto> block_pairs m ?kvs), brk := Suc (brk ?w)\<rparr>) = Some w1"
      and w1: "conf_inv h w1" "conf_view h w1 = (conf_view h ?w)(m \<mapsto> ?kvs)" "no_leak h ?w \<longrightarrow> no_leak h w1"
         "mode_count (manager w1) = mode_count (manager ?w)"
      using insert_fresh [OF laws Cons.prems(3) m n] by (elim returnsE) auto
    define w2 where "w2 = w1\<lparr>manager := (manager w1)\<lparr>mode_count := mode_count (manager w1) + 1\<rparr>\<rparr>"
    have w2: "conf_inv h w2" "conf_view h w2 = conf_view h w1" "no_leak h w2 = no_leak h w1"
      "mode_count (manager w2) = mode_count (manager w1) + 1"
      using w1(1) by (simp_all add: w2_def)
    have rs: "run_sw sw is (upd w2 s) = Some (upd w2 s1)"
      using Cons.prems(5) Block by (simp add: run_sw_upd [of sw "upd w2", OF sw_upd])
    have fresh: "conf_view h (wof (upd w2 s)) x = None" if "x \<in> fst ` set (item_modes is)" for x
      using that Cons.prems(2) Cons.prems(4) [of x] w1(2) w2(2) Block by auto
    have "list_all item_wf is" "distinct (map fst (item_modes is))" "conf_inv h (wof (upd w2 s))"
      using Cons.prems(1,2) Block w2(1) by simp_all
    from Cons.IH [OF this fresh rs] obtain w' where
       w': "\<And>rest. scan (conf_text is @ rest) None (upd w2 s) = scan rest None (upd w' s1)"
       "conf_inv h w'" "conf_view h w' = conf_view h w1 ++ map_of (item_modes is)" "no_leak h w1 \<longrightarrow> no_leak h w'"
       "mode_count (manager w') = mode_count (manager w1) + 1 + int (length (item_modes is))"
      using w2(2-4) by auto
    have "scan (conf_text (i # is) @ rest) None s = scan rest None (upd w' s1)" for rest
      unfolding tx Block whole_block [OF ok mal] ins using w'(1) by (simp add: w2_def)
    moreover have "conf_view h w' = conf_view h ?w ++ map_of (item_modes (i # is))"
      using w'(3) w1(2) Cons.prems(2) Block by (auto simp: map_add_upd_left dom_map_of_conv_image_fst)
    moreover have "mode_count (manager w') = mode_count (manager ?w) + int (length (item_modes (i # is)))"
      using w'(5) w1(4) Block by simp
    ultimately show ?thesis using w'(2,4) w1(3) by blast
  qed
qed

end

text \<open>The reader of \<open>utils/config\<close> is such a scanner; a switch line has no effect or stops it.\<close>

definition conf_sw :: "string \<Rightarrow> 't conf_world \<Rightarrow> 't conf_world option" where
  "conf_sw l w = (if conf_switch_closes l then None else Some w)"

lemma skip_line_nl: "skip_line q = NL # rest \<Longrightarrow> q \<noteq> []"
  by (auto simp: skip_line_def)

interpretation cs: block_scanner h mal full "conf_scan h mal full" "\<lambda>w. w" "\<lambda>w w0. w" conf_sw for h mal full
proof (unfold_locales, goal_cases)
  case (1 p c1 s1 c2 s2 rest ob s)
  show ?case
    unfolding conf_scan.simps [of h mal full p ob s] Let_def 1(2) deref_Cons Option.bind.bind_lunit 1(3)
    using 1(1,4-6) by simp
next
  case (2 p rest b s)
  show ?case
    unfolding conf_scan.simps [of h mal full p "Some b" s] Let_def 2(2,3) Option.bind.bind_lunit
    using 2 by simp
next
  case (3 p q rest s)
  then show ?case by (simp add: conf_scan.simps [of h mal full p None s] Let_def)
next
  case (4 p q rest s s' ob)
  then show ?case by (auto simp: conf_scan.simps [of h mal full p ob s] Let_def conf_sw_def split: if_splits)
qed (auto simp: conf_sw_def split: if_splits)

lemma scan_switch_closes:
  assumes "NL \<notin> set l" "blanks b" "conf_switch_closes l"
  shows "conf_scan h mal full (b @ CHR ''@'' # l @ NL # rest) ob w = Some (w, CONF_CLOSE_ALL)"
proof -
  have p1: "skip_blanks (b @ CHR ''@'' # l @ NL # rest) = CHR ''@'' # l @ NL # rest"
    using skip_blanks_at [OF assms(2)] by simp
  have "takeWhile (\<lambda>c. c \<noteq> NL) (l @ NL # rest) = l"
    by (subst takeWhile_append2) (use assms(1) in auto)
  then show ?thesis using assms(3)
    by (simp add: conf_scan.simps [of _ _ _ "b @ CHR ''@'' # l @ NL # rest"] p1 Let_def)
qed

lemma run_conf_sw: "list_all item_ok is \<Longrightarrow> run_sw conf_sw is w = Some w"
  by (induction "is" rule: item_modes.induct) (auto simp: conf_sw_def item_ok_def split: conf_item.splits)

lemma scan_items:
  assumes laws: "ghash_laws h" and mal: "\<And>n. mal n" and ok: "list_all item_ok is"
  shows "distinct (map fst (item_modes is)) \<Longrightarrow> conf_inv h w \<Longrightarrow>
     (\<And>m. m \<in> fst ` set (item_modes is) \<Longrightarrow> conf_view h w m = None) \<Longrightarrow>
   \<exists>w'. (\<forall>rest. conf_scan h mal full (conf_text is @ rest) None w = conf_scan h mal full rest None w') \<and>
     conf_inv h w' \<and> conf_view h w' = conf_view h w ++ map_of (item_modes is) \<and> (no_leak h w \<longrightarrow> no_leak h w') \<and>
     mode_count (manager w') = mode_count (manager w) + int (length (item_modes is))"
proof -
  have wf: "list_all item_wf is" using ok by (auto simp: list_all_iff item_ok_def)
  show "distinct (map fst (item_modes is)) \<Longrightarrow> conf_inv h w \<Longrightarrow>
     (\<And>m. m \<in> fst ` set (item_modes is) \<Longrightarrow> conf_view h w m = None) \<Longrightarrow> ?thesis"
    using cs.whole_text [OF laws mal wf _ _ _ run_conf_sw [OF ok]] by simp
qed

section \<open>Well-formed objects, for every file\<close>

definition word_wf :: "string \<Rightarrow> bool" where
  "word_wf s \<longleftrightarrow> length s < CONF_STRING_MAX_LEN - 1 \<and> no_nul s"

definition pairs_wf :: "conf_pairs_t \<Rightarrow> bool" where
  "pairs_wf c \<longleftrightarrow> length (pairs c) = CONF_MAX_NODE_NUM \<and> 0 \<le> cur_pos c \<and> cur_pos c \<le> int CONF_MAX_NODE_NUM \<and>
     word_wf (mode_name c) \<and> list_all (\<lambda>p. word_wf (name p) \<and> word_wf (value p)) (pairs c)"

definition mem_wf :: "(addr \<Rightarrow> conf_pairs_t option) \<Rightarrow> bool" where
  "mem_wf m \<longleftrightarrow> (\<forall>a c. m a = Some c \<longrightarrow> pairs_wf c)"

lemma get_string_wf:
  assumes "get_string dst src len = Some (s, r)" "word_wf dst"
  shows "word_wf s"
proof -
  obtain len' line where l: "fill_line 256 src len' = Some line"
    and g: "(let tok = takeWhile (\<lambda>c. \<not> blank c) (dropWhile blank line) in
       if length tok < CONF_STRING_MAX_LEN - 1 then
         if tok = [] then None else Some (if last tok = CR then butlast tok else tok, 0)
       else Some (dst, - 1)) = Some (s, r)"
    using assms(1) by (auto simp: get_string_def Let_def split: Option.bind_splits)
  define tok where "tok = takeWhile (\<lambda>c. \<not> blank c) (dropWhile blank line)"
  have "no_nul line" using l by (rule fill_line_no_nul)
  then have "no_nul tok"
    by (auto simp: no_nul_def tok_def dest!: set_takeWhileD set_dropWhileD)
  moreover have "no_nul (butlast tok)" using \<open>no_nul tok\<close> by (auto simp: no_nul_def dest: in_set_butlastD)
  ultimately show ?thesis
    using g assms(2) by (auto simp: tok_def [symmetric] Let_def word_wf_def split: if_splits)
qed

lemma line_handle_wf:
  assumes "iri_conf_line_handle p buf len = Some (p', r)" "word_wf (name p)" "word_wf (value p)"
  shows "word_wf (name p') \<and> word_wf (value p')"
  using assms
  by (auto simp: iri_conf_line_handle_def Let_def split: if_splits option.splits Option.bind_splits
      split del: if_split) (metis get_string_wf)+

lemma empty_pairs_wf: "word_wf m \<Longrightarrow> pairs_wf (empty_pairs\<lparr>mode_name := m\<rparr>)"
  by (simp add: pairs_wf_def empty_pairs_def empty_pair_def word_wf_def conf_consts list_all_iff)

lemma word_wf_Nil [simp]: "word_wf []"
  by (simp add: word_wf_def conf_consts)

lemma pairs_wf_step:
  assumes "pairs_wf c" "aget (pairs c) (cur_pos c) = Some slot"
    "iri_conf_line_handle slot buf len = Some (pair, r)" "aset (pairs c) (cur_pos c) pair = Some ps"
    "c' = c\<lparr>pairs := ps, cur_pos := cur_pos c + 1\<rparr>"
  shows "pairs_wf c'"
proof -
  have i: "0 \<le> cur_pos c" "cur_pos c < int (length (pairs c))" "slot = pairs c ! nat (cur_pos c)"
    "ps = (pairs c)[nat (cur_pos c) := pair]"
    using assms(2,4) by (auto simp: aget_def aset_def split: if_splits)
  then have "slot \<in> set (pairs c)" by (simp add: nat_less_iff)
  with assms(1) have "word_wf (name slot)" "word_wf (value slot)" by (auto simp: pairs_wf_def list_all_iff)
  with line_handle_wf [OF assms(3)] have "word_wf (name pair) \<and> word_wf (value pair)" by blast
  then show ?thesis
    using assms(1,5) i by (auto simp: pairs_wf_def list_all_iff dest!: set_update_subset_insert [THEN subsetD])
qed

lemma block_loop_wf:
  "handle_conf_block_loop mok cp p = Some (Some c) \<Longrightarrow> (\<And>c0. cp = Some c0 \<Longrightarrow> pairs_wf c0) \<Longrightarrow> pairs_wf c"
proof (induction mok cp p rule: handle_conf_block_loop.induct)
  case (1 mok cp p)
  define line where "line = takeWhile (\<lambda>c. c \<noteq> NL) p"
  define q where "q = dropWhile (\<lambda>c. c \<noteq> NL) p"
  note IH = "1.IH" [OF _ line_def q_def]
  show ?case
  proof (cases "p = [] \<or> q = [] \<or> length line > MAX_LINE_LEN - 1")
    case True
    then have "cp = Some c"
      using "1.prems"(1) by (auto simp: handle_conf_block_loop.simps [of mok cp p] line_def q_def Let_def split: if_splits)
    with "1.prems"(2) show ?thesis by simp
  next
    case False
    then obtain len where len: "check_comment_line line (int (length line)) = Some len"
      using "1.prems"(1) by (cases "check_comment_line line (int (length line))")
        (auto simp: handle_conf_block_loop.simps [of mok cp p] line_def q_def Let_def split: if_splits)
    note run = "1.prems"(1) [unfolded handle_conf_block_loop.simps [of mok cp p] Let_def, folded line_def q_def]
    show ?thesis
    proof (cases "len > 0")
      case skip: False
      with run False len have "handle_conf_block_loop mok cp (tl q) = Some (Some c)" by simp
      then show ?thesis using IH(3) [of len] "1.prems"(2) False len skip by blast
    next
      case use: True
      show ?thesis
      proof (cases cp)
        case None
        with run False len use obtain mn r where gs: "get_string [] line len = Some (mn, r)" "\<not> r < 0" "mok"
          and rec: "handle_conf_block_loop mok (Some (empty_pairs\<lparr>mode_name := mn\<rparr>)) (tl q) = Some (Some c)"
          by (auto split: Option.bind_splits if_splits)
        then have "word_wf mn" using get_string_wf by fastforce
        then show ?thesis using IH(1) [of len "(mn, r)" mn r] False len use None gs rec empty_pairs_wf by auto
      next
        case (Some c0)
        with run False len use obtain slot pair r ps where st: "aget (pairs c0) (cur_pos c0) = Some slot"
          "iri_conf_line_handle slot line len = Some (pair, r)" "\<not> r < 0" "aset (pairs c0) (cur_pos c0) pair = Some ps"
          and rec: "(if cur_pos c0 + 1 \<ge> int CONF_MAX_NODE_NUM
             then Some (Some (c0\<lparr>pairs := ps, cur_pos := cur_pos c0 + 1\<rparr>))
             else handle_conf_block_loop mok (Some (c0\<lparr>pairs := ps, cur_pos := cur_pos c0 + 1\<rparr>)) (tl q)) = Some (Some c)"
          by (auto split: Option.bind_splits if_splits)
        have wf: "pairs_wf (c0\<lparr>pairs := ps, cur_pos := cur_pos c0 + 1\<rparr>)"
          using pairs_wf_step [OF _ st(1,2,4)] "1.prems"(2) Some by blast
        show ?thesis
          using rec wf IH(2) [of len c0 slot "(pair, r)" pair r ps] False len use Some st by (auto split: if_splits)
      qed
    qed
  qed
qed

lemma destroy_values_mem: "destroy_values as m = Some m' \<Longrightarrow> m' a = Some c \<Longrightarrow> m a = Some c"
  by (induction "as" m rule: destroy_values.induct)
    (auto simp: key_value_destroy_def split: Option.bind_splits if_splits)

lemma insert_mem_wf: "insert_new_node h a w = Some w' \<Longrightarrow> mem_wf (mem w) \<Longrightarrow> mem_wf (mem w')"
  by (auto simp: insert_new_node_def mem_wf_def split: tabptr.splits Option.bind_splits prod.splits
      dest: destroy_values_mem)

lemma destroy_mem_wf: "destroy_iri_conf h w = Some w' \<Longrightarrow> mem_wf (mem w) \<Longrightarrow> mem_wf (mem w')"
  by (auto simp: destroy_iri_conf_def mem_wf_def split: tabptr.splits Option.bind_splits prod.splits
      dest: destroy_values_mem)

lemma finish_block_cases:
  assumes "finish_block h mal ob p w = Some w'"
  obtains "w' = w"
  | c w1 n where "pairs_wf c" "w' = w1\<lparr>manager := (manager w1)\<lparr>mode_count := n\<rparr>\<rparr>"
      "insert_new_node h (brk w) (w\<lparr>mem := (mem w)(brk w \<mapsto> c), brk := Suc (brk w)\<rparr>) = Some w1"
proof -
  obtain np where np: "handle_conf_block (mal (case ob of None \<Rightarrow> 0 | Some s \<Rightarrow> length s)) ob p = Some np"
    using assms by (auto simp: finish_block_def split: Option.bind_splits)
  show thesis
  proof (cases np)
    case None
    with np assms show thesis by (intro that(1)) (simp add: finish_block_def)
  next
    case (Some c)
    then have "pairs_wf c"
      using np block_loop_wf by (fastforce simp: handle_conf_block_def split: option.splits)
    with np assms Some that(2) show thesis
      by (auto simp: finish_block_def split: Option.bind_splits)
  qed
qed

lemma finish_block_mem_wf:
  assumes "finish_block h mal ob p w = Some w'" "mem_wf (mem w)"
  shows "mem_wf (mem w')"
  using assms(1)
proof (cases rule: finish_block_cases)
  case (2 c w1 n)
  with assms(2) have "mem_wf (mem w1)" by (intro insert_mem_wf [OF 2(3)]) (simp add: mem_wf_def)
  with 2 show ?thesis by simp
qed (use assms(2) in simp)

lemma conf_scan_mem_wf:
  "conf_scan h mal full p ob w = Some (w', r) \<Longrightarrow> mem_wf (mem w) \<Longrightarrow> mem_wf (mem w')"
proof (induction h mal full p ob w rule: conf_scan.induct)
  case (1 h mal full p ob w)
  note strncmp_eq.simps [simp del]
  show ?case
  proof (cases "p = []")
    case True
    with "1.prems" show ?thesis by (simp add: conf_scan.simps [of h mal full "[]"])
  next
    case False
    define p1 where "p1 = skip_blanks p"
    obtain c1 where c1: "deref full p1 = Some c1"
      using "1.prems"(1) False by (cases "deref full p1") (auto simp: conf_scan.simps [of h mal full p] p1_def)
    define p2 where "p2 = (if c1 = CHR ''#'' then skip_line p1 else p1)"
    note run0 = "1.prems"(1) [unfolded conf_scan.simps [of h mal full p] Let_def, folded p1_def, simplified False c1, simplified, folded p2_def]
    then obtain c2 where c2: "deref full p2 = Some c2" by (cases "deref full p2") auto
    note run = run0 [unfolded c2, simplified] and IH = "1.IH" [OF False p1_def c1 p2_def c2]
    consider (at) "c2 = CHR ''@''" | (fin) "c2 = CHR ''-''" "ob \<noteq> None" | (other) "c2 \<noteq> CHR ''@''" "\<not> (c2 = CHR ''-'' \<and> ob \<noteq> None)"
      by blast
    then show ?thesis
    proof cases
      case at
      with run IH(1) "1.prems"(2) show ?thesis by (auto split: if_splits)
    next
      case fin
      with run obtain is_end where e: "strncmp_eq full p2 ''-end'' = Some is_end"
        by (auto split: Option.bind_splits)
      show ?thesis
      proof (cases is_end)
        case False
        with run fin e "1.prems"(2) show ?thesis by auto
      next
        case True
        with run fin e obtain w1 where w1: "finish_block h mal ob p2 w = Some w1"
          by (auto split: Option.bind_splits)
        with run fin e True IH(2) [of is_end w1 "skip_line p2"] finish_block_mem_wf [OF w1 "1.prems"(2)]
        show ?thesis by (auto split: if_splits)
      qed
    next
      case other
      with run IH(3) "1.prems"(2) show ?thesis by (auto split: if_splits)
    qed
  qed
qed

section \<open>Destroying the table\<close>

lemma destroy_values_all:
  "distinct as \<Longrightarrow> (\<And>a. a \<in> set as \<Longrightarrow> m a \<noteq> None) \<Longrightarrow>
     destroy_values as m = Some (\<lambda>a. if a \<in> set as then None else m a)"
proof (induction "as" arbitrary: m)
  case (Cons a "as")
  have "destroy_values as (m(a := None)) = Some (\<lambda>x. if x \<in> set as then None else (m(a := None)) x)"
    using Cons.prems by (intro Cons.IH) auto
  then show ?case using Cons.prems(2) [of a] by (auto simp: key_value_destroy_def fun_eq_iff)
qed simp

lemma destroy_live:
  assumes laws: "ghash_laws h" and inv: "conf_inv h w"
  shows "\<exists>w'. destroy_iri_conf h w = Some w' \<and> iri_conf (manager w') = DeadTab \<and>
    mem w' = (\<lambda>a. if a \<in> owned h w then None else mem w a)"
proof -
  obtain t where t: "iri_conf (manager w) = LiveTab t"
    and ent: "\<And>k p v. gh_lookup h t k = Some (p, v) \<Longrightarrow> \<exists>c. mem w v = Some c \<and> mode_name c = k"
    using inv unfolding conf_inv_def by blast
  obtain t' ks vs where rm: "gh_remove_all h t = (t', ks, vs)" by (metis prod_cases3)
  have vs: "vs = map (\<lambda>(k, p, v). v) (gh_entries h t)" by (rule gh_remove_all_laws [OF laws rm])
  have in_vs: "a \<in> set vs \<longleftrightarrow> a \<in> owned h w" for a
  proof -
    have "a \<in> set vs \<longleftrightarrow> (\<exists>k p. (k, p, a) \<in> set (gh_entries h t))" by (force simp: vs)
    then show ?thesis by (simp add: owned_def t gh_entries_iff [OF laws])
  qed
  have "map (\<lambda>v. mode_name (the (mem w v))) vs = map fst (gh_entries h t)"
    unfolding vs using ent by (force simp: gh_entries_iff [OF laws])
  then have "distinct (map (\<lambda>v. mode_name (the (mem w v))) vs)"
    using gh_entries_distinct [OF laws] by simp
  then have d: "distinct vs" by (simp add: distinct_map)
  have "mem w a \<noteq> None" if "a \<in> set vs" for a
    using that ent unfolding in_vs by (fastforce simp: owned_def t)
  then have "destroy_values vs (mem w) = Some (\<lambda>a. if a \<in> set vs then None else mem w a)"
    using d by (intro destroy_values_all) auto
  then show ?thesis by (simp add: destroy_iri_conf_def t rm in_vs)
qed

end
