(* ===== verification/Conf_Api.thy ===== *)
theory Conf_Api
  imports Conf_Spec
begin

text \<open>
  \<open>src/src/utils/config/iridium_conf.c\<close>: the global configuration and its typed getters, and
  the properties of the configuration reader as its clients see it. The static
  \<open>conf_manager\<close> is the manager of the state. \<open>lf\<close> is the floating-point conversion of
  \<open>sscanf\<close> (the new value from the text and the old value), a parameter.
\<close>

section \<open>Interface of a configuration store\<close>

text \<open>
  What a getter needs from the store it reads: in a good state a lookup is defined and returns
  the first value of the key in the mode.
\<close>

locale conf_store =
  fixes good :: "'s \<Rightarrow> bool"
    and view :: "'s \<Rightarrow> string \<Rightarrow> (string \<times> string) list option"
    and find :: "'s \<Rightarrow> string \<Rightarrow> string \<Rightarrow> string option option"
  assumes find_view: "good s \<Longrightarrow> find s m k = Some (do { kvs \<leftarrow> view s m; map_of kvs k })"
begin

lemma find_defined: "good s \<Longrightarrow> find s m k \<noteq> None"
  by (simp add: find_view)

lemma find_present: "good s \<Longrightarrow> view s m = Some kvs \<Longrightarrow> map_of kvs k = Some v \<Longrightarrow> find s m k = Some (Some v)"
  by (simp add: find_view)

lemma find_absent: "good s \<Longrightarrow> view s m = None \<or> (\<exists>kvs. view s m = Some kvs \<and> k \<notin> fst ` set kvs) \<Longrightarrow> find s m k = Some None"
  by (auto simp: find_view map_of_eq_None_iff)

end

section \<open>Lookup and conversion\<close>

datatype TYPE_VALUE =
  INT_VALUE | DOUBLE_VALUE | CHAR_STR_VALUE | GINT8_VALUE | GINT16_VALUE | GINT32_VALUE
| GINT64_VALUE | GUINT8_VALUE | GUINT16_VALUE | GUINT32_VALUE | GUINT64_VALUE

text \<open>The object behind \<open>void *src_value\<close>: an integer object, a double, or a string pointer.\<close>

datatype 'd conf_obj = IntObj int | DoubleObj 'd | StrObj "string option"

definition get_iridium_config_value :: "'t conf_hash \<Rightarrow> 't conf_world \<Rightarrow> string \<Rightarrow> string \<Rightarrow> string option option" where
  "get_iridium_config_value h w pair key = do {
     conf_pairs \<leftarrow> get_conf_pairs h w pair;
     case conf_pairs of
       None \<Rightarrow> Some None
     | Some a \<Rightarrow> get_value (mem w) a key }"

definition int_obj :: "'d conf_obj \<Rightarrow> int option" where
  "int_obj ob = (case ob of IntObj i \<Rightarrow> Some i | _ \<Rightarrow> None)"

fun store_value :: "(string \<Rightarrow> 'd \<Rightarrow> 'd) \<Rightarrow> TYPE_VALUE \<Rightarrow> string \<Rightarrow> 'd conf_obj \<Rightarrow> 'd conf_obj option" where
  "store_value lf INT_VALUE s ob = do { old \<leftarrow> int_obj ob; map_option IntObj (sscanf_d s old) }"
| "store_value lf DOUBLE_VALUE s ob = (case ob of DoubleObj d \<Rightarrow> Some (DoubleObj (lf s d)) | _ \<Rightarrow> None)"
| "store_value lf CHAR_STR_VALUE s ob = (case ob of StrObj d \<Rightarrow> Some (StrObj (Some s)) | _ \<Rightarrow> None)"
| "store_value lf GINT8_VALUE s ob = do { tmp_int \<leftarrow> atoi s; Some (IntObj (sint (word_of_int (tmp_int mod 256) :: 8 word))) }"
| "store_value lf GINT16_VALUE s ob = do { tmp_int \<leftarrow> atoi s; Some (IntObj (sint (word_of_int (tmp_int mod 65536) :: 16 word))) }"
| "store_value lf GINT32_VALUE s ob = do { old \<leftarrow> int_obj ob; map_option IntObj (sscanf_d s old) }"
| "store_value lf GINT64_VALUE s ob = do { old \<leftarrow> int_obj ob;
     map_option (\<lambda>v. IntObj (sint (word_of_int v :: 64 word))) (sscanf_u 64 s (old mod 2 ^ 64)) }"
| "store_value lf GUINT8_VALUE s ob = Some (IntObj (strtoul s mod 256))"
| "store_value lf GUINT16_VALUE s ob = Some (IntObj (strtoul s mod 65536))"
| "store_value lf GUINT32_VALUE s ob = do { old \<leftarrow> int_obj ob; map_option IntObj (sscanf_u 32 s old) }"
| "store_value lf GUINT64_VALUE s ob = do { old \<leftarrow> int_obj ob; map_option IntObj (sscanf_u 64 s old) }"

definition READ_IRIDIUM_CONFIG_AND_LOG ::
  "(string \<Rightarrow> 'd \<Rightarrow> 'd) \<Rightarrow> 't conf_hash \<Rightarrow> 't conf_world \<Rightarrow> string \<Rightarrow> string \<Rightarrow> 'd conf_obj \<Rightarrow> TYPE_VALUE \<Rightarrow> 'd conf_obj option" where
  "READ_IRIDIUM_CONFIG_AND_LOG lf h w pair key src_value value_type = do {
     tmp_value \<leftarrow> get_iridium_config_value h w pair key;
     case tmp_value of
       Some s \<Rightarrow> store_value lf value_type s src_value
     | None \<Rightarrow> Some src_value }"

section \<open>The global configuration\<close>

definition zero_manager :: "'t conf_world \<Rightarrow> 't conf_world" where
  "zero_manager w = w\<lparr>manager := \<lparr>iri_conf = NullTab, mode_count = 0, init_flag = 0\<rparr>\<rparr>"

definition init_global_config ::
  "'t conf_hash \<Rightarrow> (nat \<Rightarrow> bool) \<Rightarrow> bool \<Rightarrow> char list option \<Rightarrow> 't conf_world \<Rightarrow> ('t conf_world \<times> int) option" where
  "init_global_config h mal rd_ok file w = get_conf_info_from_file h mal rd_ok file (zero_manager w)"

definition destroy_global_config :: "'t conf_hash \<Rightarrow> 't conf_world \<Rightarrow> 't conf_world option" where
  "destroy_global_config h w = do { w1 \<leftarrow> destroy_iri_conf h w; Some (zero_manager w1) }"

definition go_through_global_config ::
  "'t conf_hash \<Rightarrow> 't conf_world \<Rightarrow> (string \<times> (string \<times> string) list) list option" where
  "go_through_global_config h w = go_through_conf_manager h w"

definition get_iri_conf_int :: "(string \<Rightarrow> 'd \<Rightarrow> 'd) \<Rightarrow> 't conf_hash \<Rightarrow> 't conf_world \<Rightarrow> string \<Rightarrow> string \<Rightarrow> int option" where
  "get_iri_conf_int lf h w m k = READ_IRIDIUM_CONFIG_AND_LOG lf h w m k (IntObj 0) INT_VALUE \<bind> int_obj"

definition get_iri_conf_double :: "(string \<Rightarrow> 'd::zero \<Rightarrow> 'd) \<Rightarrow> 't conf_hash \<Rightarrow> 't conf_world \<Rightarrow> string \<Rightarrow> string \<Rightarrow> 'd option" where
  "get_iri_conf_double lf h w m k = do {
     ob \<leftarrow> READ_IRIDIUM_CONFIG_AND_LOG lf h w m k (DoubleObj 0) DOUBLE_VALUE;
     case ob of DoubleObj d \<Rightarrow> Some d | _ \<Rightarrow> None }"

definition get_iri_conf_str :: "(string \<Rightarrow> 'd \<Rightarrow> 'd) \<Rightarrow> 't conf_hash \<Rightarrow> 't conf_world \<Rightarrow> string \<Rightarrow> string \<Rightarrow> string option option" where
  "get_iri_conf_str lf h w m k = do {
     ob \<leftarrow> READ_IRIDIUM_CONFIG_AND_LOG lf h w m k (StrObj None) CHAR_STR_VALUE;
     case ob of StrObj s \<Rightarrow> Some s | _ \<Rightarrow> None }"

definition get_iri_conf_gint8 :: "(string \<Rightarrow> 'd \<Rightarrow> 'd) \<Rightarrow> 't conf_hash \<Rightarrow> 't conf_world \<Rightarrow> string \<Rightarrow> string \<Rightarrow> int option" where
  "get_iri_conf_gint8 lf h w m k = READ_IRIDIUM_CONFIG_AND_LOG lf h w m k (IntObj 0) GINT8_VALUE \<bind> int_obj"

definition get_iri_conf_gint16 :: "(string \<Rightarrow> 'd \<Rightarrow> 'd) \<Rightarrow> 't conf_hash \<Rightarrow> 't conf_world \<Rightarrow> string \<Rightarrow> string \<Rightarrow> int option" where
  "get_iri_conf_gint16 lf h w m k = READ_IRIDIUM_CONFIG_AND_LOG lf h w m k (IntObj 0) GINT16_VALUE \<bind> int_obj"

definition get_iri_conf_gint32 :: "(string \<Rightarrow> 'd \<Rightarrow> 'd) \<Rightarrow> 't conf_hash \<Rightarrow> 't conf_world \<Rightarrow> string \<Rightarrow> string \<Rightarrow> int option" where
  "get_iri_conf_gint32 lf h w m k = READ_IRIDIUM_CONFIG_AND_LOG lf h w m k (IntObj 0) GINT32_VALUE \<bind> int_obj"

definition get_iri_conf_gint64 :: "(string \<Rightarrow> 'd \<Rightarrow> 'd) \<Rightarrow> 't conf_hash \<Rightarrow> 't conf_world \<Rightarrow> string \<Rightarrow> string \<Rightarrow> int option" where
  "get_iri_conf_gint64 lf h w m k = READ_IRIDIUM_CONFIG_AND_LOG lf h w m k (IntObj 0) GINT64_VALUE \<bind> int_obj"

definition get_iri_conf_guint8 :: "(string \<Rightarrow> 'd \<Rightarrow> 'd) \<Rightarrow> 't conf_hash \<Rightarrow> 't conf_world \<Rightarrow> string \<Rightarrow> string \<Rightarrow> int option" where
  "get_iri_conf_guint8 lf h w m k = READ_IRIDIUM_CONFIG_AND_LOG lf h w m k (IntObj 0) GUINT8_VALUE \<bind> int_obj"

definition get_iri_conf_guint16 :: "(string \<Rightarrow> 'd \<Rightarrow> 'd) \<Rightarrow> 't conf_hash \<Rightarrow> 't conf_world \<Rightarrow> string \<Rightarrow> string \<Rightarrow> int option" where
  "get_iri_conf_guint16 lf h w m k = READ_IRIDIUM_CONFIG_AND_LOG lf h w m k (IntObj 0) GUINT16_VALUE \<bind> int_obj"

definition get_iri_conf_guint32 :: "(string \<Rightarrow> 'd \<Rightarrow> 'd) \<Rightarrow> 't conf_hash \<Rightarrow> 't conf_world \<Rightarrow> string \<Rightarrow> string \<Rightarrow> int option" where
  "get_iri_conf_guint32 lf h w m k = READ_IRIDIUM_CONFIG_AND_LOG lf h w m k (IntObj 0) GUINT32_VALUE \<bind> int_obj"

definition get_iri_conf_guint64 :: "(string \<Rightarrow> 'd \<Rightarrow> 'd) \<Rightarrow> 't conf_hash \<Rightarrow> 't conf_world \<Rightarrow> string \<Rightarrow> string \<Rightarrow> int option" where
  "get_iri_conf_guint64 lf h w m k = READ_IRIDIUM_CONFIG_AND_LOG lf h w m k (IntObj 0) GUINT64_VALUE \<bind> int_obj"

section \<open>The store that the reader builds\<close>

lemma get_value_loop_map_of:
  assumes "cur_pos c \<le> int (length (pairs c))" "0 \<le> i"
  shows "get_value_loop c k i = Some (map_of (drop (nat i) (pairs_list c)) k)"
  using assms
proof (induction c k i rule: get_value_loop.induct)
  case (1 c k i)
  show ?case
  proof (cases "i < cur_pos c")
    case True
    then have i: "nat i < nat (cur_pos c)" "nat i < length (pairs c)" using "1.prems" by auto
    define p where "p = pairs c ! nat i"
    have g: "aget (pairs c) i = Some p" using i(2) "1.prems"(2) by (simp add: aget_def p_def)
    have "nat i < length (pairs_list c)" using i by (simp add: pairs_list_def)
    moreover have "pairs_list c ! nat i = (name p, value p)"
      using i by (simp add: pairs_list_def p_def)
    ultimately have d: "drop (nat i) (pairs_list c) = (name p, value p) # drop (nat (i + 1)) (pairs_list c)"
      using "1.prems"(2) by (metis Cons_nth_drop_Suc Suc_nat_eq_nat_zadd1 add.commute)
    show ?thesis
    proof (cases "k = name p")
      case False
      with "1.IH" [OF True g False] "1.prems" True show ?thesis
        by (simp add: get_value_loop.simps [of c k i] g d)
    qed (use True in \<open>simp add: get_value_loop.simps [of c "name p" i] g d\<close>)
  next
    case False
    then show ?thesis by (simp add: get_value_loop.simps [of c] pairs_list_def)
  qed
qed

lemma config_value_view:
  assumes "conf_inv h w"
  shows "get_iridium_config_value h w m k = Some (do { kvs \<leftarrow> conf_view h w m; map_of kvs k })"
proof -
  obtain t where t: "iri_conf (manager w) = LiveTab t"
    and ent: "\<And>k p v. gh_lookup h t k = Some (p, v) \<Longrightarrow> p = v \<and>
        (\<exists>c. mem w v = Some c \<and> mode_name c = k \<and> cur_pos c \<le> int (length (pairs c)))"
    using assms unfolding conf_inv_def by blast
  show ?thesis
  proof (cases "gh_lookup h t m")
    case None
    then show ?thesis by (simp add: get_iridium_config_value_def get_conf_pairs_def t table_lookup_def conf_view_def)
  next
    case (Some pv)
    obtain p v where pv: "pv = (p, v)" by (cases pv)
    then obtain c where "p = v" "mem w v = Some c" "cur_pos c \<le> int (length (pairs c))" using ent Some by blast
    then show ?thesis
      using Some pv get_value_loop_map_of [of c 0]
      by (simp add: get_iridium_config_value_def get_conf_pairs_def t table_lookup_def conf_view_def get_value_def)
  qed
qed

interpretation conf: conf_store "conf_inv h" "conf_view h" "get_iridium_config_value h" for h
  by unfold_locales (rule config_value_view)

section \<open>Loading a file\<close>

lemma init_manager_inv:
  assumes "ghash_laws h"
  shows "conf_inv h (init_manager h w)" "conf_view h (init_manager h w) = Map.empty"
    "(\<And>a. mem w a = None) \<Longrightarrow> no_leak h (init_manager h w)"
  using gh_lookup_new [OF assms]
  by (simp_all add: conf_inv_def conf_view_def no_leak_def init_manager_def fun_eq_iff)

lemma init_load:
  assumes "length file < MAX_CONF_FILE_SIZE"
  shows "init_global_config h mal True (Some file) w = do {
    (w2, ret) \<leftarrow> conf_scan h mal False file None (init_manager h (zero_manager w));
    w3 \<leftarrow> (if ret \<noteq> 0 then destroy_iri_conf h w2 else Some w2);
    Some (w3, ret) }"
  using assms by (simp add: init_global_config_def get_conf_info_from_file_def zero_manager_def conf_consts Let_def)

lemma scan_load:
  assumes laws: "ghash_laws h" and ok: "list_all item_ok is" "distinct (map fst (item_modes is))" and mal: "\<And>n. mal n"
  shows "\<exists>w'. (\<forall>rest. conf_scan h mal False (conf_text is @ rest) None (init_manager h (zero_manager w)) =
       conf_scan h mal False rest None w') \<and>
     conf_inv h w' \<and> conf_view h w' = map_of (item_modes is) \<and> mode_count (manager w') = int (length (item_modes is)) \<and>
     ((\<forall>a. mem w a = None) \<longrightarrow> no_leak h w')"
proof -
  let ?w = "init_manager h (zero_manager w)"
  have "\<exists>w'. (\<forall>rest. conf_scan h mal False (conf_text is @ rest) None ?w = conf_scan h mal False rest None w') \<and>
     conf_inv h w' \<and> conf_view h w' = conf_view h ?w ++ map_of (item_modes is) \<and> (no_leak h ?w \<longrightarrow> no_leak h w') \<and>
     mode_count (manager w') = mode_count (manager ?w) + int (length (item_modes is))"
    using ok init_manager_inv [OF laws, of "zero_manager w"] by (intro scan_items [OF laws mal ok(1)]) auto
  moreover have "no_leak h ?w" if "\<forall>a. mem w a = None"
    using that init_manager_inv(3) [OF laws, of "zero_manager w"] by (simp add: zero_manager_def)
  moreover have "mode_count (manager ?w) = 0" by (simp add: init_manager_def)
  ultimately show ?thesis
    using init_manager_inv(2) [OF laws, of "zero_manager w"] by auto
qed

lemma load_items:
  assumes laws: "ghash_laws h" and ok: "conf_ok is" and mal: "\<And>n. mal n"
  shows "\<exists>w'. init_global_config h mal True (Some (conf_text is)) w = Some (w', 0) \<and> conf_inv h w' \<and>
     conf_view h w' = map_of (item_modes is) \<and> mode_count (manager w') = int (length (item_modes is)) \<and>
     ((\<forall>a. mem w a = None) \<longrightarrow> no_leak h w')"
proof -
  obtain w' where sc: "\<And>rest. conf_scan h mal False (conf_text is @ rest) None (init_manager h (zero_manager w)) =
       conf_scan h mal False rest None w'" and w': "conf_inv h w'" "conf_view h w' = map_of (item_modes is)"
     "mode_count (manager w') = int (length (item_modes is))" "(\<forall>a. mem w a = None) \<longrightarrow> no_leak h w'"
    using scan_load [where mal = mal and w = w, OF laws _ _ mal] ok unfolding conf_ok_def by blast
  have "conf_scan h mal False (conf_text is) None (init_manager h (zero_manager w)) = Some (w', 0)"
    using sc [of "[]"] by (simp add: conf_scan.simps [of h mal False "[]"])
  then show ?thesis using w' ok by (simp add: init_load conf_ok_def)
qed

definition demo_conf :: "conf_item list" where
  "demo_conf =
     [Outside (Remark '' '' ''demo''), Switch [] ''CONF_SWITCH = 1'', Outside EmptyLine,
      Block [] '' '' ''net'' ('' '', Some ''mode'')
        [Setting '' '' ''port'' '' '' '' '' ''8080'' ([], None), Remark [] ''x'',
         Setting [] ''name'' [] [] ''a=b'' ('' '', Some ''c'')] []]"

lemma demo_conf_ok: "conf_ok demo_conf"
  by (simp add: item_ok_def conf_ok_def demo_conf_def conf_text_def lines_text_def tail_text_def tail_ok_def conf_key_def
      conf_word_def conf_consts MAX_CONF_FILE_SIZE_def blank_def conf_switch_closes_def LOG_SWITCH_STR_def
      is_level_true_def isdigit_def digit_def Let_def)

definition empty_world :: "'t conf_world" where
  "empty_world = \<lparr>manager = \<lparr>iri_conf = NullTab, mode_count = 0, init_flag = 0\<rparr>, mem = (\<lambda>a. None), brk = 0\<rparr>"

text \<open>
  C3: reading a configuration file back. For every file in the documented format, with any
  layout (blanks around the words, trailing comments, comment and empty lines, switch lines
  that do not close the configuration) and distinct mode names, \<open>init_global_config\<close> succeeds,
  counts the modes, and afterwards \<open>get_iridium_config_value\<close> is defined for every mode and key and
  returns the first value written for the key in that mode, or NULL when there is none.
\<close>

theorem conf_roundtrip:
  assumes "ghash_laws h" "conf_ok is" "\<And>n. mal n"
  shows "\<exists>w'. init_global_config h mal True (Some (conf_text is)) w = Some (w', 0) \<and>
     mode_count (manager w') = int (length (item_modes is)) \<and>
     (\<forall>m k. get_iridium_config_value h w' m k = Some (do { kvs \<leftarrow> map_of (item_modes is) m; map_of kvs k }))"
proof -
  obtain w' where "init_global_config h mal True (Some (conf_text is)) w = Some (w', 0)" "conf_inv h w'"
     "conf_view h w' = map_of (item_modes is)" "mode_count (manager w') = int (length (item_modes is))"
    using load_items [where w = w and mal = mal, OF assms] by blast
  then show ?thesis using conf.find_view [of h w'] by simp
qed

theorem conf_roundtrip_witness:
  "\<exists>w'. init_global_config alist_ghash (\<lambda>n. True) True (Some (conf_text demo_conf)) empty_world = Some (w', 0) \<and>
     mode_count (manager w') = int (length (item_modes demo_conf)) \<and>
     (\<forall>m k. get_iridium_config_value alist_ghash w' m k =
        Some (do { kvs \<leftarrow> map_of (item_modes demo_conf) m; map_of kvs k }))"
  by (rule conf_roundtrip [OF alist_ghash_laws demo_conf_ok]) simp

text \<open>
  \<open>destroy_global_config\<close> after a load from a state without objects frees every object that
  the load allocated, each once, and leaves the manager zeroed.
\<close>

theorem conf_destroy_frees:
  assumes "ghash_laws h" "conf_ok is" "\<And>n. mal n" "\<And>a. mem w a = None"
  shows "\<exists>w' w''. init_global_config h mal True (Some (conf_text is)) w = Some (w', 0) \<and>
     destroy_global_config h w' = Some w'' \<and> mem w'' = (\<lambda>a. None) \<and> iri_conf (manager w'') = NullTab"
proof -
  obtain w' where w': "init_global_config h mal True (Some (conf_text is)) w = Some (w', 0)" "conf_inv h w'" "no_leak h w'"
    using load_items [where w = w and mal = mal, OF assms(1-3)] assms(4) by blast
  obtain w1 where "destroy_iri_conf h w' = Some w1" "mem w1 = (\<lambda>a. if a \<in> owned h w' then None else mem w' a)"
    using destroy_live [OF assms(1) w'(2)] by blast
  then show ?thesis
    using w'(1,3) by (auto simp: destroy_global_config_def zero_manager_def no_leak_def fun_eq_iff)
qed

theorem conf_destroy_frees_witness:
  "\<exists>w' w''. init_global_config alist_ghash (\<lambda>n. True) True (Some (conf_text demo_conf)) empty_world = Some (w', 0) \<and>
     destroy_global_config alist_ghash w' = Some w'' \<and> mem w'' = (\<lambda>a. None) \<and> iri_conf (manager w'') = NullTab"
  by (rule conf_destroy_frees [OF alist_ghash_laws demo_conf_ok]) (simp_all add: empty_world_def)


text \<open>
  A switch line \<open>@CONF_SWITCH = 0\<close> makes the load return \<open>CONF_CLOSE_ALL\<close> after the table has been
  destroyed, but the manager keeps the address of the destroyed table: the next lookup and
  \<open>destroy_global_config\<close> are undefined (use after free, double free).
\<close>

theorem conf_close_dangling:
  assumes "ghash_laws h" "list_all item_ok is" "distinct (map fst (item_modes is))" "\<And>n. mal n"
    "blanks b" "NL \<notin> set s" "conf_switch_closes s"
    "length (conf_text is @ b @ CHR ''@'' # s @ NL # rest) < MAX_CONF_FILE_SIZE"
  shows "\<exists>w'. init_global_config h mal True (Some (conf_text is @ b @ CHR ''@'' # s @ NL # rest)) w = Some (w', CONF_CLOSE_ALL) \<and>
     iri_conf (manager w') = DeadTab \<and> destroy_global_config h w' = None \<and>
     (\<forall>m k. get_iridium_config_value h w' m k = None)"
proof -
  obtain w1 where sc: "\<And>rest. conf_scan h mal False (conf_text is @ rest) None (init_manager h (zero_manager w)) =
       conf_scan h mal False rest None w1" and w1: "conf_inv h w1"
    using scan_load [where mal = mal and w = w, OF assms(1-4)] by blast
  obtain w' where w': "destroy_iri_conf h w1 = Some w'" "iri_conf (manager w') = DeadTab"
    using destroy_live [OF assms(1) w1] by blast
  have "init_global_config h mal True (Some (conf_text is @ b @ CHR ''@'' # s @ NL # rest)) w = Some (w', CONF_CLOSE_ALL)"
    using w' assms(5-7) by (simp add: init_load [OF assms(8)] sc scan_switch_closes conf_consts)
  then show ?thesis
    using w'(2) by (simp add: destroy_global_config_def destroy_iri_conf_def get_iridium_config_value_def get_conf_pairs_def)
qed

theorem conf_close_dangling_witness:
  "\<exists>w'. init_global_config alist_ghash (\<lambda>n. True) True
     (Some (conf_text demo_conf @ [] @ CHR ''@'' # ''CONF_SWITCH=0'' @ NL # [])) empty_world = Some (w', CONF_CLOSE_ALL) \<and>
     iri_conf (manager w') = DeadTab \<and> destroy_global_config alist_ghash w' = None \<and>
     (\<forall>m k. get_iridium_config_value alist_ghash w' m k = None)"
proof (rule conf_close_dangling [OF alist_ghash_laws])
  show "list_all item_ok demo_conf" "distinct (map fst (item_modes demo_conf))"
    using demo_conf_ok by (simp_all add: conf_ok_def)
  show "length (conf_text demo_conf @ [] @ CHR ''@'' # ''CONF_SWITCH=0'' @ NL # []) < MAX_CONF_FILE_SIZE"
    by (simp add: demo_conf_def conf_text_def lines_text_def tail_text_def MAX_CONF_FILE_SIZE_def)
qed (simp_all add: conf_switch_closes_def LOG_SWITCH_STR_def is_level_true_def isdigit_def digit_def Let_def blank_def)

text \<open>
  C38: the errors of a load leave the manager initialised: when the file cannot be opened or the
  buffer cannot be allocated the reader reports it, keeps an empty table, and every later call
  on that manager, for any file, is refused with \<open>REPEAT_INIT_ERR\<close> and changes nothing.
\<close>

theorem conf_load_errors:
  assumes "ghash_laws h" "init_flag (manager w) \<noteq> IRI_CONF_FINISH_INIT" "file = None \<and> e = OPEN_FILE_ERR \<or> file \<noteq> None \<and> \<not> rd_ok \<and> e = MALLOC_BUF_ERR"
  shows "\<exists>w'. get_conf_info_from_file h mal rd_ok file w = Some (w', e) \<and>
     (\<forall>m. get_conf_pairs h w' m = Some None) \<and> mem w' = mem w \<and>
     (\<forall>mal2 ok2 file2. get_conf_info_from_file h mal2 ok2 file2 w' = Some (w', REPEAT_INIT_ERR))"
  using assms(2,3) gh_lookup_new [OF assms(1)]
  by (auto simp: get_conf_info_from_file_def init_manager_def get_conf_pairs_def table_lookup_def Let_def)

theorem conf_load_errors_witness:
  "\<exists>w'. get_conf_info_from_file alist_ghash (\<lambda>n. True) True None empty_world = Some (w', OPEN_FILE_ERR) \<and>
     (\<forall>m. get_conf_pairs alist_ghash w' m = Some None) \<and> mem w' = mem (empty_world :: (nat, nat) altab conf_world) \<and>
     (\<forall>mal2 ok2 file2. get_conf_info_from_file alist_ghash mal2 ok2 file2 w' = Some (w', REPEAT_INIT_ERR))"
  by (rule conf_load_errors [OF alist_ghash_laws]) (simp_all add: empty_world_def conf_consts)



lemma show_8080: "show_int 8080 = ''8080''"
  by (simp add: show_int_def show_nat.simps char_of_def bit_0)


text \<open>
  A file that repeats the mode name of an earlier block is loaded with success, but the
  table then holds the key of the first block, whose object has been freed: looking that mode
  up is a use after free.
\<close>

theorem conf_duplicate_mode_dangling:
  assumes "ghash_laws h" "list_all item_ok is" "distinct (map fst (item_modes is))" "\<And>n. mal n"
    "item_ok (Block b0 b m t ls e)" "m \<in> fst ` set (item_modes is)"
    "length (conf_text is @ item_text (Block b0 b m t ls e)) < MAX_CONF_FILE_SIZE"
  shows "\<exists>w'. init_global_config h mal True (Some (conf_text is @ item_text (Block b0 b m t ls e))) w = Some (w', 0) \<and>
     (\<forall>k. get_iridium_config_value h w' m k = None)"
proof -
  obtain w1 where sc: "\<And>rest. conf_scan h mal False (conf_text is @ rest) None (init_manager h (zero_manager w)) =
       conf_scan h mal False rest None w1" and w1: "conf_inv h w1" "conf_view h w1 = map_of (item_modes is)"
    using scan_load [where mal = mal and w = w, OF assms(1-4)] by blast
  obtain tb where tb: "iri_conf (manager w1) = LiveTab tb"
    and ent: "\<And>k p v. gh_lookup h tb k = Some (p, v) \<Longrightarrow> p = v \<and> v < brk w1 \<and> (\<exists>c. mem w1 v = Some c)"
    using w1(1) unfolding conf_inv_def by blast
  have "conf_view h w1 m \<noteq> None" using assms(6) w1(2) by (simp add: map_of_eq_None_iff)
  then obtain v where lk: "gh_lookup h tb m = Some (v, v)"
    using ent [of m] by (cases "gh_lookup h tb m") (auto simp: conf_view_def tb)
  then have v: "v < brk w1" "mem w1 v \<noteq> None" using ent by blast+
  obtain t' ks vs where ins: "gh_insert h tb m (brk w1) (brk w1) = (t', ks, vs)" by (metis prod_cases3)
  note il = gh_insert_laws [OF assms(1) ins]
  let ?c = "block_pairs m (line_pairs ls)"
  let ?w2 = "w1\<lparr>mem := (mem w1)(brk w1 \<mapsto> ?c, v := None), brk := Suc (brk w1), manager := (manager w1)\<lparr>iri_conf := LiveTab t'\<rparr>\<rparr>"
  let ?w' = "?w2\<lparr>manager := (manager ?w2)\<lparr>mode_count := mode_count (manager ?w2) + 1\<rparr>\<rparr>"
  have run: "insert_new_node h (brk w1) (w1\<lparr>mem := (mem w1)(brk w1 \<mapsto> ?c), brk := Suc (brk w1)\<rparr>) = Some ?w2"
    using il(3) lk v by (auto simp: insert_new_node_def tb ins table_lookup_def key_value_destroy_def)
  have "conf_scan h mal False (item_text (Block b0 b m t ls e) @ []) None w1 = Some (?w', 0)"
    unfolding cs.whole_block [where mal = mal, OF iffD1 [OF block_item_ok assms(5)] assms(4)] run by (simp add: conf_scan.simps [of h mal False "[]"])
  then have "init_global_config h mal True (Some (conf_text is @ item_text (Block b0 b m t ls e))) w = Some (?w', 0)"
    by (simp add: init_load [OF assms(7)] sc del: item_text.simps)
  moreover have "get_iridium_config_value h ?w' m k = None" for k
    using il(1) lk by (simp add: get_iridium_config_value_def get_conf_pairs_def table_lookup_def)
  ultimately show ?thesis by blast
qed

theorem conf_duplicate_mode_dangling_witness:
  "\<exists>w'. init_global_config alist_ghash (\<lambda>n. True) True
      (Some (conf_text demo_conf @ item_text (Block [] [] ''net'' ([], None) [] []))) empty_world = Some (w', 0) \<and>
     (\<forall>k. get_iridium_config_value alist_ghash w' ''net'' k = None)"
proof (rule conf_duplicate_mode_dangling [OF alist_ghash_laws])
  show "list_all item_ok demo_conf" "distinct (map fst (item_modes demo_conf))"
    using demo_conf_ok by (simp_all add: conf_ok_def)
  show "length (conf_text demo_conf @ item_text (Block [] [] ''net'' ([], None) [] [])) < MAX_CONF_FILE_SIZE"
    by (simp add: demo_conf_def conf_text_def lines_text_def tail_text_def MAX_CONF_FILE_SIZE_def)
qed (simp_all add: item_ok_def demo_conf_def conf_word_def tail_ok_def tail_text_def blank_def conf_consts)

text \<open>
  A block whose first line (the mode name, without a comment) has between 256 and 1023 bytes
  overruns the 256-byte line buffer of \<open>get_string\<close>, whatever the line contains.
\<close>

theorem conf_mode_line_overflow:
  assumes "256 \<le> length l" "length l < MAX_LINE_LEN" "no_nul l" "NL \<notin> set l" "CHR ''#'' \<notin> set l"
  shows "handle_conf_block True (Some (l @ NL # rest @ end)) end = None"
proof -
  have "fill_line MAX_LINE_LEN (l @ []) (int (length l)) = Some l"
    using assms(2,3) by (rule fill_line_all [rotated])
  then have "check_comment_line l (int (length l)) = Some (int (length l))"
    using assms(5) by (simp add: check_comment_line_def option.case_eq_if)
  moreover have "get_string [] l (int (length l)) = None"
    using assms(1) by (simp add: get_string_def fill_line_def)
  moreover have "l \<noteq> []" using assms(1) by (cases l) auto
  ultimately have "handle_conf_block_loop True None (l @ NL # rest) = None"
    using assms(2) by (simp add: block_loop_line [OF assms(4)])
  then show ?thesis by (simp add: handle_conf_block_def)
qed

theorem conf_mode_line_overflow_witness:
  "handle_conf_block True (Some (replicate 300 (CHR ''a'') @ NL # [] @ ''-end'')) ''-end'' = None"
  by (rule conf_mode_line_overflow) (simp_all add: MAX_LINE_LEN_def no_nul_def)

end
