(* ===== verification/File_Ext.thy ===== *)
theory File_Ext
  imports CString Glib_Hash
begin

text \<open>
  \<open>src/src/utils/file_ext/file_ext.c\<close>: the filter of file names by extension.

  A \<open>file_ext_t\<close> is a record; NULL arguments are \<^term>\<open>None\<close>. The keys of the hash table are
  strings on the heap (\<open>strs\<close> maps the addresses of live strings to their text), each key is
  also the value, and the key destroy function is \<open>g_free\<close>. \<open>max_str\<close> is a block of
  \<open>max_str_len + 1\<close> bytes or NULL. Parameters: \<open>h\<close>, the hash table; \<open>g\<close>, GLib's
  \<open>g_ascii_strdown\<close> and \<open>g_strreverse\<close>; \<open>junk\<close>, the bytes of a fresh block. \<open>g_malloc\<close> does not
  return on failure.
\<close>

section \<open>Library functions and state\<close>

record glib_str =
  g_ascii_strdown :: "string \<Rightarrow> string"
  g_strreverse :: "string \<Rightarrow> string"

definition ascii_lower :: "char \<Rightarrow> char" where
  "ascii_lower c = (if (65 :: nat) \<le> of_char c \<and> of_char c \<le> (90 :: nat) then char_of (of_char c + (32 :: nat)) else c)"

definition glib_str_laws :: "glib_str \<Rightarrow> bool" where
  "glib_str_laws g \<longleftrightarrow> (\<forall>s. g_ascii_strdown g s = map ascii_lower s) \<and> (\<forall>s. g_strreverse g s = rev s)"

definition ascii_glib :: glib_str where
  "ascii_glib = \<lparr>g_ascii_strdown = map ascii_lower, g_strreverse = rev\<rparr>"

lemma ascii_glib_laws: "glib_str_laws ascii_glib"
  by (simp add: glib_str_laws_def ascii_glib_def)

type_synonym 't ext_hash = "('t, nat, nat) ghash"

record str_heap =
  strs :: "nat \<Rightarrow> string option"
  nxt :: nat

record 't file_ext_t =
  count :: int
  ext_hs :: "'t option"
  max_str :: "char list option"
  max_str_len :: int
  is_black :: int

definition FILE_EXT_NOT_MATCH :: int where "FILE_EXT_NOT_MATCH = 0"
definition FILE_EXT_MATCH :: int where "FILE_EXT_MATCH = 1"

lemmas ext_consts = FILE_EXT_NOT_MATCH_def FILE_EXT_MATCH_def

definition fresh_block :: "(nat \<Rightarrow> char) \<Rightarrow> int \<Rightarrow> char list" where
  "fresh_block junk n = map junk [0..<nat n]"

section \<open>Operations\<close>

definition init_file_ext :: "'t ext_hash \<Rightarrow> 't file_ext_t" where
  "init_file_ext h =
     \<lparr>count = 0, ext_hs = Some (gh_new h), max_str = Some (replicate 6 NUL), max_str_len = 5, is_black = 0\<rparr>"

text \<open>\<open>g_free\<close> of a list of strings (a string that is not live is a double free).\<close>

fun free_strs :: "nat list \<Rightarrow> (nat \<Rightarrow> string option) \<Rightarrow> (nat \<Rightarrow> string option) option" where
  "free_strs [] m = Some m"
| "free_strs (a # as) m = (if m a = None then None else free_strs as (m(a := None)))"

definition clear_file_ext ::
  "'t ext_hash \<Rightarrow> 't file_ext_t option \<Rightarrow> str_heap \<Rightarrow> ('t file_ext_t option \<times> str_heap) option" where
  "clear_file_ext h file_ext hp =
     (case file_ext of
        None \<Rightarrow> Some (None, hp)
      | Some f \<Rightarrow>
          (case ext_hs f of
             None \<Rightarrow> Some (Some (f\<lparr>max_str := None, count := 0, max_str_len := 0\<rparr>), hp)
           | Some t \<Rightarrow> do {
               let (t', ks, vs) = gh_remove_all h t;
               m \<leftarrow> free_strs ks (strs hp);
               Some (Some (f\<lparr>max_str := None, ext_hs := Some t', count := 0, max_str_len := 0\<rparr>), hp\<lparr>strs := m\<rparr>) }))"

definition destroy_file_ext :: "'t ext_hash \<Rightarrow> 't file_ext_t option \<Rightarrow> str_heap \<Rightarrow> str_heap option" where
  "destroy_file_ext h file_ext hp =
     (case file_ext of
        None \<Rightarrow> Some hp
      | Some f \<Rightarrow>
          (case ext_hs f of
             None \<Rightarrow> Some hp
           | Some t \<Rightarrow> do {
               let (t', ks, vs) = gh_remove_all h t;
               m \<leftarrow> free_strs ks (strs hp);
               Some (hp\<lparr>strs := m\<rparr>) }))"

text \<open>An access to the table by the text of a key reads the stored key of that text.\<close>

definition key_live :: "'t ext_hash \<Rightarrow> 't \<Rightarrow> str_heap \<Rightarrow> string \<Rightarrow> bool" where
  "key_live h t hp k = (case gh_lookup h t k of None \<Rightarrow> True | Some (p, v) \<Rightarrow> strs hp p \<noteq> None)"

definition add_file_ext ::
  "glib_str \<Rightarrow> 't ext_hash \<Rightarrow> (nat \<Rightarrow> char) \<Rightarrow> 't file_ext_t option \<Rightarrow> string option \<Rightarrow> str_heap \<Rightarrow>
     (('t file_ext_t option \<times> int) \<times> str_heap) option" where
  "add_file_ext g h junk file_ext ext hp =
     (case (file_ext, ext) of
        (Some f, Some e) \<Rightarrow> do {
          len \<leftarrow> cint (int (length e));
          let ext_key = nxt hp;
          let key = g_ascii_strdown g e;
          let hp1 = hp\<lparr>strs := (strs hp)(ext_key \<mapsto> key), nxt := Suc (nxt hp)\<rparr>;
          cnt \<leftarrow> cint (count f + 1);
          t \<leftarrow> ext_hs f;
          if \<not> key_live h t hp1 key then None
          else do {
            let (t', ks, vs) = gh_insert h t key ext_key ext_key;
            m \<leftarrow> free_strs ks (strs hp1);
            let f1 = f\<lparr>count := cnt, ext_hs := Some t'\<rparr>;
            let f2 = (if len > max_str_len f1
                      then f1\<lparr>max_str_len := len, max_str := Some (fresh_block junk (len + 1))\<rparr> else f1);
            Some ((Some f2, 0), hp1\<lparr>strs := m\<rparr>) } }
      | _ \<Rightarrow> Some ((file_ext, - 1), hp))"

text \<open>
  The loop that copies the extension backwards into \<open>max_str\<close>. \<open>Inr\<close>: the loop ended, with
  \<open>have_ext\<close> and \<open>ext_len\<close>; \<open>Inl\<close>: it left through the exit because the extension is too long.
\<close>

function ext_loop ::
  "string \<Rightarrow> int \<Rightarrow> int \<Rightarrow> char list \<Rightarrow> int \<Rightarrow> (char list \<times> (unit + (bool \<times> int))) option" where
  "ext_loop file_name i max_len buf ext_len =
     (if i > 0 then do {
        c \<leftarrow> aget file_name i;
        if c = CHR ''.'' then Some (buf, Inr (True, ext_len))
        else do {
          buf' \<leftarrow> aset buf ext_len c;
          if ext_len + 1 > max_len then Some (buf', Inl ())
          else ext_loop file_name (i - 1) max_len buf' (ext_len + 1) } }
      else Some (buf, Inr (False, ext_len)))"
  by pat_completeness auto
termination
  by (relation "measure (\<lambda>(n, i, m, b, e). nat i)") auto

declare ext_loop.simps [simp del]

definition ext_result :: "'t file_ext_t \<Rightarrow> int \<Rightarrow> int" where
  "ext_result f match_result =
     (if is_black f \<noteq> 0 then
        (if FILE_EXT_MATCH = match_result then FILE_EXT_NOT_MATCH else FILE_EXT_MATCH)
      else match_result)"

definition is_need_file_ext ::
  "glib_str \<Rightarrow> 't ext_hash \<Rightarrow> 't file_ext_t option \<Rightarrow> string option \<Rightarrow> str_heap \<Rightarrow>
     ('t file_ext_t option \<times> int) option" where
  "is_need_file_ext g h file_ext file_name hp = do {
     nm \<leftarrow> file_name;
     len \<leftarrow> cint (int (length nm));
     case file_ext of
       None \<Rightarrow> Some (None, - 1)
     | Some f \<Rightarrow> do {
         blk \<leftarrow> max_str f;
         buf0 \<leftarrow> aset blk 0 NUL;
         (buf1, r) \<leftarrow> ext_loop nm (len - 1) (max_str_len f) buf0 0;
         let f1 = f\<lparr>max_str := Some buf1\<rparr>;
         case r of
           Inl _ \<Rightarrow> Some (Some f1, ext_result f1 FILE_EXT_NOT_MATCH)
         | Inr (have_ext, ext_len) \<Rightarrow>
             if \<not> have_ext then Some (Some f1, ext_result f1 FILE_EXT_NOT_MATCH)
             else do {
               buf2 \<leftarrow> aset buf1 ext_len NUL;
               s \<leftarrow> cstring buf2;
               let new_ext = g_strreverse g s;
               let f2 = f\<lparr>max_str := Some (new_ext @ drop (length new_ext) buf2)\<rparr>;
               let down_ext = g_ascii_strdown g new_ext;
               t \<leftarrow> ext_hs f;
               if \<not> key_live h t hp down_ext then None
               else Some (Some f2, ext_result f2
                 (if gh_lookup h t down_ext \<noteq> None then FILE_EXT_MATCH else FILE_EXT_NOT_MATCH)) } } }"

definition set_file_ext_black_white :: "'t file_ext_t option \<Rightarrow> int \<Rightarrow> 't file_ext_t option" where
  "set_file_ext_black_white file_ext black = map_option (\<lambda>f. f\<lparr>is_black := black\<rparr>) file_ext"

section \<open>The extension of a file name\<close>

text \<open>The part behind the last dot; a dot in the first position does not count.\<close>

definition file_extension :: "string \<Rightarrow> string option" where
  "file_extension nm =
     (let q = rev (drop 1 nm); r = takeWhile (\<lambda>c. c \<noteq> CHR ''.'') q
      in if length r < length q then Some (rev r) else None)"

lemma ext_loop_spec:
  assumes "n < length nm" "length buf = nat mx + 1" "0 \<le> e" "e \<le> mx"
  shows "\<exists>buf'. length buf' = length buf \<and>
    (let q = rev (drop 1 (take (Suc n) nm)); r = takeWhile (\<lambda>c. c \<noteq> CHR ''.'') q
     in ext_loop nm (int n) mx buf e =
       Some (buf', if e + int (length r) > mx then Inl () else Inr (length r < length q, e + int (length r))) \<and>
       (e + int (length r) \<le> mx \<longrightarrow> buf' = take (nat e) buf @ r @ drop (nat e + length r) buf))"
  using assms
proof (induction n arbitrary: buf e)
  case 0
  then show ?case by (cases nm) (auto simp: ext_loop.simps [of _ 0 mx buf e])
next
  case (Suc n)
  define q where "q = rev (drop 1 (take (Suc n) nm))"
  define c where "c = nm ! Suc n"
  have "take (Suc (Suc n)) nm = take (Suc n) nm @ [c]"
    using Suc.prems(1) by (simp add: c_def take_Suc_conv_app_nth)
  then have q: "rev (drop (Suc 0) (take (Suc (Suc n)) nm)) = c # q"
    unfolding q_def using Suc.prems(1) by simp
  have g: "aget nm (int (Suc n)) = Some c" using Suc.prems(1) by (simp add: c_def del: idx_unfold)
  show ?case
  proof (cases "c = CHR ''.''")
    case True
    then have "ext_loop nm (int (Suc n)) mx buf e = Some (buf, Inr (True, e))"
      using g by (simp add: ext_loop.simps [of nm "int (Suc n)"] del: idx_unfold)
    then show ?thesis using True Suc.prems(4) by (intro exI [of _ buf]) (simp add: q Let_def del: length_rev)
  next
    case False
    define r where "r = takeWhile (\<lambda>c. c \<noteq> CHR ''.'') q"
    define buf1 where "buf1 = buf[nat e := c]"
    have st: "aset buf e c = Some buf1" using Suc.prems(2-4) by (simp add: aset_def buf1_def)
    have step: "ext_loop nm (int (Suc n)) mx buf e =
      (if e + 1 > mx then Some (buf1, Inl ()) else ext_loop nm (int n) mx buf1 (e + 1))"
      using False g st by (simp add: ext_loop.simps [of nm "int (Suc n)"] int_pred del: idx_unfold)
    show ?thesis
    proof (cases "e + 1 > mx")
      case True
      then show ?thesis
        using False step by (intro exI [of _ buf1]) (simp add: q Let_def buf1_def del: idx_unfold)
    next
      case le: False
      have pr: "n < length nm" "length buf1 = nat mx + 1" "0 \<le> e + 1" "e + 1 \<le> mx"
        using Suc.prems le by (auto simp: buf1_def)
      obtain buf' where b: "length buf' = length buf1"
        "ext_loop nm (int n) mx buf1 (e + 1) =
           Some (buf', if e + 1 + int (length r) > mx then Inl () else Inr (length r < length q, e + 1 + int (length r)))"
        "e + 1 + int (length r) \<le> mx \<longrightarrow> buf' = take (nat (e + 1)) buf1 @ r @ drop (nat (e + 1) + length r) buf1"
        using Suc.IH [OF pr, unfolded Let_def, folded q_def, folded r_def] by blast
      have "take (nat (e + 1)) buf1 = take (nat e) buf @ [c]"
        using Suc.prems(2-4) by (simp add: buf1_def nat_add_distrib take_Suc_conv_app_nth)
      moreover have "drop (nat (e + 1) + length r) buf1 = drop (nat e + Suc (length r)) buf"
        using Suc.prems(3) by (simp add: buf1_def nat_add_distrib)
      ultimately show ?thesis
        using b le False step by (intro exI [of _ buf'])
          (simp add: q Let_def r_def [symmetric] buf1_def add.assoc add.commute add.left_commute)
    qed
  qed
qed

section \<open>Invariant and abstraction\<close>

text \<open>
  A state that can be queried: the block has room for the longest extension, every key of the
  table is live, carries the text it is entered under, and is no longer than that; and every
  live string is the key of an entry.
\<close>

definition ext_inv :: "'t ext_hash \<Rightarrow> 't file_ext_t option \<times> str_heap \<Rightarrow> bool" where
  "ext_inv h s \<longleftrightarrow> (\<exists>f t buf. fst s = Some f \<and> ext_hs f = Some t \<and> max_str f = Some buf \<and>
     0 \<le> max_str_len f \<and> length buf = nat (max_str_len f) + 1 \<and>
     (\<forall>k p v. gh_lookup h t k = Some (p, v) \<longrightarrow> strs (snd s) p = Some k \<and> p < nxt (snd s) \<and> int (length k) \<le> max_str_len f) \<and>
     (\<forall>a. strs (snd s) a \<noteq> None \<longrightarrow> (\<exists>k v. gh_lookup h t k = Some (a, v))))"

text \<open>The abstract filter: the set of extensions in lower case, and the sense of the list.\<close>

definition ext_set :: "'t ext_hash \<Rightarrow> 't file_ext_t option \<times> str_heap \<Rightarrow> string set" where
  "ext_set h s = (case fst s of None \<Rightarrow> {} | Some f \<Rightarrow> {k. \<exists>t. ext_hs f = Some t \<and> gh_lookup h t k \<noteq> None})"

definition ext_black :: "'t file_ext_t option \<times> str_heap \<Rightarrow> bool" where
  "ext_black s = (case fst s of None \<Rightarrow> False | Some f \<Rightarrow> is_black f \<noteq> 0)"

definition name_matches :: "string set \<Rightarrow> string \<Rightarrow> bool" where
  "name_matches E nm \<longleftrightarrow> (\<exists>x. file_extension nm = Some x \<and> map ascii_lower x \<in> E)"

lemma ext_invE:
  assumes "ext_inv h (file_ext, hp)"
  obtains f t buf where "file_ext = Some f" "ext_hs f = Some t" "max_str f = Some buf" "0 \<le> max_str_len f"
    "length buf = nat (max_str_len f) + 1"
    "\<And>k p v. gh_lookup h t k = Some (p, v) \<Longrightarrow> strs hp p = Some k \<and> p < nxt hp \<and> int (length k) \<le> max_str_len f"
    "\<And>a. strs hp a \<noteq> None \<Longrightarrow> \<exists>k v. gh_lookup h t k = Some (a, v)"
  using assms unfolding ext_inv_def fst_conv snd_conv by blast

lemma init_inv:
  assumes "ghash_laws h" "strs hp = Map.empty"
  shows "ext_inv h (Some (init_file_ext h), hp)" "ext_set h (Some (init_file_ext h), hp) = {}"
    "\<not> ext_black (Some (init_file_ext h), hp)"
  using gh_lookup_new [OF assms(1)] assms(2) by (simp_all add: ext_inv_def ext_set_def ext_black_def init_file_ext_def)

lemma black_inv:
  assumes "ext_inv h (f, hp)"
  shows "ext_inv h (set_file_ext_black_white f b, hp)" "ext_set h (set_file_ext_black_white f b, hp) = ext_set h (f, hp)"
    "ext_black (set_file_ext_black_white f b, hp) \<longleftrightarrow> b \<noteq> 0"
proof -
  obtain f0 where f: "f = Some f0" by (rule ext_invE [OF assms]) blast
  show "ext_inv h (set_file_ext_black_white f b, hp)"
    using assms unfolding ext_inv_def f set_file_ext_black_white_def by simp
  show "ext_set h (set_file_ext_black_white f b, hp) = ext_set h (f, hp)" "ext_black (set_file_ext_black_white f b, hp) \<longleftrightarrow> b \<noteq> 0"
    unfolding f set_file_ext_black_white_def by (simp_all add: ext_set_def ext_black_def)
qed

lemma add_inv:
  assumes gl: "glib_str_laws g" and laws: "ghash_laws h" and inv: "ext_inv h (file_ext, hp)"
    and len: "int (length e) < INT_MAX"
    and cnt: "\<And>f. file_ext = Some f \<Longrightarrow> INT_MIN \<le> count f \<and> count f < INT_MAX"
  shows "\<exists>f' hp'. add_file_ext g h junk file_ext (Some e) hp = Some ((Some f', 0), hp') \<and>
     ext_inv h (Some f', hp') \<and> ext_set h (Some f', hp') = insert (map ascii_lower e) (ext_set h (file_ext, hp)) \<and>
     ext_black (Some f', hp') = ext_black (file_ext, hp) \<and> count f' = count (the file_ext) + 1"
proof -
  obtain f t buf where f: "file_ext = Some f" "ext_hs f = Some t" "max_str f = Some buf" "0 \<le> max_str_len f"
    "length buf = nat (max_str_len f) + 1"
    and ent: "\<And>k p v. gh_lookup h t k = Some (p, v) \<Longrightarrow> strs hp p = Some k \<and> p < nxt hp \<and> int (length k) \<le> max_str_len f"
    and own: "\<And>a. strs hp a \<noteq> None \<Longrightarrow> \<exists>k v. gh_lookup h t k = Some (a, v)"
    by (rule ext_invE [OF inv]) blast
  define key where "key = map ascii_lower e"
  have key: "g_ascii_strdown g e = key" using gl by (simp add: glib_str_laws_def key_def)
  have lk: "length key = length e" by (simp add: key_def)
  obtain t' ks vs where ins: "gh_insert h t key (nxt hp) (nxt hp) = (t', ks, vs)" by (metis prod_cases3)
  note il = gh_insert_laws [OF laws ins]
  define m0 where "m0 = (strs hp)(nxt hp \<mapsto> key)"
  define m where "m = (if gh_lookup h t key = None then m0 else m0(nxt hp := None))"
  have fr: "free_strs ks m0 = Some m"
    unfolding il(2) by (cases "gh_lookup h t key") (auto simp: m_def m0_def)
  have kl: "key_live h t \<lparr>strs = m0, nxt = Suc (nxt hp)\<rparr> key"
    using ent [of key] by (auto simp: key_live_def m0_def split: option.split)
  have hp: "hp\<lparr>strs := m0, nxt := Suc (nxt hp)\<rparr> = \<lparr>strs = m0, nxt = Suc (nxt hp)\<rparr>" by simp
  let ?f1 = "f\<lparr>count := count f + 1, ext_hs := Some t'\<rparr>"
  define f' where "f' = (if int (length e) > max_str_len f
    then ?f1\<lparr>max_str_len := int (length e), max_str := Some (fresh_block junk (int (length e) + 1))\<rparr> else ?f1)"
  define hp' where "hp' = \<lparr>strs = m, nxt = Suc (nxt hp)\<rparr>"
  have ci: "cint (int (length e)) = Some (int (length e))" "cint (count f + 1) = Some (count f + 1)"
    using len cnt [OF f(1)] by (auto simp: cint_def int_limits)
  have run: "add_file_ext g h junk file_ext (Some e) hp = Some ((Some f', 0), hp')"
    using kl fr by (simp add: add_file_ext_def f ci key Let_def m0_def [symmetric] hp ins f'_def hp'_def)
  have ms: "max_str_len f \<le> max_str_len f'" "int (length e) \<le> max_str_len f'" "ext_hs f' = Some t'"
    by (auto simp: f'_def)
  have ent': "strs hp' p = Some k \<and> p < nxt hp' \<and> int (length k) \<le> max_str_len f'"
    if l: "gh_lookup h t' k = Some (p, v)" for k p v
  proof (cases "k = key")
    case True
    then show ?thesis
      using l il(1) ms lk ent [of key] by (cases "gh_lookup h t key") (auto simp: hp'_def m_def m0_def)
  next
    case False
    with l il(1) have "gh_lookup h t k = Some (p, v)" by simp
    with ent [OF this] ms(1) show ?thesis by (auto simp: hp'_def m_def m0_def)
  qed
  have own': "\<exists>k v. gh_lookup h t' k = Some (a, v)" if "strs hp' a \<noteq> None" for a
  proof (cases "strs hp a = None")
    case True
    with that have "a = nxt hp" "gh_lookup h t key = None" by (auto simp: hp'_def m_def m0_def split: if_splits)
    then show ?thesis using il(1) by auto
  next
    case False
    then obtain k v where k: "gh_lookup h t k = Some (a, v)" using own by blast
    show ?thesis
    proof (cases "k = key")
      case True
      then show ?thesis using k il(1) by auto
    qed (use k il(1) in auto)
  qed
  have "\<exists>b. max_str f' = Some b \<and> length b = nat (max_str_len f') + 1"
    using f by (auto simp: f'_def fresh_block_def nat_add_distrib)
  then have "ext_inv h (Some f', hp')"
    unfolding ext_inv_def using ms ent' own' f(4) by auto
  moreover have "ext_set h (Some f', hp') = insert key (ext_set h (file_ext, hp))"
    by (auto simp: ext_set_def f ms(3) il(1))
  ultimately show ?thesis
    using run by (auto simp: ext_black_def f key_def f'_def)
qed

lemma ext_inv_buf:
  assumes "ext_inv h (Some f, hp)" "max_str f = Some buf" "length buf' = length buf"
  shows "ext_inv h (Some (f\<lparr>max_str := Some buf'\<rparr>), hp)"
    "ext_set h (Some (f\<lparr>max_str := Some buf'\<rparr>), hp) = ext_set h (Some f, hp)"
    "ext_black (Some (f\<lparr>max_str := Some buf'\<rparr>), hp) = ext_black (Some f, hp)"
  using assms by (auto simp: ext_inv_def ext_set_def ext_black_def)

lemma ext_loop_name:
  assumes "length buf = nat mx + 1" "0 \<le> mx"
  shows "\<exists>buf'. length buf' = length buf \<and>
    (let q = rev (drop 1 nm); r = takeWhile (\<lambda>c. c \<noteq> CHR ''.'') q
     in ext_loop nm (int (length nm) - 1) mx buf 0 =
       Some (buf', if int (length r) > mx then Inl () else Inr (length r < length q, int (length r))) \<and>
       (int (length r) \<le> mx \<longrightarrow> buf' = r @ drop (length r) buf))"
proof (cases nm)
  case Nil
  then show ?thesis using assms(2) by (intro exI [of _ buf]) (simp add: ext_loop.simps [of "[]"])
next
  case (Cons c cs)
  then show ?thesis using ext_loop_spec [of "length cs" nm buf mx 0] assms by (simp add: Let_def cong: if_cong split del: if_split)
qed

lemma query_spec:
  assumes gl: "glib_str_laws g" and inv: "ext_inv h (file_ext, hp)" and nm: "no_nul nm" "int (length nm) \<le> INT_MAX"
  shows "\<exists>f'. is_need_file_ext g h file_ext (Some nm) hp =
      Some (Some f', if name_matches (ext_set h (file_ext, hp)) nm \<noteq> ext_black (file_ext, hp)
                     then FILE_EXT_MATCH else FILE_EXT_NOT_MATCH) \<and>
     ext_inv h (Some f', hp) \<and> ext_set h (Some f', hp) = ext_set h (file_ext, hp) \<and>
     ext_black (Some f', hp) = ext_black (file_ext, hp) \<and> count f' = count (the file_ext)"
proof -
  obtain f t buf where f: "file_ext = Some f" "ext_hs f = Some t" "max_str f = Some buf" "0 \<le> max_str_len f"
    "length buf = nat (max_str_len f) + 1"
    and ent: "\<And>k p v. gh_lookup h t k = Some (p, v) \<Longrightarrow> strs hp p = Some k \<and> p < nxt hp \<and> int (length k) \<le> max_str_len f"
    by (rule ext_invE [OF inv]) blast
  define q where "q = rev (drop 1 nm)"
  define r where "r = takeWhile (\<lambda>c. c \<noteq> CHR ''.'') q"
  define b0 where "b0 = buf[0 := NUL]"
  have a0: "aset buf 0 NUL = Some b0" "length b0 = length buf" using f(5) by (simp_all add: aset_def b0_def)
  obtain b1 where b1: "length b1 = length buf"
    "ext_loop nm (int (length nm) - 1) (max_str_len f) b0 0 =
       Some (b1, if int (length r) > max_str_len f then Inl () else Inr (length r < length q, int (length r)))"
    "int (length r) \<le> max_str_len f \<Longrightarrow> b1 = r @ drop (length r) b0"
    using ext_loop_name [of b0 "max_str_len f" nm] f(4,5) a0(2) by (auto simp: Let_def q_def r_def)
  have fe: "file_extension nm = (if length r < length q then Some (rev r) else None)"
    by (simp add: file_extension_def Let_def q_def r_def)
  have ci: "cint (int (length nm)) = Some (int (length nm))" using nm(2) by (simp add: cint_def int_limits)
  have es: "k \<in> ext_set h (file_ext, hp) \<longleftrightarrow> gh_lookup h t k \<noteq> None" for k by (simp add: ext_set_def f)
  note pre = is_need_file_ext_def ci f(1,3) a0(1) b1(2) Let_def
  note keep = ext_inv_buf [OF inv [unfolded f(1)] f(3)]
  have bl: "is_black f \<noteq> 0 \<longleftrightarrow> ext_black (file_ext, hp)" by (simp add: ext_black_def f)
  show ?thesis
  proof (cases "int (length r) \<le> max_str_len f \<and> length r < length q")
    case False
    have no: "\<not> name_matches (ext_set h (file_ext, hp)) nm"
    proof
      assume "name_matches (ext_set h (file_ext, hp)) nm"
      then have "length r < length q" "gh_lookup h t (map ascii_lower (rev r)) \<noteq> None"
        by (auto simp: name_matches_def fe es split: if_splits)
      then show False using False ent [of "map ascii_lower (rev r)"] by auto
    qed
    have "is_need_file_ext g h file_ext (Some nm) hp =
      Some (Some (f\<lparr>max_str := Some b1\<rparr>), if ext_black (file_ext, hp) then FILE_EXT_MATCH else FILE_EXT_NOT_MATCH)"
      using False bl by (auto simp: pre ext_result_def ext_consts)
    then show ?thesis using no keep [OF b1(1)] by (simp add: f(1))
  next
    case True
    define b2 where "b2 = b1[length r := NUL]"
    have "b1 = r @ drop (length r) b0" "length r < length b0"
      using True b1(3) f(4,5) a0(2) by auto
    then have b2: "b2 = r @ NUL # drop (Suc (length r)) b0" "aset b1 (int (length r)) NUL = Some b2" "length b2 = length buf"
      using b1(1) a0(2) by (simp_all add: b2_def list_update_append Cons_nth_drop_Suc [symmetric])
    have "no_nul r" using nm(1) by (auto simp: r_def q_def no_nul_def dest!: set_takeWhileD in_set_dropD)
    then have s: "cstring b2 = Some r" by (simp add: b2(1))
    have g: "g_strreverse g r = rev r" "g_ascii_strdown g (rev r) = map ascii_lower (rev r)"
      using gl by (simp_all add: glib_str_laws_def)
    let ?b3 = "rev r @ drop (length (rev r)) b2"
    have lb3: "length ?b3 = length buf" using b2(1,3) by simp
    have kl: "key_live h t hp k" for k using ent [of k] by (auto simp: key_live_def split: option.split)
    have "is_need_file_ext g h file_ext (Some nm) hp =
      Some (Some (f\<lparr>max_str := Some ?b3\<rparr>), if name_matches (ext_set h (file_ext, hp)) nm \<noteq> ext_black (file_ext, hp)
         then FILE_EXT_MATCH else FILE_EXT_NOT_MATCH)"
      using True bl b2(2) s g kl f(2) by (auto simp: pre ext_result_def ext_consts name_matches_def fe es [unfolded f(1)])
    then show ?thesis using keep [OF lb3] by (simp add: f(1))
  qed
qed

section \<open>Removing all keys\<close>

lemma free_strs_all:
  "distinct as \<Longrightarrow> (\<And>a. a \<in> set as \<Longrightarrow> m a \<noteq> None) \<Longrightarrow>
     free_strs as m = Some (\<lambda>a. if a \<in> set as then None else m a)"
proof (induction "as" arbitrary: m)
  case (Cons a "as")
  have "free_strs as (m(a := None)) = Some (\<lambda>x. if x \<in> set as then None else (m(a := None)) x)"
    using Cons.prems by (intro Cons.IH) auto
  then show ?case using Cons.prems(2) [of a] by (auto simp: fun_eq_iff)
qed simp

lemma remove_all_keys:
  assumes laws: "ghash_laws h" and inv: "ext_inv h (Some f, hp)" and rm: "gh_remove_all h (the (ext_hs f)) = (t', ks, vs)"
  shows "free_strs ks (strs hp) = Some (\<lambda>a. None)"
proof -
  obtain t where t: "ext_hs f = Some t"
    and ent: "\<And>k p v. gh_lookup h t k = Some (p, v) \<Longrightarrow> strs hp p = Some k"
    and own: "\<And>a. strs hp a \<noteq> None \<Longrightarrow> \<exists>k v. gh_lookup h t k = Some (a, v)"
    by (rule ext_invE [OF inv]) blast
  have ks: "ks = map (\<lambda>(k, p, v). p) (gh_entries h t)" using gh_remove_all_laws(3) [OF laws] rm t by simp
  have in_ks: "a \<in> set ks \<longleftrightarrow> (\<exists>k v. gh_lookup h t k = Some (a, v))" for a
    unfolding gh_entries_iff [OF laws, symmetric] by (force simp: ks)
  have "map (\<lambda>p. the (strs hp p)) ks = map fst (gh_entries h t)"
    unfolding ks using ent by (force simp: gh_entries_iff [OF laws])
  then have "distinct (map (\<lambda>p. the (strs hp p)) ks)" using gh_entries_distinct [OF laws] by simp
  then have "distinct ks" by (simp add: distinct_map)
  then have "free_strs ks (strs hp) = Some (\<lambda>a. if a \<in> set ks then None else strs hp a)"
    by (rule free_strs_all) (use ent in_ks in force)
  moreover have "(if a \<in> set ks then None else strs hp a) = None" for a
    using own [of a] in_ks [of a] by (cases "strs hp a") auto
  ultimately show ?thesis by simp
qed

section \<open>Interface of an extension filter\<close>

text \<open>Sequences of additions and of questions.\<close>

primrec add_all :: "('s \<Rightarrow> string \<Rightarrow> 's option) \<Rightarrow> 's \<Rightarrow> string list \<Rightarrow> 's option" where
  "add_all add s [] = Some s"
| "add_all add s (e # es) = do { s' \<leftarrow> add s e; add_all add s' es }"

primrec ask_all :: "('s \<Rightarrow> string \<Rightarrow> ('s \<times> bool) option) \<Rightarrow> 's \<Rightarrow> string list \<Rightarrow> ('s \<times> bool list) option" where
  "ask_all ask s [] = Some (s, [])"
| "ask_all ask s (n # ns) = do { (s1, b) \<leftarrow> ask s n; (s2, bs) \<leftarrow> ask_all ask s1 ns; Some (s2, b # bs) }"

text \<open>
  What a client of the filter relies on: in a good state, adding an extension and asking for a
  name are defined, keep the state good, and do to the set of extensions what they promise.
  \<open>room\<close> is the number of further additions for which the counter does not overflow.
\<close>

locale ext_filter =
  fixes good :: "'s \<Rightarrow> bool" and exts :: "'s \<Rightarrow> string set" and black :: "'s \<Rightarrow> bool" and room :: "'s \<Rightarrow> int"
    and add :: "'s \<Rightarrow> string \<Rightarrow> 's option" and ask :: "'s \<Rightarrow> string \<Rightarrow> ('s \<times> bool) option"
  assumes add_law: "good s \<Longrightarrow> 0 < room s \<Longrightarrow> int (length e) < INT_MAX \<Longrightarrow>
      returns (add s e) (\<lambda>s'. good s' \<and> exts s' = insert (map ascii_lower e) (exts s) \<and> black s' = black s \<and> room s' = room s - 1)"
    and ask_law: "good s \<Longrightarrow> no_nul nm \<Longrightarrow> int (length nm) \<le> INT_MAX \<Longrightarrow>
      returns (ask s nm) (\<lambda>(s', b). good s' \<and> exts s' = exts s \<and> black s' = black s \<and> room s' = room s \<and>
        b = (name_matches (exts s) nm \<noteq> black s))"
begin

lemma add_all_law:
  "good s \<Longrightarrow> int (length es) \<le> room s \<Longrightarrow> (\<And>e. e \<in> set es \<Longrightarrow> int (length e) < INT_MAX) \<Longrightarrow>
   returns (add_all add s es) (\<lambda>s'. good s' \<and> exts s' = map ascii_lower ` set es \<union> exts s \<and> black s' = black s \<and>
     room s' = room s - int (length es))"
proof (induction es arbitrary: s)
  case (Cons e es)
  have "0 < room s" using Cons.prems(2) by simp
  note st = add_law [OF Cons.prems(1) this, of e]
  show ?case
    unfolding add_all.simps returns_bind
  proof (rule returns_mono [OF st])
    fix s1 assume s1: "good s1 \<and> exts s1 = insert (map ascii_lower e) (exts s) \<and> black s1 = black s \<and> room s1 = room s - 1"
    then have "returns (add_all add s1 es) (\<lambda>s'. good s' \<and> exts s' = map ascii_lower ` set es \<union> exts s1 \<and> black s' = black s1 \<and>
       room s' = room s1 - int (length es))"
      using Cons.prems by (intro Cons.IH) auto
    then show "returns (add_all add s1 es) (\<lambda>s'. good s' \<and> exts s' = map ascii_lower ` set (e # es) \<union> exts s \<and> black s' = black s \<and>
       room s' = room s - int (length (e # es)))"
      by (rule returns_mono) (use s1 in auto)
  qed (use Cons.prems(3) in simp)
qed simp

text \<open>A sequence of questions gets the answers of the set, and does not change it.\<close>

lemma ask_all_law:
  "good s \<Longrightarrow> (\<And>n. n \<in> set ns \<Longrightarrow> no_nul n \<and> int (length n) \<le> INT_MAX) \<Longrightarrow>
   returns (ask_all ask s ns) (\<lambda>(s', bs). good s' \<and> exts s' = exts s \<and> black s' = black s \<and>
     bs = map (\<lambda>n. name_matches (exts s) n \<noteq> black s) ns)"
proof (induction ns arbitrary: s)
  case (Cons n ns)
  have n: "no_nul n" "int (length n) \<le> INT_MAX" using Cons.prems(2) by auto
  obtain s1 b where q: "ask s n = Some (s1, b)" and s1: "good s1" "exts s1 = exts s" "black s1 = black s"
    "b = (name_matches (exts s) n \<noteq> black s)"
    using ask_law [OF Cons.prems(1) n] by (elim returnsE) auto
  obtain s2 bs where "ask_all ask s1 ns = Some (s2, bs)" "good s2" "exts s2 = exts s1" "black s2 = black s1"
    "bs = map (\<lambda>n. name_matches (exts s1) n \<noteq> black s1) ns"
    using Cons.IH [OF s1(1) Cons.prems(2)] by (force elim!: returnsE)
  with q s1 show ?case by simp
qed simp

end

definition add_step :: "glib_str \<Rightarrow> 't ext_hash \<Rightarrow> (nat \<Rightarrow> char) \<Rightarrow> 't file_ext_t option \<times> str_heap \<Rightarrow> string \<Rightarrow>
    ('t file_ext_t option \<times> str_heap) option" where
  "add_step g h junk s e = map_option (\<lambda>((f, r), hp). (f, hp)) (add_file_ext g h junk (fst s) (Some e) (snd s))"

definition ask_step :: "glib_str \<Rightarrow> 't ext_hash \<Rightarrow> 't file_ext_t option \<times> str_heap \<Rightarrow> string \<Rightarrow>
    (('t file_ext_t option \<times> str_heap) \<times> bool) option" where
  "ask_step g h s nm = map_option (\<lambda>(f, r). ((f, snd s), r = FILE_EXT_MATCH)) (is_need_file_ext g h (fst s) (Some nm) (snd s))"

definition ext_room :: "'t file_ext_t option \<times> str_heap \<Rightarrow> int" where
  "ext_room s = INT_MAX - count (the (fst s))"

definition ext_good :: "glib_str \<Rightarrow> 't ext_hash \<Rightarrow> 't file_ext_t option \<times> str_heap \<Rightarrow> bool" where
  "ext_good g h s \<longleftrightarrow> glib_str_laws g \<and> ghash_laws h \<and> ext_inv h s \<and> 0 \<le> count (the (fst s))"

interpretation fe: ext_filter "ext_good g h" "ext_set h" ext_black ext_room "add_step g h junk" "ask_step g h" for g h junk
proof
  fix s and e :: string assume g: "ext_good g h s" and r: "0 < ext_room s" and e: "int (length e) < INT_MAX"
  obtain f hp where s: "s = (Some f, hp)" using g by (auto simp: ext_good_def ext_inv_def) (metis prod.collapse)
  have "INT_MIN \<le> count f \<and> count f < INT_MAX" using g r by (auto simp: s ext_good_def ext_room_def int_limits)
  then show "returns (add_step g h junk s e) (\<lambda>s'. ext_good g h s' \<and> ext_set h s' = insert (map ascii_lower e) (ext_set h s) \<and>
      ext_black s' = ext_black s \<and> ext_room s' = ext_room s - 1)"
    using add_inv [of g h "Some f" hp e junk] g e by (auto simp: s ext_good_def add_step_def ext_room_def)
next
  fix s nm assume g: "ext_good g h s" and n: "no_nul nm" "int (length nm) \<le> INT_MAX"
  obtain f hp where s: "s = (Some f, hp)" using g by (auto simp: ext_good_def ext_inv_def) (metis prod.collapse)
  show "returns (ask_step g h s nm) (\<lambda>(s', b). ext_good g h s' \<and> ext_set h s' = ext_set h s \<and> ext_black s' = ext_black s \<and>
      ext_room s' = ext_room s \<and> b = (name_matches (ext_set h s) nm \<noteq> ext_black s))"
    using query_spec [of g h "Some f" hp nm] g n by (auto simp: s ext_good_def ask_step_def ext_room_def ext_consts)
qed

section \<open>Properties\<close>

definition no_strs :: str_heap where
  "no_strs = \<lparr>strs = (\<lambda>a. None), nxt = 0\<rparr>"

lemma fresh_good:
  assumes "glib_str_laws g" "ghash_laws h"
  shows "ext_good g h (Some (init_file_ext h), no_strs)" "ext_room (Some (init_file_ext h), no_strs) = INT_MAX"
    "ext_set h (Some (init_file_ext h), no_strs) = {}"
  using assms init_inv [OF assms(2), of no_strs] by (simp_all add: ext_good_def ext_room_def init_file_ext_def no_strs_def)

lemma black_good:
  assumes "ext_good g h (f, hp)"
  shows "ext_good g h (set_file_ext_black_white f b, hp)"
  using assms black_inv(1) [of h f hp b]
  by (cases f) (auto simp: ext_good_def set_file_ext_black_white_def)

lemma adds_good:
  assumes "glib_str_laws g" "ghash_laws h" "int (length es) \<le> INT_MAX" "\<forall>e \<in> set es. int (length e) < INT_MAX"
  shows "returns (add_all (add_step g h junk) (Some (init_file_ext h), no_strs) es)
    (\<lambda>s. ext_good g h s \<and> ext_set h s = map ascii_lower ` set es)"
proof -
  note fr = fresh_good [OF assms(1,2)]
  have "int (length es) \<le> ext_room (Some (init_file_ext h), no_strs)" using fr(2) assms(3) by simp
  from fe.add_all_law [OF fr(1) this, of junk] assms(4) show ?thesis
    by (auto simp: fr(3) elim!: returns_mono)
qed

text \<open>
  C7: the filter refines the set of its extensions. After \<open>init_file_ext\<close>, any sequence of
  \<open>add_file_ext\<close> calls and \<open>set_file_ext_black_white\<close>, every sequence of \<open>is_need_file_ext\<close> calls
  is defined, and answers for each name whether its extension, in lower case, is one of the
  extensions added, in lower case (reversed for a black list); the answers do not depend on
  the questions asked before.
\<close>

theorem file_ext_refines:
  assumes "glib_str_laws g" "ghash_laws h" "int (length es) \<le> INT_MAX"
    "\<And>e. e \<in> set es \<Longrightarrow> int (length e) < INT_MAX" "\<And>n. n \<in> set ns \<Longrightarrow> no_nul n \<and> int (length n) \<le> INT_MAX"
  shows "\<exists>f1 hp1 s2. add_all (add_step g h junk) (Some (init_file_ext h), no_strs) es = Some (f1, hp1) \<and>
     ask_all (ask_step g h) (set_file_ext_black_white f1 b, hp1) ns =
       Some (s2, map (\<lambda>n. name_matches (map ascii_lower ` set es) n \<noteq> (b \<noteq> 0)) ns)"
proof -
  obtain s1 where s1: "add_all (add_step g h junk) (Some (init_file_ext h), no_strs) es = Some s1" "ext_good g h s1"
    "ext_set h s1 = map ascii_lower ` set es"
    using adds_good [OF assms(1-3), of junk] assms(4) by (auto elim!: returnsE)
  obtain f1 hp1 where f1: "s1 = (f1, hp1)" by (cases s1)
  have inv: "ext_inv h (f1, hp1)" using s1(2) by (simp add: ext_good_def f1)
  have g: "ext_good g h (set_file_ext_black_white f1 b, hp1)" using s1(2) black_good by (simp add: f1)
  have "returns (ask_all (ask_step g h) (set_file_ext_black_white f1 b, hp1) ns)
      (\<lambda>(s2, bs). bs = map (\<lambda>n. name_matches (map ascii_lower ` set es) n \<noteq> (b \<noteq> 0)) ns)"
  proof (rule returns_mono [OF fe.ask_all_law [OF g]])
    show "no_nul n \<and> int (length n) \<le> INT_MAX" if "n \<in> set ns" for n using that by (rule assms(5))
  qed (use black_inv(2,3) [OF inv, of b] s1(3) f1 in auto)
  then obtain s2 where "ask_all (ask_step g h) (set_file_ext_black_white f1 b, hp1) ns =
      Some (s2, map (\<lambda>n. name_matches (map ascii_lower ` set es) n \<noteq> (b \<noteq> 0)) ns)"
    by (auto elim!: returnsE)
  then show ?thesis using s1(1) f1 by blast
qed

theorem file_ext_refines_witness:
  "\<exists>f1 hp1 s2. add_all (add_step ascii_glib alist_ghash (\<lambda>n. NUL)) (Some (init_file_ext alist_ghash), no_strs) [''EXE'', ''docx''] = Some (f1, hp1) \<and>
     ask_all (ask_step ascii_glib alist_ghash) (set_file_ext_black_white f1 1, hp1) [''a.exe'', ''b.pdf'', ''.exe''] =
       Some (s2, map (\<lambda>n. name_matches (map ascii_lower ` set [''EXE'', ''docx'']) n \<noteq> (1 \<noteq> (0::int))) [''a.exe'', ''b.pdf'', ''.exe''])"
  by (rule file_ext_refines [OF ascii_glib_laws alist_ghash_laws]) (auto simp: int_limits)

text \<open>
  \<open>destroy_file_ext\<close> frees every key string that the additions allocated, each once,
  duplicates included.
\<close>

theorem file_ext_destroy_frees:
  assumes "glib_str_laws g" "ghash_laws h" "int (length es) \<le> INT_MAX" "\<And>e. e \<in> set es \<Longrightarrow> int (length e) < INT_MAX"
  shows "\<exists>f1 hp1 hp2. add_all (add_step g h junk) (Some (init_file_ext h), no_strs) es = Some (f1, hp1) \<and>
     destroy_file_ext h f1 hp1 = Some hp2 \<and> strs hp2 = (\<lambda>a. None)"
proof -
  obtain s1 where s1: "add_all (add_step g h junk) (Some (init_file_ext h), no_strs) es = Some s1" "ext_good g h s1"
    using adds_good [OF assms(1-3), of junk] assms(4) by (auto elim!: returnsE)
  obtain f1 hp1 where s: "s1 = (f1, hp1)" by (cases s1)
  have inv: "ext_inv h (f1, hp1)" using s1(2) by (simp add: ext_good_def s)
  then obtain f t where f: "f1 = Some f" "ext_hs f = Some t" by (rule ext_invE)
  obtain t' ks vs where rm: "gh_remove_all h t = (t', ks, vs)" by (metis prod_cases3)
  have "free_strs ks (strs hp1) = Some (\<lambda>a. None)" using remove_all_keys [OF assms(2)] inv f rm by simp
  then have "destroy_file_ext h f1 hp1 = Some (hp1\<lparr>strs := (\<lambda>a. None)\<rparr>)" by (simp add: destroy_file_ext_def f rm)
  then show ?thesis using s1(1) s by auto
qed

theorem file_ext_destroy_frees_witness:
  "\<exists>f1 hp1 hp2. add_all (add_step ascii_glib alist_ghash (\<lambda>n. NUL)) (Some (init_file_ext alist_ghash), no_strs) [''exe'', ''EXE''] = Some (f1, hp1) \<and>
     destroy_file_ext alist_ghash f1 hp1 = Some hp2 \<and> strs hp2 = (\<lambda>a. None)"
  by (rule file_ext_destroy_frees [OF ascii_glib_laws alist_ghash_laws]) (auto simp: int_limits)

text \<open>
  After \<open>clear_file_ext\<close> every \<open>is_need_file_ext\<close> dereferences the NULL \<open>max_str\<close>, until an
  extension of at least one character is added: then the filter is as good as new and holds
  just that extension.
\<close>

theorem file_ext_clear:
  assumes "ext_good g h (f, hp)" "e \<noteq> []" "int (length e) < INT_MAX"
  shows "\<exists>f' hp'. clear_file_ext h f hp = Some (f', hp') \<and>
     (\<forall>nm. is_need_file_ext g h f' (Some nm) hp' = None) \<and>
     returns (add_step g h junk (f', hp') e) (\<lambda>s. ext_good g h s \<and> ext_set h s = {map ascii_lower e})"
proof -
  have laws: "glib_str_laws g" "ghash_laws h" and inv: "ext_inv h (f, hp)" using assms(1) by (auto simp: ext_good_def)
  obtain f0 t where f0: "f = Some f0" "ext_hs f0 = Some t" by (rule ext_invE [OF inv]) blast
  obtain t' ks vs where rm: "gh_remove_all h t = (t', ks, vs)" by (metis prod_cases3)
  have fk: "free_strs ks (strs hp) = Some (\<lambda>a. None)" using remove_all_keys [OF laws(2)] inv f0 rm by simp
  have em: "gh_lookup h t' = Map.empty" by (rule gh_remove_all_laws [OF laws(2) rm])
  let ?f' = "f0\<lparr>max_str := None, ext_hs := Some t', count := 0, max_str_len := 0\<rparr>"
  let ?hp' = "hp\<lparr>strs := (\<lambda>a. None)\<rparr>"
  have cl: "clear_file_ext h f hp = Some (Some ?f', ?hp')" by (simp add: clear_file_ext_def f0 rm fk)
  have und: "is_need_file_ext g h (Some ?f') (Some nm) ?hp' = None" for nm by (simp add: is_need_file_ext_def)
  have blk: "ext_good g h (Some (?f'\<lparr>max_str := Some [NUL]\<rparr>), ?hp')"
    "ext_set h (Some (?f'\<lparr>max_str := Some [NUL]\<rparr>), ?hp') = {}"
    using laws by (simp_all add: ext_good_def ext_inv_def ext_set_def em)
  have "returns (add_step g h junk (Some (?f'\<lparr>max_str := Some [NUL]\<rparr>), ?hp') e)
      (\<lambda>s. ext_good g h s \<and> ext_set h s = insert (map ascii_lower e) {})"
    using fe.add_law [OF blk(1), of e junk] assms(3) blk(2) by (auto simp: ext_room_def int_limits elim!: returns_mono)
  moreover have "add_step g h junk (Some (?f'\<lparr>max_str := Some [NUL]\<rparr>), ?hp') e = add_step g h junk (Some ?f', ?hp') e"
    using assms(2,3) by (simp add: add_step_def add_file_ext_def Let_def case_prod_unfold cint_def int_limits cong: if_cong)
  ultimately show ?thesis using cl und by auto
qed

theorem file_ext_clear_witness:
  "\<exists>f' hp'. clear_file_ext alist_ghash (Some (init_file_ext alist_ghash)) no_strs = Some (f', hp') \<and>
     (\<forall>nm. is_need_file_ext ascii_glib alist_ghash f' (Some nm) hp' = None) \<and>
     returns (add_step ascii_glib alist_ghash (\<lambda>n. NUL) (f', hp') ''exe'')
       (\<lambda>s. ext_good ascii_glib alist_ghash s \<and> ext_set alist_ghash s = {map ascii_lower ''exe''})"
  by (rule file_ext_clear [OF fresh_good(1) [OF ascii_glib_laws alist_ghash_laws]]) (simp_all add: int_limits)

end
