(* ===== verification/Opt_Entry.thy ===== *)
theory Opt_Entry
  imports CString
begin

text \<open>
  \<open>src/src/utils/opt_entry/opt_entry_inner.c\<close>: the command line of the analysis program. The
  results of the successive calls of \<open>getopt_long\<close> are a parameter: the list \<open>os\<close> of the returned
  characters, each with \<open>optarg\<close>. NULL pointers are \<^term>\<open>None\<close>; converting a NULL \<open>optarg\<close> or a
  number out of range is undefined. A run either ends in \<open>exit\<close> or returns.
\<close>

section \<open>Data\<close>

record filter_option =
  sip :: "string option"
  dip :: "string option"
  sport :: int
  dport :: int
  smac :: "string option"
  dmac :: "string option"
  domain_id :: "string option"
  app_id :: "string option"
  port :: int
  ip :: "string option"
  is_ipv6 :: int
  mac :: "string option"
  protocol :: "string option"
  find_type :: int
  start_timestamp :: int
  end_timestamp :: int
  is_only_check :: int
  download_file_name :: "string option"
  key_name :: "string option"

record deep_dissector_option =
  is_from_pcap :: int
  pcap_file_name :: "string option"
  is_non_deamon :: int
  d_table_tag :: "string option"
  pkts_num :: int

record format_opts =
  conf_file :: "string option"
  f_opt :: "filter_option option"
  d_opt :: "deep_dissector_option option"
  is_only_version :: int

text \<open>The objects that the option loop writes, with its two local flags.\<close>

record opt_state =
  os_f :: filter_option
  os_d :: deep_dissector_option
  os_conf :: "string option"
  is_only_filter_lib :: int
  is_only_deep :: int

definition zero_filter :: filter_option where
  "zero_filter = \<lparr>sip = None, dip = None, sport = 0, dport = 0, smac = None, dmac = None, domain_id = None,
     app_id = None, port = 0, ip = None, is_ipv6 = 0, mac = None, protocol = None, find_type = 0,
     start_timestamp = 0, end_timestamp = 0, is_only_check = 0, download_file_name = None, key_name = None\<rparr>"

definition zero_deep :: deep_dissector_option where
  "zero_deep = \<lparr>is_from_pcap = 0, pcap_file_name = None, is_non_deamon = 0, d_table_tag = None, pkts_num = 0\<rparr>"

definition default_table_tag :: string where
  "default_table_tag = ''01234567890123456789012345678912''"

section \<open>Checks\<close>

definition check_filter_opts :: "filter_option \<Rightarrow> int" where
  "check_filter_opts f =
     (if start_timestamp f = 0 \<or> end_timestamp f = 0 then - 1
      else if start_timestamp f > end_timestamp f then - 1
      else if is_only_check f \<noteq> 0 \<and> key_name f = None then - 1
      else if download_file_name f \<noteq> None \<and> key_name f = None then - 1
      else if is_only_check f \<noteq> 0 \<and> download_file_name f \<noteq> None then - 1
      else if (sip f \<noteq> None \<or> dip f \<noteq> None) \<and> ip f \<noteq> None then - 1
      else if (sport f \<noteq> 0 \<or> dport f \<noteq> 0) \<and> port f \<noteq> 0 then - 1
      else if (smac f \<noteq> None \<or> smac f \<noteq> None) \<and> mac f \<noteq> None then - 1
      else 0)"

definition check_deep_opts :: "deep_dissector_option \<Rightarrow> int" where
  "check_deep_opts d =
     (if is_from_pcap d \<noteq> 0 \<and> pcap_file_name d = None then - 1
      else if is_from_pcap d = 0 \<and> pcap_file_name d \<noteq> None then - 1
      else if pkts_num d \<le> 0 then - 1
      else 0)"

section \<open>The option loop\<close>

definition atol :: "string \<Rightarrow> int option" where
  "atol s = (case scan_dec s of None \<Rightarrow> Some 0
     | Some v \<Rightarrow> if - (2 ^ 63) \<le> v \<and> v < 2 ^ 63 then Some v else None)"

definition num_arg :: "(string \<Rightarrow> int option) \<Rightarrow> string option \<Rightarrow> int option" where
  "num_arg conv optarg = optarg \<bind> conv"

definition upd_f :: "(filter_option \<Rightarrow> filter_option) \<Rightarrow> opt_state \<Rightarrow> opt_state run option" where
  "upd_f g st = Some (Goes (st\<lparr>os_f := g (os_f st)\<rparr>))"

definition upd_d :: "(deep_dissector_option \<Rightarrow> deep_dissector_option) \<Rightarrow> opt_state \<Rightarrow> opt_state run option" where
  "upd_d g st = Some (Goes (st\<lparr>os_d := g (os_d st)\<rparr>))"

definition opt_step :: "char \<Rightarrow> string option \<Rightarrow> opt_state \<Rightarrow> opt_state run option" where
  "opt_step c optarg st =
     (if c = CHR ''v'' \<or> c = CHR ''V'' then Some (Exits 0)
      else if c = CHR ''o'' then
        Some (Goes (st\<lparr>os_d := (os_d st)\<lparr>is_from_pcap := 0\<rparr>, is_only_filter_lib := 1\<rparr>))
      else if c = CHR ''r'' then
        Some (Goes (st\<lparr>os_d := (os_d st)\<lparr>pcap_file_name := optarg\<rparr>, is_only_deep := 1\<rparr>))
      else if c = CHR ''a'' then do { n \<leftarrow> num_arg atol optarg; upd_f (\<lambda>f. f\<lparr>start_timestamp := n mod 2 ^ 64\<rparr>) st }
      else if c = CHR ''z'' then do { n \<leftarrow> num_arg atol optarg; upd_f (\<lambda>f. f\<lparr>end_timestamp := n mod 2 ^ 64\<rparr>) st }
      else if c = CHR ''t'' then upd_d (\<lambda>d. d\<lparr>d_table_tag := optarg\<rparr>) st
      else if c = CHR ''s'' then do { n \<leftarrow> num_arg atoi optarg; upd_d (\<lambda>d. d\<lparr>pkts_num := n\<rparr>) st }
      else if c = CHR ''p'' then Some (Goes (st\<lparr>os_conf := optarg\<rparr>))
      else if c = CHR ''f'' then
        Some (Goes (st\<lparr>os_f := (os_f st)\<lparr>download_file_name := optarg\<rparr>, is_only_filter_lib := 1\<rparr>))
      else if c = CHR ''c'' then
        Some (Goes (st\<lparr>os_f := (os_f st)\<lparr>is_only_check := 1\<rparr>, is_only_filter_lib := 1\<rparr>))
      else if c = CHR ''m'' then upd_d (\<lambda>d. d\<lparr>is_non_deamon := 1\<rparr>) st
      else if c = CHR ''k'' then upd_f (\<lambda>f. f\<lparr>key_name := optarg\<rparr>) st
      else if c = CHR ''A'' then upd_f (\<lambda>f. f\<lparr>ip := optarg\<rparr>) st
      else if c = CHR ''B'' then upd_f (\<lambda>f. f\<lparr>sip := optarg\<rparr>) st
      else if c = CHR ''C'' then upd_f (\<lambda>f. f\<lparr>dip := optarg\<rparr>) st
      else if c = CHR ''D'' then upd_f (\<lambda>f. f\<lparr>mac := optarg\<rparr>) st
      else if c = CHR ''E'' then upd_f (\<lambda>f. f\<lparr>smac := optarg\<rparr>) st
      else if c = CHR ''F'' then upd_f (\<lambda>f. f\<lparr>dmac := optarg\<rparr>) st
      else if c = CHR ''G'' then do { n \<leftarrow> num_arg atoi optarg; upd_f (\<lambda>f. f\<lparr>port := n mod 2 ^ 16\<rparr>) st }
      else if c = CHR ''H'' then do { n \<leftarrow> num_arg atoi optarg; upd_f (\<lambda>f. f\<lparr>sport := n mod 2 ^ 16\<rparr>) st }
      else if c = CHR ''I'' then do { n \<leftarrow> num_arg atoi optarg; upd_f (\<lambda>f. f\<lparr>dport := n mod 2 ^ 16\<rparr>) st }
      else if c = CHR ''J'' then upd_f (\<lambda>f. f\<lparr>protocol := optarg\<rparr>) st
      else if c = CHR ''K'' then do { n \<leftarrow> num_arg atoi optarg; upd_f (\<lambda>f. f\<lparr>find_type := n\<rparr>) st }
      else if c = CHR ''L'' then upd_f (\<lambda>f. f\<lparr>is_ipv6 := 1\<rparr>) st
      else if c = CHR ''M'' then upd_f (\<lambda>f. f\<lparr>domain_id := optarg\<rparr>) st
      else if c = CHR ''N'' then upd_f (\<lambda>f. f\<lparr>app_id := optarg\<rparr>) st
      else if c = CHR ''h'' then Some (Exits 0)
      else Some (Goes st))"

fun opt_loop :: "(char \<times> string option) list \<Rightarrow> opt_state \<Rightarrow> opt_state run option" where
  "opt_loop [] st = Some (Goes st)"
| "opt_loop ((c, optarg) # os) st = do {
     r \<leftarrow> opt_step c optarg st;
     case r of Exits e \<Rightarrow> Some (Exits e) | Goes st' \<Rightarrow> opt_loop os st' }"

definition opt_init :: "string \<Rightarrow> opt_state" where
  "opt_init default_conf =
     \<lparr>os_f = zero_filter, os_d = zero_deep\<lparr>is_from_pcap := 1, d_table_tag := Some default_table_tag\<rparr>,
      os_conf = Some default_conf, is_only_filter_lib = 0, is_only_deep = 0\<rparr>"

definition opt_check :: "opt_state \<Rightarrow> int" where
  "opt_check st =
     (let (f_ret, d_ret) =
        (if is_only_filter_lib st = 0 \<and> is_only_deep st = 0
         then (check_filter_opts (os_f st), check_deep_opts (os_d st))
         else if is_only_filter_lib st \<noteq> 0 then (check_filter_opts (os_f st), 0)
         else (0, check_deep_opts (os_d st)))
      in if f_ret = 0 \<and> d_ret = 0 then 0 else - 1)"

definition getopt_long_entry ::
  "string \<Rightarrow> int \<Rightarrow> (char \<times> string option) list \<Rightarrow> format_opts option \<Rightarrow> (format_opts option \<times> int) run option" where
  "getopt_long_entry default_conf argc os opts =
     (if argc < 2 then Some (Goes (opts, - 1))
      else do {
        o1 \<leftarrow> opts;
        f_opt o1;
        d_opt o1;
        r \<leftarrow> opt_loop os (opt_init default_conf);
        case r of
          Exits e \<Rightarrow> Some (Exits e)
        | Goes st \<Rightarrow>
            Some (Goes (Some \<lparr>conf_file = os_conf st, f_opt = Some (os_f st), d_opt = Some (os_d st), is_only_version = 0\<rparr>,
              opt_check st)) })"

section \<open>Every field is set by the last option for it\<close>

text \<open>
  \<open>last_opt c os\<close>: the argument of the last option \<open>c\<close>. \<open>options_ok\<close>: no option ends the program,
  and every number that is read is in range.
\<close>

fun last_opt :: "char \<Rightarrow> (char \<times> string option) list \<Rightarrow> string option option" where
  "last_opt c [] = None"
| "last_opt c ((d, a) # os) = (case last_opt c os of Some b \<Rightarrow> Some b | None \<Rightarrow> if c = d then Some a else None)"

definition set_by :: "(opt_state \<Rightarrow> 'a) \<Rightarrow> char \<Rightarrow> (string option \<Rightarrow> 'a) \<Rightarrow> bool" where
  "set_by get c val \<longleftrightarrow> (\<forall>d a st st'. opt_step d a st = Some (Goes st') \<longrightarrow>
     get st' = (if d = c then val a else get st))"

lemma set_by_loop:
  assumes "set_by get c val" "opt_loop os st = Some (Goes st')"
  shows "get st' = (case last_opt c os of None \<Rightarrow> get st | Some a \<Rightarrow> val a)"
  using assms(2)
proof (induction os st rule: opt_loop.induct)
  case (2 d a os st)
  then obtain st1 where st1: "opt_step d a st = Some (Goes st1)" "opt_loop os st1 = Some (Goes st')"
    by (auto split: Option.bind_splits run.splits)
  with 2 have "get st' = (case last_opt c os of None \<Rightarrow> get st1 | Some a \<Rightarrow> val a)" by simp
  moreover have "get st1 = (if d = c then val a else get st)" using assms(1) st1(1) by (auto simp: set_by_def)
  ultimately show ?case by (auto split: option.splits)
qed simp

lemmas opt_step_defs = opt_step_def upd_f_def upd_d_def

lemma set_by_texts:
  shows "set_by (\<lambda>st. key_name (os_f st)) (CHR ''k'') (\<lambda>a. a)"
    and "set_by (\<lambda>st. download_file_name (os_f st)) (CHR ''f'') (\<lambda>a. a)"
    and "set_by (\<lambda>st. ip (os_f st)) (CHR ''A'') (\<lambda>a. a)"
    and "set_by (\<lambda>st. sip (os_f st)) (CHR ''B'') (\<lambda>a. a)"
    and "set_by (\<lambda>st. dip (os_f st)) (CHR ''C'') (\<lambda>a. a)"
    and "set_by (\<lambda>st. mac (os_f st)) (CHR ''D'') (\<lambda>a. a)"
    and "set_by (\<lambda>st. smac (os_f st)) (CHR ''E'') (\<lambda>a. a)"
    and "set_by (\<lambda>st. dmac (os_f st)) (CHR ''F'') (\<lambda>a. a)"
    and "set_by (\<lambda>st. protocol (os_f st)) (CHR ''J'') (\<lambda>a. a)"
    and "set_by (\<lambda>st. domain_id (os_f st)) (CHR ''M'') (\<lambda>a. a)"
    and "set_by (\<lambda>st. app_id (os_f st)) (CHR ''N'') (\<lambda>a. a)"
    and "set_by (\<lambda>st. pcap_file_name (os_d st)) (CHR ''r'') (\<lambda>a. a)"
    and "set_by (\<lambda>st. d_table_tag (os_d st)) (CHR ''t'') (\<lambda>a. a)"
    and "set_by os_conf (CHR ''p'') (\<lambda>a. a)"
  unfolding set_by_def opt_step_defs by (auto split: if_splits Option.bind_splits)

lemma set_by_numbers:
  shows "set_by (\<lambda>st. start_timestamp (os_f st)) (CHR ''a'') (\<lambda>a. the (num_arg atol a) mod 2 ^ 64)"
    and "set_by (\<lambda>st. end_timestamp (os_f st)) (CHR ''z'') (\<lambda>a. the (num_arg atol a) mod 2 ^ 64)"
    and "set_by (\<lambda>st. port (os_f st)) (CHR ''G'') (\<lambda>a. the (num_arg atoi a) mod 2 ^ 16)"
    and "set_by (\<lambda>st. sport (os_f st)) (CHR ''H'') (\<lambda>a. the (num_arg atoi a) mod 2 ^ 16)"
    and "set_by (\<lambda>st. dport (os_f st)) (CHR ''I'') (\<lambda>a. the (num_arg atoi a) mod 2 ^ 16)"
    and "set_by (\<lambda>st. find_type (os_f st)) (CHR ''K'') (\<lambda>a. the (num_arg atoi a))"
    and "set_by (\<lambda>st. pkts_num (os_d st)) (CHR ''s'') (\<lambda>a. the (num_arg atoi a))"
  unfolding set_by_def opt_step_defs by (auto split: if_splits Option.bind_splits)

lemma set_by_flags:
  shows "set_by (\<lambda>st. is_only_check (os_f st)) (CHR ''c'') (\<lambda>a. 1)"
    and "set_by (\<lambda>st. is_ipv6 (os_f st)) (CHR ''L'') (\<lambda>a. 1)"
    and "set_by (\<lambda>st. is_non_deamon (os_d st)) (CHR ''m'') (\<lambda>a. 1)"
    and "set_by (\<lambda>st. is_from_pcap (os_d st)) (CHR ''o'') (\<lambda>a. 0)"
    and "set_by is_only_deep (CHR ''r'') (\<lambda>a. 1)"
  unfolding set_by_def opt_step_defs by (auto split: if_splits Option.bind_splits)

lemmas set_by_all = set_by_texts set_by_numbers set_by_flags

lemma filter_lib_loop:
  assumes "opt_loop os st = Some (Goes st')"
  shows "is_only_filter_lib st' =
    (if last_opt (CHR ''o'') os \<noteq> None \<or> last_opt (CHR ''f'') os \<noteq> None \<or> last_opt (CHR ''c'') os \<noteq> None
     then 1 else is_only_filter_lib st)"
  using assms
proof (induction os st rule: opt_loop.induct)
  case (2 d a os st)
  then obtain st1 where st1: "opt_step d a st = Some (Goes st1)" "opt_loop os st1 = Some (Goes st')"
    by (auto split: Option.bind_splits run.splits)
  have "is_only_filter_lib st1 = (if d = CHR ''o'' \<or> d = CHR ''f'' \<or> d = CHR ''c'' then 1 else is_only_filter_lib st)"
    using st1(1) unfolding opt_step_defs by (auto split: if_splits Option.bind_splits)
  with 2 st1 show ?case by (auto split: option.splits)
qed simp

text \<open>The state that the options describe.\<close>

definition arg_of :: "char \<Rightarrow> (char \<times> string option) list \<Rightarrow> (string option \<Rightarrow> 'a) \<Rightarrow> 'a \<Rightarrow> 'a" where
  "arg_of c os val d = (case last_opt c os of None \<Rightarrow> d | Some a \<Rightarrow> val a)"

definition filter_of :: "(char \<times> string option) list \<Rightarrow> filter_option" where
  "filter_of os =
     \<lparr>sip = arg_of (CHR ''B'') os (\<lambda>a. a) None, dip = arg_of (CHR ''C'') os (\<lambda>a. a) None,
      sport = arg_of (CHR ''H'') os (\<lambda>a. the (num_arg atoi a) mod 2 ^ 16) 0,
      dport = arg_of (CHR ''I'') os (\<lambda>a. the (num_arg atoi a) mod 2 ^ 16) 0,
      smac = arg_of (CHR ''E'') os (\<lambda>a. a) None, dmac = arg_of (CHR ''F'') os (\<lambda>a. a) None,
      domain_id = arg_of (CHR ''M'') os (\<lambda>a. a) None, app_id = arg_of (CHR ''N'') os (\<lambda>a. a) None,
      port = arg_of (CHR ''G'') os (\<lambda>a. the (num_arg atoi a) mod 2 ^ 16) 0,
      ip = arg_of (CHR ''A'') os (\<lambda>a. a) None, is_ipv6 = arg_of (CHR ''L'') os (\<lambda>a. 1) 0,
      mac = arg_of (CHR ''D'') os (\<lambda>a. a) None, protocol = arg_of (CHR ''J'') os (\<lambda>a. a) None,
      find_type = arg_of (CHR ''K'') os (\<lambda>a. the (num_arg atoi a)) 0,
      start_timestamp = arg_of (CHR ''a'') os (\<lambda>a. the (num_arg atol a) mod 2 ^ 64) 0,
      end_timestamp = arg_of (CHR ''z'') os (\<lambda>a. the (num_arg atol a) mod 2 ^ 64) 0,
      is_only_check = arg_of (CHR ''c'') os (\<lambda>a. 1) 0,
      download_file_name = arg_of (CHR ''f'') os (\<lambda>a. a) None, key_name = arg_of (CHR ''k'') os (\<lambda>a. a) None\<rparr>"

definition deep_of :: "(char \<times> string option) list \<Rightarrow> deep_dissector_option" where
  "deep_of os =
     \<lparr>is_from_pcap = arg_of (CHR ''o'') os (\<lambda>a. 0) 1, pcap_file_name = arg_of (CHR ''r'') os (\<lambda>a. a) None,
      is_non_deamon = arg_of (CHR ''m'') os (\<lambda>a. 1) 0,
      d_table_tag = arg_of (CHR ''t'') os (\<lambda>a. a) (Some default_table_tag),
      pkts_num = arg_of (CHR ''s'') os (\<lambda>a. the (num_arg atoi a)) 0\<rparr>"

definition given :: "char \<Rightarrow> (char \<times> string option) list \<Rightarrow> bool" where
  "given c os \<longleftrightarrow> last_opt c os \<noteq> None"

definition option_ok :: "char \<times> string option \<Rightarrow> bool" where
  "option_ok ca = (case ca of (c, a) \<Rightarrow>
     c \<notin> {CHR ''v'', CHR ''V'', CHR ''h''} \<and>
     (c \<in> {CHR ''s'', CHR ''G'', CHR ''H'', CHR ''I'', CHR ''K''} \<longrightarrow> num_arg atoi a \<noteq> None) \<and>
     (c \<in> {CHR ''a'', CHR ''z''} \<longrightarrow> num_arg atol a \<noteq> None))"

lemma opt_step_defined:
  assumes "option_ok (c, a)"
  shows "\<exists>st'. opt_step c a st = Some (Goes st')"
proof -
  have "opt_step c a st \<noteq> None"
    using assms unfolding opt_step_defs
    by (cases "num_arg atoi a"; cases "num_arg atol a") (simp_all add: option_ok_def)
  moreover have "opt_step c a st \<noteq> Some (Exits e)" for e
    using assms unfolding opt_step_defs
    by (cases "num_arg atoi a"; cases "num_arg atol a") (simp_all add: option_ok_def)
  ultimately show ?thesis by (cases "opt_step c a st"; cases "the (opt_step c a st)") auto
qed

lemma opt_loop_defined: "list_all option_ok os \<Longrightarrow> \<exists>st'. opt_loop os st = Some (Goes st')"
proof (induction os arbitrary: st)
  case (Cons ca os)
  obtain c a where ca: "ca = (c, a)" by (cases ca)
  obtain st1 where "opt_step c a st = Some (Goes st1)" using opt_step_defined Cons.prems ca by fastforce
  with Cons ca show ?case by simp
qed simp

lemma opt_loop_state:
  assumes "opt_loop os (opt_init dc) = Some (Goes st)"
  shows "os_f st = filter_of os" "os_d st = deep_of os" "os_conf st = arg_of (CHR ''p'') os (\<lambda>a. a) (Some dc)"
    "is_only_filter_lib st \<noteq> 0 \<longleftrightarrow> given (CHR ''o'') os \<or> given (CHR ''f'') os \<or> given (CHR ''c'') os"
    "is_only_deep st \<noteq> 0 \<longleftrightarrow> given (CHR ''r'') os"
proof -
  note f = set_by_all [THEN set_by_loop, OF assms, folded arg_of_def, unfolded opt_init_def zero_filter_def zero_deep_def, simplified]
  show "os_f st = filter_of os" by (simp add: filter_of_def f)
  show "os_d st = deep_of os" by (simp add: deep_of_def f)
  show "os_conf st = arg_of (CHR ''p'') os (\<lambda>a. a) (Some dc)" by (simp add: f)
  show "is_only_deep st \<noteq> 0 \<longleftrightarrow> given (CHR ''r'') os"
    by (auto simp: f given_def arg_of_def split: option.splits)
  show "is_only_filter_lib st \<noteq> 0 \<longleftrightarrow> given (CHR ''o'') os \<or> given (CHR ''f'') os \<or> given (CHR ''c'') os"
    using filter_lib_loop [OF assms] by (auto simp: opt_init_def given_def)
qed

lemma getopt_entry_run:
  assumes "2 \<le> argc" "list_all option_ok os" "opts = Some o1" "f_opt o1 \<noteq> None" "d_opt o1 \<noteq> None"
  shows "\<exists>ret. getopt_long_entry dc argc os opts =
     Some (Goes (Some \<lparr>conf_file = arg_of (CHR ''p'') os (\<lambda>a. a) (Some dc), f_opt = Some (filter_of os),
        d_opt = Some (deep_of os), is_only_version = 0\<rparr>, ret)) \<and>
     (ret = 0 \<longleftrightarrow>
        (given (CHR ''o'') os \<or> given (CHR ''f'') os \<or> given (CHR ''c'') os \<or> \<not> given (CHR ''r'') os \<longrightarrow>
           check_filter_opts (filter_of os) = 0) \<and>
        (\<not> (given (CHR ''o'') os \<or> given (CHR ''f'') os \<or> given (CHR ''c'') os) \<longrightarrow> check_deep_opts (deep_of os) = 0))"
proof -
  obtain st where st: "opt_loop os (opt_init dc) = Some (Goes st)" using opt_loop_defined [OF assms(2)] by blast
  note S = opt_loop_state [OF st]
  have ret: "opt_check st = 0 \<longleftrightarrow>
        (given (CHR ''o'') os \<or> given (CHR ''f'') os \<or> given (CHR ''c'') os \<or> \<not> given (CHR ''r'') os \<longrightarrow>
           check_filter_opts (filter_of os) = 0) \<and>
        (\<not> (given (CHR ''o'') os \<or> given (CHR ''f'') os \<or> given (CHR ''c'') os) \<longrightarrow> check_deep_opts (deep_of os) = 0)"
    using S(4,5) by (auto simp: opt_check_def S(1,2) Let_def)
  obtain f d where "f_opt o1 = Some f" "d_opt o1 = Some d" using assms(4,5) by blast
  then have "getopt_long_entry dc argc os opts =
     Some (Goes (Some \<lparr>conf_file = arg_of (CHR ''p'') os (\<lambda>a. a) (Some dc), f_opt = Some (filter_of os),
        d_opt = Some (deep_of os), is_only_version = 0\<rparr>, opt_check st))"
    using assms(1,3) st S(1-3) by (simp add: getopt_long_entry_def)
  with ret show ?thesis by blast
qed

section \<open>Properties\<close>


definition demo_opts :: "(char \<times> string option) list" where
  "demo_opts = [(CHR ''a'', Some ''10''), (CHR ''z'', Some ''20''), (CHR ''o'', None), (CHR ''G'', Some ''80''),
     (CHR ''s'', Some ''5''), (CHR ''k'', Some ''key'')]"

lemma demo_opts_ok: "list_all option_ok demo_opts"
  by (simp add: demo_opts_def option_ok_def num_arg_def atoi_def atol_def scan_dec_def Let_def isspace_def isdigit_def
      digits_value_def digit_def cint_def int_limits)


lemma check_filter_opts_iff:
  "check_filter_opts f = 0 \<longleftrightarrow>
     start_timestamp f \<noteq> 0 \<and> end_timestamp f \<noteq> 0 \<and> start_timestamp f \<le> end_timestamp f \<and>
     (key_name f \<noteq> None \<or> is_only_check f = 0 \<and> download_file_name f = None) \<and>
     (is_only_check f = 0 \<or> download_file_name f = None) \<and>
     (ip f = None \<or> sip f = None \<and> dip f = None) \<and>
     (port f = 0 \<or> sport f = 0 \<and> dport f = 0) \<and>
     (mac f = None \<or> smac f = None)"
  by (auto simp: check_filter_opts_def)

text \<open>
  Which command lines for the filter alone are accepted: both times given and in order, a
  key for a check or a download and not both of these, and no direction-free address or port next
  to a directed one. For MAC addresses only the source counts: \<open>--mac\<close> next to \<open>--dmac\<close> passes.
\<close>

theorem filter_query_accepted:
  assumes "2 \<le> argc" "list_all option_ok os" "f_opt o1 \<noteq> None" "d_opt o1 \<noteq> None"
    "given (CHR ''o'') os \<or> given (CHR ''f'') os \<or> given (CHR ''c'') os" "f = filter_of os"
  shows "(\<exists>o2. getopt_long_entry dc argc os (Some o1) = Some (Goes (Some o2, 0)) \<and> f_opt o2 = Some f) \<longleftrightarrow>
     start_timestamp f \<noteq> 0 \<and> end_timestamp f \<noteq> 0 \<and> start_timestamp f \<le> end_timestamp f \<and>
     (key_name f \<noteq> None \<or> is_only_check f = 0 \<and> download_file_name f = None) \<and>
     (is_only_check f = 0 \<or> download_file_name f = None) \<and>
     (ip f = None \<or> sip f = None \<and> dip f = None) \<and>
     (port f = 0 \<or> sport f = 0 \<and> dport f = 0) \<and>
     (mac f = None \<or> smac f = None)"
proof -
  obtain ret where r: "getopt_long_entry dc argc os (Some o1) =
      Some (Goes (Some \<lparr>conf_file = arg_of (CHR ''p'') os (\<lambda>a. a) (Some dc), f_opt = Some f,
        d_opt = Some (deep_of os), is_only_version = 0\<rparr>, ret))" "ret = 0 \<longleftrightarrow> check_filter_opts f = 0"
    using getopt_entry_run [OF assms(1,2) refl assms(3,4), of dc] assms(5,6) by blast
  show ?thesis unfolding check_filter_opts_iff [symmetric] r(2) [symmetric] by (simp add: r(1))
qed

definition mac_opts :: "(char \<times> string option) list" where
  "mac_opts = demo_opts @ [(CHR ''D'', Some ''aa''), (CHR ''F'', Some ''bb'')]"

theorem filter_query_accepted_witness:
  "\<exists>o2. getopt_long_entry ''/etc/a.conf'' 9 mac_opts
       (Some \<lparr>conf_file = None, f_opt = Some zero_filter, d_opt = Some zero_deep, is_only_version = 0\<rparr>) =
     Some (Goes (Some o2, 0)) \<and> f_opt o2 = Some (filter_of mac_opts)"
  by (rule filter_query_accepted [where os = mac_opts, OF _ _ _ _ _ refl, THEN iffD2])
    (use demo_opts_ok in \<open>simp_all add: mac_opts_def option_ok_def\<close>,
     simp_all add: given_def demo_opts_def filter_of_def arg_of_def num_arg_def atol_def scan_dec_def Let_def isspace_def isdigit_def
      digits_value_def digit_def atoi_def cint_def int_limits)

text \<open>
  Too few arguments are refused without touching the structures; with enough arguments a
  missing option structure is dereferenced although it has been reported as invalid.
\<close>

theorem getopt_entry_guards:
  "(argc < 2 \<longrightarrow> getopt_long_entry dc argc os opts = Some (Goes (opts, - 1))) \<and>
   (2 \<le> argc \<and> (\<forall>o1. opts = Some o1 \<longrightarrow> f_opt o1 = None \<or> d_opt o1 = None) \<longrightarrow>
      getopt_long_entry dc argc os opts = None)"
  by (auto simp: getopt_long_entry_def split: Option.bind_splits)

theorem getopt_entry_guards_witness:
  "getopt_long_entry ''c'' 1 [] None = Some (Goes (None, - 1)) \<and> getopt_long_entry ''c'' 3 [] None = None"
  using getopt_entry_guards [of 1 "''c''" "[]" None] getopt_entry_guards [of 3 "''c''" "[]" None] by simp

end
