(* ===== verification/Packet.thy ===== *)
theory Packet
  imports LcPrelude "HOL-Library.Word"
begin

text \<open>
  \<open>src/src/network/read_packet.c\<close> and \<open>packet_type.h\<close>: slicing a captured TCP packet. A packet is
  the list of its captured bytes; the header structures are packed, so a structure pointer is an
  offset and a field access reads or writes bytes at a fixed distance from it, inside the captured
  bytes or not at all. \<open>le\<close> says whether the host is little-endian; \<open>ntohs\<close> and \<open>ntohl\<close> depend on it.
  The terminal output of \<open>read_packet\<close> is its result.
\<close>

unbundle bit_operations_syntax

section \<open>Bytes and integers in memory\<close>

type_synonym byte = "8 word"

definition ldn :: "byte list \<Rightarrow> nat \<Rightarrow> nat \<Rightarrow> byte list option" where
  "ldn m p n = (if p + n \<le> length m then Some (take n (drop p m)) else None)"

definition stn :: "byte list \<Rightarrow> nat \<Rightarrow> byte list \<Rightarrow> byte list option" where
  "stn m p bs = (if p + length bs \<le> length m then Some (take p m @ bs @ drop (p + length bs) m) else None)"

definition ld8 :: "byte list \<Rightarrow> nat \<Rightarrow> byte option" where
  "ld8 m p = (if p < length m then Some (m ! p) else None)"

text \<open>The big-endian value of two and of four bytes, and its bytes.\<close>

definition be16 :: "byte list \<Rightarrow> 16 word" where
  "be16 bs = word_cat (bs ! 0) (bs ! 1)"

definition be32 :: "byte list \<Rightarrow> 32 word" where
  "be32 bs = word_cat (be16 (take 2 bs)) (be16 (drop 2 bs))"

definition bytes16 :: "16 word \<Rightarrow> byte list" where
  "bytes16 w = (case word_split w of (h, l) \<Rightarrow> [h, l])"

definition bytes32 :: "32 word \<Rightarrow> byte list" where
  "bytes32 w = (case word_split w of (h, l) \<Rightarrow> bytes16 h @ bytes16 l)"

text \<open>Host representation: the bytes in reverse on a little-endian host.\<close>

definition host :: "bool \<Rightarrow> byte list \<Rightarrow> byte list" where
  "host le bs = (if le then rev bs else bs)"

definition ld16 :: "bool \<Rightarrow> byte list \<Rightarrow> nat \<Rightarrow> 16 word option" where
  "ld16 le m p = map_option (\<lambda>bs. be16 (host le bs)) (ldn m p 2)"

definition ld32 :: "bool \<Rightarrow> byte list \<Rightarrow> nat \<Rightarrow> 32 word option" where
  "ld32 le m p = map_option (\<lambda>bs. be32 (host le bs)) (ldn m p 4)"

definition st16 :: "bool \<Rightarrow> byte list \<Rightarrow> nat \<Rightarrow> 16 word \<Rightarrow> byte list option" where
  "st16 le m p w = stn m p (host le (bytes16 w))"

definition st32 :: "bool \<Rightarrow> byte list \<Rightarrow> nat \<Rightarrow> 32 word \<Rightarrow> byte list option" where
  "st32 le m p w = stn m p (host le (bytes32 w))"

definition ntohs :: "bool \<Rightarrow> 16 word \<Rightarrow> 16 word" where
  "ntohs le w = be16 (host le (bytes16 w))"

definition ntohl :: "bool \<Rightarrow> 32 word \<Rightarrow> 32 word" where
  "ntohl le w = be32 (host le (bytes32 w))"

section \<open>Headers\<close>

definition SNIFF_SIZE_ETHERNET :: nat where "SNIFF_SIZE_ETHERNET = 14"
definition PACKET_FROM_CLIENT :: byte where "PACKET_FROM_CLIENT = 8"
definition PACKET_FROM_SERVER :: byte where "PACKET_FROM_SERVER = 9"
definition SESSION_NO_INIT :: byte where "SESSION_NO_INIT = 0"
definition SESSION_START :: byte where "SESSION_START = 1"

lemmas pkt_consts = SNIFF_SIZE_ETHERNET_def PACKET_FROM_CLIENT_def PACKET_FROM_SERVER_def
  SESSION_NO_INIT_def SESSION_START_def

record pkt_info_t =
  ethernet :: nat
  ip :: nat
  tcp :: nat
  payload :: nat
  len :: "16 word"
  direction :: byte

record tcp_session_t =
  flag :: byte
  ip_src :: "byte list"
  sport :: "16 word"
  ip_des :: "byte list"
  dport :: "16 word"

text \<open>\<open>x = ntohs(*(u_short *)ptr)\<close> for a field \<open>x\<close> at \<open>ptr\<close>, and its 32-bit form.\<close>

definition ntoh16_at :: "bool \<Rightarrow> nat \<Rightarrow> byte list \<Rightarrow> byte list option" where
  "ntoh16_at le p m = do { w \<leftarrow> ld16 le m p; st16 le m p (ntohs le w) }"

definition ntoh32_at :: "bool \<Rightarrow> nat \<Rightarrow> byte list \<Rightarrow> byte list option" where
  "ntoh32_at le p m = do { w \<leftarrow> ld32 le m p; st32 le m p (ntohl le w) }"

definition keep8_at :: "nat \<Rightarrow> byte list \<Rightarrow> byte list option" where
  "keep8_at p m = do { b \<leftarrow> ld8 m p; stn m p [b] }"

definition ntoh_tcp :: "bool \<Rightarrow> nat \<Rightarrow> byte list \<Rightarrow> byte list option" where
  "ntoh_tcp le t m = do {
     m \<leftarrow> ntoh16_at le t m;
     m \<leftarrow> ntoh16_at le (t + 2) m;
     m \<leftarrow> ntoh32_at le (t + 4) m;
     m \<leftarrow> ntoh32_at le (t + 8) m;
     m \<leftarrow> keep8_at (t + 12) m;
     m \<leftarrow> keep8_at (t + 13) m;
     m \<leftarrow> ntoh16_at le (t + 14) m;
     m \<leftarrow> ntoh16_at le (t + 16) m;
     ntoh16_at le (t + 18) m }"

text \<open>The fragment offset (at 6) stays in network order; the addresses are left alone.\<close>

definition ntoh_ip :: "bool \<Rightarrow> nat \<Rightarrow> byte list \<Rightarrow> byte list option" where
  "ntoh_ip le q m = do {
     m \<leftarrow> keep8_at q m;
     m \<leftarrow> keep8_at (q + 1) m;
     m \<leftarrow> ntoh16_at le (q + 2) m;
     m \<leftarrow> ntoh16_at le (q + 4) m;
     m \<leftarrow> keep8_at (q + 8) m;
     m \<leftarrow> keep8_at (q + 9) m;
     ntoh16_at le (q + 10) m }"

section \<open>Sessions and slicing\<close>

text \<open>A pointer argument that may be NULL is an option.\<close>

definition packet_direction ::
  "bool \<Rightarrow> tcp_session_t option \<Rightarrow> pkt_info_t option \<Rightarrow> byte list \<Rightarrow> byte option" where
  "packet_direction le ses_p pkt_p m =
     (case (ses_p, pkt_p) of
        (Some ses, Some pkt) \<Rightarrow> do {
          src \<leftarrow> ldn m (ip pkt + 12) 4;
          th_sport \<leftarrow> ld16 le m (tcp pkt);
          if ip_src ses = src \<and> sport ses = th_sport then Some PACKET_FROM_CLIENT
          else if ip_des ses = src \<and> dport ses = th_sport then Some PACKET_FROM_SERVER
          else Some (- 1) }
      | _ \<Rightarrow> Some (- 1))"

definition same_session ::
  "bool \<Rightarrow> tcp_session_t option \<Rightarrow> pkt_info_t option \<Rightarrow> byte list \<Rightarrow> int option" where
  "same_session le ses_p pkt_p m =
     (case (ses_p, pkt_p) of
        (Some ses, Some pkt) \<Rightarrow> do {
          src \<leftarrow> ldn m (ip pkt + 12) 4;
          dst \<leftarrow> ldn m (ip pkt + 16) 4;
          th_sport \<leftarrow> ld16 le m (tcp pkt);
          th_dport \<leftarrow> ld16 le m (tcp pkt + 2);
          Some (if ip_src ses = src then
                  (if sport ses = th_sport then
                     (if ip_des ses = dst then (if dport ses = th_dport then 1 else 0) else 0) else 0)
                else if ip_src ses = dst then
                  (if sport ses = th_dport then
                     (if ip_des ses = src then (if dport ses = th_sport then 1 else 0) else 0) else 0)
                else 0) }
      | _ \<Rightarrow> Some (- 1))"

definition start_session :: "bool \<Rightarrow> pkt_info_t \<Rightarrow> byte list \<Rightarrow> tcp_session_t option" where
  "start_session le pkt m = do {
     src \<leftarrow> ldn m (ip pkt + 12) 4;
     dst \<leftarrow> ldn m (ip pkt + 16) 4;
     sp \<leftarrow> ld16 le m (tcp pkt);
     dp \<leftarrow> ld16 le m (tcp pkt + 2);
     Some \<lparr>flag = SESSION_START, ip_src = src, sport = sp, ip_des = dst, dport = dp\<rparr> }"

text \<open>The state that \<open>slice_packet\<close> works on: the packet bytes, the packet information and the session.\<close>

record slice =
  sl_mem :: "byte list"
  sl_pkt :: pkt_info_t
  sl_ses :: tcp_session_t

definition SNIFF_IP_HL :: "byte \<Rightarrow> nat" where "SNIFF_IP_HL vh1 = unat (vh1 AND 0x0f)"
definition SNIFF_TH_OFF :: "byte \<Rightarrow> nat" where "SNIFF_TH_OFF offx2 = unat (drop_bit 4 (offx2 AND 0xf0))"

definition slice_packet ::
  "bool \<Rightarrow> byte list option \<Rightarrow> pkt_info_t option \<Rightarrow> tcp_session_t \<Rightarrow> (nat option \<times> slice option) option" where
  "slice_packet le packet pkt_p ses =
     (case (packet, pkt_p) of
        (Some m, Some pkt) \<Rightarrow> do {
          let pkt1 = pkt\<lparr>ethernet := 0, ip := SNIFF_SIZE_ETHERNET\<rparr>;
          vh1 \<leftarrow> ld8 m (ip pkt1);
          let size_ip = SNIFF_IP_HL vh1 * 4;
          if size_ip < 10 then Some (None, Some \<lparr>sl_mem = m, sl_pkt = pkt1, sl_ses = ses\<rparr>)
          else do {
            m1 \<leftarrow> ntoh_ip le (ip pkt1) m;
            let pkt2 = pkt1\<lparr>tcp := SNIFF_SIZE_ETHERNET + size_ip\<rparr>;
            m2 \<leftarrow> ntoh_tcp le (tcp pkt2) m1;
            ses1 \<leftarrow> (if flag ses = SESSION_NO_INIT then start_session le pkt2 m2 else Some ses);
            offx2 \<leftarrow> ld8 m2 (tcp pkt2 + 12);
            let size_tcp = SNIFF_TH_OFF offx2 * 4;
            if size_tcp < 20 then Some (None, Some \<lparr>sl_mem = m2, sl_pkt = pkt2, sl_ses = ses1\<rparr>)
            else do {
              let pay = SNIFF_SIZE_ETHERNET + size_ip + size_tcp;
              let pkt3 = pkt2\<lparr>payload := pay, len := len pkt2 - of_nat (SNIFF_SIZE_ETHERNET + size_ip + size_tcp)\<rparr>;
              d \<leftarrow> packet_direction le (Some ses1) (Some pkt3) m2;
              Some (Some pay, Some \<lparr>sl_mem = m2, sl_pkt = pkt3\<lparr>direction := d\<rparr>, sl_ses = ses1\<rparr>) } } }
      | _ \<Rightarrow> Some (None, None))"

section \<open>Reading a packet\<close>

definition tcp_flags :: "string list" where
  "tcp_flags = [''FIN'', ''SYN'', ''RST'', ''PUSH'', ''ACK'', ''URG'', ''ECE'', ''CWR'']"

text \<open>
  The loop that collects the names of the flags in a buffer of 64 bytes; the buffer is the text
  written so far. Copies that would leave the buffer are undefined.
\<close>

fun flag_loop :: "byte \<Rightarrow> nat \<Rightarrow> string list \<Rightarrow> string \<Rightarrow> string option" where
  "flag_loop fl i [] buf = Some buf"
| "flag_loop fl i (nm # nms) buf =
     (if drop_bit i fl AND 1 = 1 then
        if length buf + length nm + 1 \<le> 64 then
          let buf' = buf @ nm @ '',''
          in if length buf' > 60 then Some buf' else flag_loop fl (Suc i) nms buf'
        else None
      else flag_loop fl (Suc i) nms buf)"

definition flag_string :: "byte \<Rightarrow> string option" where
  "flag_string fl = do {
     buf \<leftarrow> flag_loop fl 0 tcp_flags [];
     if buf = [] then None else Some (butlast buf) }"

text \<open>The line that is printed: whether it is marked as coming from the server, and its fields.\<close>

record packet_line =
  from_server :: bool
  src_ip :: "byte list"
  src_port :: "16 word"
  dst_ip :: "byte list"
  dst_port :: "16 word"
  flags :: string
  seq :: "32 word"
  ack :: "32 word"
  win :: "16 word"
  data_length :: "16 word"

text \<open>
  Both addresses of the line are printed from the one static buffer of \<open>inet_ntoa\<close>, so both are the
  address of the call that is evaluated last; C leaves the order of the arguments open, \<open>ltr\<close> says
  whether the compiler evaluates them from left to right. The time stamp of the line is left out.
\<close>

definition inet_buffer :: "bool \<Rightarrow> byte list \<Rightarrow> byte list \<Rightarrow> byte list" where
  "inet_buffer ltr first_arg second_arg = (if ltr then second_arg else first_arg)"

definition read_packet ::
  "bool \<Rightarrow> bool \<Rightarrow> tcp_session_t \<Rightarrow> pkt_info_t \<Rightarrow> nat \<Rightarrow> byte list option \<Rightarrow> (packet_line option \<times> tcp_session_t) option" where
  "read_packet le ltr ses pkt0 caplen packet = do {
     (pay, sl) \<leftarrow> slice_packet le packet (Some (pkt0\<lparr>len := of_nat caplen\<rparr>)) ses;
     case (pay, sl) of
       (Some _, Some s) \<Rightarrow> do {
         let m = sl_mem s; let pkt = sl_pkt s;
         fl \<leftarrow> ld8 m (tcp pkt + 13);
         str_tcp_flag \<leftarrow> flag_string fl;
         src \<leftarrow> ldn m (ip pkt + 12) 4;
         dst \<leftarrow> ldn m (ip pkt + 16) 4;
         sp \<leftarrow> ld16 le m (tcp pkt);
         dp \<leftarrow> ld16 le m (tcp pkt + 2);
         sq \<leftarrow> ld32 le m (tcp pkt + 4);
         ak \<leftarrow> ld32 le m (tcp pkt + 8);
         wn \<leftarrow> ld16 le m (tcp pkt + 14);
         Some (Some \<lparr>from_server = (direction pkt = PACKET_FROM_SERVER), src_ip = inet_buffer ltr src dst, src_port = sp,
             dst_ip = inet_buffer ltr src dst, dst_port = dp, flags = str_tcp_flag, seq = sq, ack = ak, win = wn,
             data_length = len pkt\<rparr>, sl_ses s) }
     | (_, Some s) \<Rightarrow> Some (None, sl_ses s)
     | (_, None) \<Rightarrow> Some (None, ses) }"

text \<open>
  The callback on the packets of a capture file, in order, with one session for the file (a zeroed
  structure at the start); \<open>pkt0\<close> is the uninitialised packet information on the stack.
\<close>

fun pcap_run :: "bool \<Rightarrow> bool \<Rightarrow> pkt_info_t \<Rightarrow> tcp_session_t \<Rightarrow> byte list list \<Rightarrow> packet_line option list option" where
  "pcap_run le ltr pkt0 ses [] = Some []"
| "pcap_run le ltr pkt0 ses (p # ps) = do {
     (l, ses') \<leftarrow> read_packet le ltr ses pkt0 (length p) (Some p);
     ls \<leftarrow> pcap_run le ltr pkt0 ses' ps;
     Some (l # ls) }"

definition zero_session :: tcp_session_t where
  "zero_session = \<lparr>flag = 0, ip_src = replicate 4 0, sport = 0, ip_des = replicate 4 0, dport = 0\<rparr>"

definition read_pcap_from_file :: "bool \<Rightarrow> bool \<Rightarrow> pkt_info_t \<Rightarrow> byte list list \<Rightarrow> packet_line option list option" where
  "read_pcap_from_file le ltr pkt0 capture = pcap_run le ltr pkt0 zero_session capture"

section \<open>Byte order\<close>

lemma length_bytes [simp]: "length (bytes16 w) = 2" "length (bytes32 v) = 4" "length (host le bs) = length bs"
  by (simp_all add: bytes16_def bytes32_def host_def split: prod.split)

lemma bytes16_be16 [simp]: "bytes16 (be16 [a, b]) = [a, b]"
proof -
  have "word_split (word_cat a b :: 16 word) = (a, b)" by (rule word_split_cat_alt [OF refl]) (simp add: word_size)
  then show ?thesis by (simp add: bytes16_def be16_def)
qed

lemma be16_bytes16 [simp]: "be16 (bytes16 w) = w"
proof -
  obtain a b :: byte where s: "word_split w = (a, b)" by (cases "word_split w :: byte \<times> byte")
  then have "word_cat a b = w" by (intro word_cat_split_alt) (simp_all add: word_size)
  then show ?thesis by (simp add: bytes16_def be16_def s)
qed

lemma be32_bytes32 [simp]: "be32 (bytes32 w) = w"
proof -
  obtain a b :: "16 word" where s: "word_split w = (a, b)" by (cases "word_split w :: 16 word \<times> 16 word")
  then have "word_cat a b = w" by (intro word_cat_split_alt) (simp_all add: word_size)
  then show ?thesis by (simp add: bytes32_def be32_def s)
qed

lemma list2: "length bs = 2 \<Longrightarrow> \<exists>a b. bs = [a, b]"
  by (cases bs; cases "tl bs") auto

lemma bytes16_be16_list: "length bs = 2 \<Longrightarrow> bytes16 (be16 bs) = bs"
  using list2 [of bs] by auto

lemma bytes32_be32_list: "length bs = 4 \<Longrightarrow> bytes32 (be32 bs) = bs"
proof -
  assume l: "length bs = 4"
  have "word_split (word_cat (be16 (take 2 bs)) (be16 (drop 2 bs)) :: 32 word) = (be16 (take 2 bs), be16 (drop 2 bs))"
    by (rule word_split_cat_alt [OF refl]) (simp add: word_size)
  then show ?thesis using l by (simp add: bytes32_def be32_def bytes16_be16_list)
qed

lemma host_host [simp]: "host le (host le bs) = bs"
  by (simp add: host_def)

text \<open>Fields of the host and the network order in a known place.\<close>

lemma ldn_at: "length pre = p \<Longrightarrow> length bs = n \<Longrightarrow> ldn (pre @ bs @ post) p n = Some bs"
  by (auto simp: ldn_def)

lemma stn_at: "length pre = p \<Longrightarrow> length bs = length bs' \<Longrightarrow> stn (pre @ bs @ post) p bs' = Some (pre @ bs' @ post)"
  by (auto simp: stn_def)

lemma ntoh16_at_bytes:
  assumes "length pre = p"
  shows "ntoh16_at le p (pre @ bytes16 w @ post) = Some (pre @ host le (bytes16 w) @ post)"
  using assms
  by (simp add: ntoh16_at_def ld16_def st16_def ntohs_def ldn_at bytes16_be16_list) (rule stn_at; simp)

lemma ntoh32_at_bytes:
  assumes "length pre = p"
  shows "ntoh32_at le p (pre @ bytes32 w @ post) = Some (pre @ host le (bytes32 w) @ post)"
  using assms
  by (simp add: ntoh32_at_def ld32_def st32_def ntohl_def ldn_at bytes32_be32_list) (rule stn_at; simp)

lemma keep8_at_same: "p < length m \<Longrightarrow> keep8_at p m = Some m"
  by (auto simp: keep8_at_def ld8_def stn_def id_take_nth_drop [symmetric])

lemma ld8_at: "length pre = p \<Longrightarrow> ld8 (pre @ c # s) p = Some c"
  by (auto simp: ld8_def)

lemma ld16_host: "length pre = p \<Longrightarrow> ld16 le (pre @ host le (bytes16 w) @ post) p = Some w"
  by (simp add: ld16_def ldn_at)

lemma ld32_host: "length pre = p \<Longrightarrow> ld32 le (pre @ host le (bytes32 w) @ post) p = Some w"
  by (simp add: ld32_def ldn_at)

section \<open>Packets on the wire\<close>

text \<open>
  A TCP packet in network order: link header, IP header with options, TCP header with options,
  data. \<open>wire_ok\<close>: the two header length fields say how long the headers are.
\<close>

record wire =
  w_eth :: "byte list"
  w_vh1 :: byte
  w_tos :: byte
  w_len :: "16 word"
  w_id :: "16 word"
  w_off :: "16 word"
  w_ttl :: byte
  w_proto :: byte
  w_ipsum :: "16 word"
  w_src :: "byte list"
  w_dst :: "byte list"
  w_ipopt :: "byte list"
  w_sport :: "16 word"
  w_dport :: "16 word"
  w_seq :: "32 word"
  w_ack :: "32 word"
  w_offx2 :: byte
  w_flags :: byte
  w_win :: "16 word"
  w_sum :: "16 word"
  w_urp :: "16 word"
  w_tcpopt :: "byte list"
  w_data :: "byte list"

definition wire_ip :: "bool \<Rightarrow> wire \<Rightarrow> byte list" where
  "wire_ip le w = [w_vh1 w, w_tos w] @ host le (bytes16 (w_len w)) @ host le (bytes16 (w_id w)) @ bytes16 (w_off w) @
     [w_ttl w, w_proto w] @ host le (bytes16 (w_ipsum w)) @ w_src w @ w_dst w @ w_ipopt w"

definition wire_tcp :: "bool \<Rightarrow> wire \<Rightarrow> byte list" where
  "wire_tcp le w = host le (bytes16 (w_sport w)) @ host le (bytes16 (w_dport w)) @ host le (bytes32 (w_seq w)) @
     host le (bytes32 (w_ack w)) @ [w_offx2 w, w_flags w] @ host le (bytes16 (w_win w)) @
     host le (bytes16 (w_sum w)) @ host le (bytes16 (w_urp w)) @ w_tcpopt w"

text \<open>The packet as captured, and the packet with the headers in host order.\<close>

definition wire_bytes :: "wire \<Rightarrow> byte list" where
  "wire_bytes w = w_eth w @ wire_ip False w @ wire_tcp False w @ w_data w"

definition host_bytes :: "bool \<Rightarrow> wire \<Rightarrow> byte list" where
  "host_bytes le w = w_eth w @ wire_ip le w @ wire_tcp le w @ w_data w"

definition wire_ok :: "wire \<Rightarrow> bool" where
  "wire_ok w \<longleftrightarrow> length (w_eth w) = 14 \<and> length (w_src w) = 4 \<and> length (w_dst w) = 4 \<and>
     SNIFF_IP_HL (w_vh1 w) * 4 = 20 + length (w_ipopt w) \<and> SNIFF_TH_OFF (w_offx2 w) * 4 = 20 + length (w_tcpopt w)"

lemma host_False [simp]: "host False bs = bs"
  by (simp add: host_def)

lemma ntoh_ip_wire:
  assumes "length pre = p"
  shows "ntoh_ip le p (pre @ wire_ip False w @ post) = Some (pre @ wire_ip le w @ post)"
proof -
  let ?v = "[w_vh1 w, w_tos w]" and ?l = "host le (bytes16 (w_len w))" and ?i = "host le (bytes16 (w_id w))"
  let ?o = "bytes16 (w_off w)" and ?t = "[w_ttl w, w_proto w]"
  note st = ntoh16_at_bytes [of "pre @ ?v" "p + 2" le "w_len w"]
    ntoh16_at_bytes [of "pre @ ?v @ ?l" "p + 4" le "w_id w"]
    ntoh16_at_bytes [of "pre @ ?v @ ?l @ ?i @ ?o @ ?t" "p + 10" le "w_ipsum w"]
  show ?thesis
    using assms st by (simp add: ntoh_ip_def wire_ip_def keep8_at_same)
qed

lemma ntoh_tcp_wire:
  assumes "length pre = p"
  shows "ntoh_tcp le p (pre @ wire_tcp False w @ post) = Some (pre @ wire_tcp le w @ post)"
proof -
  let ?s = "host le (bytes16 (w_sport w))" and ?d = "host le (bytes16 (w_dport w))" and ?q = "host le (bytes32 (w_seq w))"
  let ?a = "host le (bytes32 (w_ack w))" and ?f = "[w_offx2 w, w_flags w]" and ?w = "host le (bytes16 (w_win w))"
  note st = ntoh16_at_bytes [of pre p le "w_sport w"] ntoh16_at_bytes [of "pre @ ?s" "p + 2" le "w_dport w"]
    ntoh32_at_bytes [of "pre @ ?s @ ?d" "p + 4" le "w_seq w"]
    ntoh32_at_bytes [of "pre @ ?s @ ?d @ ?q" "p + 8" le "w_ack w"]
    ntoh16_at_bytes [of "pre @ ?s @ ?d @ ?q @ ?a @ ?f" "p + 14" le "w_win w"]
    ntoh16_at_bytes [of "pre @ ?s @ ?d @ ?q @ ?a @ ?f @ ?w" "p + 16" le "w_sum w"]
    ntoh16_at_bytes [of "pre @ ?s @ ?d @ ?q @ ?a @ ?f @ ?w @ host le (bytes16 (w_sum w))" "p + 18" le "w_urp w"]
  show ?thesis
    using assms st by (simp add: ntoh_tcp_def wire_tcp_def keep8_at_same)
qed

lemma wire_vh1: "wire_ok w \<Longrightarrow> ld8 (wire_bytes w) 14 = Some (w_vh1 w)"
  by (simp add: wire_ok_def ld8_def wire_bytes_def wire_ip_def nth_append)

text \<open>The fields of the headers in host order.\<close>

lemma wire_fields:
  assumes "wire_ok w"
  defines "t \<equiv> 14 + SNIFF_IP_HL (w_vh1 w) * 4"
  shows "ldn (host_bytes le w) 26 4 = Some (w_src w)" "ldn (host_bytes le w) 30 4 = Some (w_dst w)"
    "ld16 le (host_bytes le w) t = Some (w_sport w)" "ld16 le (host_bytes le w) (t + 2) = Some (w_dport w)"
    "ld32 le (host_bytes le w) (t + 4) = Some (w_seq w)" "ld32 le (host_bytes le w) (t + 8) = Some (w_ack w)"
    "ld8 (host_bytes le w) (t + 12) = Some (w_offx2 w)" "ld8 (host_bytes le w) (t + 13) = Some (w_flags w)"
    "ld16 le (host_bytes le w) (t + 14) = Some (w_win w)"
proof -
  note ok = assms(1) [unfolded wire_ok_def]
  let ?v = "[w_vh1 w, w_tos w]" and ?l = "host le (bytes16 (w_len w))" and ?i = "host le (bytes16 (w_id w))"
  let ?o = "bytes16 (w_off w)" and ?t = "[w_ttl w, w_proto w]" and ?c = "host le (bytes16 (w_ipsum w))"
  show "ldn (host_bytes le w) 26 4 = Some (w_src w)" "ldn (host_bytes le w) 30 4 = Some (w_dst w)"
    using ok ldn_at [of "w_eth w @ ?v @ ?l @ ?i @ ?o @ ?t @ ?c" 26 "w_src w" 4]
      ldn_at [of "w_eth w @ ?v @ ?l @ ?i @ ?o @ ?t @ ?c @ w_src w" 30 "w_dst w" 4]
    by (simp_all add: host_bytes_def wire_ip_def)
  let ?pre = "w_eth w @ wire_ip le w"
  have pre: "length ?pre = t" using ok by (simp add: wire_ip_def t_def)
  let ?s = "host le (bytes16 (w_sport w))" and ?d = "host le (bytes16 (w_dport w))" and ?q = "host le (bytes32 (w_seq w))"
  let ?a = "host le (bytes32 (w_ack w))" and ?f = "[w_offx2 w, w_flags w]"
  note hb = host_bytes_def wire_tcp_def
  show "ld16 le (host_bytes le w) t = Some (w_sport w)" "ld16 le (host_bytes le w) (t + 2) = Some (w_dport w)"
    using pre ld16_host [of ?pre t le "w_sport w"] ld16_host [of "?pre @ ?s" "t + 2" le "w_dport w"] by (simp_all add: hb)
  show "ld32 le (host_bytes le w) (t + 4) = Some (w_seq w)" "ld32 le (host_bytes le w) (t + 8) = Some (w_ack w)"
    using pre ld32_host [of "?pre @ ?s @ ?d" "t + 4" le "w_seq w"] ld32_host [of "?pre @ ?s @ ?d @ ?q" "t + 8" le "w_ack w"]
    by (simp_all add: hb)
  show "ld16 le (host_bytes le w) (t + 14) = Some (w_win w)"
    using pre ld16_host [of "?pre @ ?s @ ?d @ ?q @ ?a @ ?f" "t + 14" le "w_win w"] by (simp add: hb)
  show "ld8 (host_bytes le w) (t + 12) = Some (w_offx2 w)" "ld8 (host_bytes le w) (t + 13) = Some (w_flags w)"
    using pre ld8_at [of "?pre @ ?s @ ?d @ ?q @ ?a" "t + 12" "w_offx2 w"]
      ld8_at [of "?pre @ ?s @ ?d @ ?q @ ?a @ [w_offx2 w]" "t + 13" "w_flags w"]
    by (simp_all add: hb)
qed

section \<open>Flag names\<close>

fun commas :: "string list \<Rightarrow> string" where
  "commas [] = []"
| "commas [n] = n"
| "commas (n # m # ns) = n @ '','' @ commas (m # ns)"

fun names_from :: "byte \<Rightarrow> nat \<Rightarrow> string list \<Rightarrow> string list" where
  "names_from fl i [] = []"
| "names_from fl i (n # ns) = (if bit fl i then n # names_from fl (Suc i) ns else names_from fl (Suc i) ns)"

text \<open>The names of the flags that are set, in the order of their bits.\<close>

definition flag_names :: "byte \<Rightarrow> string list" where
  "flag_names fl = names_from fl 0 tcp_flags"

lemma flag_loop_names:
  "length buf + length (concat (map (\<lambda>n. n @ '','') nms)) \<le> 60 \<Longrightarrow>
     flag_loop fl i nms buf = Some (buf @ concat (map (\<lambda>n. n @ '','') (names_from fl i nms)))"
proof (induction fl i nms buf rule: flag_loop.induct)
  case (2 fl i nm nms buf)
  then show ?case by (simp add: bit_iff_and_drop_bit_eq_1 [symmetric] Let_def)
qed simp

lemma butlast_commas: "ns \<noteq> [] \<Longrightarrow> butlast (concat (map (\<lambda>n. n @ '','') ns)) = commas ns"
  by (induction ns rule: commas.induct) (auto simp: butlast_append)

lemma flag_string_names:
  "flag_string fl = (if flag_names fl = [] then None else Some (commas (flag_names fl)))"
proof -
  have "flag_loop fl 0 tcp_flags [] = Some (concat (map (\<lambda>n. n @ '','') (flag_names fl)))"
    unfolding flag_names_def by (subst flag_loop_names) (simp_all add: tcp_flags_def)
  moreover have "concat (map (\<lambda>n. n @ '','') ns) = [] \<longleftrightarrow> ns = []" for ns :: "string list" by (cases ns) auto
  ultimately show ?thesis by (simp add: flag_string_def butlast_commas)
qed

lemma names_from_bit: "bit fl j \<Longrightarrow> i \<le> j \<Longrightarrow> j < i + length nms \<Longrightarrow> names_from fl i nms \<noteq> []"
proof (induction fl i nms rule: names_from.induct)
  case (2 fl i n ns)
  then show ?case by (cases "i = j") auto
qed simp

lemma flag_names_nonempty: "fl \<noteq> 0 \<Longrightarrow> flag_names fl \<noteq> []"
proof -
  assume "fl \<noteq> 0"
  then obtain j where "j < 8" "bit fl j" using bit_word_eqI [of fl 0] by auto
  then show ?thesis unfolding flag_names_def by (intro names_from_bit [of fl j]) (auto simp: tcp_flags_def)
qed

section \<open>Well-formed packets\<close>

definition session_of :: "wire \<Rightarrow> tcp_session_t" where
  "session_of w = \<lparr>flag = SESSION_START, ip_src = w_src w, sport = w_sport w, ip_des = w_dst w, dport = w_dport w\<rparr>"

definition side_of :: "tcp_session_t \<Rightarrow> wire \<Rightarrow> byte" where
  "side_of ses w =
     (if ip_src ses = w_src w \<and> sport ses = w_sport w then PACKET_FROM_CLIENT
      else if ip_des ses = w_src w \<and> dport ses = w_sport w then PACKET_FROM_SERVER else - 1)"

definition line_of :: "bool \<Rightarrow> tcp_session_t \<Rightarrow> wire \<Rightarrow> packet_line" where
  "line_of ltr ses w =
     \<lparr>from_server = (side_of ses w = PACKET_FROM_SERVER), src_ip = inet_buffer ltr (w_src w) (w_dst w), src_port = w_sport w,
      dst_ip = inet_buffer ltr (w_src w) (w_dst w), dst_port = w_dport w, flags = commas (flag_names (w_flags w)), seq = w_seq w,
      ack = w_ack w, win = w_win w, data_length = of_nat (length (w_data w))\<rparr>"

lemma wire_swapped:
  assumes "wire_ok w"
  shows "ntoh_ip le 14 (wire_bytes w) = Some (w_eth w @ wire_ip le w @ wire_tcp False w @ w_data w)"
    "ntoh_tcp le (14 + SNIFF_IP_HL (w_vh1 w) * 4) (w_eth w @ wire_ip le w @ wire_tcp False w @ w_data w) = Some (host_bytes le w)"
  using assms ntoh_ip_wire [of "w_eth w" 14 le w]
    ntoh_tcp_wire [of "w_eth w @ wire_ip le w" "14 + SNIFF_IP_HL (w_vh1 w) * 4" le w]
  by (simp_all add: wire_ok_def wire_bytes_def host_bytes_def wire_ip_def)

lemma wire_length:
  "wire_ok w \<Longrightarrow> length (wire_bytes w) = 14 + SNIFF_IP_HL (w_vh1 w) * 4 + SNIFF_TH_OFF (w_offx2 w) * 4 + length (w_data w)"
  by (simp add: wire_ok_def wire_bytes_def wire_ip_def wire_tcp_def)

lemma slice_packet_wire:
  fixes ses :: tcp_session_t
  assumes ok: "wire_ok w" and pkt: "len pkt = of_nat (length (wire_bytes w))"
  defines "ses' \<equiv> (if flag ses = SESSION_NO_INIT then session_of w else ses)"
  shows "\<exists>pkt'. slice_packet le (Some (wire_bytes w)) (Some pkt) ses =
      Some (Some (length (wire_bytes w) - length (w_data w)), Some \<lparr>sl_mem = host_bytes le w, sl_pkt = pkt', sl_ses = ses'\<rparr>) \<and>
    ip pkt' = 14 \<and> tcp pkt' = 14 + SNIFF_IP_HL (w_vh1 w) * 4 \<and> len pkt' = of_nat (length (w_data w)) \<and>
    direction pkt' = side_of ses' w"
proof -
  define hl where "hl = SNIFF_IP_HL (w_vh1 w) * 4"
  define tl where "tl = SNIFF_TH_OFF (w_offx2 w) * 4"
  note F = wire_fields [OF ok, of le, folded hl_def] and S = wire_swapped [OF ok, of le, folded hl_def]
    and L = wire_length [OF ok, folded hl_def tl_def]
  note V = wire_vh1 [OF ok]
  have sz: "\<not> hl < 10" "\<not> tl < 20" "\<not> 2 * SNIFF_IP_HL (w_vh1 w) < 5" "\<not> SNIFF_TH_OFF (w_offx2 w) < 5"
    using ok unfolding wire_ok_def hl_def tl_def by linarith+
  let ?pkt = "pkt\<lparr>ethernet := 0, ip := 14, tcp := 14 + hl, payload := 14 + hl + tl,
    len := len pkt - of_nat (14 + hl + tl), direction := side_of ses' w\<rparr>"
  have ss: "(if flag ses = SESSION_NO_INIT then start_session le (pkt\<lparr>ethernet := 0, ip := 14, tcp := 14 + hl\<rparr>) (host_bytes le w)
      else Some ses) = Some ses'"
    using F by (simp add: start_session_def ses'_def session_of_def)
  have dr: "packet_direction le (Some ses') (Some p) (host_bytes le w) = Some (side_of ses' w)" if "ip p = 14" "tcp p = 14 + hl" for p
    using F that by (simp add: packet_direction_def side_of_def)
  have "slice_packet le (Some (wire_bytes w)) (Some pkt) ses =
      Some (Some (14 + hl + tl), Some \<lparr>sl_mem = host_bytes le w, sl_pkt = ?pkt, sl_ses = ses'\<rparr>)"
    using sz V F S ss dr by (simp add: slice_packet_def SNIFF_SIZE_ETHERNET_def Let_def hl_def [symmetric] tl_def [symmetric])
  moreover have "len pkt - of_nat (14 + hl + tl) = of_nat (length (w_data w))"
    unfolding pkt L by (simp add: of_nat_add)
  ultimately show ?thesis using L by (auto simp: hl_def)
qed

lemma read_packet_line:
  assumes ok: "wire_ok w" and fl: "w_flags w \<noteq> 0"
  shows "read_packet le ltr ses pkt0 (length (wire_bytes w)) (Some (wire_bytes w)) =
    (let ses' = if flag ses = SESSION_NO_INIT then session_of w else ses in Some (Some (line_of ltr ses' w), ses'))"
proof -
  define ses' where "ses' = (if flag ses = SESSION_NO_INIT then session_of w else ses)"
  obtain pkt' where sl: "slice_packet le (Some (wire_bytes w)) (Some (pkt0\<lparr>len := of_nat (length (wire_bytes w))\<rparr>)) ses =
      Some (Some (length (wire_bytes w) - length (w_data w)), Some \<lparr>sl_mem = host_bytes le w, sl_pkt = pkt', sl_ses = ses'\<rparr>)"
    and p: "ip pkt' = 14" "tcp pkt' = 14 + SNIFF_IP_HL (w_vh1 w) * 4" "len pkt' = of_nat (length (w_data w))"
      "direction pkt' = side_of ses' w"
    using slice_packet_wire [OF ok, of "pkt0\<lparr>len := of_nat (length (wire_bytes w))\<rparr>" le ses] by (auto simp: ses'_def)
  show ?thesis
    using wire_fields [OF ok, of le] flag_names_nonempty [OF fl]
    by (simp add: read_packet_def sl p Let_def flag_string_names line_of_def ses'_def [symmetric])
qed

section \<open>Properties\<close>

lemma pcap_run_started:
  "flag ses \<noteq> SESSION_NO_INIT \<Longrightarrow> list_all (\<lambda>w. wire_ok w \<and> w_flags w \<noteq> 0) ws \<Longrightarrow>
     pcap_run le ltr pkt0 ses (map wire_bytes ws) = Some (map (\<lambda>w. Some (line_of ltr ses w)) ws)"
  by (induction ws) (simp_all add: read_packet_line)


definition demo_wire :: wire where
  "demo_wire = \<lparr>w_eth = replicate 14 0, w_vh1 = 0x45, w_tos = 0, w_len = 43, w_id = 7, w_off = 0, w_ttl = 64,
     w_proto = 6, w_ipsum = 0, w_src = [10, 0, 0, 1], w_dst = [10, 0, 0, 2], w_ipopt = [], w_sport = 4000,
     w_dport = 80, w_seq = 100000, w_ack = 0, w_offx2 = 0x50, w_flags = 0x12, w_win = 512, w_sum = 0,
     w_urp = 0, w_tcpopt = [], w_data = [1, 2, 3]\<rparr>"

definition demo_pkt :: pkt_info_t where
  "demo_pkt = \<lparr>ethernet = 0, ip = 0, tcp = 0, payload = 0, len = 0, direction = 0\<rparr>"

lemma demo_wire_ok: "wire_ok demo_wire"
  by (simp add: wire_ok_def demo_wire_def SNIFF_IP_HL_def SNIFF_TH_OFF_def)


text \<open>
  A packet without any TCP flag makes \<open>read_packet\<close> write in front of its flag buffer
  (\<open>str_tcp_flag[len - 1]\<close> with \<open>len\<close> 0).
\<close>

theorem read_packet_no_flags:
  assumes "wire_ok w" "w_flags w = 0"
  shows "read_packet le ltr ses pkt0 (length (wire_bytes w)) (Some (wire_bytes w)) = None"
proof -
  obtain pkt' s where sl: "slice_packet le (Some (wire_bytes w)) (Some (pkt0\<lparr>len := of_nat (length (wire_bytes w))\<rparr>)) ses =
      Some (Some (length (wire_bytes w) - length (w_data w)), Some \<lparr>sl_mem = host_bytes le w, sl_pkt = pkt', sl_ses = s\<rparr>)"
    and p: "tcp pkt' = 14 + SNIFF_IP_HL (w_vh1 w) * 4"
    using slice_packet_wire [OF assms(1), of "pkt0\<lparr>len := of_nat (length (wire_bytes w))\<rparr>" le ses] by auto
  have "flag_names 0 = []" by (simp add: flag_names_def tcp_flags_def)
  then show ?thesis
    using wire_fields [OF assms(1), of le] assms(2) by (simp add: read_packet_def sl p Let_def flag_string_names)
qed

theorem read_packet_no_flags_witness:
  "read_packet True False zero_session demo_pkt (length (wire_bytes (demo_wire\<lparr>w_flags := 0\<rparr>)))
     (Some (wire_bytes (demo_wire\<lparr>w_flags := 0\<rparr>))) = None"
  by (rule read_packet_no_flags) (use demo_wire_ok in \<open>simp_all add: wire_ok_def\<close>)

lemma ntoh_at_length:
  "ntoh16_at le p m = Some m' \<Longrightarrow> length m' = length m \<and> p + 2 \<le> length m"
  "ntoh32_at le p m = Some m' \<Longrightarrow> length m' = length m \<and> p + 4 \<le> length m"
  "keep8_at p m = Some m' \<Longrightarrow> length m' = length m \<and> p + 1 \<le> length m"
  by (auto simp: ntoh16_at_def ntoh32_at_def keep8_at_def ld16_def ld32_def ld8_def st16_def st32_def ldn_def stn_def
      split: if_splits Option.bind_splits)

lemma ntoh_length:
  "ntoh_ip le p m = Some m' \<Longrightarrow> length m' = length m"
  "ntoh_tcp le p m = Some m' \<Longrightarrow> length m' = length m \<and> p + 20 \<le> length m"
  by (auto simp: ntoh_ip_def ntoh_tcp_def split: Option.bind_splits dest!: ntoh_at_length)

text \<open>
  \<open>slice_packet\<close> does not look at the captured length: a packet that ends before the end of
  the fixed part of the TCP header (or before the IP header) is read, and written, beyond its
  last captured byte.
\<close>

theorem slice_packet_truncated:
  assumes "length m \<le> 14 \<or> 10 \<le> SNIFF_IP_HL (m ! 14) * 4 \<and> length m < 14 + SNIFF_IP_HL (m ! 14) * 4 + 20"
  shows "slice_packet le (Some m) (Some pkt) ses = None"
proof (cases "length m \<le> 14")
  case True
  then show ?thesis by (simp add: slice_packet_def ld8_def pkt_consts)
next
  case False
  define hl where "hl = SNIFF_IP_HL (m ! 14) * 4"
  have "ntoh_ip le 14 m \<bind> (\<lambda>m1. ntoh_tcp le (14 + hl) m1 \<bind> f m1) = None" for f :: "byte list \<Rightarrow> byte list \<Rightarrow> 'a option"
    using assms False ntoh_length by (fastforce simp: hl_def split: Option.bind_splits)
  with assms False show ?thesis
    by (simp add: slice_packet_def ld8_def pkt_consts Let_def hl_def)
qed

theorem slice_packet_truncated_witness:
  "slice_packet True (Some (replicate 14 0 @ 0x45 # replicate 30 0)) (Some demo_pkt) zero_session = None"
  by (rule slice_packet_truncated) (simp add: SNIFF_IP_HL_def nth_append)

text \<open>
  What \<open>same_session\<close> decides for a packet and the session of a first packet \<open>v\<close>: 1 exactly when the
  four endpoint values are those of \<open>v\<close>, or are those of \<open>v\<close> reversed and the source addresses differ.
  A reply between two ports of one host is therefore not recognised.
\<close>

theorem same_session_decides:
  assumes "wire_ok w" "ip pkt = 14" "tcp pkt = 14 + SNIFF_IP_HL (w_vh1 w) * 4"
  shows "same_session le (Some (session_of v)) (Some pkt) (host_bytes le w) =
    Some (if w_src w = w_src v \<and> w_sport w = w_sport v \<and> w_dst w = w_dst v \<and> w_dport w = w_dport v \<or>
             w_src w \<noteq> w_src v \<and> w_dst w = w_src v \<and> w_dport w = w_sport v \<and> w_src w = w_dst v \<and> w_sport w = w_dport v
          then 1 else 0)"
  using wire_fields [OF assms(1), of le] by (auto simp: same_session_def assms(2,3) session_of_def)

theorem same_session_decides_witness:
  "same_session True (Some (session_of demo_wire)) (Some (demo_pkt\<lparr>ip := 14, tcp := 34\<rparr>)) (host_bytes True demo_wire) =
    Some (if w_src demo_wire = w_src demo_wire \<and> w_sport demo_wire = w_sport demo_wire \<and> w_dst demo_wire = w_dst demo_wire \<and>
             w_dport demo_wire = w_dport demo_wire \<or>
             w_src demo_wire \<noteq> w_src demo_wire \<and> w_dst demo_wire = w_src demo_wire \<and> w_dport demo_wire = w_sport demo_wire \<and>
             w_src demo_wire = w_dst demo_wire \<and> w_sport demo_wire = w_dport demo_wire
          then 1 else 0)"
  by (rule same_session_decides [OF demo_wire_ok]) (simp_all add: demo_wire_def SNIFF_IP_HL_def)

end
