(* ===== verification/Log_Core.thy ===== *)
theory Log_Core
  imports Conf_Api
begin

text \<open>
  \<open>src/src/log/iridiumSysLog/iridiumlog_conf/iridium_conf_core.c\<close>: the reader of the log library's
  configuration file, a descendant of the one of \<open>utils/config\<close>. The functions on lines, blocks and
  values are the same code up to the names of the types, so they are the definitions of \<open>Conf_Core\<close>
  under the names they have here. The manager has a \<open>log_switch\<close> besides, switch lines set it, a
  misplaced block start ends the program, a failed load leaves the table in place, and destroying
  the table resets its pointer.
\<close>

section \<open>Data\<close>

definition log_PARAMETER_ERR :: int where "log_PARAMETER_ERR = - 2"
definition log_REPEAT_INIT_ERR :: int where "log_REPEAT_INIT_ERR = 3"
definition log_OPEN_FILE_ERR :: int where "log_OPEN_FILE_ERR = 4"
definition log_CONF_FILE_MAP_ERR :: int where "log_CONF_FILE_MAP_ERR = 6"
definition log_CONF_CLOSE_ALL :: int where "log_CONF_CLOSE_ALL = 9"
definition log_LOG_SWITCH_STR :: string where "log_LOG_SWITCH_STR = ''LOG_SWITCH''"

lemmas log_consts = log_PARAMETER_ERR_def log_REPEAT_INIT_ERR_def log_OPEN_FILE_ERR_def
  log_CONF_FILE_MAP_ERR_def log_CONF_CLOSE_ALL_def

text \<open>The manager's fields shared with \<open>utils/config\<close> (and the objects of the table), and its own.\<close>

record 't log_world =
  lw_conf :: "'t conf_world"
  m_log_switch :: int

section \<open>Lines, blocks and values\<close>

definition log_check_comment_line :: "char list \<Rightarrow> int \<Rightarrow> int option" where
  "log_check_comment_line = check_comment_line"

definition log_get_string :: "string \<Rightarrow> char list \<Rightarrow> int \<Rightarrow> (string \<times> int) option" where
  "log_get_string = get_string"

definition log_iri_conf_line_handle ::
  "single_conf_pair_t \<Rightarrow> char list \<Rightarrow> int \<Rightarrow> (single_conf_pair_t \<times> int) option" where
  "log_iri_conf_line_handle = iri_conf_line_handle"

definition log_handle_conf_block :: "bool \<Rightarrow> char list option \<Rightarrow> char list \<Rightarrow> conf_pairs_t option option" where
  "log_handle_conf_block = handle_conf_block"

definition log_get_value :: "(addr \<Rightarrow> conf_pairs_t option) \<Rightarrow> addr \<Rightarrow> string \<Rightarrow> string option option" where
  "log_get_value = get_value"

definition log_get_conf_pairs :: "'t conf_hash \<Rightarrow> 't log_world \<Rightarrow> string \<Rightarrow> addr option option" where
  "log_get_conf_pairs h w mode = get_conf_pairs h (lw_conf w) mode"

definition transfer_char_to_int :: "char \<Rightarrow> int" where
  "transfer_char_to_int c = (if \<not> isdigit c then - 1 else digit c)"

section \<open>The manager\<close>

definition log_insert_new_node :: "'t conf_hash \<Rightarrow> addr \<Rightarrow> 't log_world \<Rightarrow> 't log_world option" where
  "log_insert_new_node h a w = do { c \<leftarrow> insert_new_node h a (lw_conf w); Some (w\<lparr>lw_conf := c\<rparr>) }"

definition log_init_manager :: "'t conf_hash \<Rightarrow> 't log_world \<Rightarrow> 't log_world" where
  "log_init_manager h w = w\<lparr>lw_conf := init_manager h (lw_conf w), m_log_switch := 1\<rparr>"

definition log_destroy_iri_conf :: "'t conf_hash \<Rightarrow> 't log_world \<Rightarrow> 't log_world option" where
  "log_destroy_iri_conf h w =
     (case iri_conf (manager (lw_conf w)) of
        NullTab \<Rightarrow> Some w
      | DeadTab \<Rightarrow> None
      | LiveTab t \<Rightarrow> do {
          let (t', ks, vs) = gh_remove_all h t;
          m' \<leftarrow> destroy_values vs (mem (lw_conf w));
          Some (w\<lparr>lw_conf := (lw_conf w)\<lparr>manager := (manager (lw_conf w))\<lparr>iri_conf := NullTab\<rparr>, mem := m'\<rparr>\<rparr>) })"

text \<open>The entries that \<open>log_conf_manager_foreach\<close> hands to its function, in the order of the table.\<close>

definition log_conf_manager_foreach :: "'t conf_hash \<Rightarrow> 't log_world \<Rightarrow> (addr \<times> addr) list option" where
  "log_conf_manager_foreach h w =
     (case iri_conf (manager (lw_conf w)) of LiveTab t \<Rightarrow> Some (map snd (gh_entries h t)) | _ \<Rightarrow> None)"

definition log_go_through_conf_manager ::
  "'t conf_hash \<Rightarrow> 't log_world \<Rightarrow> (string \<times> (string \<times> string) list) list option" where
  "log_go_through_conf_manager h w = go_through_conf_manager h (lw_conf w)"

section \<open>Reading the file\<close>

text \<open>The value that a switch line assigns, if it is one.\<close>

definition log_switch_value :: "char list \<Rightarrow> int option" where
  "log_switch_value line =
     (let log_switch_buf = take 125 line
      in if strstr (takeWhile (\<lambda>c. c \<noteq> NUL) log_switch_buf) log_LOG_SWITCH_STR then
           let rest = dropWhile blank (drop 1 (dropWhile (\<lambda>c. c \<noteq> CHR ''='') log_switch_buf))
           in if rest \<noteq> [] then Some (transfer_char_to_int (hd rest)) else None
         else None)"

definition log_finish_block ::
  "'t conf_hash \<Rightarrow> (nat \<Rightarrow> bool) \<Rightarrow> char list option \<Rightarrow> char list \<Rightarrow> 't log_world \<Rightarrow> 't log_world option" where
  "log_finish_block h mal block_start p w = do {
     new_pairs \<leftarrow> log_handle_conf_block (mal (case block_start of None \<Rightarrow> 0 | Some s \<Rightarrow> length s)) block_start p;
     case new_pairs of
       None \<Rightarrow> Some w
     | Some c \<Rightarrow> do {
         let v = lw_conf w;
         w1 \<leftarrow> log_insert_new_node h (brk v) (w\<lparr>lw_conf := v\<lparr>mem := (mem v)(brk v \<mapsto> c), brk := Suc (brk v)\<rparr>\<rparr>);
         let v1 = lw_conf w1;
         Some (w1\<lparr>lw_conf := v1\<lparr>manager := (manager v1)\<lparr>mode_count := mode_count (manager v1) + 1\<rparr>\<rparr>\<rparr>) } }"

text \<open>The main loop, with \<open>open_block\<close> as in \<open>conf_scan\<close>.\<close>

function log_conf_scan ::
  "'t conf_hash \<Rightarrow> (nat \<Rightarrow> bool) \<Rightarrow> bool \<Rightarrow> char list \<Rightarrow> char list option \<Rightarrow> 't log_world \<Rightarrow>
     ('t log_world \<times> int) run option" where
  "log_conf_scan h mal full p open_block w =
     (if p = [] then Some (Goes (w, 0))
      else do {
        let p1 = skip_blanks p;
        c1 \<leftarrow> deref full p1;
        let p2 = (if c1 = CHR ''#'' then skip_line p1 else p1);
        c2 \<leftarrow> deref full p2;
        if c2 = CHR ''@'' then
          case log_switch_value (takeWhile (\<lambda>c. c \<noteq> NL) (tl p2)) of
            None \<Rightarrow> log_conf_scan h mal full (tl (skip_line (tl p2))) open_block w
          | Some v \<Rightarrow>
              if v = 0 then Some (Goes (w\<lparr>m_log_switch := 0\<rparr>, log_CONF_CLOSE_ALL))
              else log_conf_scan h mal full (tl (skip_line (tl p2))) open_block (w\<lparr>m_log_switch := v\<rparr>)
        else if c2 = CHR ''-'' \<and> open_block \<noteq> None then do {
          is_end \<leftarrow> strncmp_eq full p2 ''-end'';
          if \<not> is_end then Some (Exits 0)
          else do {
            w' \<leftarrow> log_finish_block h mal open_block p2 w;
            let p3 = skip_line p2;
            if p3 = [] then Some (Goes (w', 0)) else log_conf_scan h mal full (tl p3) None w' } }
        else do {
          let open' = (if c2 = CHR ''-'' then Some (tl p2) else open_block);
          let p3 = skip_line (if c2 = CHR ''-'' then tl p2 else p2);
          if p3 = [] then Some (Goes (w, 0)) else log_conf_scan h mal full (tl p3) open' w } })"
  by pat_completeness auto

termination
  by (relation "measure (\<lambda>(h, mal, full, p, b, w). length p)") (simp_all add: length_scan_step split: if_splits)

declare log_conf_scan.simps [simp del]

definition log_get_conf_info_from_file ::
  "'t conf_hash \<Rightarrow> (nat \<Rightarrow> bool) \<Rightarrow> bool \<Rightarrow> char list option \<Rightarrow> 't log_world option \<Rightarrow>
     ('t log_world option \<times> int) run option" where
  "log_get_conf_info_from_file h mal rd_ok file conf_manager =
     (case conf_manager of
        None \<Rightarrow> Some (Goes (None, log_PARAMETER_ERR))
      | Some w \<Rightarrow>
          if init_flag (manager (lw_conf w)) \<noteq> IRI_CONF_FINISH_INIT then
            let w1 = log_init_manager h w
            in case file of
                 None \<Rightarrow> Some (Goes (Some w1, log_OPEN_FILE_ERR))
               | Some bytes \<Rightarrow>
                   if \<not> rd_ok then Some (Goes (Some w1, log_CONF_FILE_MAP_ERR))
                   else
                     let rd_buf = take MAX_CONF_FILE_SIZE bytes
                     in andthen (log_conf_scan h mal (length rd_buf = MAX_CONF_FILE_SIZE) rd_buf None w1)
                          (\<lambda>(w2, ret). Some (Goes (Some w2, ret)))
          else Some (Goes (Some w, log_REPEAT_INIT_ERR)))"

section \<open>Reading a well-formed file\<close>

definition log_sw :: "string \<Rightarrow> 't log_world \<Rightarrow> 't log_world option" where
  "log_sw l w = (case log_switch_value l of
     None \<Rightarrow> Some w | Some v \<Rightarrow> if v = 0 then None else Some (w\<lparr>m_log_switch := v\<rparr>))"

lemma log_finish_block_conf:
  "log_finish_block h mal ob p w = do { c \<leftarrow> finish_block h mal ob p (lw_conf w); Some (w\<lparr>lw_conf := c\<rparr>) }"
  by (auto simp: log_finish_block_def finish_block_def log_insert_new_node_def log_handle_conf_block_def Let_def
      split: Option.bind_splits option.splits)

interpretation ls: block_scanner h mal full "log_conf_scan h mal full" lw_conf "\<lambda>c w. w\<lparr>lw_conf := c\<rparr>" log_sw for h mal full
proof (unfold_locales, goal_cases)
  case (1 p c1 s1 c2 s2 rest ob s)
  show ?case
    unfolding log_conf_scan.simps [of h mal full p ob s] Let_def 1(2) deref_Cons Option.bind.bind_lunit 1(3)
    using 1(1,4-6) by simp
next
  case (2 p rest b s)
  show ?case
    unfolding log_conf_scan.simps [of h mal full p "Some b" s] Let_def 2(2,3) Option.bind.bind_lunit
    using 2 by (simp add: log_finish_block_conf)
next
  case (3 p q rest s)
  then show ?case by (simp add: log_conf_scan.simps [of h mal full p None s] Let_def)
next
  case (4 p q rest s s' ob)
  then show ?case
    by (auto simp: log_conf_scan.simps [of h mal full p ob s] Let_def log_sw_def split: if_splits option.splits)
qed (auto simp: log_sw_def split: if_splits option.splits)

text \<open>The value of the switch after the switch lines of a file, none of which turns the log off.\<close>

fun switch_of :: "conf_item list \<Rightarrow> int \<Rightarrow> int" where
  "switch_of [] v = v"
| "switch_of (Switch b l # is) v = switch_of is (case log_switch_value l of None \<Rightarrow> v | Some u \<Rightarrow> u)"
| "switch_of (_ # is) v = switch_of is v"

definition stays_on :: "conf_item \<Rightarrow> bool" where
  "stays_on i \<longleftrightarrow> (case i of Switch b l \<Rightarrow> log_switch_value l \<noteq> Some 0 | _ \<Rightarrow> True)"

definition log_conf_ok :: "conf_item list \<Rightarrow> bool" where
  "log_conf_ok is \<longleftrightarrow> list_all item_wf is \<and> list_all stays_on is \<and> distinct (map fst (item_modes is))"

lemma run_log_sw:
  "list_all stays_on is \<Longrightarrow> run_sw log_sw is w = Some (w\<lparr>m_log_switch := switch_of is (m_log_switch w)\<rparr>)"
proof (induction "is" arbitrary: w)
  case (Cons i "is")
  then show ?case
    by (cases i) (auto simp: log_sw_def stays_on_def split: option.splits)
qed simp

definition log_fresh :: "'t log_world" where
  "log_fresh = \<lparr>lw_conf = \<lparr>manager = \<lparr>iri_conf = NullTab, mode_count = 0, init_flag = 0\<rparr>, mem = Map.empty, brk = 0\<rparr>, m_log_switch = 0\<rparr>"

lemma log_fresh_facts [simp]: "init_flag (manager (lw_conf log_fresh)) = 0" "mem (lw_conf log_fresh) = Map.empty"
  by (simp_all add: log_fresh_def)

lemma log_world_fields: "(w :: 't log_world)\<lparr>m_log_switch := v, lw_conf := c\<rparr> = \<lparr>lw_conf = c, m_log_switch = v\<rparr>"
  by (cases w) simp

text \<open>
  The scan of a file that starts with the items \<open>is\<close>, from an initialised manager: the table holds
  the modes of the items, and the scan goes on behind them.
\<close>

lemma log_scan_items:
  assumes laws: "ghash_laws h" and ok: "log_conf_ok is" and mal: "\<And>n. mal n"
  shows "\<exists>c. (\<forall>rest. log_conf_scan h mal full (conf_text is @ rest) None (log_init_manager h log_fresh) =
       log_conf_scan h mal full rest None \<lparr>lw_conf = c, m_log_switch = switch_of is 1\<rparr>) \<and>
     conf_inv h c \<and> conf_view h c = map_of (item_modes is) \<and> no_leak h c"
proof -
  let ?w = "log_init_manager h log_fresh"
  have i: "conf_inv h (lw_conf ?w)" "conf_view h (lw_conf ?w) = Map.empty" "no_leak h (lw_conf ?w)"
    using init_manager_inv [OF laws, of "lw_conf log_fresh"] by (simp_all add: log_init_manager_def log_fresh_def)
  have o: "list_all item_wf is" "list_all stays_on is" "distinct (map fst (item_modes is))"
    using ok by (simp_all add: log_conf_ok_def)
  have "m_log_switch ?w = 1" by (simp add: log_init_manager_def)
  then show ?thesis
    using ls.whole_text [where mal = mal and full = full, OF laws mal o(1,3) i(1) _ run_log_sw [OF o(2)]] i(2,3)
    by (auto simp: log_world_fields)
qed

lemma log_load_items:
  assumes laws: "ghash_laws h" and ok: "log_conf_ok is" and mal: "\<And>n. mal n"
    and len: "length (conf_text is) < MAX_CONF_FILE_SIZE"
  shows "\<exists>c. log_get_conf_info_from_file h mal True (Some (conf_text is)) (Some log_fresh) =
       Some (Goes (Some \<lparr>lw_conf = c, m_log_switch = switch_of is 1\<rparr>, 0)) \<and>
     conf_inv h c \<and> conf_view h c = map_of (item_modes is) \<and> no_leak h c"
proof -
  obtain c where sc: "\<And>rest. log_conf_scan h mal False (conf_text is @ rest) None (log_init_manager h log_fresh) =
       log_conf_scan h mal False rest None \<lparr>lw_conf = c, m_log_switch = switch_of is 1\<rparr>" and
     c: "conf_inv h c" "conf_view h c = map_of (item_modes is)" "no_leak h c"
    using log_scan_items [where mal = mal and full = False, OF laws ok mal] by blast
  have "log_conf_scan h mal False (conf_text is) None (log_init_manager h log_fresh) =
      Some (Goes (\<lparr>lw_conf = c, m_log_switch = switch_of is 1\<rparr>, 0))"
    using sc [of "[]"] by (simp add: log_conf_scan.simps [of h mal False "[]"])
  then show ?thesis
    using c len by (simp add: log_get_conf_info_from_file_def conf_consts Let_def)
qed

text \<open>A switch line that turns the log off ends the load with \<open>CONF_CLOSE_ALL\<close>.\<close>

lemma log_load_off:
  assumes laws: "ghash_laws h" and ok: "log_conf_ok is" and mal: "\<And>n. mal n"
    and sw: "blanks b" "NL \<notin> set l" "log_switch_value l = Some 0"
    and len: "length (conf_text is @ b @ CHR ''@'' # l @ NL # rest) < MAX_CONF_FILE_SIZE"
  shows "\<exists>c. log_get_conf_info_from_file h mal True (Some (conf_text is @ b @ CHR ''@'' # l @ NL # rest)) (Some log_fresh) =
       Some (Goes (Some \<lparr>lw_conf = c, m_log_switch = 0\<rparr>, log_CONF_CLOSE_ALL)) \<and> conf_inv h c \<and> no_leak h c"
proof -
  obtain c where sc: "\<And>rest. log_conf_scan h mal False (conf_text is @ rest) None (log_init_manager h log_fresh) =
       log_conf_scan h mal False rest None \<lparr>lw_conf = c, m_log_switch = switch_of is 1\<rparr>" and c: "conf_inv h c" "no_leak h c"
    using log_scan_items [where mal = mal and full = False, OF laws ok mal] by blast
  have p1: "skip_blanks (b @ CHR ''@'' # l @ NL # rest) = CHR ''@'' # l @ NL # rest"
    using skip_blanks_at [OF sw(1)] by simp
  have "takeWhile (\<lambda>c. c \<noteq> NL) (l @ NL # rest) = l"
    by (subst takeWhile_append2) (use sw(2) in auto)
  then have "log_conf_scan h mal False (b @ CHR ''@'' # l @ NL # rest) None w = Some (Goes (w\<lparr>m_log_switch := 0\<rparr>, log_CONF_CLOSE_ALL))" for w
    using sw(3) by (simp add: log_conf_scan.simps [of _ _ _ "b @ CHR ''@'' # l @ NL # rest"] p1 Let_def)
  then show ?thesis
    using c len by (simp add: sc log_get_conf_info_from_file_def conf_consts Let_def)
qed

lemma log_destroy_live:
  assumes "ghash_laws h" "conf_inv h (lw_conf w)" "no_leak h (lw_conf w)"
  shows "\<exists>w'. log_destroy_iri_conf h w = Some w' \<and> iri_conf (manager (lw_conf w')) = NullTab \<and> mem (lw_conf w') = Map.empty"
proof -
  obtain c' where d: "destroy_iri_conf h (lw_conf w) = Some c'"
    and m: "mem c' = (\<lambda>a. if a \<in> owned h (lw_conf w) then None else mem (lw_conf w) a)"
    using destroy_live [OF assms(1,2)] by blast
  have "mem c' = Map.empty" using assms(3) unfolding m no_leak_def by (intro ext) auto
  with d show ?thesis
    by (auto simp: destroy_iri_conf_def log_destroy_iri_conf_def split: tabptr.splits prod.splits Option.bind_splits
        intro!: ext)
qed

end
