(* ===== verification/Log_Conf.thy ===== *)
theory Log_Conf
  imports Log_Core
begin

text \<open>
  \<open>src/src/log/iridiumSysLog/iridiumlog_conf/iridiumlog_conf.c\<close>: the settings of the log files. Each
  mode of the configuration file becomes a heap object of settings; \<open>sinfo\<close> is an array of pointers
  to them that grows, \<open>names\<close> a hash table from the name of a log file to its index, whose keys point
  into the objects. Three indices are reserved: control, total switch and default settings.

  \<open>imem\<close> maps the addresses of live objects to their contents; the cells of a freshly allocated
  array are unset. The values of \<open>names\<close> are separately allocated integers that only the table
  holds; the model keeps the integer. The indices are natural numbers: a configuration file of 2 MB
  has far fewer than \<open>2 ^ 32\<close> modes. \<open>hn\<close> is the hash table library for \<open>names\<close>.
\<close>

section \<open>Data\<close>

record irilog_switch_t =
  p_file :: int
  p_func :: int
  p_line :: int
  p_date :: int
  f_file :: int
  f_func :: int
  f_line :: int
  f_date :: int
  log_terminal :: int
  log_file :: int
  lv_debug :: int
  lv_info :: int
  lv_err :: int
  lv_fatal :: int

record single_log_conf_info_t =
  li_log_switch :: int
  li_is_valid :: int
  li_name :: string
  li_timer :: int
  li_switch :: irilog_switch_t
  li_loginfo_max_len :: int
  li_rollback_num :: int
  li_single_max_size :: int
  li_is_process_lock :: int

definition zero_switch :: irilog_switch_t where
  "zero_switch = \<lparr>p_file = 0, p_func = 0, p_line = 0, p_date = 0, f_file = 0, f_func = 0, f_line = 0, f_date = 0,
     log_terminal = 0, log_file = 0, lv_debug = 0, lv_info = 0, lv_err = 0, lv_fatal = 0\<rparr>"

definition zero_info :: single_log_conf_info_t where
  "zero_info = \<lparr>li_log_switch = 0, li_is_valid = 0, li_name = [], li_timer = 0, li_switch = zero_switch,
     li_loginfo_max_len = 0, li_rollback_num = 0, li_single_max_size = 0, li_is_process_lock = 0\<rparr>"

definition DEFAULT_LOG_CONF_FILES_MEM :: nat where "DEFAULT_LOG_CONF_FILES_MEM = 50"
definition DEFAULT_LOG_ROLLBACK_NUMBER :: int where "DEFAULT_LOG_ROLLBACK_NUMBER = 5"
definition DEFAULT_LOG_SINGLE_MAX_SIZE :: int where "DEFAULT_LOG_SINGLE_MAX_SIZE = 30 * 1024 * 1024"
definition TOTAL_SWITCH_MODE_NAME :: string where "TOTAL_SWITCH_MODE_NAME = ''TOTAL_SWITCH''"
definition TOTAL_SWITCH_IS_VALID :: string where "TOTAL_SWITCH_IS_VALID = ''IS_VALID''"
definition TOTAL_SWITCH_TIMER :: string where "TOTAL_SWITCH_TIMER = ''TIMMER''"
definition DEFAULT_LOG_FILE_NAME :: string where "DEFAULT_LOG_FILE_NAME = ''iridium_default''"
definition FILE_NAME_LEN :: nat where "FILE_NAME_LEN = 128"
definition INFOS_ID_CTL :: int where "INFOS_ID_CTL = 0"
definition INFOS_ID_TOTAL_SWITCH :: int where "INFOS_ID_TOTAL_SWITCH = 1"
definition INFOS_ID_DEFAULT :: int where "INFOS_ID_DEFAULT = 2"
definition INFOS_ID_START :: int where "INFOS_ID_START = 3"

lemmas infos_ids = INFOS_ID_CTL_def INFOS_ID_TOTAL_SWITCH_def INFOS_ID_DEFAULT_def INFOS_ID_START_def

datatype cell = Unset | Null | Ptr addr

record 'n log_conf_infos_t =
  len :: int
  allocated_len :: int
  sinfo :: "cell list option"
  names :: 'n

record 'n log_infos_world =
  infos :: "'n log_conf_infos_t"
  imem :: "addr \<Rightarrow> single_log_conf_info_t option"
  ibrk :: addr

type_synonym 'n names_hash = "('n, addr, int) ghash"

section \<open>One line of settings\<close>

definition info_head :: "string list" where
  "info_head = [''DEBUG.INFO.ERR.FATAL'', ''LOG_FILE.FILE.FUNC.LINE.DATE'', ''LOG_TERMINAL.FILE.FUNC.LINE.DATE'',
     ''ROLLBACK_NUMBER'', ''SINGLE_MAX_SIZE'', ''IS_PROCESS_LOCK'']"

definition is_level_true_inner :: "char \<Rightarrow> int" where
  "is_level_true_inner c =
     (if \<not> isdigit c then - 1 else if digit c = 1 then 1 else if digit c = 0 then 0 else - 1)"

text \<open>What the \<open>remember_seq\<close>-th digit of a line of each kind sets.\<close>

definition set_level :: "nat \<Rightarrow> int \<Rightarrow> irilog_switch_t \<Rightarrow> irilog_switch_t" where
  "set_level seq v sw =
     (if seq = 0 then sw\<lparr>lv_debug := v\<rparr> else if seq = 1 then sw\<lparr>lv_info := v\<rparr>
      else if seq = 2 then sw\<lparr>lv_err := v\<rparr> else if seq = 3 then sw\<lparr>lv_fatal := v\<rparr> else sw)"

definition set_file :: "nat \<Rightarrow> int \<Rightarrow> irilog_switch_t \<Rightarrow> irilog_switch_t" where
  "set_file seq v sw =
     (if seq = 0 then sw\<lparr>log_file := v\<rparr> else if seq = 1 then sw\<lparr>f_file := v\<rparr>
      else if seq = 2 then sw\<lparr>f_func := v\<rparr> else if seq = 3 then sw\<lparr>f_line := v\<rparr>
      else if seq = 4 then sw\<lparr>f_date := v\<rparr> else sw)"

definition set_terminal :: "nat \<Rightarrow> int \<Rightarrow> irilog_switch_t \<Rightarrow> irilog_switch_t" where
  "set_terminal seq v sw =
     (if seq = 0 then sw\<lparr>log_terminal := v\<rparr> else if seq = 1 then sw\<lparr>p_file := v\<rparr>
      else if seq = 2 then sw\<lparr>p_func := v\<rparr> else if seq = 3 then sw\<lparr>p_line := v\<rparr>
      else if seq = 4 then sw\<lparr>p_date := v\<rparr> else sw)"

text \<open>
  The loop over the digits of such a line: the switches and the return value. The switches that
  are set before a wrong character stay set.
\<close>

fun switch_loop ::
  "nat \<Rightarrow> (nat \<Rightarrow> int \<Rightarrow> irilog_switch_t \<Rightarrow> irilog_switch_t) \<Rightarrow> string \<Rightarrow> nat \<Rightarrow> irilog_switch_t \<Rightarrow> irilog_switch_t \<times> int" where
  "switch_loop mx put [] seq sw = (sw, 0)"
| "switch_loop mx put (c # cs) seq sw =
     (if c = CHR ''.'' then switch_loop mx put cs seq sw
      else if seq > mx then (sw, 0)
      else if is_level_true_inner c < 0 then (sw, - 1)
      else switch_loop mx put cs (Suc seq) (put seq (is_level_true_inner c) sw))"

definition irilog_conf_line_handle ::
  "single_log_conf_info_t \<Rightarrow> string \<Rightarrow> string \<Rightarrow> (single_log_conf_info_t \<times> int) option" where
  "irilog_conf_line_handle info nm val =
     (let digits = (\<lambda>mx put. case switch_loop mx put val 0 (li_switch info) of
        (sw, r) \<Rightarrow> Some (info\<lparr>li_switch := sw\<rparr>, r))
      in if nm = info_head ! 0 then digits 3 set_level
         else if nm = info_head ! 1 then digits 4 set_file
         else if nm = info_head ! 2 then digits 4 set_terminal
         else if nm = info_head ! 3 then
           map_option (\<lambda>v. (info\<lparr>li_rollback_num := v\<rparr>, 0)) (sscanf_d val (li_rollback_num info))
         else if nm = info_head ! 4 then
           map_option (\<lambda>v. (info\<lparr>li_single_max_size := v\<rparr>, 0)) (sscanf_u 32 val (li_single_max_size info))
         else if nm = info_head ! 5 then
           map_option (\<lambda>v. (info\<lparr>li_is_process_lock := v\<rparr>, 0)) (sscanf_d val (li_is_process_lock info))
         else Some (info, 0))"

text \<open>The loop over the pairs of a mode; the results of the lines are not looked at.\<close>

function info_loop :: "conf_pairs_t \<Rightarrow> int \<Rightarrow> single_log_conf_info_t \<Rightarrow> single_log_conf_info_t option" where
  "info_loop conf_pairs i info =
     (if i < cur_pos conf_pairs then do {
        pair \<leftarrow> aget (pairs conf_pairs) i;
        (info', _) \<leftarrow> irilog_conf_line_handle info (name pair) (value pair);
        info_loop conf_pairs (i + 1) info' }
      else Some info)"
  by pat_completeness auto

termination
  by (relation "measure (\<lambda>(c, i, info). nat (cur_pos c - i))") auto

declare info_loop.simps [simp del]

definition get_info_from_conf_pairs :: "conf_pairs_t \<Rightarrow> single_log_conf_info_t \<Rightarrow> single_log_conf_info_t option" where
  "get_info_from_conf_pairs conf_pairs info = info_loop conf_pairs 0 info"

section \<open>The array of settings\<close>

definition g_free_info :: "addr \<Rightarrow> (addr \<Rightarrow> single_log_conf_info_t option) \<Rightarrow> (addr \<Rightarrow> single_log_conf_info_t option) option" where
  "g_free_info a m = (if m a = None then None else Some (m(a := None)))"

text \<open>\<open>g_malloc\<close> of an object with the given content (it ends the program when memory is short).\<close>

definition new_info :: "single_log_conf_info_t \<Rightarrow> 'n log_infos_world \<Rightarrow> addr \<times> 'n log_infos_world" where
  "new_info c w = (ibrk w, w\<lparr>imem := (imem w)(ibrk w \<mapsto> c), ibrk := Suc (ibrk w)\<rparr>)"

definition grow_infos :: "'n log_conf_infos_t \<Rightarrow> 'n log_conf_infos_t" where
  "grow_infos li =
     (if len li \<ge> allocated_len li then
        case sinfo li of
          None \<Rightarrow>
            let n = (if DEFAULT_LOG_CONF_FILES_MEM > 3 then DEFAULT_LOG_CONF_FILES_MEM else 3)
            in li\<lparr>allocated_len := int n, len := INFOS_ID_START,
                 sinfo := Some ((replicate n Unset)[nat INFOS_ID_CTL := Null, nat INFOS_ID_DEFAULT := Null,
                   nat INFOS_ID_TOTAL_SWITCH := Null])\<rparr>
        | Some s \<Rightarrow> li\<lparr>allocated_len := allocated_len li + 10, sinfo := Some (s @ replicate 10 Unset)\<rparr>
      else li)"

definition lci_add_info :: "addr \<Rightarrow> int \<Rightarrow> 'n log_infos_world \<Rightarrow> ('n log_infos_world \<times> int) option" where
  "lci_add_info info special_id w = do {
     let li = grow_infos (infos w);
     s \<leftarrow> sinfo li;
     if special_id \<ge> INFOS_ID_START then do {
       s' \<leftarrow> aset s (len li) (Ptr info);
       Some (w\<lparr>infos := li\<lparr>sinfo := Some s', len := len li + 1\<rparr>\<rparr>, len li) }
     else if special_id \<ge> 0 then do {
       c \<leftarrow> aget s special_id;
       m' \<leftarrow> (case c of Unset \<Rightarrow> None | Null \<Rightarrow> Some (imem w) | Ptr a \<Rightarrow> g_free_info a (imem w));
       s' \<leftarrow> aset s special_id (Ptr info);
       Some (w\<lparr>infos := li\<lparr>sinfo := Some s'\<rparr>, imem := m'\<rparr>, special_id) }
     else None }"

section \<open>Settings from a mode\<close>

text \<open>
  \<open>g_hash_table_insert(names, info->name, id)\<close>: the key is the address of the object. The stored key
  of the same text is read (and must be alive) when there is one.
\<close>

definition names_insert :: "'n names_hash \<Rightarrow> addr \<Rightarrow> int \<Rightarrow> 'n log_infos_world \<Rightarrow> 'n log_infos_world option" where
  "names_insert hn info idx w = do {
     c \<leftarrow> imem w info;
     (case gh_lookup hn (names (infos w)) (li_name c) of
        None \<Rightarrow> Some () | Some (k, v) \<Rightarrow> if imem w k = None then None else Some ());
     let (t', ks, vs) = gh_insert hn (names (infos w)) (li_name c) info idx;
     Some (w\<lparr>infos := (infos w)\<lparr>names := t'\<rparr>\<rparr>) }"

definition fst_char :: "string \<Rightarrow> char" where
  "fst_char s = (case s of [] \<Rightarrow> NUL | c # _ \<Rightarrow> c)"

text \<open>The settings object of a mode, before it is entered; its value in \<open>TOTAL_SWITCH\<close> may end the program.\<close>

definition total_switch_info :: "(addr \<Rightarrow> conf_pairs_t option) \<Rightarrow> addr \<Rightarrow> single_log_conf_info_t \<Rightarrow> single_log_conf_info_t run option" where
  "total_switch_info cm conf_pairs info = do {
     v \<leftarrow> log_get_value cm conf_pairs TOTAL_SWITCH_IS_VALID;
     case v of
       None \<Rightarrow> Some (Exits 0)
     | Some s \<Rightarrow> do {
         let info1 = info\<lparr>li_is_valid := is_level_true_inner (fst_char s)\<rparr>;
         if li_is_valid info1 < 0 then Some (Exits 0)
         else do {
           v' \<leftarrow> log_get_value cm conf_pairs TOTAL_SWITCH_TIMER;
           case v' of
             None \<Rightarrow> Some (Exits 0)
           | Some t \<Rightarrow> do {
               n \<leftarrow> atoi t;
               if n < 0 then Some (Exits 0) else Some (Goes (info1\<lparr>li_timer := n\<rparr>)) } } } }"

definition fill_log_conf_infos ::
  "'n names_hash \<Rightarrow> (addr \<Rightarrow> conf_pairs_t option) \<Rightarrow> addr \<times> addr \<Rightarrow> 'n log_infos_world \<Rightarrow> 'n log_infos_world run option" where
  "fill_log_conf_infos hn cm kv w = do {
     key \<leftarrow> cm (fst kv);
     conf_pairs \<leftarrow> cm (snd kv);
     info \<leftarrow> get_info_from_conf_pairs conf_pairs (zero_info\<lparr>li_name := take (FILE_NAME_LEN - 1) (mode_name key)\<rparr>);
     if li_name info \<noteq> TOTAL_SWITCH_MODE_NAME then do {
       let (a, w1) = new_info info w;
       (w2, idx) \<leftarrow> lci_add_info a INFOS_ID_START w1;
       map_option Goes (names_insert hn a idx w2) }
     else
       andthen (total_switch_info cm (snd kv) info) (\<lambda>info'. do {
         let (a, w1) = new_info info' w;
         (w2, idx) \<leftarrow> lci_add_info a INFOS_ID_TOTAL_SWITCH w1;
         map_option Goes (names_insert hn a idx w2) }) }"

fun fill_all ::
  "'n names_hash \<Rightarrow> (addr \<Rightarrow> conf_pairs_t option) \<Rightarrow> (addr \<times> addr) list \<Rightarrow> 'n log_infos_world \<Rightarrow> 'n log_infos_world run option" where
  "fill_all hn cm [] w = Some (Goes w)"
| "fill_all hn cm (kv # kvs) w = andthen (fill_log_conf_infos hn cm kv w) (fill_all hn cm kvs)"

section \<open>The whole configuration\<close>

definition set_default_single_log_conf_info :: "single_log_conf_info_t \<Rightarrow> single_log_conf_info_t" where
  "set_default_single_log_conf_info info =
     info\<lparr>li_rollback_num := DEFAULT_LOG_ROLLBACK_NUMBER, li_single_max_size := DEFAULT_LOG_SINGLE_MAX_SIZE, li_is_valid := 0,
       li_switch := \<lparr>p_file = 0, p_func = 0, p_line = 0, p_date = 0, f_file = 1, f_func = 1, f_line = 1, f_date = 1,
         log_terminal = 0, log_file = 1, lv_debug = 0, lv_info = 1, lv_err = 1, lv_fatal = 1\<rparr>\<rparr>"

definition log_conf_infos_init :: "'n names_hash \<Rightarrow> 'n log_infos_world option" where
  "log_conf_infos_init hn = do {
     let w0 = \<lparr>infos = \<lparr>len = 0, allocated_len = 0, sinfo = None, names = gh_new hn\<rparr>, imem = Map.empty, ibrk = 0\<rparr>;
     let (a, w1) = new_info (zero_info\<lparr>li_log_switch := 1, li_is_valid := 0\<rparr>) w0;
     (w2, idx) \<leftarrow> lci_add_info a INFOS_ID_CTL w1;
     let (b, w3) = new_info (set_default_single_log_conf_info zero_info) w2;
     (w4, idx) \<leftarrow> lci_add_info b INFOS_ID_TOTAL_SWITCH w3;
     let (c, w5) = new_info (set_default_single_log_conf_info
       (zero_info\<lparr>li_name := take (FILE_NAME_LEN - 1) DEFAULT_LOG_FILE_NAME\<rparr>)) w4;
     (w6, idx) \<leftarrow> lci_add_info c INFOS_ID_DEFAULT w5;
     names_insert hn c idx w6 }"

text \<open>\<open>infos->sinfo[id]->field\<close>: the object behind a cell, and an update of it.\<close>

definition info_at :: "'n log_infos_world \<Rightarrow> int \<Rightarrow> (addr \<times> single_log_conf_info_t) option" where
  "info_at w idx = do {
     s \<leftarrow> sinfo (infos w);
     c \<leftarrow> aget s idx;
     case c of Ptr a \<Rightarrow> map_option (Pair a) (imem w a) | _ \<Rightarrow> None }"

definition upd_info_at :: "int \<Rightarrow> (single_log_conf_info_t \<Rightarrow> single_log_conf_info_t) \<Rightarrow> 'n log_infos_world \<Rightarrow> 'n log_infos_world option" where
  "upd_info_at idx f w = do { (a, c) \<leftarrow> info_at w idx; Some (w\<lparr>imem := (imem w)(a \<mapsto> f c)\<rparr>) }"

definition get_log_conf_infos ::
  "'t conf_hash \<Rightarrow> 'n names_hash \<Rightarrow> (nat \<Rightarrow> bool) \<Rightarrow> bool \<Rightarrow> char list option \<Rightarrow>
     ('n log_infos_world \<times> 't log_world) run option" where
  "get_log_conf_infos h hn mal rd_ok file = do {
     w0 \<leftarrow> log_conf_infos_init hn;
     andthen (log_get_conf_info_from_file h mal rd_ok file (Some log_fresh)) (\<lambda>(cmp, ret). do {
       cm \<leftarrow> cmp;
       andthen
         (if ret = 0 then do {
            w1 \<leftarrow> upd_info_at INFOS_ID_CTL (\<lambda>i. i\<lparr>li_log_switch := m_log_switch cm\<rparr>) w0;
            kvs \<leftarrow> log_conf_manager_foreach h cm;
            fill_all hn (mem (lw_conf cm)) kvs w1 }
          else Some (Goes w0))
         (\<lambda>w2. do {
            (a, tsi) \<leftarrow> info_at w2 INFOS_ID_TOTAL_SWITCH;
            w3 \<leftarrow> upd_info_at INFOS_ID_CTL (\<lambda>i. i\<lparr>li_is_valid := li_is_valid tsi\<rparr>) w2;
            cm' \<leftarrow> log_destroy_iri_conf h cm;
            Some (Goes (w3, cm')) }) }) }"

definition get_log_conf_info :: "'n log_infos_world option \<Rightarrow> int \<Rightarrow> cell option" where
  "get_log_conf_info wp idx =
     (case wp of
        None \<Rightarrow> Some Null
      | Some w \<Rightarrow>
          if idx < 0 \<or> idx \<ge> len (infos w) then Some Null
          else do { s \<leftarrow> sinfo (infos w); c \<leftarrow> aget s idx; if c = Unset then None else Some c })"

text \<open>The loop that frees the objects of the array.\<close>

function free_infos ::
  "cell list \<Rightarrow> int \<Rightarrow> int \<Rightarrow> (addr \<Rightarrow> single_log_conf_info_t option) \<Rightarrow> (addr \<Rightarrow> single_log_conf_info_t option) option" where
  "free_infos s i n m =
     (if i < n then do {
        c \<leftarrow> aget s i;
        case c of
          Unset \<Rightarrow> None
        | Null \<Rightarrow> free_infos s (i + 1) n m
        | Ptr a \<Rightarrow> do { m' \<leftarrow> g_free_info a m; s' \<leftarrow> aset s i Null; free_infos s' (i + 1) n m' } }
      else Some m)"
  by pat_completeness auto

termination
  by (relation "measure (\<lambda>(s, i, n, m). nat (n - i))") auto

declare free_infos.simps [simp del]

text \<open>\<open>log_conf_infos_destroy\<close>: the objects that are still allocated afterwards.\<close>

definition log_conf_infos_destroy ::
  "'n log_infos_world option \<Rightarrow> (addr \<Rightarrow> single_log_conf_info_t option) option" where
  "log_conf_infos_destroy wp =
     (case wp of
        None \<Rightarrow> Some Map.empty
      | Some w \<Rightarrow> (case sinfo (infos w) of None \<Rightarrow> Some (imem w) | Some s \<Rightarrow> free_infos s 0 (len (infos w)) (imem w)))"

section \<open>The array and the name table in order\<close>

text \<open>
  \<open>infos_rep hn w as\<close>: the array holds the objects at the addresses \<open>as\<close>, they are the live ones, and
  each name in the table leads to an object of that name. The total switch (index 1) is only
  reached by its own name.
\<close>

definition names_rep :: "'n names_hash \<Rightarrow> 'n log_infos_world \<Rightarrow> addr list \<Rightarrow> bool" where
  "names_rep hn w as \<longleftrightarrow> (\<forall>k p v. gh_lookup hn (names (infos w)) k = Some (p, v) \<longrightarrow>
     p \<in> set as \<and> (p = as ! 1 \<longrightarrow> k = TOTAL_SWITCH_MODE_NAME) \<and> (\<exists>c. imem w p = Some c \<and> li_name c = k) \<and>
     (\<exists>n c. v = int n \<and> 0 < n \<and> n < length as \<and> (n = 1 \<longrightarrow> k = TOTAL_SWITCH_MODE_NAME) \<and> imem w (as ! n) = Some c \<and> li_name c = k))"

definition array_rep :: "'n log_infos_world \<Rightarrow> addr list \<Rightarrow> bool" where
  "array_rep w as \<longleftrightarrow>
     (\<exists>s. sinfo (infos w) = Some (map Ptr as @ s) \<and> allocated_len (infos w) = int (length as + length s)) \<and>
     len (infos w) = int (length as) \<and> 3 \<le> length as \<and> distinct as \<and>
     (\<forall>a. imem w a \<noteq> None \<longleftrightarrow> a \<in> set as) \<and> (\<forall>a \<in> set as. a < ibrk w)"

definition infos_rep :: "'n names_hash \<Rightarrow> 'n log_infos_world \<Rightarrow> addr list \<Rightarrow> bool" where
  "infos_rep hn w as \<longleftrightarrow> array_rep w as \<and> names_rep hn w as"

lemma array_repE:
  assumes "array_rep w as"
  obtains s where "sinfo (infos w) = Some (map Ptr as @ s)" "allocated_len (infos w) = int (length as + length s)"
    "len (infos w) = int (length as)" "3 \<le> length as" "distinct as" "\<And>a. imem w a \<noteq> None \<longleftrightarrow> a \<in> set as"
    "\<And>a. a \<in> set as \<Longrightarrow> a < ibrk w"
  using assms unfolding array_rep_def by blast

lemma array_repD:
  assumes "array_rep w as"
  shows "len (infos w) = int (length as)" "3 \<le> length as" "distinct as" "imem w a \<noteq> None \<longleftrightarrow> a \<in> set as"
    "a \<in> set as \<Longrightarrow> a < ibrk w"
  using assms by (auto simp: array_rep_def)

lemma info_at_rep:
  assumes "array_rep w as" "n < length as"
  shows "\<exists>c. imem w (as ! n) = Some c \<and> info_at w (int n) = Some (as ! n, c)"
proof -
  obtain s where s: "sinfo (infos w) = Some (map Ptr as @ s)" "\<And>a. imem w a \<noteq> None \<longleftrightarrow> a \<in> set as"
    using assms(1) by (auto elim: array_repE)
  then obtain c where "imem w (as ! n) = Some c" using assms(2) by (metis not_None_eq nth_mem)
  with s(1) assms(2) show ?thesis by (simp add: info_at_def nth_append)
qed

text \<open>Room for one more cell: what \<open>grow_infos\<close> leaves behind the used part of the array.\<close>

lemma grow_rep:
  assumes "array_rep w as"
  obtains x s where "grow_infos (infos w) =
    (infos w)\<lparr>sinfo := Some (map Ptr as @ x # s), allocated_len := int (Suc (length as + length s))\<rparr>"
proof -
  obtain s where s: "sinfo (infos w) = Some (map Ptr as @ s)" "allocated_len (infos w) = int (length as + length s)"
    "len (infos w) = int (length as)"
    using assms by (rule array_repE)
  show thesis
  proof (cases s)
    case Nil
    with s have "grow_infos (infos w) =
        (infos w)\<lparr>sinfo := Some (map Ptr as @ Unset # replicate 9 Unset), allocated_len := int (Suc (length as + length (replicate 9 Unset)))\<rparr>"
      by (simp add: grow_infos_def numeral_eq_Suc)
    then show thesis by (rule that)
  next
    case (Cons x s')
    with s have "grow_infos (infos w) = infos w" by (simp add: grow_infos_def)
    also have "\<dots> = (infos w)\<lparr>sinfo := Some (map Ptr as @ x # s'), allocated_len := int (Suc (length as + length s'))\<rparr>"
      using s Cons by (cases "infos w") simp
    finally show thesis by (rule that)
  qed
qed

lemma add_start:
  assumes rep: "infos_rep hn w as" and new: "new_info c w = (a, w1)"
  shows "\<exists>w2. lci_add_info a INFOS_ID_START w1 = Some (w2, int (length as)) \<and> infos_rep hn w2 (as @ [a]) \<and>
    imem w2 = (imem w)(a \<mapsto> c) \<and> names (infos w2) = names (infos w) \<and> a \<notin> set as"
proof -
  have ar: "array_rep w as" and nr: "names_rep hn w as" using rep by (simp_all add: infos_rep_def)
  note f = array_repD [OF ar]
  have w1: "a = ibrk w" "w1 = w\<lparr>imem := (imem w)(a \<mapsto> c), ibrk := Suc a\<rparr>" using new by (auto simp: new_info_def)
  have a: "a \<notin> set as" using f(5) w1(1) by blast
  obtain x s where g: "grow_infos (infos w) =
      (infos w)\<lparr>sinfo := Some (map Ptr as @ x # s), allocated_len := int (Suc (length as + length s))\<rparr>"
    using ar by (rule grow_rep)
  let ?w2 = "w1\<lparr>infos := (infos w)\<lparr>sinfo := Some (map Ptr (as @ [a]) @ s), allocated_len := int (Suc (length as + length s)),
      len := int (length as) + 1\<rparr>\<rparr>"
  have run: "lci_add_info a INFOS_ID_START w1 = Some (?w2, int (length as))"
    by (simp add: lci_add_info_def w1(2) g f(1) infos_ids list_update_append)
  have "array_rep ?w2 (as @ [a])"
    using f a by (auto simp: array_rep_def w1(2) w1(1) [symmetric] less_Suc_eq)
  moreover have "names_rep hn ?w2 (as @ [a])"
    unfolding names_rep_def
  proof (intro allI impI, goal_cases)
    case (1 k p v)
    then have "gh_lookup hn (names (infos w)) k = Some (p, v)" by (simp add: w1(2))
    with nr obtain c' n d where p: "p \<in> set as" "p = as ! 1 \<longrightarrow> k = TOTAL_SWITCH_MODE_NAME" "imem w p = Some c'" "li_name c' = k"
      and n: "v = int n" "0 < n" "n < length as" "n = 1 \<longrightarrow> k = TOTAL_SWITCH_MODE_NAME" "imem w (as ! n) = Some d" "li_name d = k"
      unfolding names_rep_def by blast
    have ne: "p \<noteq> a" "as ! n \<noteq> a" using p(1) n(3) a by auto
    have "1 < length as" using f(2) by simp
    with p n ne show ?case by (simp add: w1(2) nth_append)
  qed
  ultimately show ?thesis using run a by (auto simp: infos_rep_def w1(2))
qed

lemma add_total:
  assumes rep: "infos_rep hn w as" and new: "new_info c w = (a, w1)"
    and none: "gh_lookup hn (names (infos w)) TOTAL_SWITCH_MODE_NAME = None"
  shows "\<exists>w2. lci_add_info a INFOS_ID_TOTAL_SWITCH w1 = Some (w2, int 1) \<and> infos_rep hn w2 (as[1 := a]) \<and>
    imem w2 = ((imem w)(a \<mapsto> c))(as ! 1 := None) \<and> names (infos w2) = names (infos w) \<and> a \<notin> set as"
proof -
  have ar: "array_rep w as" and nr: "names_rep hn w as" using rep by (simp_all add: infos_rep_def)
  note f = array_repD [OF ar]
  have w1: "a = ibrk w" "w1 = w\<lparr>imem := (imem w)(a \<mapsto> c), ibrk := Suc a\<rparr>" using new by (auto simp: new_info_def)
  have a: "a \<notin> set as" using f(5) w1(1) by blast
  have l: "1 < length as" "as ! 1 \<in> set as" using f(2) by simp_all
  then have ne: "as ! 1 \<noteq> a" "imem w (as ! 1) \<noteq> None" using a f(4) by auto
  obtain x s where g: "grow_infos (infos w) =
      (infos w)\<lparr>sinfo := Some (map Ptr as @ x # s), allocated_len := int (Suc (length as + length s))\<rparr>"
    using ar by (rule grow_rep)
  let ?w2 = "w1\<lparr>infos := (infos w)\<lparr>sinfo := Some (map Ptr (as[1 := a]) @ x # s), allocated_len := int (Suc (length as + length s))\<rparr>,
      imem := (imem w1)(as ! 1 := None)\<rparr>"
  have run: "lci_add_info a INFOS_ID_TOTAL_SWITCH w1 = Some (?w2, int 1)"
    using l ne by (auto simp: lci_add_info_def w1(2) g f(1) infos_ids list_update_append aget_def aset_def nth_append
        g_free_info_def map_update)
  have set: "set (as[1 := a]) = insert a (set as - {as ! 1})"
    using f(3) l(1) by (rule set_update_distinct)
  have "array_rep ?w2 (as[1 := a])"
    unfolding array_rep_def
  proof (intro conjI)
    show "distinct (as[1 := a])" using f(3) a by (simp add: distinct_list_update)
    show "\<forall>b. imem ?w2 b \<noteq> None \<longleftrightarrow> b \<in> set (as[1 := a])"
      using f(4) ne a unfolding set by (auto simp: w1(2))
    show "\<forall>b \<in> set (as[1 := a]). b < ibrk ?w2"
      using f(5) unfolding set by (auto simp: w1 less_Suc_eq)
  qed (use f(1,2) in simp_all)
  moreover have "names_rep hn ?w2 (as[1 := a])"
    unfolding names_rep_def
  proof (intro allI impI, goal_cases)
    case (1 k p v)
    then have lk: "gh_lookup hn (names (infos w)) k = Some (p, v)" by (simp add: w1(2))
    then have k: "k \<noteq> TOTAL_SWITCH_MODE_NAME" using none by auto
    from nr lk k obtain c' n d where p: "p \<in> set as" "p \<noteq> as ! 1" "imem w p = Some c'" "li_name c' = k"
      and n: "v = int n" "0 < n" "n < length as" "n \<noteq> 1" "imem w (as ! n) = Some d" "li_name d = k"
      unfolding names_rep_def by blast
    have ne': "p \<noteq> a" "as ! n \<noteq> a" "as ! n \<noteq> as ! 1"
      using p(1) n(3,4) a l f(3) by (auto simp: nth_eq_iff_index_eq)
    have "p \<in> set (as[1 := a])" using p(1,2) unfolding set by simp
    with p n ne' l show ?case by (auto simp: w1(2))
  qed
  ultimately show ?thesis using run a by (auto simp: infos_rep_def w1(2))
qed

lemma names_insert_rep:
  assumes laws: "ghash_laws hn" and rep: "infos_rep hn w as" and n: "n < length as" "n = 1 \<longrightarrow> m = TOTAL_SWITCH_MODE_NAME" "0 < n"
    and c: "imem w (as ! n) = Some c" "li_name c = m"
  shows "\<exists>w' p. names_insert hn (as ! n) (int n) w = Some w' \<and> infos_rep hn w' as \<and> imem w' = imem w \<and>
    gh_lookup hn (names (infos w')) = (gh_lookup hn (names (infos w)))(m \<mapsto> (p, int n))"
proof -
  have ar: "array_rep w as" and nr: "names_rep hn w as" using rep by (simp_all add: infos_rep_def)
  note f = array_repD [OF ar]
  obtain t' ks vs where ins: "gh_insert hn (names (infos w)) m (as ! n) (int n) = (t', ks, vs)" by (metis prod_cases3)
  define p where "p = gh_old (gh_lookup hn (names (infos w)) m) (as ! n) (\<lambda>p0 v0. p0)"
  have lk: "gh_lookup hn t' = (gh_lookup hn (names (infos w)))(m \<mapsto> (p, int n))"
    using gh_insert_laws(1) [OF laws ins] by (simp add: p_def)
  let ?w' = "w\<lparr>infos := (infos w)\<lparr>names := t'\<rparr>\<rparr>"
  have "imem w k \<noteq> None" if "gh_lookup hn (names (infos w)) m = Some (k, v)" for k v
    using nr that unfolding names_rep_def by blast
  then have run: "names_insert hn (as ! n) (int n) w = Some ?w'"
    using c ins by (auto simp: names_insert_def split: option.splits)
  have p: "p \<in> set as \<and> (p = as ! 1 \<longrightarrow> m = TOTAL_SWITCH_MODE_NAME) \<and> (\<exists>c. imem w p = Some c \<and> li_name c = m)"
  proof (cases "gh_lookup hn (names (infos w)) m")
    case None
    have "n = 1" if "as ! n = as ! 1" using that n(1) f(2,3) by (simp add: nth_eq_iff_index_eq)
    then show ?thesis using None n c by (auto simp: p_def)
  next
    case (Some pv)
    then show ?thesis using nr unfolding names_rep_def by (cases pv) (auto simp: p_def)
  qed
  have "names_rep hn ?w' as"
    using nr p n c unfolding names_rep_def by (auto simp: lk)
  moreover have "array_rep ?w' as" using ar by (simp add: array_rep_def)
  ultimately show ?thesis using run lk by (auto simp: infos_rep_def)
qed

section \<open>The settings that a mode gives\<close>

fun apply_lines :: "(string \<times> string) list \<Rightarrow> single_log_conf_info_t \<Rightarrow> single_log_conf_info_t option" where
  "apply_lines [] info = Some info"
| "apply_lines ((k, v) # kvs) info = do { (info', _) \<leftarrow> irilog_conf_line_handle info k v; apply_lines kvs info' }"

definition mode_info :: "string \<Rightarrow> (string \<times> string) list \<Rightarrow> single_log_conf_info_t run option" where
  "mode_info m kvs = do {
     info \<leftarrow> apply_lines kvs (zero_info\<lparr>li_name := m\<rparr>);
     if m \<noteq> TOTAL_SWITCH_MODE_NAME then Some (Goes info)
     else case (map_of kvs TOTAL_SWITCH_IS_VALID, map_of kvs TOTAL_SWITCH_TIMER) of
       (Some s, Some t) \<Rightarrow>
         if is_level_true_inner (fst_char s) < 0 then Some (Exits 0)
         else do {
           n \<leftarrow> atoi t;
           if n < 0 then Some (Exits 0) else Some (Goes (info\<lparr>li_is_valid := is_level_true_inner (fst_char s), li_timer := n\<rparr>)) }
     | _ \<Rightarrow> Some (Exits 0) }"

lemma line_handle_name: "irilog_conf_line_handle info k v = Some (info', r) \<Longrightarrow> li_name info' = li_name info"
  by (auto simp: irilog_conf_line_handle_def Let_def split: if_splits prod.splits)

lemma apply_lines_name: "apply_lines kvs info = Some info' \<Longrightarrow> li_name info' = li_name info"
  by (induction kvs info rule: apply_lines.induct) (auto split: Option.bind_splits dest: line_handle_name)

lemma mode_info_name: "mode_info m kvs = Some (Goes info) \<Longrightarrow> li_name info = m"
  by (auto simp: mode_info_def split: Option.bind_splits if_splits option.splits dest!: apply_lines_name)

lemma info_loop_apply:
  assumes "cur_pos c \<le> int (length (pairs c))" "0 \<le> i"
  shows "info_loop c i info = apply_lines (drop (nat i) (pairs_list c)) info"
  using assms
proof (induction c i info rule: info_loop.induct)
  case (1 c i info)
  show ?case
  proof (cases "i < cur_pos c")
    case True
    then have i: "nat i < nat (cur_pos c)" "nat i < length (pairs c)" using "1.prems" by auto
    define p where "p = pairs c ! nat i"
    have g: "aget (pairs c) i = Some p" using i(2) "1.prems"(2) by (simp add: aget_def p_def)
    have "nat i < length (pairs_list c)" "pairs_list c ! nat i = (name p, value p)"
      using i by (simp_all add: pairs_list_def p_def)
    then have d: "drop (nat i) (pairs_list c) = (name p, value p) # drop (nat (i + 1)) (pairs_list c)"
      using "1.prems"(2) by (metis Cons_nth_drop_Suc Suc_nat_eq_nat_zadd1 add.commute)
    show ?thesis
      using "1.IH" [OF True g] "1.prems" True
      by (cases "irilog_conf_line_handle info (name p) (value p)") (auto simp: info_loop.simps [of c i info] g d)
  next
    case False
    then show ?thesis by (simp add: info_loop.simps [of c] pairs_list_def)
  qed
qed

section \<open>Entering the modes\<close>

text \<open>What a log file name leads to, and the entry of a mode in the table of the reader.\<close>

definition settings_view :: "'n names_hash \<Rightarrow> 'n log_infos_world \<Rightarrow> string \<Rightarrow> single_log_conf_info_t option" where
  "settings_view hn w k = do { (p, v) \<leftarrow> gh_lookup hn (names (infos w)) k; (a, c) \<leftarrow> info_at w v; Some c }"

definition mode_entry :: "(addr \<Rightarrow> conf_pairs_t option) \<Rightarrow> addr \<times> addr \<Rightarrow> string \<Rightarrow> (string \<times> string) list \<Rightarrow> bool" where
  "mode_entry cm kv m kvs \<longleftrightarrow> fst kv = snd kv \<and> length m < FILE_NAME_LEN \<and>
     (\<exists>c. cm (snd kv) = Some c \<and> mode_name c = m \<and> cur_pos c \<le> int (length (pairs c)) \<and> pairs_list c = kvs)"

lemma settings_view_rep:
  assumes "infos_rep hn w as"
  shows "settings_view hn w k = (case gh_lookup hn (names (infos w)) k of None \<Rightarrow> None | Some (p, v) \<Rightarrow> imem w (as ! nat v))"
proof (cases "gh_lookup hn (names (infos w)) k")
  case (Some pv)
  obtain p v where pv: "pv = (p, v)" by (cases pv)
  then obtain n c where "v = int n" "n < length as" "imem w (as ! n) = Some c"
    using assms Some unfolding infos_rep_def names_rep_def by blast
  with Some pv show ?thesis
    using info_at_rep [of w "as" n] assms by (auto simp: settings_view_def infos_rep_def)
qed (simp add: settings_view_def)

lemma total_switch_info_value:
  assumes "cm a = Some c" "cur_pos c \<le> int (length (pairs c))"
  shows "total_switch_info cm a info =
    (case (map_of (pairs_list c) TOTAL_SWITCH_IS_VALID, map_of (pairs_list c) TOTAL_SWITCH_TIMER) of
       (Some s, Some t) \<Rightarrow>
         if is_level_true_inner (fst_char s) < 0 then Some (Exits 0)
         else do {
           n \<leftarrow> atoi t;
           if n < 0 then Some (Exits 0) else Some (Goes (info\<lparr>li_is_valid := is_level_true_inner (fst_char s), li_timer := n\<rparr>)) }
     | _ \<Rightarrow> Some (Exits 0))"
proof -
  have "log_get_value cm a k = Some (map_of (pairs_list c) k)" for k
    using assms get_value_loop_map_of [of c 0 k] by (simp add: log_get_value_def get_value_def)
  then show ?thesis by (simp add: total_switch_info_def Let_def split: option.split)
qed

text \<open>Entering a mode, as a function of the settings it gives.\<close>

lemma fill_entry:
  assumes "mode_entry cm kv m kvs"
  shows "fill_log_conf_infos hn cm kv w = andthen (mode_info m kvs) (\<lambda>info. do {
     let (a, w1) = new_info info w;
     (w2, idx) \<leftarrow> lci_add_info a (if m \<noteq> TOTAL_SWITCH_MODE_NAME then INFOS_ID_START else INFOS_ID_TOTAL_SWITCH) w1;
     map_option Goes (names_insert hn a idx w2) })"
proof -
  obtain c where c: "cm (fst kv) = Some c" "cm (snd kv) = Some c" "mode_name c = m" "cur_pos c \<le> int (length (pairs c))" "pairs_list c = kvs"
    "length m \<le> FILE_NAME_LEN - 1"
    using assms by (auto simp: mode_entry_def)
  have "get_info_from_conf_pairs c i = apply_lines kvs i" for i
    using info_loop_apply [of c 0 i] c(4,5) by (simp add: get_info_from_conf_pairs_def)
  then show ?thesis
    using c total_switch_info_value [where cm = cm and a = "snd kv", OF c(2,4)]
    by (cases "apply_lines kvs (zero_info\<lparr>li_name := m\<rparr>)")
      (auto simp: fill_log_conf_infos_def mode_info_def dest!: apply_lines_name)
qed

lemma fill_step:
  assumes laws: "ghash_laws hn" and rep: "infos_rep hn w as" and en: "mode_entry cm kv m kvs"
    and info: "mode_info m kvs = Some (Goes info)" and fresh: "m = TOTAL_SWITCH_MODE_NAME \<longrightarrow> settings_view hn w m = None"
  shows "\<exists>w' as'. fill_log_conf_infos hn cm kv w = Some (Goes w') \<and> infos_rep hn w' as' \<and>
    settings_view hn w' = (settings_view hn w)(m \<mapsto> info) \<and> as' ! 0 = as ! 0 \<and> imem w' (as' ! 0) = imem w (as ! 0) \<and>
    imem w' (as' ! 2) = imem w (as ! 2) \<and>
    imem w' (as' ! 1) = (if m = TOTAL_SWITCH_MODE_NAME then Some info else imem w (as ! 1))"
proof -
  have ar: "array_rep w as" using rep by (simp add: infos_rep_def)
  note f = array_repD [OF ar]
  obtain a w1 where new: "new_info info w = (a, w1)" by (cases "new_info info w")
  have in_as: "n < length as" "imem w (as ! n) \<noteq> None" if "gh_lookup hn (names (infos w)) k = Some (p, v)" "n = nat v" for k p v n
    using that rep unfolding infos_rep_def names_rep_def by fastforce+
  show ?thesis
  proof (cases "m = TOTAL_SWITCH_MODE_NAME")
    case False
    have ne: "as \<noteq> []" using f(2) by auto
    obtain w2 where add: "lci_add_info a INFOS_ID_START w1 = Some (w2, int (length as))" and w2: "infos_rep hn w2 (as @ [a])"
      "imem w2 = (imem w)(a \<mapsto> info)" "names (infos w2) = names (infos w)" "a \<notin> set as"
      using add_start [OF rep new] by blast
    obtain w' p where ins: "names_insert hn a (int (length as)) w2 = Some w'" and w': "infos_rep hn w' (as @ [a])" "imem w' = imem w2"
      "gh_lookup hn (names (infos w')) = (gh_lookup hn (names (infos w)))(m \<mapsto> (p, int (length as)))"
      using names_insert_rep [OF laws w2(1), of "length as" m info] ne w2(2,3) mode_info_name [OF info] f(2) by auto
    have "settings_view hn w' k = ((settings_view hn w)(m \<mapsto> info)) k" for k
      using in_as w2(4) by (auto simp: settings_view_rep [OF rep] settings_view_rep [OF w'(1)] w'(2,3) w2(2) nth_append split: option.splits)
    moreover have "fill_log_conf_infos hn cm kv w = Some (Goes w')"
      using False info new add ins by (simp add: fill_entry [OF en])
    moreover have "(as @ [a]) ! n = as ! n" "as ! n \<noteq> a" if "n \<le> 2" for n
      using that f(2) w2(4) by (auto simp: nth_append in_set_conv_nth)
    ultimately show ?thesis
      using w' w2(2) False by (intro exI [of _ w'] exI [of _ "as @ [a]"]) auto
  next
    case True
    have none: "gh_lookup hn (names (infos w)) m = None"
    proof (rule ccontr)
      assume "gh_lookup hn (names (infos w)) m \<noteq> None"
      then obtain p v where "gh_lookup hn (names (infos w)) m = Some (p, v)" by auto
      with in_as(2) [OF this refl] fresh True show False by (simp add: settings_view_rep [OF rep])
    qed
    obtain w2 where add: "lci_add_info a INFOS_ID_TOTAL_SWITCH w1 = Some (w2, int 1)" and w2: "infos_rep hn w2 (as[1 := a])"
      "imem w2 = ((imem w)(a \<mapsto> info))(as ! 1 := None)" "names (infos w2) = names (infos w)" "a \<notin> set as"
      using add_total [OF rep new none [unfolded True]] by blast
    have ln: "0 < length as" "1 < length as" "2 < length as" using f(2) by auto
    have l: "0 < length as" "1 < length as" "as[1 := a] ! 1 = a" "as ! 1 \<noteq> a" "as ! 0 \<noteq> as ! 1" "as ! 0 \<noteq> a"
      "as ! 2 \<noteq> as ! 1" "as ! 2 \<noteq> a"
      using ln w2(4) nth_mem [OF ln(1)] nth_mem [OF ln(2)] nth_mem [OF ln(3)] nth_eq_iff_index_eq [OF f(3) ln(1,2)]
        nth_eq_iff_index_eq [OF f(3) ln(3,2)] by auto
    obtain w' p where ins: "names_insert hn a (int 1) w2 = Some w'" and w': "infos_rep hn w' (as[1 := a])" "imem w' = imem w2"
      "gh_lookup hn (names (infos w')) = (gh_lookup hn (names (infos w)))(m \<mapsto> (p, int 1))"
      using names_insert_rep [OF laws w2(1), of 1 m info] l True w2(2,3) mode_info_name [OF info] by auto
    have "settings_view hn w' k = ((settings_view hn w)(m \<mapsto> info)) k" for k
    proof (cases "k = m \<or> gh_lookup hn (names (infos w)) k = None")
      case True
      then show ?thesis using l
        by (auto simp: settings_view_rep [OF rep] settings_view_rep [OF w'(1)] w'(2,3) w2(2))
    next
      case False
      then obtain q n where lk: "gh_lookup hn (names (infos w)) k = Some (q, int n)" "n < length as" "n \<noteq> 1"
        using rep True unfolding infos_rep_def names_rep_def by fastforce
      then have "as ! n \<noteq> a" "as ! n \<noteq> as ! 1" using w2(4) f(3) l(2) by (auto simp: nth_eq_iff_index_eq)
      with lk False show ?thesis
        by (simp add: settings_view_rep [OF rep] settings_view_rep [OF w'(1)] w'(2,3) w2(2))
    qed
    moreover have "fill_log_conf_infos hn cm kv w = Some (Goes w')"
      using True info new add ins by (simp add: fill_entry [OF en])
    ultimately show ?thesis
      using w' w2(2) True l by (intro exI [of _ w'] exI [of _ "as[1 := a]"]) auto
  qed
qed

definition mode_settings :: "string \<Rightarrow> (string \<times> string) list \<Rightarrow> single_log_conf_info_t" where
  "mode_settings m kvs = (case mode_info m kvs of Some (Goes i) \<Rightarrow> i | _ \<Rightarrow> zero_info)"

text \<open>Every mode gives settings: numbers in range, and a complete \<open>TOTAL_SWITCH\<close> if there is one.\<close>

definition modes_ok :: "(string \<times> (string \<times> string) list) list \<Rightarrow> bool" where
  "modes_ok ms \<longleftrightarrow> list_all (\<lambda>(m, kvs). mode_info m kvs = Some (Goes (mode_settings m kvs))) ms"

definition settings_of_modes :: "(string \<times> (string \<times> string) list) list \<Rightarrow> string \<Rightarrow> single_log_conf_info_t option" where
  "settings_of_modes ms = map_of (map (\<lambda>(m, kvs). (m, mode_settings m kvs)) ms)"

lemma fill_all_modes:
  assumes laws: "ghash_laws hn"
  shows "list_all2 (\<lambda>e (m, kvs). mode_entry cm e m kvs) es ms \<Longrightarrow> infos_rep hn w as \<Longrightarrow> modes_ok ms \<Longrightarrow>
    distinct (map fst ms) \<Longrightarrow> (TOTAL_SWITCH_MODE_NAME \<in> fst ` set ms \<longrightarrow> settings_view hn w TOTAL_SWITCH_MODE_NAME = None) \<Longrightarrow>
    \<exists>w' as'. fill_all hn cm es w = Some (Goes w') \<and> infos_rep hn w' as' \<and>
      settings_view hn w' = settings_view hn w ++ settings_of_modes ms \<and> imem w' (as' ! 0) = imem w (as ! 0) \<and>
      imem w' (as' ! 2) = imem w (as ! 2) \<and>
      imem w' (as' ! 1) = (case settings_of_modes ms TOTAL_SWITCH_MODE_NAME of Some i \<Rightarrow> Some i | None \<Rightarrow> imem w (as ! 1))"
proof (induction es ms arbitrary: w "as" rule: list_all2_induct)
  case Nil
  then show ?case by (auto simp: settings_of_modes_def)
next
  case (Cons e es x ms)
  obtain m kvs where x: "x = (m, kvs)" by (cases x)
  have en: "mode_entry cm e m kvs" and mi: "mode_info m kvs = Some (Goes (mode_settings m kvs))" and ok: "modes_ok ms"
    and d: "m \<notin> fst ` set ms" "distinct (map fst ms)"
    using Cons.hyps(1) Cons.prems(2,3) x by (auto simp: modes_ok_def)
  obtain w1 as1 where s1: "fill_log_conf_infos hn cm e w = Some (Goes w1)" "infos_rep hn w1 as1"
    "settings_view hn w1 = (settings_view hn w)(m \<mapsto> mode_settings m kvs)" "imem w1 (as1 ! 0) = imem w (as ! 0)"
    "imem w1 (as1 ! 1) = (if m = TOTAL_SWITCH_MODE_NAME then Some (mode_settings m kvs) else imem w (as ! 1))"
    "imem w1 (as1 ! 2) = imem w (as ! 2)"
    using fill_step [OF laws Cons.prems(1) en mi] Cons.prems(4) x by auto
  have "TOTAL_SWITCH_MODE_NAME \<in> fst ` set ms \<longrightarrow> settings_view hn w1 TOTAL_SWITCH_MODE_NAME = None"
    using Cons.prems(4) x d(1) by (auto simp: s1(3))
  from Cons.IH [OF s1(2) ok d(2) this] obtain w' as' where s2: "fill_all hn cm es w1 = Some (Goes w')" "infos_rep hn w' as'"
    "settings_view hn w' = settings_view hn w1 ++ settings_of_modes ms" "imem w' (as' ! 0) = imem w1 (as1 ! 0)"
    "imem w' (as' ! 1) = (case settings_of_modes ms TOTAL_SWITCH_MODE_NAME of Some i \<Rightarrow> Some i | None \<Rightarrow> imem w1 (as1 ! 1))"
    "imem w' (as' ! 2) = imem w1 (as1 ! 2)"
    by blast
  have none: "settings_of_modes ms m = None"
    using d(1) by (force simp: settings_of_modes_def map_of_eq_None_iff)
  have up: "settings_of_modes (x # ms) = (settings_of_modes ms)(m \<mapsto> mode_settings m kvs)"
    by (simp add: settings_of_modes_def x)
  have "settings_view hn w' = settings_view hn w ++ settings_of_modes (x # ms)"
    unfolding s2(3) s1(3) up using none by (simp add: map_add_upd_left domIff)
  moreover have "imem w' (as' ! 1) = (case settings_of_modes (x # ms) TOTAL_SWITCH_MODE_NAME of Some i \<Rightarrow> Some i | None \<Rightarrow> imem w (as ! 1))"
    unfolding s2(5) s1(5) up using none by (auto split: option.splits)
  ultimately show ?case using s1(1,4,6) s2(1,2,4,6) by auto
qed

section \<open>Setting up and taking down\<close>

definition default_info :: single_log_conf_info_t where
  "default_info = set_default_single_log_conf_info (zero_info\<lparr>li_name := DEFAULT_LOG_FILE_NAME\<rparr>)"

definition ctl_info :: "int \<Rightarrow> int \<Rightarrow> single_log_conf_info_t" where
  "ctl_info sw valid = zero_info\<lparr>li_log_switch := sw, li_is_valid := valid\<rparr>"

lemma fresh_array:
  "(replicate 50 Unset)[0 := Null, Suc (Suc 0) := Null, Suc 0 := Null] = Null # Null # Null # replicate 47 Unset"
  by (simp add: numeral_eq_Suc)

lemma log_conf_infos_init_rep:
  assumes laws: "ghash_laws hn"
  shows "\<exists>w. log_conf_infos_init hn = Some w \<and> infos_rep hn w [0, 1, 2] \<and> imem w 0 = Some (ctl_info 1 0) \<and>
    imem w 1 = Some (set_default_single_log_conf_info zero_info) \<and> imem w 2 = Some default_info \<and>
    settings_view hn w = [DEFAULT_LOG_FILE_NAME \<mapsto> default_info]"
proof -
  obtain t' ks vs where ins: "gh_insert hn (gh_new hn) DEFAULT_LOG_FILE_NAME 2 2 = (t', ks, vs)" by (metis prod_cases3)
  have lk: "gh_lookup hn t' = [DEFAULT_LOG_FILE_NAME \<mapsto> (2, 2)]"
    using gh_insert_laws(1) [OF laws ins] gh_lookup_new [OF laws] by simp
  let ?m = "[0 \<mapsto> ctl_info 1 0, 1 \<mapsto> set_default_single_log_conf_info zero_info, 2 \<mapsto> default_info]"
  let ?w = "\<lparr>infos = \<lparr>len = 3, allocated_len = 50, sinfo = Some (map Ptr [0, 1, 2] @ replicate 47 Unset), names = t'\<rparr>,
    imem = ?m, ibrk = 3\<rparr>"
  have dn: "take (FILE_NAME_LEN - Suc 0) DEFAULT_LOG_FILE_NAME = DEFAULT_LOG_FILE_NAME"
    by (simp add: FILE_NAME_LEN_def DEFAULT_LOG_FILE_NAME_def)
  have nm: "li_name default_info = DEFAULT_LOG_FILE_NAME"
    by (simp add: default_info_def set_default_single_log_conf_info_def)
  have run: "log_conf_infos_init hn = Some ?w"
    using ins gh_lookup_new [OF laws] nm
    by (simp add: log_conf_infos_init_def new_info_def lci_add_info_def grow_infos_def infos_ids DEFAULT_LOG_CONF_FILES_MEM_def
        fresh_array aget_def aset_def names_insert_def dn default_info_def [symmetric] ctl_info_def numeral_2_eq_2 Let_def)
  have rep: "infos_rep hn ?w [0, 1, 2]"
    using nm by (auto simp: infos_rep_def array_rep_def names_rep_def lk split: if_splits)
  moreover have "settings_view hn ?w = [DEFAULT_LOG_FILE_NAME \<mapsto> default_info]"
    unfolding settings_view_rep [OF rep, THEN ext] by (auto simp: lk)
  ultimately show ?thesis using run by simp
qed

lemma free_infos_all:
  "distinct (drop i as) \<Longrightarrow> i \<le> length as \<Longrightarrow> (\<And>a. a \<in> set (drop i as) \<Longrightarrow> m a \<noteq> None) \<Longrightarrow>
   free_infos (replicate i Null @ map Ptr (drop i as) @ s) (int i) (int (length as)) m =
     Some (\<lambda>a. if a \<in> set (drop i as) then None else m a)"
proof (induction "length as - i" arbitrary: i m)
  case 0
  then show ?case by (simp add: free_infos.simps [of _ "int i"])
next
  case (Suc n)
  then have i: "i < length as" by simp
  define a where "a = as ! i"
  have d: "drop i as = a # drop (Suc i) as" using i by (simp add: a_def Cons_nth_drop_Suc)
  have n: "n = length as - Suc i" using Suc.hyps(2) by simp
  have g: "g_free_info a m = Some (m(a := None))" using Suc.prems(3) [of a] d by (simp add: g_free_info_def)
  have l: "(replicate i Null @ map Ptr (drop i as) @ s)[i := Null] = replicate (Suc i) Null @ map Ptr (drop (Suc i) as) @ s"
    by (simp add: d list_update_append replicate_app_Cons_same)
  have "free_infos (replicate (Suc i) Null @ map Ptr (drop (Suc i) as) @ s) (int (Suc i)) (int (length as)) (m(a := None)) =
      Some (\<lambda>b. if b \<in> set (drop (Suc i) as) then None else (m(a := None)) b)"
    using Suc.prems d i by (intro Suc.hyps(1) [OF n]) auto
  moreover have "free_infos (replicate i Null @ map Ptr (drop i as) @ s) (int i) (int (length as)) m =
      free_infos (replicate (Suc i) Null @ map Ptr (drop (Suc i) as) @ s) (int (Suc i)) (int (length as)) (m(a := None))"
    using i g l unfolding free_infos.simps [of _ "int i"] by (auto simp: d nth_append add.commute)
  ultimately show ?case by (auto simp: d fun_eq_iff)
qed

lemma destroy_rep: "infos_rep hn w as \<Longrightarrow> log_conf_infos_destroy (Some w) = Some Map.empty"
proof -
  assume "infos_rep hn w as"
  then have ar: "array_rep w as" by (simp add: infos_rep_def)
  then obtain s where s: "sinfo (infos w) = Some (map Ptr as @ s)" by (rule array_repE)
  have "free_infos (map Ptr as @ s) 0 (int (length as)) (imem w) = Some (\<lambda>a. if a \<in> set as then None else imem w a)"
    using free_infos_all [of 0 "as" "imem w" s] array_repD [OF ar] by simp
  moreover have "(\<lambda>a. if a \<in> set as then None else imem w a) = Map.empty" using array_repD(4) [OF ar] by fastforce
  ultimately show ?thesis by (simp add: log_conf_infos_destroy_def s array_repD(1) [OF ar])
qed

lemma upd_ctl_rep:
  assumes rep: "infos_rep hn w as" and c: "imem w (as ! 0) = Some c" and nm: "li_name (f c) = li_name c"
  shows "\<exists>w'. upd_info_at INFOS_ID_CTL f w = Some w' \<and> infos_rep hn w' as \<and> imem w' = (imem w)(as ! 0 \<mapsto> f c) \<and>
    settings_view hn w' = settings_view hn w"
proof -
  have ar: "array_rep w as" and nr: "names_rep hn w as" using rep by (simp_all add: infos_rep_def)
  note f = array_repD [OF ar]
  have ln: "0 < length as" using f(2) by auto
  let ?w' = "w\<lparr>imem := (imem w)(as ! 0 \<mapsto> f c)\<rparr>"
  have run: "upd_info_at INFOS_ID_CTL f w = Some ?w'"
    using info_at_rep [OF ar ln] c by (simp add: upd_info_at_def infos_ids)
  have "array_rep ?w' as"
    using ar nth_mem [OF ln] unfolding array_rep_def by auto
  moreover have "names_rep hn ?w' as"
    using nr c nm unfolding names_rep_def by fastforce
  ultimately have rep': "infos_rep hn ?w' as" by (simp add: infos_rep_def)
  have "as ! nat v \<noteq> as ! 0" if "gh_lookup hn (names (infos w)) k = Some (p, v)" for k p v
  proof -
    obtain n where "v = int n" "0 < n" "n < length as" using nr \<open>gh_lookup hn (names (infos w)) k = Some (p, v)\<close>
      unfolding names_rep_def by blast
    then show ?thesis using nth_eq_iff_index_eq [OF f(3), of n 0] ln by simp
  qed
  then have "settings_view hn ?w' k = settings_view hn w k" for k
    unfolding settings_view_rep [OF rep] settings_view_rep [OF rep'] by (auto split: option.split)
  then show ?thesis using run rep' by auto
qed

lemma item_modes_word: "list_all item_wf is \<Longrightarrow> (m, kvs) \<in> set (item_modes is) \<Longrightarrow> conf_word m"
  by (induction "is" rule: item_modes.induct) auto

lemma settings_of_modes_eq: "settings_of_modes ms k = map_option (mode_settings k) (map_of ms k)"
  by (induction ms) (auto simp: settings_of_modes_def)

text \<open>The entries of the reader's table are the modes of the file, in some order.\<close>

lemma conf_entries:
  assumes laws: "ghash_laws h" and inv: "conf_inv h c" and view: "conf_view h c = map_of (item_modes is)"
    and wf: "list_all item_wf is" and ok: "modes_ok (item_modes is)"
  obtains es ms where "log_conf_manager_foreach h \<lparr>lw_conf = c, m_log_switch = v\<rparr> = Some es"
    "list_all2 (\<lambda>e (m, kvs). mode_entry (mem c) e m kvs) es ms" "modes_ok ms" "distinct (map fst ms)"
    "settings_of_modes ms = settings_of_modes (item_modes is)"
proof -
  obtain t where t: "iri_conf (manager c) = LiveTab t"
    and ent: "\<And>k p v. gh_lookup h t k = Some (p, v) \<Longrightarrow> p = v \<and>
        (\<exists>b. mem c v = Some b \<and> mode_name b = k \<and> cur_pos b \<le> int (length (pairs b)))"
    using inv unfolding conf_inv_def by blast
  define es where "es = map snd (gh_entries h t)"
  define ms where "ms = map (\<lambda>(k, p, v). (k, the (conf_view h c k))) (gh_entries h t)"
  have mem_ms: "(m, kvs) \<in> set (item_modes is) \<and> kvs = the (conf_view h c m) \<and>
      mode_entry (mem c) (p, v) m kvs"
    if "(m, p, v) \<in> set (gh_entries h t)" "kvs = the (conf_view h c m)" for m p v kvs
  proof -
    have lk: "gh_lookup h t m = Some (p, v)" using that(1) gh_entries_iff [OF laws] by blast
    then obtain b where b: "p = v" "mem c v = Some b" "mode_name b = m" "cur_pos b \<le> int (length (pairs b))" using ent by blast
    then have cv: "conf_view h c m = Some (pairs_list b)" using lk t by (simp add: conf_view_def)
    then have "map_of (item_modes is) m = Some (pairs_list b)" using view by simp
    then have inm: "(m, pairs_list b) \<in> set (item_modes is)" by (rule map_of_SomeD)
    then have "length m < FILE_NAME_LEN"
      using conf_wordD(2) [OF item_modes_word [OF wf]] by (fastforce simp: FILE_NAME_LEN_def)
    with b cv inm that(2) show ?thesis by (auto simp: mode_entry_def)
  qed
  have fsts: "map fst ms = map fst (gh_entries h t)" by (auto simp: ms_def)
  have "log_conf_manager_foreach h \<lparr>lw_conf = c, m_log_switch = v\<rparr> = Some es"
    by (simp add: log_conf_manager_foreach_def t es_def)
  moreover have "list_all2 (\<lambda>e (m, kvs). mode_entry (mem c) e m kvs) es ms"
    using mem_ms by (fastforce simp: es_def ms_def list_all2_conv_all_nth dest: nth_mem split: prod.splits)
  moreover have "modes_ok ms"
    using ok mem_ms by (fastforce simp: modes_ok_def ms_def list_all_iff)
  moreover have "distinct (map fst ms)" unfolding fsts by (rule gh_entries_distinct [OF laws])
  moreover have "map_of ms k = map_of (item_modes is) k" for k
  proof (cases "gh_lookup h t k")
    case None
    then have "k \<notin> set (map fst ms)" unfolding fsts using gh_entries_iff [OF laws] by force
    moreover have "conf_view h c k = None" using None t by (simp add: conf_view_def)
    ultimately show ?thesis using view by (metis map_of_eq_None_iff set_map)
  next
    case (Some pv)
    obtain p v where pv: "pv = (p, v)" by (cases pv)
    have e: "(k, p, v) \<in> set (gh_entries h t)" using Some pv gh_entries_iff [OF laws] by blast
    then have "(k, the (conf_view h c k)) \<in> set ms" by (force simp: ms_def)
    then have "map_of ms k = Some (the (conf_view h c k))"
      using \<open>distinct (map fst ms)\<close> by (simp add: map_of_is_SomeI)
    moreover have "conf_view h c k \<noteq> None"
    proof -
      from Some pv ent [of k p v] obtain b where "mem c v = Some b" by blast
      with Some pv t show ?thesis by (simp add: conf_view_def)
    qed
    ultimately show ?thesis using view by simp
  qed
  then have "settings_of_modes ms = settings_of_modes (item_modes is)" by (auto simp: settings_of_modes_eq)
  ultimately show thesis by (rule that)
qed

section \<open>Properties\<close>

text \<open>The end of \<open>get_log_conf_infos\<close>: the validity of the total switch is copied and the table freed.\<close>

lemma finish_infos:
  assumes laws: "ghash_laws h" and rep: "infos_rep hn w as" and cc: "imem w (as ! 0) = Some (ctl_info sw 0)"
    and tot: "imem w (as ! 1) = Some tsi" and cm: "conf_inv h (lw_conf cm)" "no_leak h (lw_conf cm)"
  shows "\<exists>w' cm'. do {
      (a, tsi) \<leftarrow> info_at w INFOS_ID_TOTAL_SWITCH;
      w3 \<leftarrow> upd_info_at INFOS_ID_CTL (\<lambda>i. i\<lparr>li_is_valid := li_is_valid tsi\<rparr>) w;
      cm' \<leftarrow> log_destroy_iri_conf h cm;
      Some (Goes (w3, cm')) } = Some (Goes (w', cm')) \<and> mem (lw_conf cm') = Map.empty \<and>
    settings_view hn w' = settings_view hn w \<and> map_option snd (info_at w' INFOS_ID_CTL) = Some (ctl_info sw (li_is_valid tsi)) \<and>
    map_option snd (info_at w' INFOS_ID_TOTAL_SWITCH) = Some tsi \<and> infos_rep hn w' as \<and>
    imem w' (as ! 2) = imem w (as ! 2) \<and> imem w' (as ! 0) = Some (ctl_info sw (li_is_valid tsi)) \<and> imem w' (as ! 1) = Some tsi"
proof -
  have ar: "array_rep w as" using rep by (simp add: infos_rep_def)
  have ln: "0 < length as" "1 < length as" "2 < length as" using array_repD(2) [OF ar] by auto
  have ne: "as ! 1 \<noteq> as ! 0" "as ! 2 \<noteq> as ! 0"
    using nth_eq_iff_index_eq [OF array_repD(3) [OF ar]] ln by auto
  have t1: "info_at w INFOS_ID_TOTAL_SWITCH = Some (as ! 1, tsi)"
    using info_at_rep [OF ar ln(2)] tot by (simp add: infos_ids)
  obtain w' where w': "upd_info_at INFOS_ID_CTL (\<lambda>i. i\<lparr>li_is_valid := li_is_valid tsi\<rparr>) w = Some w'" "infos_rep hn w' as"
    "imem w' = (imem w)(as ! 0 \<mapsto> (ctl_info sw 0)\<lparr>li_is_valid := li_is_valid tsi\<rparr>)" "settings_view hn w' = settings_view hn w"
    using upd_ctl_rep [OF rep cc, of "\<lambda>i. i\<lparr>li_is_valid := li_is_valid tsi\<rparr>"] by auto
  obtain cm' where cm': "log_destroy_iri_conf h cm = Some cm'" "mem (lw_conf cm') = Map.empty"
    using log_destroy_live [OF laws cm] by blast
  have ar': "array_rep w' as" using w'(2) by (simp add: infos_rep_def)
  have "map_option snd (info_at w' INFOS_ID_CTL) = Some (ctl_info sw (li_is_valid tsi))"
    using info_at_rep [OF ar' ln(1)] w'(3) by (auto simp: infos_ids ctl_info_def)
  moreover have "map_option snd (info_at w' INFOS_ID_TOTAL_SWITCH) = Some tsi"
    using info_at_rep [OF ar' ln(2)] w'(3) ne tot by (auto simp: infos_ids)
  ultimately show ?thesis using t1 w' cm' ne tot by (auto simp: ctl_info_def)
qed

lemma log_infos_loaded:
  assumes "ghash_laws h" "ghash_laws hn" "log_conf_ok is" "modes_ok (item_modes is)" "\<And>n. mal n"
    "length (conf_text is) < MAX_CONF_FILE_SIZE"
    "tsi = (case settings_of_modes (item_modes is) TOTAL_SWITCH_MODE_NAME of
        Some i \<Rightarrow> i | None \<Rightarrow> set_default_single_log_conf_info zero_info)"
  shows "\<exists>w cm as. get_log_conf_infos h hn mal True (Some (conf_text is)) = Some (Goes (w, cm)) \<and>
    settings_view hn w = [DEFAULT_LOG_FILE_NAME \<mapsto> default_info] ++ settings_of_modes (item_modes is) \<and>
    map_option snd (info_at w INFOS_ID_CTL) = Some (ctl_info (switch_of is 1) (li_is_valid tsi)) \<and>
    map_option snd (info_at w INFOS_ID_TOTAL_SWITCH) = Some tsi \<and>
    mem (lw_conf cm) = Map.empty \<and> infos_rep hn w as \<and> imem w (as ! 2) = Some default_info \<and>
    imem w (as ! 0) = Some (ctl_info (switch_of is 1) (li_is_valid tsi)) \<and> imem w (as ! 1) = Some tsi"
proof -
  obtain c where ld: "log_get_conf_info_from_file h mal True (Some (conf_text is)) (Some log_fresh) =
       Some (Goes (Some \<lparr>lw_conf = c, m_log_switch = switch_of is 1\<rparr>, 0))"
     and c: "conf_inv h c" "conf_view h c = map_of (item_modes is)" "no_leak h c"
    using log_load_items [where mal = mal, OF assms(1,3,5,6)] by blast
  obtain w0 where w0: "log_conf_infos_init hn = Some w0" "infos_rep hn w0 [0, 1, 2]" "imem w0 0 = Some (ctl_info 1 0)"
    "imem w0 1 = Some (set_default_single_log_conf_info zero_info)" "imem w0 2 = Some default_info" "settings_view hn w0 = [DEFAULT_LOG_FILE_NAME \<mapsto> default_info]"
    using log_conf_infos_init_rep [OF assms(2)] by blast
  obtain w1 where w1: "upd_info_at INFOS_ID_CTL (\<lambda>i. i\<lparr>li_log_switch := switch_of is 1\<rparr>) w0 = Some w1" "infos_rep hn w1 [0, 1, 2]"
    "imem w1 = (imem w0)(0 \<mapsto> (ctl_info 1 0)\<lparr>li_log_switch := switch_of is 1\<rparr>)" "settings_view hn w1 = settings_view hn w0"
    using upd_ctl_rep [OF w0(2), of "ctl_info 1 0" "\<lambda>i. i\<lparr>li_log_switch := switch_of is 1\<rparr>"] w0(3) by auto
  have wf: "list_all item_wf is" using assms(3) by (simp add: log_conf_ok_def)
  obtain es ms where en: "log_conf_manager_foreach h \<lparr>lw_conf = c, m_log_switch = switch_of is 1\<rparr> = Some es"
    "list_all2 (\<lambda>e (m, kvs). mode_entry (mem c) e m kvs) es ms" "modes_ok ms" "distinct (map fst ms)"
    "settings_of_modes ms = settings_of_modes (item_modes is)"
    by (rule conf_entries [OF assms(1) c(1,2) wf assms(4)])
  have nths: "[0, 1, 2 :: nat] ! 0 = 0" "[0, 1, 2 :: nat] ! 1 = 1" "[0, 1, 2 :: nat] ! 2 = 2" by simp_all
  have "settings_view hn w1 TOTAL_SWITCH_MODE_NAME = None"
    by (simp add: w1(4) w0(6) TOTAL_SWITCH_MODE_NAME_def DEFAULT_LOG_FILE_NAME_def)
  then obtain w2 as2 where w2: "fill_all hn (mem c) es w1 = Some (Goes w2)" "infos_rep hn w2 as2"
    "settings_view hn w2 = settings_view hn w1 ++ settings_of_modes ms" "imem w2 (as2 ! 0) = imem w1 0"
    "imem w2 (as2 ! 1) = (case settings_of_modes ms TOTAL_SWITCH_MODE_NAME of Some i \<Rightarrow> Some i | None \<Rightarrow> imem w1 1)"
    "imem w2 (as2 ! 2) = imem w1 2"
    using fill_all_modes [OF assms(2) en(2) w1(2) en(3,4)] unfolding nths by blast
  have ctl: "imem w2 (as2 ! 0) = Some (ctl_info (switch_of is 1) 0)"
    by (simp add: w2(4) w1(3) ctl_info_def)
  have tot: "imem w2 (as2 ! 1) = Some tsi"
    unfolding w2(5) en(5) assms(7) using w0(4) by (simp add: w1(3) split: option.split)
  obtain w cm where "do {
      (a, tsi) \<leftarrow> info_at w2 INFOS_ID_TOTAL_SWITCH;
      w3 \<leftarrow> upd_info_at INFOS_ID_CTL (\<lambda>i. i\<lparr>li_is_valid := li_is_valid tsi\<rparr>) w2;
      cm' \<leftarrow> log_destroy_iri_conf h \<lparr>lw_conf = c, m_log_switch = switch_of is 1\<rparr>;
      Some (Goes (w3, cm')) } = Some (Goes (w, cm))" "mem (lw_conf cm) = Map.empty"
    "settings_view hn w = settings_view hn w2" "map_option snd (info_at w INFOS_ID_CTL) = Some (ctl_info (switch_of is 1) (li_is_valid tsi))"
    "map_option snd (info_at w INFOS_ID_TOTAL_SWITCH) = Some tsi" "infos_rep hn w as2" "imem w (as2 ! 2) = Some default_info"
    "imem w (as2 ! 0) = Some (ctl_info (switch_of is 1) (li_is_valid tsi))" "imem w (as2 ! 1) = Some tsi"
    using finish_infos [OF assms(1) w2(2) ctl tot, of "\<lparr>lw_conf = c, m_log_switch = switch_of is 1\<rparr>"] c w2(6) w1(3) w0(5) by auto
  then show ?thesis
    by (auto simp: get_log_conf_infos_def w0(1) ld w1(1) en(1) w2(1) w2(3) w1(4) w0(6) en(5))
qed


definition demo_log_conf :: "conf_item list" where
  "demo_log_conf =
     [Switch [] ''LOG_SWITCH = 2'',
      Block [] '' '' ''app'' ([], None)
        [Setting [] ''DEBUG.INFO.ERR.FATAL'' [] [] ''1.0.1.1'' ([], None),
         Setting [] ''ROLLBACK_NUMBER'' '' '' '' '' ''7'' ([], None)] [],
      Block [] [] ''TOTAL_SWITCH'' ([], None)
        [Setting [] ''IS_VALID'' [] [] ''1'' ([], None), Setting [] ''TIMMER'' [] [] ''60'' ([], None)] []]"

lemmas demo_log_defs = demo_log_conf_def log_switch_value_def log_LOG_SWITCH_STR_def transfer_char_to_int_def isdigit_def
  digit_def blank_def conf_word_def conf_key_def tail_ok_def tail_text_def conf_consts

lemma demo_log_conf_ok: "log_conf_ok demo_log_conf"
  by (simp add: log_conf_ok_def stays_on_def demo_log_defs)

lemma demo_modes_ok: "modes_ok (item_modes demo_log_conf)"
  by (simp add: modes_ok_def mode_settings_def mode_info_def demo_log_conf_def TOTAL_SWITCH_MODE_NAME_def TOTAL_SWITCH_IS_VALID_def
      TOTAL_SWITCH_TIMER_def irilog_conf_line_handle_def info_head_def is_level_true_inner_def isdigit_def digit_def fst_char_def
      sscanf_d_def atoi_def scan_dec_def isspace_def digits_value_def cint_def int_limits Let_def)


text \<open>
  A line \<open>@LOG_SWITCH = 0\<close> does not turn the log off: the load ends with \<open>CONF_CLOSE_ALL\<close>, so
  neither the switch nor any block of the file reaches the settings, and the log runs with its
  built-in settings, switched on.
\<close>

theorem log_switch_off_ignored:
  assumes "ghash_laws h" "ghash_laws hn" "log_conf_ok is" "\<And>n. mal n"
    "blanks b" "NL \<notin> set l" "log_switch_value l = Some 0"
    "length (conf_text is @ b @ CHR ''@'' # l @ NL # rest) < MAX_CONF_FILE_SIZE"
  shows "\<exists>w cm. get_log_conf_infos h hn mal True (Some (conf_text is @ b @ CHR ''@'' # l @ NL # rest)) = Some (Goes (w, cm)) \<and>
    map_option snd (info_at w INFOS_ID_CTL) = Some (ctl_info 1 0) \<and>
    settings_view hn w = [DEFAULT_LOG_FILE_NAME \<mapsto> default_info]"
proof -
  obtain c where ld: "log_get_conf_info_from_file h mal True (Some (conf_text is @ b @ CHR ''@'' # l @ NL # rest)) (Some log_fresh) =
       Some (Goes (Some \<lparr>lw_conf = c, m_log_switch = 0\<rparr>, log_CONF_CLOSE_ALL))"
     and c: "conf_inv h c" "no_leak h c"
    using log_load_off [where mal = mal, OF assms(1,3-8)] by blast
  obtain w0 where w0: "log_conf_infos_init hn = Some w0" "infos_rep hn w0 [0, 1, 2]" "imem w0 0 = Some (ctl_info 1 0)"
    "imem w0 1 = Some (set_default_single_log_conf_info zero_info)" "imem w0 2 = Some default_info" "settings_view hn w0 = [DEFAULT_LOG_FILE_NAME \<mapsto> default_info]"
    using log_conf_infos_init_rep [OF assms(2)] by blast
  have v: "li_is_valid (set_default_single_log_conf_info zero_info) = 0"
    by (simp add: set_default_single_log_conf_info_def)
  obtain w cm where "do {
      (a, tsi) \<leftarrow> info_at w0 INFOS_ID_TOTAL_SWITCH;
      w3 \<leftarrow> upd_info_at INFOS_ID_CTL (\<lambda>i. i\<lparr>li_is_valid := li_is_valid tsi\<rparr>) w0;
      cm' \<leftarrow> log_destroy_iri_conf h \<lparr>lw_conf = c, m_log_switch = 0\<rparr>;
      Some (Goes (w3, cm')) } = Some (Goes (w, cm))"
    "settings_view hn w = settings_view hn w0" "map_option snd (info_at w INFOS_ID_CTL) = Some (ctl_info 1 0)"
    using finish_infos [OF assms(1) w0(2), of 1 "set_default_single_log_conf_info zero_info" "\<lparr>lw_conf = c, m_log_switch = 0\<rparr>"]
      c w0(3,4) v by auto
  then show ?thesis
    using w0(6) by (auto simp: get_log_conf_infos_def w0(1) ld log_consts)
qed

theorem log_switch_off_ignored_witness:
  "\<exists>w cm. get_log_conf_infos alist_ghash alist_ghash (\<lambda>n. True) True
      (Some (conf_text demo_log_conf @ [] @ CHR ''@'' # ''LOG_SWITCH=0'' @ NL # [])) = Some (Goes (w, cm)) \<and>
    map_option snd (info_at w INFOS_ID_CTL) = Some (ctl_info 1 0) \<and>
    settings_view alist_ghash w = [DEFAULT_LOG_FILE_NAME \<mapsto> default_info]"
proof (rule log_switch_off_ignored [OF alist_ghash_laws alist_ghash_laws demo_log_conf_ok])
  show "length (conf_text demo_log_conf @ [] @ CHR ''@'' # ''LOG_SWITCH=0'' @ NL # []) < MAX_CONF_FILE_SIZE"
    by (simp add: demo_log_conf_def conf_text_def lines_text_def tail_text_def MAX_CONF_FILE_SIZE_def)
qed (simp_all add: demo_log_defs Let_def)

end
