(* ===== verification/Calendar.thy ===== *)
theory Calendar
  imports CString
begin

text \<open>
  What the C library and the Gregorian calendar say about dates, shared by the components that work
  with them: the broken-down time \<open>struct tm\<close>, numbers padded with zeros as \<open>%02d\<close> prints them,
  the successor of a date, and the number of a day in the calendar.
\<close>

section \<open>Broken-down time\<close>

record tm =
  tm_sec :: int
  tm_min :: int
  tm_hour :: int
  tm_mday :: int
  tm_mon :: int
  tm_year :: int

text \<open>\<open>%0nd\<close>, and \<open>snprintf\<close> with the size of its buffer.\<close>

definition zpad :: "nat \<Rightarrow> int \<Rightarrow> string" where
  "zpad n i = (if i < 0 then CHR ''-'' # replicate (n - 1 - length (show_nat (nat (- i)))) (CHR ''0'') @ show_nat (nat (- i))
     else replicate (n - length (show_nat (nat i))) (CHR ''0'') @ show_nat (nat i))"

definition snprintf_text :: "nat \<Rightarrow> string \<Rightarrow> string" where
  "snprintf_text n s = take (n - 1) s"

section \<open>Arithmetic of int\<close>

lemma sdiv_nonneg: "0 \<le> a \<Longrightarrow> 0 < b \<Longrightarrow> a sdiv b = a div (b :: int)"
  by (cases "a = 0") (simp_all add: signed_divide_int_def)

lemma smod_nonneg: "0 \<le> a \<Longrightarrow> 0 < b \<Longrightarrow> a smod b = a mod (b :: int)"
  by (cases "a = 0") (simp_all add: signed_modulo_int_def)

lemma cint_in: "- 2000000000 \<le> i \<Longrightarrow> i \<le> 2000000000 \<Longrightarrow> cint i = Some i"
  by (simp add: cint_def int_limits)

section \<open>The calendar\<close>

type_synonym date = "int \<times> int \<times> int"

definition leap :: "int \<Rightarrow> bool" where
  "leap y \<longleftrightarrow> 4 dvd y \<and> (\<not> 100 dvd y \<or> 400 dvd y)"

definition month_days :: "int \<Rightarrow> int \<Rightarrow> int" where
  "month_days y m = (if m = 2 then (if leap y then 29 else 28) else if m \<in> {4, 6, 9, 11} then 30 else 31)"

definition is_date :: "date \<Rightarrow> bool" where
  "is_date x \<longleftrightarrow> (case x of (y, m, d) \<Rightarrow> 1 \<le> y \<and> 1 \<le> m \<and> m \<le> 12 \<and> 1 \<le> d \<and> d \<le> month_days y m)"

definition next_date :: "date \<Rightarrow> date" where
  "next_date x = (case x of (y, m, d) \<Rightarrow>
     if d < month_days y m then (y, m, d + 1) else if m < 12 then (y, m + 1, 1) else (y + 1, 1, 1))"

text \<open>The formula on unbounded integers.\<close>

definition leaps :: "int \<Rightarrow> int" where
  "leaps y = y div 4 - y div 100 + y div 400"

definition date_no :: "date \<Rightarrow> int" where
  "date_no x = (case x of (y, m, d) \<Rightarrow>
     let m1 = (m + 9) mod 12; y1 = y - m1 div 10
     in 365 * y1 + leaps y1 + (m1 * 306 + 5) div 10 + (d - 1))"

lemma is_date_next: "is_date x \<Longrightarrow> is_date (next_date x)"
  by (auto simp: is_date_def next_date_def month_days_def split: prod.splits if_splits)

lemma div_step:
  assumes "0 < k"
  shows "(y :: int) div k - (y - 1) div k = (if k dvd y then 1 else 0)"
proof -
  define q r where "q = y div k" and "r = y mod k"
  have y: "y = k * q + r" "0 \<le> r" "r < k" using assms by (simp_all add: q_def r_def)
  have "k dvd y \<longleftrightarrow> r = 0" by (simp add: r_def dvd_eq_mod_eq_0)
  moreover have "(y - 1) div k = (if r = 0 then q - 1 else q)"
  proof (cases "r = 0")
    case True
    have "(y - 1) div k = q - 1" by (rule int_div_pos_eq [of _ _ _ "k - 1"]) (use y True assms in \<open>auto simp: algebra_simps\<close>)
    with True show ?thesis by simp
  next
    case False
    have "(y - 1) div k = q" by (rule int_div_pos_eq [of _ _ _ "r - 1"]) (use y False in auto)
    with False show ?thesis by simp
  qed
  ultimately show ?thesis by (simp add: q_def)
qed

lemma leap_step: "leaps y = leaps (y - 1) + (if leap y then 1 else 0)"
proof -
  have d: "400 dvd y \<Longrightarrow> 100 dvd y" "100 dvd y \<Longrightarrow> 4 dvd y" by (auto elim: dvd_trans [rotated])
  have "leaps y - leaps (y - 1) = (y div 4 - (y - 1) div 4) - (y div 100 - (y - 1) div 100) + (y div 400 - (y - 1) div 400)"
    unfolding leaps_def by linarith
  also have "\<dots> = (if 4 dvd y then 1 else 0) - (if 100 dvd y then 1 else 0) + (if 400 dvd y then 1 else 0)"
    by (simp only: div_step zero_less_numeral)
  also have "\<dots> = (if leap y then 1 else 0)"
    using d unfolding leap_def by (cases "4 dvd y"; cases "100 dvd y"; cases "400 dvd y") simp_all
  finally show ?thesis by linarith
qed

lemma months: "1 \<le> m \<Longrightarrow> m \<le> 12 \<Longrightarrow> m \<in> {1, 2, 3, 4, 5, 6, 7, 8, 9, 10, 11, 12 :: int}"
  by (simp, presburger)

lemma date_no_next: "is_date x \<Longrightarrow> date_no (next_date x) = date_no x + 1"
proof -
  assume "is_date x"
  obtain y m d where x: "x = (y, m, d)" by (cases x)
  then have v: "1 \<le> y" "1 \<le> m" "m \<le> 12" "1 \<le> d" "d \<le> month_days y m" using \<open>is_date x\<close> by (simp_all add: is_date_def)
  show ?thesis
  proof (cases "d < month_days y m")
    case True
    then show ?thesis by (simp add: x next_date_def date_no_def Let_def)
  next
    case False
    then have d: "d = month_days y m" using v(5) by simp
    show ?thesis
      using months [OF v(2,3)] leap_step [of y] d
      by (auto simp: x next_date_def date_no_def Let_def month_days_def)
  qed
qed

lemma date_no_iter:
  "is_date x \<Longrightarrow> is_date ((next_date ^^ n) x) \<and> date_no ((next_date ^^ n) x) = date_no x + int n"
  by (induction n) (simp_all add: is_date_next date_no_next)

end
