(* ===== verification/Local_Time.thy ===== *)
theory Local_Time
  imports Calendar
begin

text \<open>
  \<open>src/src/log/iridiumSysLog/get_localtime/get_localtime.c\<close>: the current time in a global variable
  that a thread refreshes, and \<open>get_localtime\<close>, which never blocks: when the lock is taken it answers
  with the last time it gave out.

  \<open>lt\<close> is \<open>localtime_r\<close>, from seconds to broken-down time. The functions on the state describe one
  call with the outcome of \<open>pthread_mutex_trylock\<close> as an argument; the step relation interleaves the
  refreshing thread (number 0) with any number of callers, statement by statement.
\<close>

record lt_vars =
  iridium_tm_now :: tm
  iridium_tm_last :: tm

definition get_localtime :: "bool \<Rightarrow> lt_vars \<Rightarrow> tm \<times> lt_vars" where
  "get_localtime trylock v =
     (if trylock then (iridium_tm_now v, v\<lparr>iridium_tm_last := iridium_tm_now v\<rparr>)
      else (iridium_tm_last v, v))"

text \<open>One round of the thread's loop.\<close>

definition get_localtime_func :: "(int \<Rightarrow> tm) \<Rightarrow> bool \<Rightarrow> int \<Rightarrow> lt_vars \<Rightarrow> lt_vars" where
  "get_localtime_func lt trylock now v = (if trylock then v\<lparr>iridium_tm_now := lt now\<rparr> else v)"

text \<open>Start: both variables, and the thread handle (\<open>pth\<close> none when \<open>pthread_create\<close> fails: \<open>-1\<close> of an unsigned type).\<close>

definition start_getlocaltime_thread :: "(int \<Rightarrow> tm) \<Rightarrow> int \<Rightarrow> nat option \<Rightarrow> lt_vars \<times> nat" where
  "start_getlocaltime_thread lt now pth =
     (\<lparr>iridium_tm_now = lt now, iridium_tm_last = lt now\<rparr>, case pth of Some p \<Rightarrow> p | None \<Rightarrow> 2 ^ 64 - 1)"

section \<open>Interleaving\<close>

text \<open>Where a thread stands. The refreshing thread: outside, with the lock, after the update. A caller: outside,
  found the lock taken, with the lock, after the copy to \<open>tm_in\<close>, after the copy to \<open>iridium_tm_last\<close>.\<close>

datatype pc = Outside | Updating | Updated | Busy | Locked | Copied tm | Saved tm

record lt_sys =
  vars :: lt_vars
  localtime_lock :: "nat option"
  pcs :: "nat \<Rightarrow> pc"
  clock :: int
  answers :: "(nat \<times> tm) list"

definition at_pc :: "nat \<Rightarrow> pc \<Rightarrow> lt_sys \<Rightarrow> lt_sys" where
  "at_pc i p s = s\<lparr>pcs := (pcs s)(i := p)\<rparr>"

text \<open>
  \<open>answers\<close> lists the times given out, the latest first; a call enters its answer at one moment between
  its start and its return: when it reads \<open>iridium_tm_last\<close>, or when it has updated it.
\<close>

inductive lt_step :: "(int \<Rightarrow> tm) \<Rightarrow> lt_sys \<Rightarrow> lt_sys \<Rightarrow> bool" for lt where
  clock_on: "clock s \<le> t \<Longrightarrow> lt_step lt s (s\<lparr>clock := t\<rparr>)"
| upd_lock: "pcs s 0 = Outside \<Longrightarrow> localtime_lock s = None \<Longrightarrow> lt_step lt s (at_pc 0 Updating (s\<lparr>localtime_lock := Some 0\<rparr>))"
| upd_busy: "pcs s 0 = Outside \<Longrightarrow> localtime_lock s \<noteq> None \<Longrightarrow> lt_step lt s s"
| upd_set: "pcs s 0 = Updating \<Longrightarrow>
    lt_step lt s (at_pc 0 Updated (s\<lparr>vars := (vars s)\<lparr>iridium_tm_now := lt (clock s)\<rparr>\<rparr>))"
| upd_unlock: "pcs s 0 = Updated \<Longrightarrow> lt_step lt s (at_pc 0 Outside (s\<lparr>localtime_lock := None\<rparr>))"
| get_lock: "0 < i \<Longrightarrow> pcs s i = Outside \<Longrightarrow> localtime_lock s = None \<Longrightarrow>
    lt_step lt s (at_pc i Locked (s\<lparr>localtime_lock := Some i\<rparr>))"
| get_busy: "0 < i \<Longrightarrow> pcs s i = Outside \<Longrightarrow> localtime_lock s \<noteq> None \<Longrightarrow> lt_step lt s (at_pc i Busy s)"
| get_last: "0 < i \<Longrightarrow> pcs s i = Busy \<Longrightarrow>
    lt_step lt s (at_pc i Outside (s\<lparr>answers := (i, iridium_tm_last (vars s)) # answers s\<rparr>))"
| get_copy: "0 < i \<Longrightarrow> pcs s i = Locked \<Longrightarrow> lt_step lt s (at_pc i (Copied (iridium_tm_now (vars s))) s)"
| get_save: "0 < i \<Longrightarrow> pcs s i = Copied v \<Longrightarrow>
    lt_step lt s (at_pc i (Saved v) (s\<lparr>vars := (vars s)\<lparr>iridium_tm_last := iridium_tm_now (vars s)\<rparr>, answers := (i, v) # answers s\<rparr>))"
| get_unlock: "0 < i \<Longrightarrow> pcs s i = Saved v \<Longrightarrow> lt_step lt s (at_pc i Outside (s\<lparr>localtime_lock := None\<rparr>))"

inductive lt_start :: "(int \<Rightarrow> tm) \<Rightarrow> lt_sys \<Rightarrow> bool" for lt where
  started: "lt_start lt \<lparr>vars = fst (start_getlocaltime_thread lt t pth), localtime_lock = None, pcs = (\<lambda>i. Outside), clock = t, answers = []\<rparr>"

abbreviation lt_reach :: "(int \<Rightarrow> tm) \<Rightarrow> lt_sys \<Rightarrow> bool" where
  "lt_reach lt \<equiv> reachable (lt_start lt) (lt_step lt)"

inductive_cases lt_stepE: "lt_step lt s s'"

section \<open>Properties\<close>

text \<open>
  The invariant: whoever is inside holds the lock, a copied time is still the current one, and the
  current time, the last time and the answers are clock times in order.
\<close>

definition inside :: "pc \<Rightarrow> bool" where
  "inside p \<longleftrightarrow> p \<noteq> Outside \<and> p \<noteq> Busy"

definition lock_inv :: "lt_sys \<Rightarrow> bool" where
  "lock_inv s \<longleftrightarrow> (\<forall>i. inside (pcs s i) \<longrightarrow> localtime_lock s = Some i) \<and>
     (\<forall>i v. pcs s i = Copied v \<longrightarrow> v = iridium_tm_now (vars s))"

definition time_inv :: "(int \<Rightarrow> tm) \<Rightarrow> lt_sys \<Rightarrow> bool" where
  "time_inv lt s \<longleftrightarrow> (\<exists>tn tl ts. iridium_tm_now (vars s) = lt tn \<and> iridium_tm_last (vars s) = lt tl \<and>
     map snd (answers s) = map lt ts \<and> tn \<le> clock s \<and> sorted_wrt (\<ge>) (tn # tl # ts))"

lemma lock_uniq: "lock_inv s \<Longrightarrow> inside (pcs s i) \<Longrightarrow> inside (pcs s j) \<Longrightarrow> i = j"
  by (metis lock_inv_def option.inject)

lemma lock_inv_unlock:
  assumes "lock_inv s" "inside (pcs s i)"
  shows "lock_inv (at_pc i Outside (s\<lparr>localtime_lock := None\<rparr>))"
proof -
  have "pcs s j = Outside \<or> pcs s j = Busy" if "j \<noteq> i" for j
    using lock_uniq [OF assms(1) assms(2), of j] that by (auto simp: inside_def)
  then show ?thesis by (fastforce simp: lock_inv_def at_pc_def inside_def)
qed

lemma lock_inv_step:
  assumes "lt_step lt s s'" "lock_inv s"
  shows "lock_inv s'"
  using assms
proof cases
  case upd_set
  have "pcs s i \<noteq> Copied v" for i v
    using lock_uniq [OF assms(2), of i 0] upd_set(2) by (auto simp: inside_def)
  then show ?thesis using upd_set assms(2) by (auto simp: lock_inv_def at_pc_def inside_def split: if_splits)
next
  case upd_unlock
  then show ?thesis using lock_inv_unlock [OF assms(2), of 0] by (simp add: inside_def)
next
  case (get_unlock i v)
  then show ?thesis using lock_inv_unlock [OF assms(2), of i] by (simp add: inside_def)
next
  case (get_save i v)
  have A: "localtime_lock s = Some j" if "inside (pcs s j)" for j using assms(2) that unfolding lock_inv_def by blast
  have i: "inside (pcs s i)" using get_save(3) by (simp add: inside_def)
  have same: "iridium_tm_now (vars s') = iridium_tm_now (vars s)" "localtime_lock s' = localtime_lock s"
    "pcs s' = (pcs s)(i := Saved v)" by (simp_all add: get_save(1) at_pc_def)
  show ?thesis unfolding lock_inv_def same
  proof (intro conjI allI impI)
    show "localtime_lock s = Some j" if "inside (((pcs s)(i := Saved v)) j)" for j
      using that A [of j] A [OF i] by (cases "j = i") simp_all
    show "u = iridium_tm_now (vars s)" if "((pcs s)(i := Saved v)) j = Copied u" for j u
      using that assms(2) unfolding lock_inv_def by (cases "j = i") (simp, metis fun_upd_other)
  qed
qed (use assms(2) in \<open>auto simp: lock_inv_def at_pc_def inside_def split: if_splits\<close>)

lemma time_inv_step:
  assumes "lt_step lt s s'" "lock_inv s" "time_inv lt s"
  shows "time_inv lt s'"
proof -
  obtain tn tl ts where T: "iridium_tm_now (vars s) = lt tn" "iridium_tm_last (vars s) = lt tl"
    "map snd (answers s) = map lt ts" "tn \<le> clock s" "sorted_wrt (\<ge>) (tn # tl # ts)"
    using assms(3) by (auto simp: time_inv_def)
  have keep: "time_inv lt s'" if "vars s' = vars s" "answers s' = answers s" "clock s \<le> clock s'"
    using that T unfolding time_inv_def by (metis order_trans)
  from assms(1) show ?thesis
  proof cases
    case upd_set
    then show ?thesis
      using T unfolding time_inv_def by (intro exI [of _ "clock s"] exI [of _ tl] exI [of _ ts]) (auto simp: at_pc_def)
  next
    case (get_last i)
    then show ?thesis
      using T unfolding time_inv_def by (intro exI [of _ tn] exI [of _ tl] exI [of _ "tl # ts"]) (auto simp: at_pc_def)
  next
    case (get_save i v)
    then have "v = lt tn" using assms(2) T(1) by (auto simp: lock_inv_def)
    then show ?thesis
      using T get_save unfolding time_inv_def by (intro exI [of _ tn] exI [of _ tn] exI [of _ "tn # ts"]) (auto simp: at_pc_def)
  qed (rule keep; auto simp: at_pc_def)+
qed

interpretation ltime: step_system "lt_start lt" "lt_step lt" "\<lambda>s. lock_inv s \<and> time_inv lt s" for lt
proof
  fix s assume "lt_start lt s"
  then show "lock_inv s \<and> time_inv lt s"
  proof cases
    case (started t pth)
    then show ?thesis
      by (auto simp: lock_inv_def time_inv_def inside_def start_getlocaltime_thread_def intro!: exI [of _ t] exI [of _ "[]"])
  qed
qed (blast intro: lock_inv_step time_inv_step)


text \<open>A run in which a caller and a late caller get their answers around an update.\<close>

definition demo_lt :: "int \<Rightarrow> tm" where
  "demo_lt t = \<lparr>tm_sec = t mod 60, tm_min = t div 60 mod 60, tm_hour = 0, tm_mday = 1, tm_mon = 0, tm_year = 70\<rparr>"

definition demo_run :: lt_sys where
  "demo_run = \<lparr>vars = \<lparr>iridium_tm_now = demo_lt 5, iridium_tm_last = demo_lt 5\<rparr>, localtime_lock = Some 1,
     pcs = (\<lambda>i. if i = 1 then Saved (demo_lt 5) else Outside), clock = 5, answers = [(1, demo_lt 5)]\<rparr>"

lemma demo_run_reach: "lt_reach demo_lt demo_run"
proof -
  let ?s0 = "\<lparr>vars = fst (start_getlocaltime_thread demo_lt 5 (Some 9)), localtime_lock = None, pcs = (\<lambda>i. Outside), clock = 5, answers = []\<rparr>"
  let ?s1 = "at_pc 1 Locked (?s0\<lparr>localtime_lock := Some 1\<rparr>)"
  let ?s2 = "at_pc 1 (Copied (iridium_tm_now (vars ?s1))) ?s1"
  have "lt_step demo_lt ?s0 ?s1" by (rule get_lock) simp_all
  moreover have "lt_step demo_lt ?s1 ?s2" by (rule get_copy) (simp_all add: at_pc_def)
  moreover have "lt_step demo_lt ?s2 (at_pc 1 (Saved (demo_lt 5)) (?s2\<lparr>vars := (vars ?s2)\<lparr>iridium_tm_last := iridium_tm_now (vars ?s2)\<rparr>,
      answers := (1, demo_lt 5) # answers ?s2\<rparr>))"
    by (rule get_save) (simp_all add: at_pc_def start_getlocaltime_thread_def)
  moreover have "at_pc 1 (Saved (demo_lt 5)) (?s2\<lparr>vars := (vars ?s2)\<lparr>iridium_tm_last := iridium_tm_now (vars ?s2)\<rparr>,
      answers := (1, demo_lt 5) # answers ?s2\<rparr>) = demo_run"
    by (auto simp: demo_run_def at_pc_def start_getlocaltime_thread_def)
  ultimately show ?thesis using at_start [of "lt_start demo_lt", OF started [of demo_lt 5 "Some 9"]] by_step by metis
qed


end
