(* ===== verification/Proc_Name.thy ===== *)
theory Proc_Name
  imports CString
begin

text \<open>
  \<open>src/src/utils/get_proc_name/get_proc_name.c\<close> and the older version of it in
  \<open>src/src/log/iridiumSysLog/get_proc_name/get_proc_name.c\<close>: directory and name of the running
  program from the link \<open>/proc/self/exe\<close>.

  \<open>exe\<close> is the text of the link, or none when \<open>readlink\<close> fails. Buffers are character lists of their
  size; \<open>readlink\<close> writes no terminator. \<open>base\<close> is the address of the directory buffer when it is
  allocated here, needed for the returned pointer difference. \<open>malloc\<close> is taken to succeed.
\<close>

definition PATH_MAX :: nat where "PATH_MAX = 4096"

definition overwrite :: "char list \<Rightarrow> char list \<Rightarrow> char list" where
  "overwrite buf s = s @ drop (length s) buf"

text \<open>\<open>strncpy\<close> into a buffer of exactly that size: truncates, or fills up with NUL.\<close>

definition strncpy_buf :: "string \<Rightarrow> nat \<Rightarrow> char list" where
  "strncpy_buf s n = take n s @ replicate (n - length s) NUL"

text \<open>\<open>strrchr(s, c)\<close> as an index.\<close>

fun strrchr :: "string \<Rightarrow> char \<Rightarrow> nat option" where
  "strrchr [] c = None"
| "strrchr (x # s) c = (case strrchr s c of Some k \<Rightarrow> Some (Suc k) | None \<Rightarrow> if x = c then Some 0 else None)"

lemma strrchr_None: "strrchr s c = None \<longleftrightarrow> c \<notin> set s"
  by (induction s) (auto split: option.split)

lemma strrchr_last: "c \<notin> set t \<Longrightarrow> strrchr (s @ c # t) c = Some (length s)"
  by (induction s) (simp_all add: strrchr_None [THEN iffD2])

text \<open>The caller's directory buffer and name buffer after the call, the result, and whether the allocated buffer was freed.\<close>

record proc_name_result =
  pn_dir :: "char list option"
  pn_name :: "char list option"
  pn_ret :: int
  pn_freed :: bool

text \<open>
  The common part: find the last slash, copy the name, cut the directory. The result is the buffer,
  the name buffer and the offset of \<open>path_end\<close>; none where the code returns 0.
\<close>

definition split_path :: "string option \<Rightarrow> char list \<Rightarrow> nat \<Rightarrow> (char list \<times> (char list \<times> nat) option) option" where
  "split_path exe buf len =
     (case exe of
        None \<Rightarrow> Some (buf, None)
      | Some link \<Rightarrow>
          if link = [] then Some (buf, None)
          else do {
            let real_dir = overwrite buf (take PATH_MAX link);
            s \<leftarrow> cstring real_dir;
            case strrchr s (CHR ''/'') of
              None \<Rightarrow> Some (real_dir, None)
            | Some k \<Rightarrow> Some (real_dir[Suc k := NUL], Some (strncpy_buf (drop (Suc k) s) len, Suc k)) })"

definition get_proc_path_name ::
  "string option \<Rightarrow> char list option \<Rightarrow> char list option \<Rightarrow> nat \<Rightarrow> proc_name_result option" where
  "get_proc_path_name exe proc_dir proc_name len =
     (case proc_name of
        None \<Rightarrow> Some \<lparr>pn_dir = proc_dir, pn_name = None, pn_ret = 0, pn_freed = True\<rparr>
      | Some _ \<Rightarrow> do {
          (real_dir, r) \<leftarrow> split_path exe (case proc_dir of None \<Rightarrow> replicate PATH_MAX NUL | Some d \<Rightarrow> d) len;
          let dir' = (if proc_dir = None then None else Some real_dir);
          Some (case r of
            None \<Rightarrow> \<lparr>pn_dir = dir', pn_name = Some (replicate len NUL), pn_ret = 0, pn_freed = (proc_dir \<noteq> None)\<rparr>
          | Some (nm, k) \<Rightarrow> \<lparr>pn_dir = dir', pn_name = Some nm, pn_ret = int k, pn_freed = True\<rparr>) })"

text \<open>The \<open>int\<close> that a pointer difference is converted to.\<close>

definition to_cint :: "int \<Rightarrow> int" where
  "to_cint v = (v + 2 ^ 31) mod 2 ^ 32 - 2 ^ 31"

text \<open>The log library's version resets \<open>real_dir\<close> to NULL before it is subtracted.\<close>

definition log_get_proc_path_name ::
  "int \<Rightarrow> string option \<Rightarrow> char list option \<Rightarrow> char list option \<Rightarrow> nat \<Rightarrow> proc_name_result option" where
  "log_get_proc_path_name base exe proc_dir proc_name len =
     (case proc_name of
        None \<Rightarrow> Some \<lparr>pn_dir = proc_dir, pn_name = None, pn_ret = 0, pn_freed = True\<rparr>
      | Some _ \<Rightarrow> do {
          (real_dir, r) \<leftarrow> split_path exe (case proc_dir of None \<Rightarrow> replicate PATH_MAX NUL | Some d \<Rightarrow> d) len;
          let dir' = (if proc_dir = None then None else Some real_dir);
          Some (case r of
            None \<Rightarrow> \<lparr>pn_dir = dir', pn_name = Some (replicate len NUL), pn_ret = 0, pn_freed = (proc_dir \<noteq> None)\<rparr>
          | Some (nm, k) \<Rightarrow> \<lparr>pn_dir = dir', pn_name = Some nm,
               pn_ret = (if proc_dir = None then to_cint (base + int k - 0) else int k), pn_freed = True\<rparr>) })"

section \<open>Properties\<close>

lemma cstring_prefix: "no_nul s \<Longrightarrow> length s < length buf \<Longrightarrow> NUL = buf ! length s \<Longrightarrow> cstring (overwrite buf s) = Some s"
  by (metis Cons_nth_drop_Suc cstring_terminated overwrite_def)

lemma split_path_exe:
  assumes "no_nul d" "no_nul nm" "CHR ''/'' \<notin> set nm" "length buf = PATH_MAX" "length d + length nm + 1 < PATH_MAX"
    "buf ! (length d + length nm + 1) = NUL"
  shows "split_path (Some (d @ ''/'' @ nm)) buf len =
    Some ((overwrite buf (d @ ''/'' @ nm))[Suc (length d) := NUL], Some (strncpy_buf nm len, Suc (length d)))"
proof -
  have "cstring (overwrite buf (d @ ''/'' @ nm)) = Some (d @ ''/'' @ nm)"
    using assms by (intro cstring_prefix) auto
  then show ?thesis
    using assms strrchr_last [of "CHR ''/''" nm d] by (simp add: split_path_def)
qed

lemma overwrite_cut:
  assumes "length buf = PATH_MAX" "length d + length nm + 1 < PATH_MAX" "no_nul d" "buf ! (length d + length nm + 1) = NUL"
  shows "cstring ((overwrite buf (d @ ''/'' @ nm))[Suc (length d) := NUL]) = Some (d @ ''/'')"
proof -
  have "(overwrite buf (d @ ''/'' @ nm))[Suc (length d) := NUL] =
      (d @ ''/'') @ NUL # drop (Suc (Suc (length d))) (overwrite buf (d @ ''/'' @ nm))"
    using assms(1,2) by (simp add: overwrite_def upd_conv_take_nth_drop)
  moreover have "no_nul (d @ ''/'')" using assms(3) by simp
  ultimately show ?thesis by (metis cstring_terminated)
qed

lemma strncpy_buf_short: "length s < n \<Longrightarrow> no_nul s \<Longrightarrow> cstring (strncpy_buf s n) = Some s"
  by (cases "n - length s") (simp_all add: strncpy_buf_def)

text \<open>
  For a program \<open>d/nm\<close> whose path and name fit the buffers, both versions put the name \<open>nm\<close>, as a
  terminated string, into the name buffer and the directory \<open>d/\<close> into the caller's buffer (one that
  is zero behind the path) and return the length of the directory. Without a caller's buffer the
  temporary one is freed and the version of \<open>utils\<close> still returns that length, while the log
  library's version returns the low bits of a pointer into the freed buffer.
\<close>

theorem proc_path_name_splits:
  assumes "no_nul d" "no_nul nm" "CHR ''/'' \<notin> set nm" "length d + length nm + 1 < PATH_MAX" "length nm < len"
    "length buf = PATH_MAX" "buf ! (length d + length nm + 1) = NUL"
  shows "\<exists>r r0. get_proc_path_name (Some (d @ ''/'' @ nm)) (Some buf) (Some nb) len = Some r \<and>
      log_get_proc_path_name base (Some (d @ ''/'' @ nm)) (Some buf) (Some nb) len = Some r \<and>
      pn_name r \<bind> cstring = Some nm \<and> pn_dir r \<bind> cstring = Some (d @ ''/'') \<and> pn_ret r = int (length d) + 1 \<and>
      get_proc_path_name (Some (d @ ''/'' @ nm)) None (Some nb) len = Some r0 \<and> pn_name r0 \<bind> cstring = Some nm \<and>
      pn_ret r0 = int (length d) + 1 \<and> pn_freed r0 \<and>
      log_get_proc_path_name base (Some (d @ ''/'' @ nm)) None (Some nb) len =
        Some (r0\<lparr>pn_ret := to_cint (base + int (length d) + 1)\<rparr>)"
proof -
  note S = split_path_exe [OF assms(1-3,6,4,7), of len] overwrite_cut [OF assms(6,4,1,7)] strncpy_buf_short [OF assms(5,2)]
  have Z: "split_path (Some (d @ ''/'' @ nm)) (replicate PATH_MAX NUL) len =
    Some ((overwrite (replicate PATH_MAX NUL) (d @ ''/'' @ nm))[Suc (length d) := NUL], Some (strncpy_buf nm len, Suc (length d)))"
    using assms by (intro split_path_exe) simp_all
  show ?thesis
    using S by (simp add: get_proc_path_name_def log_get_proc_path_name_def Z [simplified] Let_def add.commute add.left_commute)
qed

theorem proc_path_name_splits_witness:
  "\<exists>r r0. get_proc_path_name (Some (''/usr/bin'' @ ''/'' @ ''app'')) (Some (replicate PATH_MAX NUL)) (Some []) 64 = Some r \<and>
      log_get_proc_path_name 7 (Some (''/usr/bin'' @ ''/'' @ ''app'')) (Some (replicate PATH_MAX NUL)) (Some []) 64 = Some r \<and>
      pn_name r \<bind> cstring = Some ''app'' \<and> pn_dir r \<bind> cstring = Some (''/usr/bin'' @ ''/'') \<and> pn_ret r = int (length ''/usr/bin'') + 1 \<and>
      get_proc_path_name (Some (''/usr/bin'' @ ''/'' @ ''app'')) None (Some []) 64 = Some r0 \<and> pn_name r0 \<bind> cstring = Some ''app'' \<and>
      pn_ret r0 = int (length ''/usr/bin'') + 1 \<and> pn_freed r0 \<and>
      log_get_proc_path_name 7 (Some (''/usr/bin'' @ ''/'' @ ''app'')) None (Some []) 64 =
        Some (r0\<lparr>pn_ret := to_cint (7 + int (length ''/usr/bin'') + 1)\<rparr>)"
  by (rule proc_path_name_splits) (simp_all add: PATH_MAX_def)

end
