(* ===== verification/Log_Write.thy ===== *)
theory Log_Write
  imports Log_Conf Local_Time Proc_Name
begin

text \<open>
  \<open>src/src/log/iridiumSysLog/iridiumlog.c\<close>: starting the log, finding or opening the file of a log,
  writing a message, and taking the log down.

  The global variables and the part of the operating system that the code uses (files, open
  descriptors, what went to the terminal) are one state. A pointer that is freed without being reset
  is \<open>GDead\<close>. What the environment answers is a record: file system checks, the configuration file,
  clock and local time, program, host and process names. A message is given as the text that
  \<open>vsnprintf\<close> makes of its format and arguments. The model is of one thread: the mutex, the
  read-write locks and the record locks around a write do not change the data. \<open>malloc\<close> of the two
  name buffers is taken to succeed, and \<open>write\<close> to write everything or nothing. The messages of the
  \<open>PRINT_*\<close> macros are left out.
\<close>

section \<open>State and environment\<close>

definition WRITE_TIMES :: int where "WRITE_TIMES = 500"
definition LOGINFO_MAX_LEN :: nat where "LOGINFO_MAX_LEN = 1024 * 32"
definition IRILOG_PATH :: string where "IRILOG_PATH = ''/var/log/iridium/''"
definition LOGPATH_MAX_LEN :: nat where "LOGPATH_MAX_LEN = 256"
definition NO_INIT :: int where "NO_INIT = 0"
definition HAS_INITED :: int where "HAS_INITED = 1"
definition IRILOG_DEBUG :: int where "IRILOG_DEBUG = 1"
definition IRILOG_INFO :: int where "IRILOG_INFO = 2"
definition IRILOG_ERR :: int where "IRILOG_ERR = 3"
definition IRILOG_FATAL :: int where "IRILOG_FATAL = 4"
definition MONTH_ARRAY_MAX_INDEX :: int where "MONTH_ARRAY_MAX_INDEX = 12"

definition logInfo :: "string list" where
  "logInfo = [''NOUSE'', ''DEBUG'', ''INFO'', ''ERR'', ''FATAL'', ''NOUSE'']"

definition month_array :: "string list" where
  "month_array = [''Jan'', ''Feb'', ''Mar'', ''Apr'', ''May'', ''Jun'', ''Jul'', ''Aug'', ''Sep'', ''Oct'', ''Nov'', ''Dec'', ''ABC'']"

record log_file_node_t =
  n_name :: string
  n_date :: string
  n_fd :: int
  n_times :: int
  n_file_size :: int
  n_id :: int

text \<open>\<open>nodes\<close>: the hash table of the open log files, from names to the addresses of their nodes.\<close>

type_synonym 'g nodes_hash = "('g, unit, addr) ghash"

record ('n, 'g) log_globals =
  g_init_flag :: int
  g_close_log_flag :: int
  g_debug_dead_time :: int
  g_global_log_path :: string
  g_infos :: "'n log_infos_world gptr"
  g_log_file_nodes :: "'g gptr"
  g_getlocaltime_pth :: nat
  g_proc_name :: "string option"
  g_proc_pid :: int
  g_host_name :: "string option"
  g_tm :: lt_vars
  nmem :: "addr \<Rightarrow> log_file_node_t option"
  nbrk :: addr
  os_fds :: "(int \<times> string) list"
  os_files :: "string \<Rightarrow> string"
  os_stderr :: string

record log_env =
  e_dir_exists :: "string \<Rightarrow> bool"
  e_mkdir :: "string \<Rightarrow> bool"
  e_conf :: "char list option"
  e_conf_buf :: bool
  e_time :: int
  e_localtime :: "int \<Rightarrow> tm"
  e_trylock :: bool
  e_pth :: "nat option"
  e_base :: int
  e_exe :: "string option"
  e_pid :: int
  e_host :: string
  e_can_open :: "string \<Rightarrow> bool"
  e_fstat :: bool
  e_write :: bool

section \<open>Text\<close>

definition file_date :: "tm \<Rightarrow> string" where
  "file_date t = snprintf_text 32 (zpad 4 (tm_year t + 1900) @ zpad 2 (tm_mon t + 1) @ zpad 2 (tm_mday t) @ ''-'' @
     zpad 2 (tm_hour t) @ zpad 2 (tm_min t) @ zpad 2 (tm_sec t))"

definition date_text :: "tm \<Rightarrow> string option" where
  "date_text t = do {
     mon \<leftarrow> aget month_array (if tm_mon t < MONTH_ARRAY_MAX_INDEX then tm_mon t else MONTH_ARRAY_MAX_INDEX);
     Some (snprintf_text 32 (mon @ '' '' @ zpad 2 (tm_mday t) @ '' '' @ zpad 4 (tm_year t + 1900) @ '' '' @
       zpad 2 (tm_hour t) @ '':'' @ zpad 2 (tm_min t) @ '':'' @ zpad 2 (tm_sec t) @ '' '')) }"

text \<open>The last component of a path.\<close>

definition base_name :: "string \<Rightarrow> string" where
  "base_name s = (case strrchr s (CHR ''/'') of None \<Rightarrow> s | Some k \<Rightarrow> drop (Suc k) s)"

section \<open>Starting\<close>

definition set_log_path :: "string option \<Rightarrow> ('n, 'g) log_globals \<Rightarrow> ('n, 'g) log_globals run option" where
  "set_log_path logpath s =
     (case logpath of
        None \<Rightarrow> Some (Goes (s\<lparr>g_global_log_path := IRILOG_PATH\<rparr>))
      | Some p \<Rightarrow>
          if p \<noteq> [] \<and> hd p = CHR ''/'' then Some (Exits 0)
          else if p = [] then None
          else Some (Goes (s\<lparr>g_global_log_path :=
            snprintf_text (LOGPATH_MAX_LEN - 1) (IRILOG_PATH @ p @ (if last p \<noteq> CHR ''/'' then ''/'' else []))\<rparr>)))"

text \<open>The names that go into the names of log files.\<close>

definition get_names :: "log_env \<Rightarrow> ('n, 'g) log_globals \<Rightarrow> ('n, 'g) log_globals option" where
  "get_names e s = do {
     pn \<leftarrow> (case g_proc_name s of
        Some p \<Rightarrow> Some p
      | None \<Rightarrow> do {
          r \<leftarrow> log_get_proc_path_name (e_base e) (e_exe e) None (Some (replicate 64 NUL)) 64;
          nm \<leftarrow> pn_name r \<bind> cstring;
          Some (if length nm < 1 then ''default'' else nm) });
     hn \<leftarrow> (case g_host_name s of Some h \<Rightarrow> Some h | None \<Rightarrow> cstring (take 64 (e_host e @ [NUL])));
     Some (s\<lparr>g_proc_name := Some pn, g_proc_pid := e_pid e, g_host_name := Some hn\<rparr>) }"

definition iridium_init_log ::
  "'t conf_hash \<Rightarrow> 'n names_hash \<Rightarrow> 'g nodes_hash \<Rightarrow> (nat \<Rightarrow> bool) \<Rightarrow> log_env \<Rightarrow> string option \<Rightarrow> ('n, 'g) log_globals \<Rightarrow>
     (('n, 'g) log_globals \<times> int) run option" where
  "iridium_init_log h hn hg mal e logpath s =
     (if g_init_flag s \<noteq> NO_INIT then Some (Goes (s\<lparr>g_init_flag := HAS_INITED\<rparr>, 0))
      else andthen (set_log_path logpath s) (\<lambda>s1.
        if \<not> e_dir_exists e (g_global_log_path s1) \<and> \<not> e_mkdir e (g_global_log_path s1)
        then Some (Goes (s1\<lparr>g_init_flag := HAS_INITED\<rparr>, - 1))
        else andthen (get_log_conf_infos h hn mal (e_conf_buf e) (e_conf e)) (\<lambda>(iw, cm). do {
          (a, ctl) \<leftarrow> info_at iw INFOS_ID_CTL;
          if li_log_switch ctl = 0 then do {
            log_conf_infos_destroy (Some iw);
            Some (Goes (s1\<lparr>g_close_log_flag := 1, g_infos := GNull, g_init_flag := HAS_INITED\<rparr>, 0)) }
          else do {
            (b, tsi) \<leftarrow> info_at iw INFOS_ID_TOTAL_SWITCH;
            let s2 = s1\<lparr>g_infos := GLive iw, g_debug_dead_time :=
              (if li_is_valid ctl \<noteq> 0 \<and> li_timer tsi \<noteq> 0 then e_time e + li_timer tsi else g_debug_dead_time s1)\<rparr>;
            let (v, pth) = start_getlocaltime_thread (e_localtime e) (e_time e) (e_pth e);
            s3 \<leftarrow> get_names e (s2\<lparr>g_log_file_nodes := GLive (gh_new hg), g_tm := v, g_getlocaltime_pth := pth\<rparr>);
            Some (Goes (s3\<lparr>g_init_flag := HAS_INITED\<rparr>, 0)) } })))"

definition open_iridiumlog ::
  "'t conf_hash \<Rightarrow> 'n names_hash \<Rightarrow> 'g nodes_hash \<Rightarrow> (nat \<Rightarrow> bool) \<Rightarrow> log_env \<Rightarrow> ('n, 'g) log_globals \<Rightarrow>
     (('n, 'g) log_globals \<times> int) run option" where
  "open_iridiumlog h hn hg mal e s =
     (if g_init_flag s = NO_INIT then iridium_init_log h hn hg mal e None s else Some (Goes (s, 0)))"

text \<open>
  Taking the log down. The pointers to the settings and to the table keep their values; joining a
  thread that was never created is undefined.
\<close>

definition iridium_destroy_log :: "'g nodes_hash \<Rightarrow> ('n, 'g) log_globals \<Rightarrow> ('n, 'g) log_globals option" where
  "iridium_destroy_log hg s = do {
     s1 \<leftarrow> (case g_infos s of
        GNull \<Rightarrow> Some s
      | GLive w \<Rightarrow> do { log_conf_infos_destroy (Some w); Some (s\<lparr>g_infos := GDead\<rparr>) }
      | GDead \<Rightarrow> None);
     s2 \<leftarrow> (case g_log_file_nodes s1 of
        GNull \<Rightarrow> Some s1
      | GLive t \<Rightarrow>
          let (t', ks, vs) = gh_remove_all hg t
          in if list_all (\<lambda>a. nmem s1 a \<noteq> None) vs \<and> distinct vs
             then Some (s1\<lparr>g_log_file_nodes := GDead, nmem := (\<lambda>a. if a \<in> set vs then None else nmem s1 a)\<rparr>) else None
      | GDead \<Rightarrow> None);
     if g_getlocaltime_pth s2 > 0 \<and> g_getlocaltime_pth s2 = 2 ^ 64 - 1 then None
     else Some (s2\<lparr>g_proc_name := None, g_host_name := None\<rparr>) }"

section \<open>Log files\<close>

definition os_close :: "int \<Rightarrow> ('n, 'g) log_globals \<Rightarrow> ('n, 'g) log_globals" where
  "os_close fd s = s\<lparr>os_fds := filter (\<lambda>x. fst x \<noteq> fd) (os_fds s)\<rparr>"

definition os_open :: "log_env \<Rightarrow> string \<Rightarrow> ('n, 'g) log_globals \<Rightarrow> ('n, 'g) log_globals \<times> int" where
  "os_open e path s =
     (if e_can_open e path then (s\<lparr>os_fds := (lowest_fd (os_fds s), path) # os_fds s\<rparr>, lowest_fd (os_fds s)) else (s, - 1))"

definition log_file_path :: "('n, 'g) log_globals \<Rightarrow> string \<Rightarrow> string \<Rightarrow> string option" where
  "log_file_path s nm date = do {
     pn \<leftarrow> g_proc_name s;
     hn \<leftarrow> g_host_name s;
     let new_file_name = snprintf_text 256 (pn @ ''.'' @ nm @ ''.'' @ date @ ''.'' @ hn @ ''.'' @ show_int (g_proc_pid s) @ ''.log'');
     if length (g_global_log_path s) + length new_file_name < LOGPATH_MAX_LEN + 256
     then Some (g_global_log_path s @ new_file_name) else None }"

definition create_log_file_fd :: "log_env \<Rightarrow> log_file_node_t \<Rightarrow> ('n, 'g) log_globals \<Rightarrow> (('n, 'g) log_globals \<times> log_file_node_t) option" where
  "create_log_file_fd e node s = do {
     let s1 = (if n_fd node > 0 then os_close (n_fd node) s else s);
     let (tm_now, v) = get_localtime (e_trylock e) (g_tm s1);
     let node1 = node\<lparr>n_date := file_date tm_now\<rparr>;
     logPath \<leftarrow> log_file_path s1 (n_name node1) (n_date node1);
     let (s2, fd) = os_open e logPath (s1\<lparr>g_tm := v\<rparr>);
     Some (s2, node1\<lparr>n_fd := (if fd > 0 then fd else - 1)\<rparr>) }"

definition new_log_file_node ::
  "log_env \<Rightarrow> single_log_conf_info_t \<Rightarrow> int \<Rightarrow> string option \<Rightarrow> ('n, 'g) log_globals \<Rightarrow> (('n, 'g) log_globals \<times> log_file_node_t) option" where
  "new_log_file_node e info ident lfile s =
     create_log_file_fd e
       \<lparr>n_name = (case lfile of Some f \<Rightarrow> snprintf_text FILE_NAME_LEN f | None \<Rightarrow> li_name info), n_date = [], n_fd = 0,
        n_times = 0, n_file_size = 0, n_id = ident\<rparr> s"

text \<open>
  The node of a log file, as the address of the node, or none for NULL. The path buffer has
  \<open>LOGPATH_MAX_LEN\<close> bytes and is filled before anything else.
\<close>

definition get_log_file_node ::
  "'g nodes_hash \<Rightarrow> log_env \<Rightarrow> string \<Rightarrow> single_log_conf_info_t \<Rightarrow> int \<Rightarrow> ('n, 'g) log_globals \<Rightarrow>
     (('n, 'g) log_globals \<times> addr option) option" where
  "get_log_file_node hg e lfile info ident s =
     (case g_log_file_nodes s of
        GNull \<Rightarrow> Some (s, None)
      | GDead \<Rightarrow> None
      | GLive t \<Rightarrow>
          if length (g_global_log_path s) + length lfile \<ge> LOGPATH_MAX_LEN then None
          else (case gh_lookup hg t lfile of
             Some (_, a) \<Rightarrow> do {
               node \<leftarrow> nmem s a;
               if n_fd node < 0 then do {
                 (s1, node1) \<leftarrow> create_log_file_fd e node s;
                 Some (s1\<lparr>nmem := (nmem s1)(a \<mapsto> node1)\<rparr>, Some a) }
               else Some (s, Some a) }
           | None \<Rightarrow> do {
               (s1, node) \<leftarrow> new_log_file_node e info ident (Some lfile) s;
               let a = nbrk s1;
               let (t', ks, vs) = gh_insert hg t lfile () a;
               Some (s1\<lparr>nmem := (nmem s1)(a \<mapsto> node), nbrk := Suc a, g_log_file_nodes := GLive t'\<rparr>, Some a) }))"

section \<open>Writing a message\<close>

text \<open>The arguments of a call: source file, function, line, level, and the formatted text.\<close>

record log_msg =
  msg_file :: string
  msg_func :: string
  msg_line :: int
  msg_level :: int
  msg_text :: string

record msg_parts =
  pt_date :: string
  pt_file :: string
  pt_func :: string
  pt_line :: string

definition level_on :: "int \<Rightarrow> irilog_switch_t \<Rightarrow> bool" where
  "level_on level sw =
     (if level = IRILOG_DEBUG then lv_debug sw = 1
      else if level = IRILOG_INFO then lv_info sw = 1
      else if level = IRILOG_ERR then lv_err sw = 1
      else if level = IRILOG_FATAL then lv_fatal sw = 1
      else False)"

text \<open>The settings index of a message: the total switch when it is valid, else the log file's, else the default.\<close>

definition select_info_id :: "'n names_hash \<Rightarrow> 'n log_infos_world \<Rightarrow> string option \<Rightarrow> int option" where
  "select_info_id hn w lfile = do {
     (a, ctl) \<leftarrow> info_at w INFOS_ID_CTL;
     if li_is_valid ctl = 0 then
       case lfile of
         Some f \<Rightarrow>
           (case gh_lookup hn (names (infos w)) f of
              Some (p, v) \<Rightarrow> if imem w p = None then None else Some v
            | None \<Rightarrow> Some INFOS_ID_DEFAULT)
       | None \<Rightarrow> Some INFOS_ID_DEFAULT
     else Some INFOS_ID_TOTAL_SWITCH }"

text \<open>The copy of the log file's name; \<open>strncpy\<close> leaves a longer one without terminator.\<close>

definition real_log_file :: "'n log_infos_world \<Rightarrow> string option \<Rightarrow> string option" where
  "real_log_file w lfile =
     (case lfile of
        None \<Rightarrow> map_option (\<lambda>(a, c). li_name c) (info_at w INFOS_ID_DEFAULT)
      | Some f \<Rightarrow> if length f < FILE_NAME_LEN - 1 then Some f else None)"

definition message_parts :: "log_env \<Rightarrow> irilog_switch_t \<Rightarrow> log_msg \<Rightarrow> lt_vars \<Rightarrow> (msg_parts \<times> lt_vars) option" where
  "message_parts e sw m v = do {
     (date_buf, v') \<leftarrow> (if f_date sw \<noteq> 0 \<or> p_date sw \<noteq> 0 then
        let (tm_now, v') = get_localtime (e_trylock e) v in map_option (\<lambda>d. (d, v')) (date_text tm_now)
      else Some ([], v));
     Some (\<lparr>pt_date = date_buf,
       pt_file = (if p_file sw \<noteq> 0 \<or> p_file sw \<noteq> 0 then snprintf_text 1024 (''File:'' @ base_name (msg_file m) @ '' '') else []),
       pt_func = (if f_func sw \<noteq> 0 \<or> p_func sw \<noteq> 0 then snprintf_text 1024 (''Func:'' @ msg_func m @ '' '') else []),
       pt_line = (if f_line sw \<noteq> 0 \<or> p_line sw \<noteq> 0 then snprintf_text 64 (''Line:'' @ show_int (msg_line m)) else [])\<rparr>, v') }"

definition level_buf :: "int \<Rightarrow> string \<Rightarrow> string" where
  "level_buf level lname =
     snprintf_text 64 (CHR 0x1B # (if level = IRILOG_ERR then ''[31m['' else ''[33m['') @ lname @ '']:'' @ CHR 0x1B # ''[0m'')"

definition terminal_text :: "irilog_switch_t \<Rightarrow> msg_parts \<Rightarrow> log_msg \<Rightarrow> string \<Rightarrow> string" where
  "terminal_text sw pt m lname =
     take (LOGINFO_MAX_LEN - 2) (snprintf_text LOGINFO_MAX_LEN
       ((if p_date sw = 1 then pt_date pt else []) @ (if p_file sw = 1 then pt_file pt else []) @
        (if p_func sw = 1 then pt_func pt else []) @ (if p_line sw = 1 then pt_line pt else []) @
        level_buf (msg_level m) lname @ '' '' @ snprintf_text LOGINFO_MAX_LEN (msg_text m) @ [NL]))"

definition file_text :: "irilog_switch_t \<Rightarrow> msg_parts \<Rightarrow> log_msg \<Rightarrow> string \<Rightarrow> string" where
  "file_text sw pt m lname =
     butlast (take (LOGINFO_MAX_LEN - 2) (snprintf_text LOGINFO_MAX_LEN
       ((if f_date sw = 1 then pt_date pt else []) @ (if f_file sw = 1 then pt_file pt else []) @
        (if f_func sw = 1 then pt_func pt else []) @ (if f_line sw = 1 then pt_line pt else []) @
        ''['' @ lname @ ''] '' @ snprintf_text LOGINFO_MAX_LEN (msg_text m) @ [NL]))) @ [NL]"

text \<open>The size check before a write: a new file when the current one has had enough writes and bytes.\<close>

definition rotate_node :: "log_env \<Rightarrow> single_log_conf_info_t \<Rightarrow> log_file_node_t \<Rightarrow> ('n, 'g) log_globals \<Rightarrow> (('n, 'g) log_globals \<times> log_file_node_t) option" where
  "rotate_node e info node s =
     (if n_times node > WRITE_TIMES \<and> n_file_size node > li_single_max_size info \<and> e_fstat e then do {
        (s1, node1) \<leftarrow> create_log_file_fd e node s;
        Some (s1, node1\<lparr>n_file_size := 0, n_times := 0\<rparr>) }
      else Some (s, node))"

definition os_write :: "log_env \<Rightarrow> int \<Rightarrow> string \<Rightarrow> ('n, 'g) log_globals \<Rightarrow> ('n, 'g) log_globals \<times> int" where
  "os_write e fd bytes s =
     (case map_of (os_fds s) fd of
        None \<Rightarrow> (s, - 1)
      | Some path \<Rightarrow>
          if e_write e then (s\<lparr>os_files := (os_files s)(path := os_files s path @ bytes)\<rparr>, int (length bytes)) else (s, - 1))"

definition write_node ::
  "log_env \<Rightarrow> single_log_conf_info_t \<Rightarrow> string \<Rightarrow> addr \<Rightarrow> ('n, 'g) log_globals \<Rightarrow> (('n, 'g) log_globals \<times> int) option" where
  "write_node e info line a s = do {
     node \<leftarrow> nmem s a;
     if n_fd node \<le> 0 then Some (s, - 1)
     else do {
       (s1, node1) \<leftarrow> rotate_node e info node s;
       let (s2, n) = os_write e (n_fd node1) line s1;
       node2 \<leftarrow> (if n < 0 then Some node1
         else do { t \<leftarrow> cint (n_times node1 + 1); Some (node1\<lparr>n_times := t, n_file_size := (n_file_size node1 + n) mod 2 ^ 64\<rparr>) });
       Some (s2\<lparr>nmem := (nmem s2)(a \<mapsto> node2)\<rparr>, 0) } }"

text \<open>The outputs of a message that is to be written.\<close>

definition emit ::
  "'g nodes_hash \<Rightarrow> log_env \<Rightarrow> single_log_conf_info_t \<Rightarrow> int \<Rightarrow> string \<Rightarrow> log_msg \<Rightarrow> ('n, 'g) log_globals \<Rightarrow> (('n, 'g) log_globals \<times> int) option" where
  "emit hg e info ident real m s = do {
     let sw = li_switch info;
     lname \<leftarrow> aget logInfo (msg_level m);
     (pt, v) \<leftarrow> message_parts e sw m (g_tm s);
     let s1 = s\<lparr>g_tm := v\<rparr>;
     let s2 = (if log_terminal sw \<noteq> 0 then s1\<lparr>os_stderr := os_stderr s1 @ terminal_text sw pt m lname\<rparr> else s1);
     if log_file sw \<noteq> 0 then do {
       (s3, n) \<leftarrow> get_log_file_node hg e real info ident s2;
       a \<leftarrow> n;
       write_node e info (file_text sw pt m lname) a s3 }
     else Some (s2, 0) }"

definition transparent_iridium_write_log ::
  "'t conf_hash \<Rightarrow> 'n names_hash \<Rightarrow> 'g nodes_hash \<Rightarrow> (nat \<Rightarrow> bool) \<Rightarrow> log_env \<Rightarrow> string option \<Rightarrow> log_msg \<Rightarrow> ('n, 'g) log_globals \<Rightarrow>
     (('n, 'g) log_globals \<times> int) run option" where
  "transparent_iridium_write_log h hn hg mal e lfile m s =
     andthen (open_iridiumlog h hn hg mal e s) (\<lambda>(s1, ret).
       if ret < 0 then Some (Goes (s1, - 1))
       else if g_close_log_flag s1 = 1 then Some (Goes (s1, 0))
       else if msg_level m = IRILOG_DEBUG \<and> g_debug_dead_time s1 > 0 \<and> g_debug_dead_time s1 < e_time e then Some (Goes (s1, 0))
       else
         case g_infos s1 of
           GLive w \<Rightarrow> do {
             ident \<leftarrow> select_info_id hn w lfile;
             real \<leftarrow> real_log_file w lfile;
             c \<leftarrow> get_log_conf_info (Some w) ident;
             info \<leftarrow> (case c of Ptr a \<Rightarrow> imem w a | _ \<Rightarrow> None);
             let sw = li_switch info;
             if \<not> (log_file sw \<noteq> 0 \<or> log_terminal sw \<noteq> 0) then Some (Goes (s1, - 1))
             else if \<not> level_on (msg_level m) sw then Some (Goes (s1, 0))
             else map_option Goes (emit hg e info ident real m s1) }
         | _ \<Rightarrow> None)"

end
