(* ===== verification/Log_Run.thy ===== *)
theory Log_Run
  imports Log_Write
begin

text \<open>
  What the log library of \<open>Log_Write\<close> promises: a log that was started with a well-formed
  configuration stays in order under any sequence of messages, each message goes to the outputs its
  settings name, and the cases in which the globals are left dangling.
\<close>

section \<open>Opening files\<close>

definition tm_ok :: "lt_vars \<Rightarrow> bool" where
  "tm_ok v \<longleftrightarrow> 0 \<le> tm_mon (iridium_tm_now v) \<and> 0 \<le> tm_mon (iridium_tm_last v)"

lemma get_localtime_ok: "tm_ok v \<Longrightarrow> get_localtime b v = (t, v') \<Longrightarrow> 0 \<le> tm_mon t \<and> tm_ok v'"
  by (auto simp: get_localtime_def tm_ok_def split: if_splits)

lemma date_text_defined: "0 \<le> tm_mon t \<Longrightarrow> \<exists>d. date_text t = Some d"
  by (auto simp: date_text_def aget_def month_array_def MONTH_ARRAY_MAX_INDEX_def)

text \<open>
  The descriptors after a file of a log was opened: the old one is closed; a new one is none of the
  others. With descriptor 0 in use and a file that can be opened, there is a new one.
\<close>

definition others :: "int \<Rightarrow> (int \<times> string) list \<Rightarrow> (int \<times> string) list" where
  "others fd fds = (if fd > 0 then filter (\<lambda>x. fst x \<noteq> fd) fds else fds)"

definition fd_moved :: "int \<Rightarrow> (int \<times> string) list \<Rightarrow> int \<Rightarrow> (int \<times> string) list \<Rightarrow> bool" where
  "fd_moved fd fds fd' fds' \<longleftrightarrow> fd' \<noteq> 0 \<and> (0 < fd' \<longrightarrow> fd' \<notin> fst ` set (others fd fds) \<and> fd' \<in> fst ` set fds') \<and>
     (\<forall>d. d \<noteq> fd' \<longrightarrow> d \<in> fst ` set (others fd fds) \<longrightarrow> map_of fds' d = map_of fds d)"

lemma map_of_others: "d \<in> fst ` set (others fd fds) \<Longrightarrow> map_of (others fd fds) d = map_of fds d"
  by (induction fds) (auto simp: others_def split: if_splits)

definition stdin_open :: "('n, 'g) log_globals \<Rightarrow> bool" where
  "stdin_open s \<longleftrightarrow> 0 \<in> fst ` set (os_fds s)"

definition opens :: "log_env \<Rightarrow> ('n, 'g) log_globals \<Rightarrow> bool" where
  "opens e s \<longleftrightarrow> (\<forall>p. e_can_open e p) \<and> stdin_open s"

lemma map_of_key: "map_of f' d = map_of f d \<Longrightarrow> d \<in> fst ` set f \<Longrightarrow> d \<in> fst ` set f'"
  by (metis map_of_eq_None_iff)

lemma log_file_path_defined:
  assumes "g_proc_name s = Some pn" "g_host_name s = Some hn" "length (g_global_log_path s) + FILE_NAME_LEN \<le> LOGPATH_MAX_LEN"
  shows "\<exists>p. log_file_path s nm d = Some p"
  using assms by (auto simp: log_file_path_def snprintf_text_def LOGPATH_MAX_LEN_def Let_def)

lemma create_log_file_fd_ok:
  assumes "g_proc_name s = Some pn" "g_host_name s = Some hn" "length (g_global_log_path s) + FILE_NAME_LEN \<le> LOGPATH_MAX_LEN"
    and tm: "get_localtime (e_trylock e) (g_tm s) = (t, v)"
  obtains fds' fd' where "create_log_file_fd e node s = Some (s\<lparr>g_tm := v, os_fds := fds'\<rparr>, node\<lparr>n_date := file_date t, n_fd := fd'\<rparr>)"
    "fd_moved (n_fd node) (os_fds s) fd' fds'"
    "opens e s \<longrightarrow> 0 < fd' \<and> map_of fds' fd' = log_file_path s (n_name node) (file_date t)"
proof -
  let ?o = "others (n_fd node) (os_fds s)"
  obtain p where p: "log_file_path s (n_name node) (file_date t) = Some p"
    using log_file_path_defined [OF assms(1-3)] by blast
  have q: "log_file_path (s\<lparr>os_fds := f\<rparr>) nm d = log_file_path s nm d" for f nm d by (simp add: log_file_path_def Let_def cong: if_cong)
  have z: "lowest_fd ?o > 0" if "0 \<in> fst ` set (os_fds s)"
  proof -
    have "0 \<in> fst ` set ?o" using that by (auto simp: others_def)
    then show ?thesis using lowest_fd_free [of ?o] by (metis order_le_less)
  qed
  define fd' where "fd' = (if e_can_open e p \<and> lowest_fd ?o > 0 then lowest_fd ?o else - 1)"
  define fds' where "fds' = (if e_can_open e p then (lowest_fd ?o, p) # ?o else ?o)"
  have run: "create_log_file_fd e node s = Some (s\<lparr>g_tm := v, os_fds := fds'\<rparr>, node\<lparr>n_date := file_date t, n_fd := fd'\<rparr>)"
    using p tm by (auto simp: create_log_file_fd_def os_close_def os_open_def Let_def q fds'_def fd'_def others_def split: if_splits)
  have "d \<noteq> lowest_fd ?o" if "d \<in> fst ` set ?o" for d using that lowest_fd_free(1) [of ?o] by metis
  then have "fd_moved (n_fd node) (os_fds s) fd' fds'"
    using lowest_fd_free(1) [of ?o] map_of_others [of _ "n_fd node" "os_fds s"] by (auto simp: fd_moved_def fds'_def fd'_def)
  moreover have "opens e s \<longrightarrow> 0 < fd' \<and> map_of fds' fd' = log_file_path s (n_name node) (file_date t)"
    using z p by (auto simp: fds'_def fd'_def opens_def stdin_open_def)
  ultimately show ?thesis using run that by blast
qed

section \<open>The table of open logs\<close>

definition node_view :: "'g nodes_hash \<Rightarrow> 'g \<Rightarrow> (addr \<Rightarrow> log_file_node_t option) \<Rightarrow> string \<Rightarrow> log_file_node_t option" where
  "node_view hg t m k = gh_lookup hg t k \<bind> (\<lambda>(p, a). m a)"

text \<open>Each name has its own live object.\<close>

definition addrs_ok :: "'g nodes_hash \<Rightarrow> 'g \<Rightarrow> (addr \<Rightarrow> log_file_node_t option) \<Rightarrow> addr \<Rightarrow> bool" where
  "addrs_ok hg t m b \<longleftrightarrow> (\<forall>k p a. gh_lookup hg t k = Some (p, a) \<longrightarrow> a < b \<and> m a \<noteq> None) \<and>
     (\<forall>k k' p p' a. gh_lookup hg t k = Some (p, a) \<and> gh_lookup hg t k' = Some (p', a) \<longrightarrow> k = k')"

lemma addrs_okD:
  assumes "addrs_ok hg t m b" "gh_lookup hg t k = Some (p, a)"
  shows "a < b" "m a \<noteq> None" "gh_lookup hg t k' = Some (p', a) \<Longrightarrow> k' = k"
  using assms unfolding addrs_ok_def by blast+

lemma node_view_set:
  assumes "addrs_ok hg t m b" "gh_lookup hg t k = Some (p, a)"
  shows "node_view hg t (m(a \<mapsto> nd)) = (node_view hg t m)(k \<mapsto> nd)" "addrs_ok hg t (m(a \<mapsto> nd)) b"
proof -
  have "node_view hg t (m(a \<mapsto> nd)) j = ((node_view hg t m)(k \<mapsto> nd)) j" for j
  proof (cases "gh_lookup hg t j")
    case (Some x)
    then have "j = k" if "snd x = a" using addrs_okD(3) [OF assms, of j "fst x"] that by (cases x) simp
    with Some assms(2) show ?thesis by (cases x) (auto simp: node_view_def)
  qed (use assms(2) in \<open>auto simp: node_view_def\<close>)
  then show "node_view hg t (m(a \<mapsto> nd)) = (node_view hg t m)(k \<mapsto> nd)" by blast
  show "addrs_ok hg t (m(a \<mapsto> nd)) b" using assms(1) by (auto simp: addrs_ok_def)
qed

lemma node_view_add:
  assumes laws: "ghash_laws hg" and ok: "addrs_ok hg t m b" and new: "gh_lookup hg t k = None"
    and ins: "gh_insert hg t k () b = (t', ks, vs)"
  shows "node_view hg t' (m(b \<mapsto> nd)) = (node_view hg t m)(k \<mapsto> nd)" "addrs_ok hg t' (m(b \<mapsto> nd)) (Suc b)"
    "\<exists>p. gh_lookup hg t' k = Some (p, b)"
proof -
  have lk: "gh_lookup hg t' = (gh_lookup hg t)(k \<mapsto> ((), b))" using gh_insert_laws(1) [OF laws ins] new by simp
  have fr: "a \<noteq> b" if "gh_lookup hg t j = Some (p, a)" for j p a using addrs_okD(1) [OF ok that] by simp
  have "node_view hg t' (m(b \<mapsto> nd)) j = ((node_view hg t m)(k \<mapsto> nd)) j" for j
    using fr by (cases "gh_lookup hg t j") (auto simp: node_view_def lk)
  then show "node_view hg t' (m(b \<mapsto> nd)) = (node_view hg t m)(k \<mapsto> nd)" by blast
  show "\<exists>p. gh_lookup hg t' k = Some (p, b)" by (simp add: lk)
  show "addrs_ok hg t' (m(b \<mapsto> nd)) (Suc b)"
    using ok fr unfolding addrs_ok_def lk by (auto simp: less_Suc_eq)
qed

text \<open>The descriptors and counters of the open logs.\<close>

definition node_ok :: "(int \<times> string) list \<Rightarrow> int \<Rightarrow> string \<Rightarrow> log_file_node_t \<Rightarrow> bool" where
  "node_ok fds n k nd \<longleftrightarrow> n_name nd = k \<and> 0 \<le> n_times nd \<and> n_times nd \<le> n \<and> n_fd nd \<noteq> 0 \<and> (0 < n_fd nd \<longrightarrow> n_fd nd \<in> fst ` set fds)"

definition nodes_inv :: "(int \<times> string) list \<Rightarrow> int \<Rightarrow> (string \<Rightarrow> log_file_node_t option) \<Rightarrow> bool" where
  "nodes_inv fds n N \<longleftrightarrow> (\<forall>k nd. N k = Some nd \<longrightarrow> node_ok fds n k nd) \<and>
     (\<forall>k k' nd nd'. N k = Some nd \<and> N k' = Some nd' \<and> n_fd nd = n_fd nd' \<and> 0 < n_fd nd \<longrightarrow> k = k')"

lemma nodes_invD:
  assumes "nodes_inv fds n N" "N k = Some nd"
  shows "n_name nd = k" "0 \<le> n_times nd" "n_times nd \<le> n" "0 < n_fd nd \<Longrightarrow> n_fd nd \<in> fst ` set fds"
    "0 < n_fd nd \<Longrightarrow> N k' = Some nd' \<Longrightarrow> n_fd nd' = n_fd nd \<Longrightarrow> k' = k" "n_fd nd \<noteq> 0"
  using assms unfolding nodes_inv_def node_ok_def by metis+

text \<open>A log whose file was opened anew, from the state without it or with its old descriptor.\<close>

lemma nodes_inv_moved:
  assumes inv: "nodes_inv fds n N" and old: "\<And>nd0. N k = Some nd0 \<Longrightarrow> n_fd nd0 = fd" and none: "N k = None \<Longrightarrow> fd \<le> 0"
    and mv: "fd_moved fd fds (n_fd nd) fds'" and nd: "n_name nd = k" "0 \<le> n_times nd" "n_times nd \<le> n"
  shows "nodes_inv fds' n (N(k \<mapsto> nd))"
proof -
  have kept: "n_fd nd1 \<in> fst ` set (others fd fds)" if "N j = Some nd1" "j \<noteq> k" "0 < n_fd nd1" for j nd1
  proof -
    have "n_fd nd1 \<in> fst ` set fds" using nodes_invD(4) [OF inv that(1,3)] .
    moreover have "n_fd nd1 \<noteq> fd" if pos: "0 < fd"
    proof
      assume "n_fd nd1 = fd"
      moreover obtain nd0 where "N k = Some nd0" using none pos by (cases "N k") auto
      ultimately show False
        using nodes_invD(5) [OF inv \<open>N j = Some nd1\<close> \<open>0 < n_fd nd1\<close>, of k nd0] old \<open>j \<noteq> k\<close> by blast
    qed
    ultimately show ?thesis by (auto simp: others_def)
  qed
  have fresh: "n_fd nd1 \<noteq> n_fd nd" if "N j = Some nd1" "j \<noteq> k" "0 < n_fd nd1" for j nd1
    using kept [OF that] mv that(3) unfolding fd_moved_def by metis
  have still: "n_fd nd1 \<in> fst ` set fds'" if "N j = Some nd1" "j \<noteq> k" "0 < n_fd nd1" for j nd1
  proof -
    have "map_of fds' (n_fd nd1) = map_of fds (n_fd nd1)"
      using mv fresh [OF that] kept [OF that] by (simp add: fd_moved_def)
    then show ?thesis using nodes_invD(4) [OF inv that(1,3)] by (rule map_of_key)
  qed
  show ?thesis
    unfolding nodes_inv_def node_ok_def
  proof (intro conjI allI impI)
    fix j nd1 assume j: "(N(k \<mapsto> nd)) j = Some nd1"
    show "n_name nd1 = j" "0 \<le> n_times nd1" "n_times nd1 \<le> n" "n_fd nd1 \<noteq> 0"
      using j nd mv nodes_invD(1-3,6) [OF inv] by (auto simp: fd_moved_def split: if_splits)
    assume "0 < n_fd nd1"
    with j mv still show "n_fd nd1 \<in> fst ` set fds'" by (auto simp: fd_moved_def split: if_splits)
  next
    fix j j' nd1 nd1' assume "(N(k \<mapsto> nd)) j = Some nd1 \<and> (N(k \<mapsto> nd)) j' = Some nd1' \<and> n_fd nd1 = n_fd nd1' \<and> 0 < n_fd nd1"
    then show "j = j'" using fresh nodes_invD(5) [OF inv] by (metis fun_upd_apply option.sel)
  qed
qed

lemma nodes_inv_count:
  assumes "nodes_inv fds n N" "N k = Some nd" "n_fd nd' = n_fd nd" "n_name nd' = n_name nd" "0 \<le> n_times nd'" "n_times nd' \<le> m" "n \<le> m"
  shows "nodes_inv fds m (N(k \<mapsto> nd'))"
  unfolding nodes_inv_def node_ok_def
proof (intro conjI allI impI)
  fix j nd1 assume j: "(N(k \<mapsto> nd')) j = Some nd1"
  show "n_name nd1 = j" "0 \<le> n_times nd1" "n_times nd1 \<le> m" "n_fd nd1 \<noteq> 0" "0 < n_fd nd1 \<Longrightarrow> n_fd nd1 \<in> fst ` set fds"
    using j assms(3-7) nodes_invD(1-4,6) [OF assms(1), of j nd1] nodes_invD(1-4,6) [OF assms(1,2)] by (auto split: if_splits)
next
  fix j j' nd1 nd1' assume "(N(k \<mapsto> nd')) j = Some nd1 \<and> (N(k \<mapsto> nd')) j' = Some nd1' \<and> n_fd nd1 = n_fd nd1' \<and> 0 < n_fd nd1"
  then show "j = j'" using assms(2,3) nodes_invD(5) [OF assms(1)] by (metis fun_upd_apply option.sel)
qed

section \<open>One log file\<close>

lemma get_localtime_again: "get_localtime b v = (t, v') \<Longrightarrow> get_localtime b v' = (t, v')"
  by (auto simp: get_localtime_def split: if_splits)

text \<open>The parts of the state that the table and the log's file need to be in order.\<close>

definition files_ok :: "'g nodes_hash \<Rightarrow> int \<Rightarrow> 'g \<Rightarrow> ('n, 'g) log_globals \<Rightarrow> bool" where
  "files_ok hg n t s \<longleftrightarrow> g_log_file_nodes s = GLive t \<and> addrs_ok hg t (nmem s) (nbrk s) \<and>
     nodes_inv (os_fds s) n (node_view hg t (nmem s)) \<and> g_proc_name s \<noteq> None \<and> g_host_name s \<noteq> None \<and>
     length (g_global_log_path s) + FILE_NAME_LEN \<le> LOGPATH_MAX_LEN \<and> tm_ok (g_tm s)"

lemma files_okD:
  assumes "files_ok hg n t s"
  shows "g_log_file_nodes s = GLive t" "addrs_ok hg t (nmem s) (nbrk s)" "nodes_inv (os_fds s) n (node_view hg t (nmem s))"
    "\<exists>pn. g_proc_name s = Some pn" "\<exists>h. g_host_name s = Some h"
    "length (g_global_log_path s) + FILE_NAME_LEN \<le> LOGPATH_MAX_LEN" "tm_ok (g_tm s)"
  using assms by (auto simp: files_ok_def)

text \<open>
  The file that a log writes to next: the one it has open, or a new one, whose name has the current
  date, when there is none yet or the open one is full.
\<close>

definition due :: "log_env \<Rightarrow> single_log_conf_info_t \<Rightarrow> log_file_node_t \<Rightarrow> bool" where
  "due e info nd \<longleftrightarrow> n_times nd > WRITE_TIMES \<and> n_file_size nd > li_single_max_size info \<and> e_fstat e"

lemma files_ok_moved:
  assumes ok: "files_ok hg n t s" and N: "gh_lookup hg t k = Some (p, a)" "nmem s a = Some nd"
    and tm: "get_localtime (e_trylock e) (g_tm s) = (u, v)"
  obtains fds' nd' where "create_log_file_fd e nd s = Some (s\<lparr>g_tm := v, os_fds := fds'\<rparr>, nd')"
    "\<forall>z x. 0 \<le> x \<longrightarrow> x \<le> n \<longrightarrow>
       files_ok hg n t (s\<lparr>g_tm := v, os_fds := fds', nmem := (nmem s)(a \<mapsto> nd'\<lparr>n_file_size := z, n_times := x\<rparr>)\<rparr>)"
    "n_times nd' = n_times nd" "n_file_size nd' = n_file_size nd"
    "opens e s \<longrightarrow> 0 < n_fd nd' \<and> map_of fds' (n_fd nd') = log_file_path s k (file_date u)"
    "stdin_open s \<longrightarrow> 0 \<in> fst ` set fds'"
proof -
  note D = files_okD [OF ok]
  obtain pn h where nm: "g_proc_name s = Some pn" "g_host_name s = Some h" using D(4,5) by blast
  have v: "node_view hg t (nmem s) k = Some nd" using N by (simp add: node_view_def)
  note I = nodes_invD [OF D(3) v]
  obtain fds' fd' where c: "create_log_file_fd e nd s = Some (s\<lparr>g_tm := v, os_fds := fds'\<rparr>, nd\<lparr>n_date := file_date u, n_fd := fd'\<rparr>)"
    "fd_moved (n_fd nd) (os_fds s) fd' fds'"
    "opens e s \<longrightarrow> 0 < fd' \<and> map_of fds' fd' = log_file_path s (n_name nd) (file_date u)"
    using create_log_file_fd_ok [OF nm D(6) tm, of nd] by blast
  have m: "nodes_inv fds' n ((node_view hg t (nmem s))(k \<mapsto> nd'))"
    if "n_fd nd' = fd'" "n_name nd' = k" "0 \<le> n_times nd'" "n_times nd' \<le> n" for nd'
    by (rule nodes_inv_moved [OF D(3), of k "n_fd nd"]) (use that v c(2) in auto)
  have "files_ok hg n t (s\<lparr>g_tm := v, os_fds := fds', nmem := (nmem s)(a \<mapsto> nd\<lparr>n_date := file_date u, n_fd := fd'\<rparr>\<lparr>n_file_size := z, n_times := x\<rparr>)\<rparr>)"
    if "0 \<le> x" "x \<le> n" for x z
    using D get_localtime_ok [OF D(7) tm] I(1) that m
    by (simp add: files_ok_def node_view_set [OF D(2) N(1)])
  moreover have "0 \<in> fst ` set fds'" if z: "0 \<in> fst ` set (os_fds s)"
  proof -
    have "0 \<in> fst ` set (others (n_fd nd) (os_fds s))" using z by (auto simp: others_def)
    then have "map_of fds' 0 = map_of (os_fds s) 0" using c(2) by (auto simp: fd_moved_def)
    then show ?thesis using z by (rule map_of_key)
  qed
  ultimately show ?thesis using that [OF c(1)] c(3) I(1) by (simp add: stdin_open_def)
qed

text \<open>A step that touches only the table, the descriptors and the last time that was read.\<close>

definition same_log :: "('n, 'g) log_globals \<Rightarrow> ('n, 'g) log_globals \<Rightarrow> bool" where
  "same_log s s' \<longleftrightarrow> s' = s\<lparr>g_tm := g_tm s', g_log_file_nodes := g_log_file_nodes s', nmem := nmem s', nbrk := nbrk s', os_fds := os_fds s'\<rparr>"

lemma same_logD:
  assumes "same_log s s'"
  shows "g_infos s' = g_infos s" "g_init_flag s' = g_init_flag s" "g_close_log_flag s' = g_close_log_flag s"
    "os_files s' = os_files s" "os_stderr s' = os_stderr s" "log_file_path s' = log_file_path s"
    "g_getlocaltime_pth s' = g_getlocaltime_pth s"
  using assms by (cases s; cases s'; auto simp: same_log_def log_file_path_def fun_eq_iff Let_def cong: if_cong)+

lemma same_log_refl: "same_log s s"
  by (simp add: same_log_def)

lemma same_log_trans: "same_log s s' \<Longrightarrow> same_log s' s'' \<Longrightarrow> same_log s s''"
  by (cases s; cases s'; cases s'') (simp add: same_log_def)

text \<open>A log that is not in the table yet.\<close>

lemma new_node_ok:
  assumes laws: "ghash_laws hg" and ok: "files_ok hg n t s" and new: "gh_lookup hg t k = None" "0 \<le> n" "length k < FILE_NAME_LEN"
    and tm: "get_localtime (e_trylock e) (g_tm s) = (u, v)"
  obtains s' nd t' p where "get_log_file_node hg e k info ident s = Some (s', Some (nbrk s))" "same_log s s'" "g_tm s' = v"
    "files_ok hg n t' s'" "gh_lookup hg t' k = Some (p, nbrk s)" "nmem s' (nbrk s) = Some nd"
    "node_view hg t' (nmem s') = (node_view hg t (nmem s))(k \<mapsto> nd)" "n_times nd = 0"
    "opens e s \<longrightarrow> 0 < n_fd nd \<and> map_of (os_fds s') (n_fd nd) = log_file_path s k (file_date u)"
    "stdin_open s \<longrightarrow> stdin_open s'"
proof -
  note D = files_okD [OF ok]
  obtain pn h where nm: "g_proc_name s = Some pn" "g_host_name s = Some h" using D(4,5) by blast
  let ?nd = "\<lparr>n_name = k, n_date = [], n_fd = 0, n_times = 0, n_file_size = 0, n_id = ident\<rparr> :: log_file_node_t"
  obtain fds' fd' where c: "create_log_file_fd e ?nd s = Some (s\<lparr>g_tm := v, os_fds := fds'\<rparr>, ?nd\<lparr>n_date := file_date u, n_fd := fd'\<rparr>)"
    "fd_moved 0 (os_fds s) fd' fds'"
    "opens e s \<longrightarrow> 0 < fd' \<and> map_of fds' fd' = log_file_path s k (file_date u)"
    by (rule create_log_file_fd_ok [OF nm D(6) tm, of ?nd]) simp_all
  define nd where "nd = ?nd\<lparr>n_date := file_date u, n_fd := fd'\<rparr>"
  obtain t' ks vs where ins: "gh_insert hg t k () (nbrk s) = (t', ks, vs)" by (metis prod_cases3)
  note V = node_view_add(1,2) [OF laws D(2) new(1) ins, of nd]
  obtain p where p: "gh_lookup hg t' k = Some (p, nbrk s)" using node_view_add(3) [OF laws D(2) new(1) ins] by blast
  let ?s' = "s\<lparr>g_tm := v, os_fds := fds', nmem := (nmem s)(nbrk s \<mapsto> nd), nbrk := Suc (nbrk s), g_log_file_nodes := GLive t'\<rparr>"
  have "length (g_global_log_path s) + length k < LOGPATH_MAX_LEN" using D(6) new(3) by simp
  moreover have "take 127 k = k" using new(3) by (simp add: FILE_NAME_LEN_def)
  ultimately have run: "get_log_file_node hg e k info ident s = Some (?s', Some (nbrk s))"
    using new(1) c(1) ins by (simp add: get_log_file_node_def D(1) new_log_file_node_def snprintf_text_def FILE_NAME_LEN_def nd_def Let_def)
  have "node_view hg t (nmem s) k = None" using new(1) by (simp add: node_view_def)
  then have "nodes_inv fds' n ((node_view hg t (nmem s))(k \<mapsto> nd))"
    by (intro nodes_inv_moved [OF D(3), of k 0]) (use c(2) new(2) in \<open>auto simp: nd_def\<close>)
  then have f: "files_ok hg n t' ?s'"
    using D V get_localtime_ok [OF D(7) tm] by (simp add: files_ok_def)
  have sl: "same_log s ?s'" by (simp add: same_log_def)
  have "stdin_open ?s'" if "stdin_open s"
  proof -
    have "map_of fds' 0 = map_of (os_fds s) 0" using that c(2) by (auto simp: fd_moved_def others_def stdin_open_def)
    then show ?thesis using that map_of_key [of fds' 0 "os_fds s"] by (simp add: stdin_open_def)
  qed
  with run sl f p V(1) c(3) show ?thesis by (intro that [of ?s' t' p nd]) (auto simp: nd_def stdin_open_def)
qed

text \<open>
  Finding the log's node, and opening a file when the log has none.
\<close>

lemma get_node_ok:
  assumes laws: "ghash_laws hg" and ok: "files_ok hg n t s" and k: "0 \<le> n" "length k < FILE_NAME_LEN"
    and tm: "get_localtime (e_trylock e) (g_tm s) = (u, v)"
  obtains s' a nd t' p where "get_log_file_node hg e k info ident s = Some (s', Some a)" "same_log s s'"
    "get_localtime (e_trylock e) (g_tm s') = (u, v)"
    "files_ok hg n t' s'" "gh_lookup hg t' k = Some (p, a)" "nmem s' a = Some nd"
    "node_view hg t' (nmem s') = (node_view hg t (nmem s))(k \<mapsto> nd)"
    "\<forall>nd0. node_view hg t (nmem s) k = Some nd0 \<longrightarrow> 0 < n_fd nd0 \<longrightarrow> nd = nd0 \<and> os_fds s' = os_fds s"
    "opens e s \<longrightarrow> \<not> (\<exists>nd0. node_view hg t (nmem s) k = Some nd0 \<and> 0 < n_fd nd0) \<longrightarrow>
       0 < n_fd nd \<and> map_of (os_fds s') (n_fd nd) = log_file_path s k (file_date u)"
    "stdin_open s \<longrightarrow> stdin_open s'"
proof (cases "gh_lookup hg t k")
  case None
  then have nv: "node_view hg t (nmem s) k = None" by (simp add: node_view_def)
  note tm2 = get_localtime_again [OF tm]
  show ?thesis
    by (rule new_node_ok [OF laws ok None k tm, of info ident], rule that) (use tm2 nv in auto)
next
  case (Some pa)
  obtain p a where pa: "pa = (p, a)" by (cases pa)
  note D = files_okD [OF ok]
  obtain nd where nd: "nmem s a = Some nd" using addrs_okD(2) [OF D(2)] Some pa by blast
  have v: "node_view hg t (nmem s) k = Some nd" using Some pa nd by (simp add: node_view_def)
  note I = nodes_invD [OF D(3) v]
  have len: "\<not> LOGPATH_MAX_LEN \<le> length (g_global_log_path s) + length k" using D(6) k(2) by simp
  show ?thesis
  proof (cases "n_fd nd < 0")
    case False
    then have fd: "0 < n_fd nd" using I(6) by simp
    have upd: "node_view hg t (nmem s) = (node_view hg t (nmem s))(k \<mapsto> nd)" using v by (simp add: fun_upd_idem)
    show ?thesis
      by (rule that [OF _ same_log_refl tm ok, of a p nd])
        (use Some pa nd v len fd upd in \<open>auto simp: get_log_file_node_def D(1)\<close>)
  next
    case True
    obtain fds' nd' where c: "create_log_file_fd e nd s = Some (s\<lparr>g_tm := v, os_fds := fds'\<rparr>, nd')"
      "\<forall>z x. 0 \<le> x \<longrightarrow> x \<le> n \<longrightarrow>
         files_ok hg n t (s\<lparr>g_tm := v, os_fds := fds', nmem := (nmem s)(a \<mapsto> nd'\<lparr>n_file_size := z, n_times := x\<rparr>)\<rparr>)"
      "n_times nd' = n_times nd" "n_file_size nd' = n_file_size nd"
      "opens e s \<longrightarrow> 0 < n_fd nd' \<and> map_of fds' (n_fd nd') = log_file_path s k (file_date u)"
      "stdin_open s \<longrightarrow> 0 \<in> fst ` set fds'"
      using files_ok_moved [OF ok _ nd tm] Some pa by blast
    let ?s' = "s\<lparr>g_tm := v, os_fds := fds', nmem := (nmem s)(a \<mapsto> nd')\<rparr>"
    have "0 \<le> n_times nd'" "n_times nd' \<le> n" using c(3) I(2,3) by simp_all
    with c(2) [rule_format, of "n_times nd'" "n_file_size nd'"] have ok': "files_ok hg n t ?s'" by simp
    have run: "get_log_file_node hg e k info ident s = Some (?s', Some a)"
      using Some pa nd len True c(1) by (simp add: get_log_file_node_def D(1))
    have sl: "same_log s ?s'" by (simp add: same_log_def)
    have tm2: "get_localtime (e_trylock e) (g_tm ?s') = (u, v)" using get_localtime_again [OF tm] by simp
    have upd: "node_view hg t (nmem ?s') = (node_view hg t (nmem s))(k \<mapsto> nd')"
      using node_view_set(1) [OF D(2)] Some pa by simp
    show ?thesis
      by (rule that [OF run sl tm2 ok' _ _ upd]) (use Some pa v True c(5,6) in \<open>auto simp: stdin_open_def\<close>)
  qed
qed

text \<open>The size check.\<close>

lemma rotate_ok:
  assumes ok: "files_ok hg n t s" and N: "gh_lookup hg t k = Some (p, a)" "nmem s a = Some nd"
    and tm: "get_localtime (e_trylock e) (g_tm s) = (u, v)"
  obtains s' nd' where "rotate_node e info nd s = Some (s', nd')" "same_log s s'"
    "files_ok hg n t (s'\<lparr>nmem := (nmem s')(a \<mapsto> nd')\<rparr>)" "nmem s' = nmem s"
    "\<not> due e info nd \<longrightarrow> nd' = nd \<and> os_fds s' = os_fds s"
    "opens e s \<longrightarrow> due e info nd \<longrightarrow>
       0 < n_fd nd' \<and> map_of (os_fds s') (n_fd nd') = log_file_path s k (file_date u)"
    "due e info nd \<longrightarrow> n_times nd' = 0"
proof (cases "due e info nd")
  case False
  then have run: "rotate_node e info nd s = Some (s, nd)" by (auto simp: rotate_node_def due_def)
  have upd: "files_ok hg n t (s\<lparr>nmem := (nmem s)(a \<mapsto> nd)\<rparr>)"
    using ok N(2) by (simp add: files_ok_def fun_upd_idem)
  show ?thesis by (rule that [OF run same_log_refl upd]) (use False in auto)
next
  case True
  note D = files_okD [OF ok]
  have v: "node_view hg t (nmem s) k = Some nd" using N by (simp add: node_view_def)
  have n: "0 \<le> n" using nodes_invD(2,3) [OF D(3) v] by simp
  obtain fds' nd' where c: "create_log_file_fd e nd s = Some (s\<lparr>g_tm := v, os_fds := fds'\<rparr>, nd')"
    "\<forall>z x. 0 \<le> x \<longrightarrow> x \<le> n \<longrightarrow>
       files_ok hg n t (s\<lparr>g_tm := v, os_fds := fds', nmem := (nmem s)(a \<mapsto> nd'\<lparr>n_file_size := z, n_times := x\<rparr>)\<rparr>)"
    "opens e s \<longrightarrow> 0 < n_fd nd' \<and> map_of fds' (n_fd nd') = log_file_path s k (file_date u)"
    using files_ok_moved [OF ok N tm] by metis
  have run: "rotate_node e info nd s = Some (s\<lparr>g_tm := v, os_fds := fds'\<rparr>, nd'\<lparr>n_file_size := 0, n_times := 0\<rparr>)"
    using True c(1) by (simp add: rotate_node_def due_def)
  have sl: "same_log s (s\<lparr>g_tm := v, os_fds := fds'\<rparr>)" by (simp add: same_log_def)
  show ?thesis
    by (rule that [OF run sl]) (use c(2) n True c(3) in auto)
qed

lemma files_ok_count:
  assumes ok: "files_ok hg n t s" and N: "gh_lookup hg t k = Some (p, a)" "nmem s a = Some nd"
    and nd': "n_fd nd' = n_fd nd" "n_name nd' = n_name nd" "n_times nd' = n_times nd \<or> n_times nd' = n_times nd + 1"
  shows "files_ok hg (n + 1) t (s\<lparr>nmem := (nmem s)(a \<mapsto> nd'), os_files := f\<rparr>)"
proof -
  note D = files_okD [OF ok]
  have v: "node_view hg t (nmem s) k = Some nd" using N by (simp add: node_view_def)
  have "nodes_inv (os_fds s) (n + 1) ((node_view hg t (nmem s))(k \<mapsto> nd'))"
    by (rule nodes_inv_count [OF D(3) v nd'(1,2)]) (use nodes_invD(2,3) [OF D(3) v] nd'(3) in auto)
  then show ?thesis using D by (simp add: files_ok_def node_view_set [OF D(2) N(1)])
qed

text \<open>Writing a line to the log's node.\<close>

lemma write_node_ok:
  assumes ok: "files_ok hg n t s" and N: "gh_lookup hg t k = Some (p, a)" "nmem s a = Some nd"
    and tm: "get_localtime (e_trylock e) (g_tm s) = (u, v)" and n: "n < INT_MAX"
  obtains s1 nd' f r where "write_node e info text a s = Some (s1\<lparr>nmem := (nmem s)(a \<mapsto> nd'), os_files := f\<rparr>, r)" "same_log s s1"
    "r = 0 \<or> r = - 1" "files_ok hg (n + 1) t (s1\<lparr>nmem := (nmem s)(a \<mapsto> nd'), os_files := f\<rparr>)"
    "0 < n_fd nd \<longrightarrow> e_write e \<longrightarrow> opens e s \<longrightarrow>
       (\<exists>path. r = 0 \<and> 0 < n_fd nd' \<and> map_of (os_fds s1) (n_fd nd') = Some path \<and>
          f = (os_files s)(path := os_files s path @ text) \<and>
          Some path = (if due e info nd then log_file_path s k (file_date u) else map_of (os_fds s) (n_fd nd)) \<and>
          n_times nd' = (if due e info nd then 1 else n_times nd + 1))"
proof (cases "n_fd nd \<le> 0")
  case True
  have "files_ok hg (n + 1) t (s\<lparr>nmem := (nmem s)(a \<mapsto> nd), os_files := os_files s\<rparr>)"
    by (rule files_ok_count [OF ok N]) auto
  then show ?thesis using True N
    by (intro that [of "os_files s" nd s "- 1"]) (auto simp: write_node_def same_log_refl fun_upd_idem)
next
  case False
  obtain s1 nd1 where rt: "rotate_node e info nd s = Some (s1, nd1)" "same_log s s1"
    "files_ok hg n t (s1\<lparr>nmem := (nmem s1)(a \<mapsto> nd1)\<rparr>)" "nmem s1 = nmem s"
    "\<not> due e info nd \<longrightarrow> nd1 = nd \<and> os_fds s1 = os_fds s"
    "opens e s \<longrightarrow> due e info nd \<longrightarrow> 0 < n_fd nd1 \<and> map_of (os_fds s1) (n_fd nd1) = log_file_path s k (file_date u)"
    "due e info nd \<longrightarrow> n_times nd1 = 0"
    using rotate_ok [OF ok N tm, of info] by metis
  obtain lp where lp: "log_file_path s k (file_date u) = Some lp"
    using log_file_path_defined files_okD(4-6) [OF ok] by blast
  have tms: "0 \<le> n_times nd1" "n_times nd1 \<le> n"
    using nodes_invD(2,3) [OF files_okD(3) [OF rt(3)], of k nd1] N(1) by (simp_all add: node_view_def)
  then have inc: "cint (n_times nd1 + 1) = Some (n_times nd1 + 1)" using n by (simp add: cint_def int_limits)
  obtain f r' where w: "os_write e (n_fd nd1) text s1 = (s1\<lparr>os_files := f\<rparr>, r')"
    "\<forall>path. map_of (os_fds s1) (n_fd nd1) = Some path \<longrightarrow> e_write e \<longrightarrow>
       f = (os_files s)(path := os_files s path @ text) \<and> r' = int (length text)"
  proof (cases "map_of (os_fds s1) (n_fd nd1)")
    case None
    then show ?thesis by (intro that [of "os_files s1" "- 1"]) (auto simp: os_write_def)
  next
    case (Some path)
    then show ?thesis using same_logD(4) [OF rt(2)]
      by (intro that [of "if e_write e then (os_files s)(path := os_files s path @ text) else os_files s"
            "if e_write e then int (length text) else - 1"]) (auto simp: os_write_def)
  qed
  define nd2 where "nd2 = (if r' < 0 then nd1 else nd1\<lparr>n_times := n_times nd1 + 1, n_file_size := (n_file_size nd1 + r') mod 2 ^ 64\<rparr>)"
  have run: "write_node e info text a s = Some (s1\<lparr>nmem := (nmem s)(a \<mapsto> nd2), os_files := f\<rparr>, 0)"
    using False N(2) rt(1,4) w(1) inc by (simp add: write_node_def nd2_def)
  have "files_ok hg (n + 1) t (s1\<lparr>nmem := (nmem s)(a \<mapsto> nd2), os_files := f\<rparr>)"
    using files_ok_count [OF rt(3), of k p a nd1 nd2 f] N(1) rt(4) by (simp add: nd2_def)
  moreover have "\<exists>path. map_of (os_fds s1) (n_fd nd2) = Some path \<and> f = (os_files s)(path := os_files s path @ text) \<and> 0 < n_fd nd2 \<and>
      Some path = (if due e info nd then log_file_path s k (file_date u) else map_of (os_fds s) (n_fd nd)) \<and>
      n_times nd2 = (if due e info nd then 1 else n_times nd + 1)" if "e_write e" "opens e s"
  proof -
    have "\<exists>path. map_of (os_fds s1) (n_fd nd1) = Some path \<and> 0 < n_fd nd1 \<and>
        Some path = (if due e info nd then log_file_path s k (file_date u) else map_of (os_fds s) (n_fd nd))"
    proof (cases "due e info nd")
      case True
      then show ?thesis using rt(6) that(2) lp by auto
    next
      case nd: False
      have "n_fd nd \<in> fst ` set (os_fds s)"
        using nodes_invD(4) [OF files_okD(3) [OF ok], of k nd] N False by (simp add: node_view_def)
      then have "map_of (os_fds s) (n_fd nd) \<noteq> None" by (simp add: map_of_eq_None_iff)
      then show ?thesis using nd rt(5) False by auto
    qed
    then obtain path where path: "map_of (os_fds s1) (n_fd nd1) = Some path" "0 < n_fd nd1"
      "Some path = (if due e info nd then log_file_path s k (file_date u) else map_of (os_fds s) (n_fd nd))"
      by blast
    have "r' = int (length text)" "f = (os_files s)(path := os_files s path @ text)" using w(2) path(1) that(1) by auto
    then show ?thesis using path rt(5,7) by (intro exI [of _ path]) (auto simp: nd2_def)
  qed
  ultimately show ?thesis using run rt(2) by (intro that [of f nd2 s1 0]) auto
qed

section \<open>The settings of a message\<close>

text \<open>
  Those of the total switch when it is valid, else those of the log file's block, else the built-in ones.
\<close>

definition settings_for :: "'n names_hash \<Rightarrow> 'n log_infos_world \<Rightarrow> string option \<Rightarrow> single_log_conf_info_t option" where
  "settings_for hn w lfile = do {
     (a, ctl) \<leftarrow> info_at w INFOS_ID_CTL;
     if li_is_valid ctl \<noteq> 0 then map_option snd (info_at w INFOS_ID_TOTAL_SWITCH)
     else Some (case lfile \<bind> settings_view hn w of None \<Rightarrow> default_info | Some i \<Rightarrow> i) }"

definition infos_ok :: "'n names_hash \<Rightarrow> 'n log_infos_world \<Rightarrow> bool" where
  "infos_ok hn w \<longleftrightarrow> (\<exists>as. infos_rep hn w as \<and> imem w (as ! 2) = Some default_info)"

lemma info_cell:
  assumes "array_rep w as" "i < length as"
  shows "get_log_conf_info (Some w) (int i) = Some (Ptr (as ! i))"
  using assms array_repD(1) [OF assms(1)] by (auto elim!: array_repE simp: get_log_conf_info_def nth_append)

lemma select_ok:
  assumes "infos_ok hn w"
  obtains i a info where "select_info_id hn w lfile = Some i" "get_log_conf_info (Some w) i = Some (Ptr a)" "imem w a = Some info"
    "settings_for hn w lfile = Some info"
proof -
  obtain "as" where rep: "infos_rep hn w as" and def: "imem w (as ! 2) = Some default_info" using assms by (auto simp: infos_ok_def)
  have ar: "array_rep w as" using rep by (simp add: infos_rep_def)
  have ln: "0 < length as" "1 < length as" "2 < length as" using array_repD(2) [OF ar] by auto
  obtain ctl where ctl: "info_at w INFOS_ID_CTL = Some (as ! 0, ctl)" using info_at_rep [OF ar ln(1)] by (auto simp: infos_ids)
  obtain tsi where tsi: "imem w (as ! 1) = Some tsi" "info_at w INFOS_ID_TOTAL_SWITCH = Some (as ! 1, tsi)"
    using info_at_rep [OF ar ln(2)] by (auto simp: infos_ids)
  note cells = info_cell [OF ar ln(2)] info_cell [OF ar ln(3)]
  show ?thesis
  proof (cases "li_is_valid ctl \<noteq> 0")
    case True
    then show ?thesis using ctl tsi cells(1)
      by (intro that [of INFOS_ID_TOTAL_SWITCH "as ! 1" tsi]) (auto simp: select_info_id_def settings_for_def infos_ids)
  next
    case valid: False
    show ?thesis
    proof (cases "lfile \<bind> gh_lookup hn (names (infos w))")
      case None
      then have "lfile \<bind> settings_view hn w = None" by (cases lfile) (auto simp: settings_view_def)
      then show ?thesis using None valid ctl def cells(2)
        by (intro that [of INFOS_ID_DEFAULT "as ! 2" default_info])
          (auto simp: select_info_id_def settings_for_def infos_ids split: option.splits)
    next
      case (Some pv)
      obtain p v f where f: "lfile = Some f" "gh_lookup hn (names (infos w)) f = Some (p, v)" using Some by (cases lfile; cases pv) auto
      then obtain c' i c where i: "v = int i" "i < length as" "imem w (as ! i) = Some c" "imem w p = Some c'"
        using rep unfolding infos_rep_def names_rep_def by blast
      then have "settings_view hn w f = Some c" using f by (simp add: settings_view_rep [OF rep])
      then show ?thesis using f i valid ctl info_cell [OF ar i(2)]
        by (intro that [of v "as ! i" c]) (auto simp: select_info_id_def settings_for_def)
    qed
  qed
qed

section \<open>A message\<close>

text \<open>The file that a message of log \<open>k\<close> is written to.\<close>

definition next_file ::
  "'g nodes_hash \<Rightarrow> log_env \<Rightarrow> single_log_conf_info_t \<Rightarrow> ('n, 'g) log_globals \<Rightarrow> string \<Rightarrow> string option" where
  "next_file hg e info s k =
     (let fresh = log_file_path s k (file_date (fst (get_localtime (e_trylock e) (g_tm s)))) in
      case g_log_file_nodes s of
        GLive t \<Rightarrow> (case node_view hg t (nmem s) k of
           Some nd \<Rightarrow> if 0 < n_fd nd \<and> \<not> due e info nd then map_of (os_fds s) (n_fd nd) else fresh
         | None \<Rightarrow> fresh)
      | _ \<Rightarrow> None)"

definition open_file :: "'g nodes_hash \<Rightarrow> ('n, 'g) log_globals \<Rightarrow> string \<Rightarrow> string option" where
  "open_file hg s k = (case g_log_file_nodes s of
      GLive t \<Rightarrow> node_view hg t (nmem s) k \<bind> (\<lambda>nd. if 0 < n_fd nd then map_of (os_fds s) (n_fd nd) else None)
    | _ \<Rightarrow> None)"

lemma message_parts_ok:
  assumes "tm_ok v" "get_localtime (e_trylock e) v = (u, v')"
  obtains pt v2 where "message_parts e sw m v = Some (pt, v2)" "tm_ok v2" "get_localtime (e_trylock e) v2 = (u, v')"
proof -
  obtain d where "date_text u = Some d" using date_text_defined get_localtime_ok [OF assms] by blast
  then show ?thesis using that assms get_localtime_ok [OF assms] get_localtime_again [OF assms(2)]
    by (cases "f_date sw \<noteq> 0 \<or> p_date sw \<noteq> 0") (auto simp: message_parts_def)
qed

lemma level_on_name: "level_on l sw \<Longrightarrow> \<exists>lname. aget logInfo l = Some lname"
  by (auto simp: level_on_def aget_def logInfo_def IRILOG_DEBUG_def IRILOG_INFO_def IRILOG_ERR_def IRILOG_FATAL_def split: if_splits)

text \<open>Finding the node and writing the line, together.\<close>

definition frame :: "('n, 'g) log_globals \<Rightarrow> ('n, 'g) log_globals \<Rightarrow> bool" where
  "frame s s' \<longleftrightarrow> g_infos s' = g_infos s \<and> g_init_flag s' = g_init_flag s \<and> g_close_log_flag s' = g_close_log_flag s \<and>
     g_getlocaltime_pth s' = g_getlocaltime_pth s"

lemma file_line_ok:
  assumes laws: "ghash_laws hg" and ok: "files_ok hg n t s" and k: "0 \<le> n" "n < INT_MAX" "length k < FILE_NAME_LEN"
  obtains s' r t' where
    "do { (s3, a) \<leftarrow> get_log_file_node hg e k info ident s; a' \<leftarrow> a; write_node e info text a' s3 } = Some (s', r)"
    "r = 0 \<or> r = - 1" "files_ok hg (n + 1) t' s'" "frame s s'" "os_stderr s' = os_stderr s"
    "opens e s \<longrightarrow> e_write e \<longrightarrow> (\<exists>path. r = 0 \<and> next_file hg e info s k = Some path \<and> open_file hg s' k = Some path \<and>
       os_files s' = (os_files s)(path := os_files s path @ text))"
proof -
  note D = files_okD [OF ok]
  obtain u v where tm: "get_localtime (e_trylock e) (g_tm s) = (u, v)" by (cases "get_localtime (e_trylock e) (g_tm s)")
  obtain s3 a nd t' p where g: "get_log_file_node hg e k info ident s = Some (s3, Some a)" "same_log s s3"
    "get_localtime (e_trylock e) (g_tm s3) = (u, v)"
    "files_ok hg n t' s3" "gh_lookup hg t' k = Some (p, a)" "nmem s3 a = Some nd" "node_view hg t' (nmem s3) = (node_view hg t (nmem s))(k \<mapsto> nd)"
    "\<forall>nd0. node_view hg t (nmem s) k = Some nd0 \<longrightarrow> 0 < n_fd nd0 \<longrightarrow> nd = nd0 \<and> os_fds s3 = os_fds s"
    "opens e s \<longrightarrow> \<not> (\<exists>nd0. node_view hg t (nmem s) k = Some nd0 \<and> 0 < n_fd nd0) \<longrightarrow>
       0 < n_fd nd \<and> map_of (os_fds s3) (n_fd nd) = log_file_path s k (file_date u)"
    "stdin_open s \<longrightarrow> stdin_open s3"
    by (rule get_node_ok [OF laws ok k(1,3) tm, of info ident])
  obtain s1 nd' f r where w: "write_node e info text a s3 = Some (s1\<lparr>nmem := (nmem s3)(a \<mapsto> nd'), os_files := f\<rparr>, r)" "same_log s3 s1"
    "r = 0 \<or> r = - 1" "files_ok hg (n + 1) t' (s1\<lparr>nmem := (nmem s3)(a \<mapsto> nd'), os_files := f\<rparr>)"
    "0 < n_fd nd \<longrightarrow> e_write e \<longrightarrow> opens e s3 \<longrightarrow>
       (\<exists>path. r = 0 \<and> 0 < n_fd nd' \<and> map_of (os_fds s1) (n_fd nd') = Some path \<and>
          f = (os_files s3)(path := os_files s3 path @ text) \<and>
          Some path = (if due e info nd then log_file_path s3 k (file_date u) else map_of (os_fds s3) (n_fd nd)) \<and>
          n_times nd' = (if due e info nd then 1 else n_times nd + 1))"
    by (rule write_node_ok [OF g(4) g(5) g(6) g(3) k(2), of info "text"])
  let ?s' = "s1\<lparr>nmem := (nmem s3)(a \<mapsto> nd'), os_files := f\<rparr>"
  note L = same_logD [OF g(2)] same_logD [OF w(2)]
  have "\<exists>path. r = 0 \<and> next_file hg e info s k = Some path \<and> open_file hg ?s' k = Some path \<and>
      f = (os_files s)(path := os_files s path @ text)" if o: "opens e s" and wr: "e_write e"
  proof -
    have fd: "0 < n_fd nd" using g(8,9) o by blast
    have o3: "opens e s3" using o g(10) by (simp add: opens_def)
    obtain path where path: "r = 0" "0 < n_fd nd'" "map_of (os_fds s1) (n_fd nd') = Some path"
      "f = (os_files s3)(path := os_files s3 path @ text)"
      "Some path = (if due e info nd then log_file_path s3 k (file_date u) else map_of (os_fds s3) (n_fd nd))"
      using w(5) fd wr o3 by blast
    have "next_file hg e info s k = Some path"
      using g(8,9) o path(5) tm D(1) L(6)
      by (cases "node_view hg t (nmem s) k") (auto simp: next_file_def Let_def split: if_splits)
    moreover have "open_file hg ?s' k = Some path"
      using files_okD(1) [OF w(4)] g(5) path(2,3) by (simp add: open_file_def node_view_def)
    ultimately show ?thesis using path(1,4) L(4) by auto
  qed
  then show ?thesis using g(1) w(1,3,4) L by (intro that [of ?s' r t']) (auto simp: frame_def)
qed

lemma open_file_out: "open_file hg (s\<lparr>g_tm := v, os_stderr := out\<rparr>) k = open_file hg s k"
  by (cases "g_log_file_nodes s") (simp_all add: open_file_def cong: if_cong)

lemma log_file_path_out: "log_file_path (s\<lparr>g_tm := v, os_stderr := out\<rparr>) k d = log_file_path s k d"
  by (simp add: log_file_path_def Let_def cong: if_cong)

lemma next_file_out:
  assumes "fst (get_localtime (e_trylock e) v) = fst (get_localtime (e_trylock e) (g_tm s))"
  shows "next_file hg e info (s\<lparr>g_tm := v, os_stderr := out\<rparr>) k = next_file hg e info s k"
  using assms by (cases "g_log_file_nodes s") (simp_all add: next_file_def log_file_path_out Let_def cong: if_cong option.case_cong)

lemma emit_ok:
  assumes laws: "ghash_laws hg" and ok: "files_ok hg n t s" and k: "0 \<le> n" "n < INT_MAX" "length k < FILE_NAME_LEN"
    and lv: "level_on (msg_level m) (li_switch info)"
  obtains s' r t' pt v lname where "emit hg e info ident k m s = Some (s', r)" "r = 0 \<or> r = - 1" "files_ok hg (n + 1) t' s'" "frame s s'"
    "aget logInfo (msg_level m) = Some lname" "message_parts e (li_switch info) m (g_tm s) = Some (pt, v)"
    "os_stderr s' = os_stderr s @ (if log_terminal (li_switch info) \<noteq> 0 then terminal_text (li_switch info) pt m lname else [])"
    "log_file (li_switch info) = 0 \<longrightarrow> r = 0 \<and> os_files s' = os_files s \<and> (\<forall>j. open_file hg s' j = open_file hg s j)"
    "log_file (li_switch info) \<noteq> 0 \<longrightarrow> opens e s \<longrightarrow> e_write e \<longrightarrow>
       (\<exists>path. r = 0 \<and> next_file hg e info s k = Some path \<and> open_file hg s' k = Some path \<and>
         os_files s' = (os_files s)(path := os_files s path @ file_text (li_switch info) pt m lname))"
proof -
  note D = files_okD [OF ok]
  obtain u v where tm: "get_localtime (e_trylock e) (g_tm s) = (u, v)" by (cases "get_localtime (e_trylock e) (g_tm s)")
  obtain pt v2 where mp: "message_parts e (li_switch info) m (g_tm s) = Some (pt, v2)" "tm_ok v2" "get_localtime (e_trylock e) v2 = (u, v)"
    using message_parts_ok [OF D(7) tm] by metis
  obtain lname where ln: "aget logInfo (msg_level m) = Some lname" using level_on_name [OF lv] by blast
  let ?out = "os_stderr s @ (if log_terminal (li_switch info) \<noteq> 0 then terminal_text (li_switch info) pt m lname else [])"
  let ?s2 = "s\<lparr>g_tm := v2, os_stderr := ?out\<rparr>"
  have ok2: "files_ok hg n t ?s2" using ok mp(2) by (simp add: files_ok_def)
  have em: "emit hg e info ident k m s = (if log_file (li_switch info) \<noteq> 0
      then do { (s3, a) \<leftarrow> get_log_file_node hg e k info ident ?s2; a' \<leftarrow> a; write_node e info (file_text (li_switch info) pt m lname) a' s3 }
      else Some (?s2, 0))"
    using ln mp(1) by (auto simp: emit_def Let_def)
  show ?thesis
  proof (cases "log_file (li_switch info) = 0")
    case True
    have "nodes_inv (os_fds s) (n + 1) (node_view hg t (nmem s))"
      using D(3) by (fastforce simp: nodes_inv_def node_ok_def)
    then have "files_ok hg (n + 1) t ?s2" using ok2 by (simp add: files_ok_def)
    then show ?thesis using True em ln mp(1)
      by (intro that [of ?s2 0 t lname pt v2]) (auto simp: frame_def open_file_out)
  next
    case False
    have nf: "next_file hg e info ?s2 k = next_file hg e info s k" "opens e ?s2 = opens e s"
      using tm mp(3) by (simp_all add: next_file_out opens_def stdin_open_def)
    obtain s' r t' where f:
      "do { (s3, a) \<leftarrow> get_log_file_node hg e k info ident ?s2; a' \<leftarrow> a; write_node e info (file_text (li_switch info) pt m lname) a' s3 } = Some (s', r)"
      "r = 0 \<or> r = - 1" "files_ok hg (n + 1) t' s'" "frame ?s2 s'" "os_stderr s' = os_stderr ?s2"
      "opens e ?s2 \<longrightarrow> e_write e \<longrightarrow> (\<exists>path. r = 0 \<and> next_file hg e info ?s2 k = Some path \<and> open_file hg s' k = Some path \<and>
         os_files s' = (os_files ?s2)(path := os_files ?s2 path @ file_text (li_switch info) pt m lname))"
      by (rule file_line_ok [OF laws ok2 k, of e info ident "file_text (li_switch info) pt m lname"])
    have em': "emit hg e info ident k m s = Some (s', r)" using False em f(1) by simp
    have fr: "frame s s'" using f(4) by (simp add: frame_def)
    show ?thesis
      by (rule that [OF em' f(2,3) fr ln mp(1)]) (use False f(5,6) nf in simp_all)
  qed
qed

section \<open>The log as a whole\<close>

text \<open>\<open>log_inv n\<close>: the log runs, its settings and its table are in order, no log file had more than \<open>n\<close> writes.\<close>

definition log_inv :: "'n names_hash \<Rightarrow> 'g nodes_hash \<Rightarrow> int \<Rightarrow> ('n, 'g) log_globals \<Rightarrow> bool" where
  "log_inv hn hg n s \<longleftrightarrow> g_init_flag s \<noteq> NO_INIT \<and> g_close_log_flag s \<noteq> 1 \<and>
     (\<exists>w. g_infos s = GLive w \<and> infos_ok hn w) \<and> (\<exists>t. files_ok hg n t s)"

definition lfile_ok :: "string option \<Rightarrow> bool" where
  "lfile_ok lfile \<longleftrightarrow> (case lfile of None \<Rightarrow> True | Some f \<Rightarrow> length f < FILE_NAME_LEN - 1)"

definition log_name :: "string option \<Rightarrow> string" where
  "log_name lfile = (case lfile of None \<Rightarrow> DEFAULT_LOG_FILE_NAME | Some f \<Rightarrow> f)"

definition timer_over :: "log_env \<Rightarrow> log_msg \<Rightarrow> ('n, 'g) log_globals \<Rightarrow> bool" where
  "timer_over e m s \<longleftrightarrow> msg_level m = IRILOG_DEBUG \<and> g_debug_dead_time s > 0 \<and> g_debug_dead_time s < e_time e"

lemma real_ok:
  assumes "infos_ok hn w" "lfile_ok lfile"
  shows "real_log_file w lfile = Some (log_name lfile)" "length (log_name lfile) < FILE_NAME_LEN"
proof -
  obtain "as" where rep: "array_rep w as" and def: "imem w (as ! 2) = Some default_info"
    using assms(1) by (auto simp: infos_ok_def infos_rep_def)
  have "2 < length as" using array_repD(2) [OF rep] by simp
  then have "info_at w INFOS_ID_DEFAULT = Some (as ! 2, default_info)"
    using info_at_rep [OF rep, of 2] def by (auto simp: infos_ids)
  moreover have "li_name default_info = DEFAULT_LOG_FILE_NAME" by (simp add: default_info_def set_default_single_log_conf_info_def)
  ultimately show "real_log_file w lfile = Some (log_name lfile)"
    using assms(2) by (cases lfile) (simp_all add: real_log_file_def log_name_def lfile_ok_def)
  show "length (log_name lfile) < FILE_NAME_LEN"
    using assms(2) by (cases lfile) (simp_all add: log_name_def lfile_ok_def FILE_NAME_LEN_def DEFAULT_LOG_FILE_NAME_def)
qed

text \<open>The decisions of a call, from its settings.\<close>

lemma write_log_run:
  assumes inv: "log_inv hn hg n s" and w: "g_infos s = GLive w" and lf: "lfile_ok lfile" and info: "settings_for hn w lfile = Some info"
  obtains i where "transparent_iridium_write_log h hn hg mal e lfile m s =
     (if timer_over e m s then Some (Goes (s, 0))
      else if log_file (li_switch info) = 0 \<and> log_terminal (li_switch info) = 0 then Some (Goes (s, - 1))
      else if \<not> level_on (msg_level m) (li_switch info) then Some (Goes (s, 0))
      else map_option Goes (emit hg e info i (log_name lfile) m s))"
proof -
  have ok: "infos_ok hn w" using inv w by (auto simp: log_inv_def)
  obtain i a where i: "select_info_id hn w lfile = Some i" "get_log_conf_info (Some w) i = Some (Ptr a)" "imem w a = Some info"
    using select_ok [OF ok, of lfile] info by (metis option.inject)
  have "open_iridiumlog h hn hg mal e s = Some (Goes (s, 0))" "g_close_log_flag s \<noteq> 1"
    using inv by (simp_all add: open_iridiumlog_def log_inv_def)
  then show ?thesis
    using that [of i] w i real_ok(1) [OF ok lf] by (auto simp: transparent_iridium_write_log_def timer_over_def Let_def)
qed

lemma write_log_inv:
  assumes laws: "ghash_laws hg" and inv: "log_inv hn hg n s" and n: "0 \<le> n" "n < INT_MAX" and lf: "lfile_ok lfile"
  obtains s' r where "transparent_iridium_write_log h hn hg mal e lfile m s = Some (Goes (s', r))" "r = 0 \<or> r = - 1"
    "log_inv hn hg (n + 1) s'" "g_getlocaltime_pth s' = g_getlocaltime_pth s"
proof -
  obtain w t where w: "g_infos s = GLive w" "infos_ok hn w" and t: "files_ok hg n t s" using inv by (auto simp: log_inv_def)
  obtain info where info: "settings_for hn w lfile = Some info" by (rule select_ok [OF w(2)])
  obtain i where run: "transparent_iridium_write_log h hn hg mal e lfile m s =
     (if timer_over e m s then Some (Goes (s, 0))
      else if log_file (li_switch info) = 0 \<and> log_terminal (li_switch info) = 0 then Some (Goes (s, - 1))
      else if \<not> level_on (msg_level m) (li_switch info) then Some (Goes (s, 0))
      else map_option Goes (emit hg e info i (log_name lfile) m s))"
    by (rule write_log_run [OF inv w(1) lf info])
  have "nodes_inv (os_fds s) (n + 1) (node_view hg t (nmem s))"
    using files_okD(3) [OF t] by (fastforce simp: nodes_inv_def node_ok_def)
  then have later: "log_inv hn hg (n + 1) s" using inv t by (auto simp: log_inv_def files_ok_def)
  show ?thesis
  proof (cases "level_on (msg_level m) (li_switch info)")
    case True
    show ?thesis
    proof (rule emit_ok [OF laws t n real_ok(2) [OF w(2) lf] True, of e i], goal_cases)
      case (1 s' r t' lname pt v)
      have "log_inv hn hg (n + 1) s'" using inv 1(3,4) by (auto simp: log_inv_def frame_def)
      then show ?thesis
        using run 1(1,2,4) later by (cases "timer_over e m s \<or> log_file (li_switch info) = 0 \<and> log_terminal (li_switch info) = 0")
          (auto simp: frame_def intro: that split: if_splits)
    qed
  next
    case False
    then show ?thesis using run later that by (auto split: if_splits)
  qed
qed

section \<open>Starting and stopping\<close>

definition log_start :: "('n, 'g) log_globals \<Rightarrow> bool" where
  "log_start s \<longleftrightarrow> g_init_flag s = NO_INIT \<and> g_close_log_flag s = 0 \<and> g_infos s = GNull \<and> g_log_file_nodes s = GNull \<and>
     g_proc_name s = None \<and> g_host_name s = None \<and> g_debug_dead_time s = 0"

text \<open>A relative directory for the log files that leaves room for their names.\<close>

definition logpath_ok :: "string option \<Rightarrow> bool" where
  "logpath_ok lp \<longleftrightarrow> (case lp of None \<Rightarrow> True | Some p \<Rightarrow> p \<noteq> [] \<and> hd p \<noteq> CHR ''/'' \<and> length p \<le> 110)"

definition start_env :: "log_env \<Rightarrow> conf_item list \<Rightarrow> bool" where
  "start_env e is \<longleftrightarrow> (\<forall>p. e_dir_exists e p \<or> e_mkdir e p) \<and> e_conf_buf e \<and> e_conf e = Some (conf_text is) \<and>
     0 \<le> tm_mon (e_localtime e (e_time e)) \<and> (\<exists>p. e_pth e = Some p \<and> p < 2 ^ 64 - 1) \<and> no_nul (e_host e) \<and> length (e_host e) < 64 \<and>
     (case e_exe e of None \<Rightarrow> True | Some x \<Rightarrow>
        (\<exists>d nm. x = d @ ''/'' @ nm \<and> no_nul d \<and> no_nul nm \<and> CHR ''/'' \<notin> set nm \<and> length d + length nm + 1 < PATH_MAX \<and> length nm < 64))"

lemma set_log_path_ok:
  assumes "logpath_ok lp"
  shows "\<exists>p. set_log_path lp s = Some (Goes (s\<lparr>g_global_log_path := p\<rparr>)) \<and> length p + FILE_NAME_LEN \<le> LOGPATH_MAX_LEN"
  using assms by (cases lp) (auto simp: logpath_ok_def set_log_path_def IRILOG_PATH_def LOGPATH_MAX_LEN_def FILE_NAME_LEN_def snprintf_text_def)

lemma get_names_ok:
  assumes "start_env e is" "g_proc_name s = None" "g_host_name s = None"
  shows "\<exists>pn. get_names e s = Some (s\<lparr>g_proc_name := Some pn, g_proc_pid := e_pid e, g_host_name := Some (e_host e)\<rparr>)"
proof -
  have h: "length (e_host e) < 64" "no_nul (e_host e)" using assms(1) by (simp_all add: start_env_def)
  then have "take 64 (e_host e @ [NUL]) = e_host e @ NUL # []" by simp
  then have host: "cstring (take 64 (e_host e @ [NUL])) = Some (e_host e)" using h(2) by (metis cstring_terminated)
  have "\<exists>r nm. log_get_proc_path_name (e_base e) (e_exe e) None (Some (replicate 64 NUL)) 64 = Some r \<and> pn_name r \<bind> cstring = Some nm"
  proof (cases "e_exe e")
    case None
    have "cstring (replicate 64 NUL) = Some []" using cstring_terminated [of "[]" "replicate 63 NUL"] by (simp add: numeral_eq_Suc)
    with None show ?thesis by (simp add: log_get_proc_path_name_def split_path_def)
  next
    case (Some x)
    then obtain d nm where x: "x = d @ ''/'' @ nm" "no_nul d" "no_nul nm" "CHR ''/'' \<notin> set nm" "length d + length nm + 1 < PATH_MAX" "length nm < 64"
      using assms(1) by (auto simp: start_env_def)
    have "split_path (Some x) (replicate PATH_MAX NUL) 64 =
        Some ((overwrite (replicate PATH_MAX NUL) x)[Suc (length d) := NUL], Some (strncpy_buf nm 64, Suc (length d)))"
      unfolding x(1) using x by (intro split_path_exe) simp_all
    with Some x strncpy_buf_short [of nm 64] show ?thesis by (simp add: log_get_proc_path_name_def Let_def)
  qed
  with host assms(2,3) show ?thesis by (auto simp: get_names_def split: Option.bind_splits)
qed

lemma switch_of_on: "list_all stays_on is \<Longrightarrow> v \<noteq> 0 \<Longrightarrow> switch_of is v \<noteq> 0"
  by (induction "is" v rule: switch_of.induct) (auto simp: stays_on_def split: option.splits)

lemma init_log_inv:
  assumes laws: "ghash_laws h" "ghash_laws hn" "ghash_laws hg" and st: "log_start s" "start_env e is" "logpath_ok lp"
    and conf: "log_conf_ok is" "modes_ok (item_modes is)" "\<And>n. mal n" "length (conf_text is) < MAX_CONF_FILE_SIZE"
  obtains s' w where "iridium_init_log h hn hg mal e lp s = Some (Goes (s', 0))" "log_inv hn hg 0 s'" "g_infos s' = GLive w"
    "settings_view hn w = [DEFAULT_LOG_FILE_NAME \<mapsto> default_info] ++ settings_of_modes (item_modes is)"
    "g_getlocaltime_pth s' < 2 ^ 64 - 1"
proof -
  obtain p where p: "set_log_path lp s = Some (Goes (s\<lparr>g_global_log_path := p\<rparr>))" "length p + FILE_NAME_LEN \<le> LOGPATH_MAX_LEN"
    using set_log_path_ok [OF st(3)] by blast
  obtain tsi where tsi: "tsi = (case settings_of_modes (item_modes is) TOTAL_SWITCH_MODE_NAME of
        Some i \<Rightarrow> i | None \<Rightarrow> set_default_single_log_conf_info zero_info)" by blast
  obtain w cm "as" where w: "get_log_conf_infos h hn mal True (Some (conf_text is)) = Some (Goes (w, cm))"
    "settings_view hn w = [DEFAULT_LOG_FILE_NAME \<mapsto> default_info] ++ settings_of_modes (item_modes is)"
    "infos_rep hn w as" "imem w (as ! 2) = Some default_info"
    "imem w (as ! 0) = Some (ctl_info (switch_of is 1) (li_is_valid tsi))" "imem w (as ! 1) = Some tsi"
    using log_infos_loaded [where mal = mal, OF laws(1,2) conf tsi] by blast
  have ar: "array_rep w as" using w(3) by (simp add: infos_rep_def)
  have ln: "0 < length as" "1 < length as" using array_repD(2) [OF ar] by auto
  have cells: "info_at w INFOS_ID_CTL = Some (as ! 0, ctl_info (switch_of is 1) (li_is_valid tsi))"
    "info_at w INFOS_ID_TOTAL_SWITCH = Some (as ! 1, tsi)"
    using info_at_rep [OF ar ln(1)] info_at_rep [OF ar ln(2)] w(5,6) by (auto simp: infos_ids)
  have on: "switch_of is 1 \<noteq> 0" using conf(1) switch_of_on by (simp add: log_conf_ok_def)
  obtain pth where pth: "e_pth e = Some pth" "pth < 2 ^ 64 - 1" using st(2) by (auto simp: start_env_def)
  let ?tm = "e_localtime e (e_time e)"
  let ?s2 = "s\<lparr>g_global_log_path := p, g_infos := GLive w, g_debug_dead_time :=
      (if li_is_valid tsi \<noteq> 0 \<and> li_timer tsi \<noteq> 0 then e_time e + li_timer tsi else g_debug_dead_time s),
      g_log_file_nodes := GLive (gh_new hg), g_tm := \<lparr>iridium_tm_now = ?tm, iridium_tm_last = ?tm\<rparr>, g_getlocaltime_pth := pth\<rparr>"
  obtain pn where pn: "get_names e ?s2 = Some (?s2\<lparr>g_proc_name := Some pn, g_proc_pid := e_pid e, g_host_name := Some (e_host e)\<rparr>)"
    using get_names_ok [OF st(2), of ?s2] st(1) by (auto simp: log_start_def)
  let ?s' = "?s2\<lparr>g_proc_name := Some pn, g_proc_pid := e_pid e, g_host_name := Some (e_host e), g_init_flag := HAS_INITED\<rparr>"
  have dir: "(\<not> e_dir_exists e p \<and> \<not> e_mkdir e p) = False" using st(2) by (simp add: start_env_def)
  have env: "e_conf_buf e" "e_conf e = Some (conf_text is)" "0 \<le> tm_mon ?tm"
    using st(2) by (simp_all add: start_env_def)
  have ctl: "li_log_switch (ctl_info (switch_of is 1) (li_is_valid tsi)) \<noteq> 0"
    "li_is_valid (ctl_info (switch_of is 1) (li_is_valid tsi)) = li_is_valid tsi" using on by (simp_all add: ctl_info_def)
  have "iridium_init_log h hn hg mal e lp s = Some (Goes (?s', 0))"
    using st(1) p(1) env w(1) cells ctl pn pth(1)
    by (simp add: dir iridium_init_log_def log_start_def start_getlocaltime_thread_def Let_def split del: if_split cong: if_cong)
  moreover have "files_ok hg 0 (gh_new hg) ?s'"
    using p(2) env(3) gh_lookup_new [OF laws(3)]
    by (simp add: files_ok_def addrs_ok_def nodes_inv_def node_view_def tm_ok_def)
  then have "log_inv hn hg 0 ?s'"
    using st(1) w(3,4) by (auto simp: log_inv_def infos_ok_def log_start_def HAS_INITED_def NO_INIT_def)
  ultimately show ?thesis using w(2) pth(2) by (intro that [of ?s' w]) simp_all
qed

lemma destroy_log_ok:
  assumes laws: "ghash_laws hg" and inv: "log_inv hn hg n s" and pth: "g_getlocaltime_pth s < 2 ^ 64 - 1"
  shows "\<exists>s'. iridium_destroy_log hg s = Some s' \<and> g_infos s' = GDead \<and> g_log_file_nodes s' = GDead \<and> g_init_flag s' = g_init_flag s \<and>
    g_close_log_flag s' = g_close_log_flag s \<and> g_debug_dead_time s' = g_debug_dead_time s \<and> os_fds s' = os_fds s"
proof -
  obtain w t where w: "g_infos s = GLive w" "infos_ok hn w" and t: "files_ok hg n t s" using inv by (auto simp: log_inv_def)
  note D = files_okD [OF t]
  have d: "log_conf_infos_destroy (Some w) = Some Map.empty" using w(2) destroy_rep by (auto simp: infos_ok_def)
  obtain t' ks vs where rm: "gh_remove_all hg t = (t', ks, vs)" by (metis prod_cases3)
  have inj: "\<forall>k k' p p' a. gh_lookup hg t k = Some (p, a) \<and> gh_lookup hg t k' = Some (p', a) \<longrightarrow> k = k'"
    using D(2) unfolding addrs_ok_def by (rule conjunct2)
  note V = gh_values [OF laws rm inj]
  have "list_all (\<lambda>a. nmem s a \<noteq> None) vs" using addrs_okD(2) [OF D(2)] V(2) by (auto simp: list_all_iff)
  moreover have "distinct vs" by (rule V(1))
  ultimately show ?thesis using w(1) d D(1) rm pth by (auto simp: iridium_destroy_log_def)
qed

section \<open>Properties\<close>

text \<open>
  What happens to a running log: messages, each in its own environment, and rounds of the thread that
  refreshes the time.
\<close>

datatype log_call = Write log_env "string option" log_msg | Refresh log_env

fun log_calls ::
  "'t conf_hash \<Rightarrow> 'n names_hash \<Rightarrow> 'g nodes_hash \<Rightarrow> (nat \<Rightarrow> bool) \<Rightarrow> log_call list \<Rightarrow> ('n, 'g) log_globals \<Rightarrow>
     (('n, 'g) log_globals \<times> int list) run option" where
  "log_calls h hn hg mal [] s = Some (Goes (s, []))"
| "log_calls h hn hg mal (Write e lfile m # cs) s =
     andthen (transparent_iridium_write_log h hn hg mal e lfile m s) (\<lambda>(s1, r).
       andthen (log_calls h hn hg mal cs s1) (\<lambda>(s2, rs). Some (Goes (s2, r # rs))))"
| "log_calls h hn hg mal (Refresh e # cs) s =
     log_calls h hn hg mal cs (s\<lparr>g_tm := get_localtime_func (e_localtime e) (e_trylock e) (e_time e) (g_tm s)\<rparr>)"

definition call_ok :: "log_call \<Rightarrow> bool" where
  "call_ok c \<longleftrightarrow> (case c of Write e lfile m \<Rightarrow> lfile_ok lfile | Refresh e \<Rightarrow> 0 \<le> tm_mon (e_localtime e (e_time e)))"

lemma log_calls_ok:
  assumes laws: "ghash_laws hg"
  shows "log_inv hn hg n s \<Longrightarrow> 0 \<le> n \<Longrightarrow> n + int (length cs) \<le> INT_MAX \<Longrightarrow> list_all call_ok cs \<Longrightarrow>
    \<exists>s' rs. log_calls h hn hg mal cs s = Some (Goes (s', rs)) \<and> set rs \<subseteq> {0, - 1} \<and> log_inv hn hg (n + int (length cs)) s' \<and>
      g_getlocaltime_pth s' = g_getlocaltime_pth s"
proof (induction cs arbitrary: n s)
  case (Cons c cs)
  show ?case
  proof (cases c)
    case (Write e lfile m)
    have lf: "lfile_ok lfile" "n < INT_MAX" using Cons.prems Write by (simp_all add: call_ok_def)
    obtain s1 r where s1: "transparent_iridium_write_log h hn hg mal e lfile m s = Some (Goes (s1, r))" "r = 0 \<or> r = - 1"
      "log_inv hn hg (n + 1) s1" "g_getlocaltime_pth s1 = g_getlocaltime_pth s"
      by (rule write_log_inv [OF laws Cons.prems(1,2) lf(2,1)])
    have "\<exists>s' rs. log_calls h hn hg mal cs s1 = Some (Goes (s', rs)) \<and> set rs \<subseteq> {0, - 1} \<and>
        log_inv hn hg (n + 1 + int (length cs)) s' \<and> g_getlocaltime_pth s' = g_getlocaltime_pth s1"
      using Cons.prems by (intro Cons.IH [OF s1(3)]) auto
    then show ?thesis using Write s1 by (auto simp: algebra_simps)
  next
    case (Refresh e)
    let ?s1 = "s\<lparr>g_tm := get_localtime_func (e_localtime e) (e_trylock e) (e_time e) (g_tm s)\<rparr>"
    obtain t where t: "files_ok hg n t s" using Cons.prems(1) by (auto simp: log_inv_def)
    have "nodes_inv (os_fds s) (n + 1) (node_view hg t (nmem s))"
      using files_okD(3) [OF t] by (fastforce simp: nodes_inv_def node_ok_def)
    moreover have "tm_ok (g_tm ?s1)"
      using files_okD(7) [OF t] Cons.prems(4) Refresh by (auto simp: tm_ok_def get_localtime_func_def call_ok_def)
    ultimately have inv: "log_inv hn hg (n + 1) ?s1" using Cons.prems(1) t by (auto simp: log_inv_def files_ok_def)
    have "\<exists>s' rs. log_calls h hn hg mal cs ?s1 = Some (Goes (s', rs)) \<and> set rs \<subseteq> {0, - 1} \<and>
        log_inv hn hg (n + 1 + int (length cs)) s' \<and> g_getlocaltime_pth s' = g_getlocaltime_pth ?s1"
      using Cons.prems by (intro Cons.IH [OF inv]) auto
    then show ?thesis using Refresh by (auto simp: algebra_simps)
  qed
qed simp

text \<open>
  C6: a log that is started with a well-formed configuration and a log directory of at most 110
  characters survives any sequence of at most \<open>2\<^sup>31 - 1\<close> messages and refreshes of the time: whatever
  the levels, texts, settings, failing opens and failing writes are, no call is undefined, each returns 0 or
  \<open>-1\<close>, and taking the log down afterwards is defined, so nothing is freed twice. The names of log files must be shorter than 127 characters.
\<close>

theorem log_calls_safe:
  assumes "ghash_laws h" "ghash_laws hn" "ghash_laws hg" "log_start s" "start_env e is" "logpath_ok lp"
    "log_conf_ok is" "modes_ok (item_modes is)" "\<And>n. mal n" "length (conf_text is) < MAX_CONF_FILE_SIZE"
    "list_all call_ok cs" "int (length cs) \<le> INT_MAX"
  shows "\<exists>s1 s2 rs s3. iridium_init_log h hn hg mal e lp s = Some (Goes (s1, 0)) \<and>
    log_calls h hn hg mal cs s1 = Some (Goes (s2, rs)) \<and> set rs \<subseteq> {0, - 1} \<and> log_inv hn hg (int (length cs)) s2 \<and>
    iridium_destroy_log hg s2 = Some s3"
proof -
  obtain s1 w where s1: "iridium_init_log h hn hg mal e lp s = Some (Goes (s1, 0))" "log_inv hn hg 0 s1" "g_infos s1 = GLive w"
    "settings_view hn w = [DEFAULT_LOG_FILE_NAME \<mapsto> default_info] ++ settings_of_modes (item_modes is)"
    "g_getlocaltime_pth s1 < 2 ^ 64 - 1"
    by (rule init_log_inv [where mal = mal, OF assms(1-10)])
  obtain s2 rs where s2: "log_calls h hn hg mal cs s1 = Some (Goes (s2, rs))" "set rs \<subseteq> {0, - 1}" "log_inv hn hg (int (length cs)) s2"
    "g_getlocaltime_pth s2 = g_getlocaltime_pth s1"
    using log_calls_ok [where h = h and mal = mal and cs = cs, OF assms(3) s1(2)] assms(11,12) by auto
  then show ?thesis using s1(1,5) destroy_log_ok [OF assms(3) s2(3)] by auto
qed


text \<open>
  When the log directory cannot be made, the first message returns \<open>-1\<close>, but the log counts as
  initialised: the next message, of any level and log, uses the settings pointer, which is still NULL.
\<close>

theorem log_failed_start_crashes:
  assumes "log_start s" "\<not> e_dir_exists e IRILOG_PATH" "\<not> e_mkdir e IRILOG_PATH"
  shows "\<exists>s1. transparent_iridium_write_log h hn hg mal e lfile m s = Some (Goes (s1, - 1)) \<and>
    transparent_iridium_write_log h hn hg mal e' lfile' m' s1 = None"
  using assms
  by (simp add: transparent_iridium_write_log_def open_iridiumlog_def iridium_init_log_def set_log_path_def log_start_def
      HAS_INITED_def NO_INIT_def)

text \<open>
  \<open>iridium_destroy_log\<close> leaves the pointers to the freed settings and table in place and the log
  initialised: a message after it reads freed memory (unless it is a debug message that the timer
  suppresses), and a second \<open>iridium_destroy_log\<close> frees again. The descriptors of the log files stay open.
\<close>

theorem log_use_after_destroy:
  assumes "ghash_laws hg" "log_inv hn hg n s" "g_getlocaltime_pth s < 2 ^ 64 - 1" "\<not> timer_over e m s"
  shows "\<exists>s'. iridium_destroy_log hg s = Some s' \<and> transparent_iridium_write_log h hn hg mal e lfile m s' = None \<and>
    iridium_destroy_log hg s' = None \<and> os_fds s' = os_fds s"
proof -
  obtain s' where d: "iridium_destroy_log hg s = Some s'" "g_infos s' = GDead" "g_init_flag s' = g_init_flag s"
    "g_close_log_flag s' = g_close_log_flag s" "g_debug_dead_time s' = g_debug_dead_time s" "os_fds s' = os_fds s"
    using destroy_log_ok [OF assms(1-3)] by blast
  then have "transparent_iridium_write_log h hn hg mal e lfile m s' = None"
    using assms(2,4) by (auto simp: transparent_iridium_write_log_def open_iridiumlog_def log_inv_def timer_over_def)
  moreover have "iridium_destroy_log hg s' = None" using d(2) by (simp add: iridium_destroy_log_def)
  ultimately show ?thesis using d(1,6) by auto
qed

section \<open>A run\<close>

definition demo_globals :: "((addr, int) altab, (unit, addr) altab) log_globals" where
  "demo_globals = \<lparr>g_init_flag = NO_INIT, g_close_log_flag = 0, g_debug_dead_time = 0, g_global_log_path = [], g_infos = GNull,
     g_log_file_nodes = GNull, g_getlocaltime_pth = 0, g_proc_name = None, g_proc_pid = 0, g_host_name = None,
     g_tm = \<lparr>iridium_tm_now = demo_lt 0, iridium_tm_last = demo_lt 0\<rparr>, nmem = (\<lambda>a. None), nbrk = 0,
     os_fds = [(0, ''stdin''), (1, ''stdout''), (2, ''stderr'')], os_files = (\<lambda>p. []), os_stderr = []\<rparr>"

definition demo_env :: log_env where
  "demo_env = \<lparr>e_dir_exists = (\<lambda>p. True), e_mkdir = (\<lambda>p. True), e_conf = Some (conf_text demo_log_conf), e_conf_buf = True, e_time = 1000,
     e_localtime = demo_lt, e_trylock = True, e_pth = Some 7, e_base = 0, e_exe = Some (''/usr/bin'' @ ''/'' @ ''app''), e_pid = 42,
     e_host = ''host'', e_can_open = (\<lambda>p. True), e_fstat = True, e_write = True\<rparr>"

definition demo_msg :: log_msg where
  "demo_msg = \<lparr>msg_file = ''/a/main.c'', msg_func = ''main'', msg_line = 3, msg_level = IRILOG_INFO, msg_text = ''hello''\<rparr>"

lemma demo_start: "log_start demo_globals" "start_env demo_env demo_log_conf" "logpath_ok (Some ''app'')"
proof -
  show "log_start demo_globals" by (simp add: log_start_def demo_globals_def)
  show "logpath_ok (Some ''app'')" by (simp add: logpath_ok_def)
  have "\<exists>d nm. ''/usr/bin'' @ ''/'' @ ''app'' = d @ ''/'' @ nm \<and> no_nul d \<and> no_nul nm \<and> CHR ''/'' \<notin> set nm \<and>
      length d + length nm + 1 < PATH_MAX \<and> length nm < 64"
    by (rule exI [of _ "''/usr/bin''"], rule exI [of _ "''app''"]) (simp add: PATH_MAX_def)
  then show "start_env demo_env demo_log_conf" by (simp add: start_env_def demo_env_def demo_lt_def)
qed

lemma demo_conf_size: "length (conf_text demo_log_conf) < MAX_CONF_FILE_SIZE"
  by (simp add: demo_log_conf_def conf_text_def lines_text_def tail_text_def MAX_CONF_FILE_SIZE_def)

theorem log_calls_safe_witness:
  "\<exists>s1 s2 rs s3. iridium_init_log alist_ghash alist_ghash alist_ghash (\<lambda>n. True) demo_env (Some ''app'') demo_globals = Some (Goes (s1, 0)) \<and>
    log_calls alist_ghash alist_ghash alist_ghash (\<lambda>n. True) [Write demo_env None demo_msg, Refresh demo_env] s1 = Some (Goes (s2, rs)) \<and>
    set rs \<subseteq> {0, - 1} \<and> log_inv alist_ghash alist_ghash (int (length [Write demo_env None demo_msg, Refresh demo_env])) s2 \<and>
    iridium_destroy_log alist_ghash s2 = Some s3"
  by (rule log_calls_safe [OF alist_ghash_laws alist_ghash_laws alist_ghash_laws demo_start demo_log_conf_ok demo_modes_ok])
    (simp_all add: demo_conf_size call_ok_def lfile_ok_def demo_env_def demo_lt_def int_limits)

text \<open>A running log with the built-in settings and no file open yet.\<close>

definition demo_infos :: "(addr, int) altab log_infos_world" where
  "demo_infos = the (log_conf_infos_init alist_ghash)"

definition demo_running :: "((addr, int) altab, (unit, addr) altab) log_globals" where
  "demo_running = demo_globals\<lparr>g_init_flag := HAS_INITED, g_infos := GLive demo_infos, g_log_file_nodes := GLive (gh_new alist_ghash),
     g_proc_name := Some ''app'', g_host_name := Some ''host'', g_global_log_path := IRILOG_PATH\<rparr>"

lemma demo_infos_ok:
  "infos_ok alist_ghash demo_infos" "settings_for alist_ghash demo_infos None = Some default_info"
proof -
  obtain w where w: "log_conf_infos_init alist_ghash = Some w" "infos_rep alist_ghash w [0, 1, 2]" "imem w 0 = Some (ctl_info 1 0)"
    "imem w 2 = Some default_info"
    using log_conf_infos_init_rep [OF alist_ghash_laws] by blast
  have eq: "demo_infos = w" by (simp add: demo_infos_def w(1))
  have "array_rep w [0, 1, 2]" using w(2) by (simp add: infos_rep_def)
  from info_at_rep [OF this, of 0] have c: "info_at w INFOS_ID_CTL = Some (0, ctl_info 1 0)" using w(3) by (simp add: infos_ids)
  have n2: "[0, 1, 2 :: nat] ! 2 = 2" by simp
  show "infos_ok alist_ghash demo_infos" unfolding eq infos_ok_def using w(2,4) n2 by metis
  show "settings_for alist_ghash demo_infos None = Some default_info"
    unfolding eq settings_for_def by (simp add: c ctl_info_def zero_info_def)
qed

lemma demo_running_inv: "log_inv alist_ghash alist_ghash 0 demo_running"
proof -
  have "files_ok alist_ghash 0 (gh_new alist_ghash) demo_running"
    by (simp add: files_ok_def demo_running_def demo_globals_def addrs_ok_def nodes_inv_def node_view_def tm_ok_def demo_lt_def
        gh_lookup_new [OF alist_ghash_laws] IRILOG_PATH_def FILE_NAME_LEN_def LOGPATH_MAX_LEN_def)
  then show ?thesis
    using demo_infos_ok(1) by (auto simp: log_inv_def demo_running_def demo_globals_def HAS_INITED_def NO_INIT_def)
qed

lemmas demo_consts = demo_running_def demo_globals_def demo_env_def demo_msg_def IRILOG_DEBUG_def IRILOG_INFO_def


theorem log_failed_start_crashes_witness:
  "\<exists>s1. transparent_iridium_write_log alist_ghash alist_ghash alist_ghash (\<lambda>n. True)
        (demo_env\<lparr>e_dir_exists := (\<lambda>p. False), e_mkdir := (\<lambda>p. False)\<rparr>) None demo_msg demo_globals = Some (Goes (s1, - 1)) \<and>
    transparent_iridium_write_log alist_ghash alist_ghash alist_ghash (\<lambda>n. True) demo_env None demo_msg s1 = None"
  by (rule log_failed_start_crashes [OF demo_start(1)]) simp_all

theorem log_use_after_destroy_witness:
  "\<exists>s'. iridium_destroy_log alist_ghash demo_running = Some s' \<and>
    transparent_iridium_write_log alist_ghash alist_ghash alist_ghash (\<lambda>n. True) demo_env None demo_msg s' = None \<and>
    iridium_destroy_log alist_ghash s' = None \<and> os_fds s' = os_fds demo_running"
  by (rule log_use_after_destroy [OF alist_ghash_laws demo_running_inv]) (simp_all add: demo_consts timer_over_def)

end
