(* ===== verification/Rec_Lock.thy ===== *)
theory Rec_Lock
  imports CString
begin

text \<open>
  Advisory record locks: \<open>src/src/log/iridiumSysLog/wrapfcntl.c\<close>, and the single-instance guard
  \<open>src/src/utils/single_instance/single_instance.c\<close> that is built on them.

  The kernel's part is written out after POSIX \<open>fcntl\<close>: a lock covers a range of bytes (to the end of
  any future file when the length is 0), belongs to a process, conflicts with an overlapping lock of
  another process when one of the two is a write lock, and replaces what the process had on the
  range. \<open>F_SETLK\<close> fails on a conflict, \<open>F_SETLKW\<close> waits. The end of a process releases its locks.
\<close>

section \<open>The kernel's lock table\<close>

datatype lock_type = F_RDLCK | F_WRLCK | F_UNLCK
datatype lock_cmd = F_SETLK | F_SETLKW
datatype whence = SEEK_SET | SEEK_CUR | SEEK_END

record flock =
  l_type :: lock_type
  l_start :: int
  l_whence :: whence
  l_len :: int

record lock_entry =
  l_pid :: int
  l_mode :: lock_type
  l_lo :: int
  l_hi :: "int option"

definition below :: "int \<Rightarrow> int option \<Rightarrow> bool" where
  "below a h = (case h of None \<Rightarrow> True | Some b \<Rightarrow> a < b)"

definition overlaps :: "int \<Rightarrow> int option \<Rightarrow> lock_entry \<Rightarrow> bool" where
  "overlaps lo hi e \<longleftrightarrow> below lo (l_hi e) \<and> below (l_lo e) hi"

definition conflicts :: "int \<Rightarrow> lock_type \<Rightarrow> int \<Rightarrow> int option \<Rightarrow> lock_entry \<Rightarrow> bool" where
  "conflicts pid ty lo hi e \<longleftrightarrow> l_pid e \<noteq> pid \<and> overlaps lo hi e \<and> (ty = F_WRLCK \<or> l_mode e = F_WRLCK)"

text \<open>The parts of an entry outside the range.\<close>

definition cut_entry :: "int \<Rightarrow> int option \<Rightarrow> lock_entry \<Rightarrow> lock_entry list" where
  "cut_entry lo hi e =
     (if \<not> overlaps lo hi e then [e]
      else (if l_lo e < lo then [e\<lparr>l_hi := Some lo\<rparr>] else []) @
        (case hi of None \<Rightarrow> [] | Some h \<Rightarrow> if below h (l_hi e) then [e\<lparr>l_lo := h\<rparr>] else []))"

definition set_range :: "int \<Rightarrow> lock_type \<Rightarrow> int \<Rightarrow> int option \<Rightarrow> lock_entry list \<Rightarrow> lock_entry list" where
  "set_range pid ty lo hi es =
     concat (map (\<lambda>e. if l_pid e = pid then cut_entry lo hi e else [e]) es) @
     (if ty = F_UNLCK then [] else [\<lparr>l_pid = pid, l_mode = ty, l_lo = lo, l_hi = hi\<rparr>])"

text \<open>The bytes of a request, from the position and the size of the file; none when they are not valid.\<close>

definition lock_range :: "int \<Rightarrow> int \<Rightarrow> flock \<Rightarrow> (int \<times> int option) option" where
  "lock_range pos fsize l =
     (let base = (case l_whence l of SEEK_SET \<Rightarrow> 0 | SEEK_CUR \<Rightarrow> pos | SEEK_END \<Rightarrow> fsize);
          s = base + l_start l
      in if l_len l = 0 then (if s < 0 then None else Some (s, None))
         else if l_len l > 0 then (if s < 0 then None else Some (s, Some (s + l_len l)))
         else if s + l_len l < 0 then None else Some (s + l_len l, Some s))"

text \<open>The result of \<open>fcntl\<close>: the table and the return value, or none while the caller has to wait.\<close>

definition fcntl :: "int \<Rightarrow> int \<Rightarrow> int \<Rightarrow> lock_cmd \<Rightarrow> flock \<Rightarrow> lock_entry list \<Rightarrow> (lock_entry list \<times> int) option" where
  "fcntl pid pos fsize cmd l es =
     (case lock_range pos fsize l of
        None \<Rightarrow> Some (es, - 1)
      | Some (lo, hi) \<Rightarrow>
          if l_type l \<noteq> F_UNLCK \<and> list_ex (conflicts pid (l_type l) lo hi) es
          then (if cmd = F_SETLK then Some (es, - 1) else None)
          else Some (set_range pid (l_type l) lo hi es, 0))"

section \<open>The wrappers\<close>

definition lock_reg ::
  "int \<Rightarrow> int \<Rightarrow> int \<Rightarrow> lock_cmd \<Rightarrow> lock_type \<Rightarrow> int \<Rightarrow> whence \<Rightarrow> int \<Rightarrow> lock_entry list \<Rightarrow> (lock_entry list \<times> int) option" where
  "lock_reg pid pos fsize cmd type offset whence len es =
     fcntl pid pos fsize cmd \<lparr>l_type = type, l_start = offset, l_whence = whence, l_len = len\<rparr> es"

definition read_lock :: "int \<Rightarrow> int \<Rightarrow> int \<Rightarrow> int \<Rightarrow> whence \<Rightarrow> int \<Rightarrow> lock_entry list \<Rightarrow> (lock_entry list \<times> int) option" where
  "read_lock pid pos fsize offset whence len es = lock_reg pid pos fsize F_SETLK F_RDLCK offset whence len es"

definition readw_lock :: "int \<Rightarrow> int \<Rightarrow> int \<Rightarrow> int \<Rightarrow> whence \<Rightarrow> int \<Rightarrow> lock_entry list \<Rightarrow> (lock_entry list \<times> int) option" where
  "readw_lock pid pos fsize offset whence len es = lock_reg pid pos fsize F_SETLKW F_RDLCK offset whence len es"

definition write_lock :: "int \<Rightarrow> int \<Rightarrow> int \<Rightarrow> int \<Rightarrow> whence \<Rightarrow> int \<Rightarrow> lock_entry list \<Rightarrow> (lock_entry list \<times> int) option" where
  "write_lock pid pos fsize offset whence len es = lock_reg pid pos fsize F_SETLK F_WRLCK offset whence len es"

definition writew_lock :: "int \<Rightarrow> int \<Rightarrow> int \<Rightarrow> int \<Rightarrow> whence \<Rightarrow> int \<Rightarrow> lock_entry list \<Rightarrow> (lock_entry list \<times> int) option" where
  "writew_lock pid pos fsize offset whence len es = lock_reg pid pos fsize F_SETLKW F_WRLCK offset whence len es"

definition un_lock :: "int \<Rightarrow> int \<Rightarrow> int \<Rightarrow> int \<Rightarrow> whence \<Rightarrow> int \<Rightarrow> lock_entry list \<Rightarrow> (lock_entry list \<times> int) option" where
  "un_lock pid pos fsize offset whence len es = lock_reg pid pos fsize F_SETLK F_UNLCK offset whence len es"

text \<open>What the kernel does for a process that ends (or closes the file).\<close>

definition release_all :: "int \<Rightarrow> lock_entry list \<Rightarrow> lock_entry list" where
  "release_all pid es = filter (\<lambda>e. l_pid e \<noteq> pid) es"

section \<open>Compatible locks\<close>

definition covers :: "lock_entry \<Rightarrow> int \<Rightarrow> bool" where
  "covers e b \<longleftrightarrow> l_lo e \<le> b \<and> below b (l_hi e)"

text \<open>No byte is write-locked by one process and locked by another.\<close>

definition compatible :: "lock_entry list \<Rightarrow> bool" where
  "compatible es \<longleftrightarrow> (\<forall>e \<in> set es. \<forall>f \<in> set es. \<forall>b. covers e b \<and> covers f b \<and> l_mode e = F_WRLCK \<longrightarrow> l_pid e = l_pid f)"

lemma covers_cut: "e' \<in> set (cut_entry lo hi e) \<Longrightarrow> covers e' b \<Longrightarrow> covers e b \<and> l_pid e' = l_pid e \<and> l_mode e' = l_mode e"
  by (auto simp: cut_entry_def covers_def overlaps_def below_def split: if_splits option.splits)

lemma covers_overlap: "covers e b \<Longrightarrow> lo \<le> b \<Longrightarrow> below b hi \<Longrightarrow> overlaps lo hi e"
  by (auto simp: covers_def overlaps_def below_def split: option.splits)

lemma set_range_entry:
  assumes "e \<in> set (set_range pid ty lo hi es)" "covers e b"
  shows "(\<exists>f \<in> set es. covers f b \<and> l_pid e = l_pid f \<and> l_mode e = l_mode f) \<or>
    (l_pid e = pid \<and> l_mode e = ty \<and> lo \<le> b \<and> below b hi)"
  using assms covers_cut [of e lo hi] by (auto simp: set_range_def covers_def split: if_splits)

lemma set_range_compatible:
  assumes "compatible es" "\<not> list_ex (conflicts pid ty lo hi) es"
  shows "compatible (set_range pid ty lo hi es)"
  unfolding compatible_def
proof (intro ballI allI impI)
  fix e f b
  assume e: "e \<in> set (set_range pid ty lo hi es)" and f: "f \<in> set (set_range pid ty lo hi es)"
    and c: "covers e b \<and> covers f b \<and> l_mode e = F_WRLCK"
  have nc: "l_pid g = pid \<or> ty \<noteq> F_WRLCK \<and> l_mode g \<noteq> F_WRLCK" if "g \<in> set es" "covers g b" "lo \<le> b" "below b hi" for g
    using assms(2) that covers_overlap [OF that(2-4)] by (auto simp: list_ex_iff conflicts_def)
  have cov: "covers e b" "covers f b" "l_mode e = F_WRLCK" using c by simp_all
  from set_range_entry [OF e cov(1)] set_range_entry [OF f cov(2)] show "l_pid e = l_pid f"
  proof (elim disjE bexE conjE, goal_cases)
    case (1 e1 f1)
    then have "l_pid e1 = l_pid f1" using assms(1) cov(3) unfolding compatible_def by metis
    with 1 show ?case by simp
  qed (use nc cov(3) in fastforce)+
qed

lemma unlock_compatible: "compatible es \<Longrightarrow> compatible (set_range pid F_UNLCK lo hi es)"
  unfolding compatible_def
proof (intro ballI allI impI)
  fix e f b
  assume c: "\<forall>e \<in> set es. \<forall>f \<in> set es. \<forall>b. covers e b \<and> covers f b \<and> l_mode e = F_WRLCK \<longrightarrow> l_pid e = l_pid f"
    and e: "e \<in> set (set_range pid F_UNLCK lo hi es)" and f: "f \<in> set (set_range pid F_UNLCK lo hi es)"
    and b: "covers e b \<and> covers f b \<and> l_mode e = F_WRLCK"
  have old: "\<exists>g1 \<in> set es. covers g1 b \<and> l_pid g = l_pid g1 \<and> l_mode g = l_mode g1"
    if "g \<in> set (set_range pid F_UNLCK lo hi es)" "covers g b" for g
    using that covers_cut [of g lo hi] by (auto simp: set_range_def split: if_splits)
  then obtain e1 f1 where "e1 \<in> set es" "covers e1 b" "l_pid e = l_pid e1" "l_mode e = l_mode e1"
    "f1 \<in> set es" "covers f1 b" "l_pid f = l_pid f1"
    using e f b by metis
  with c b show "l_pid e = l_pid f" by metis
qed

lemma fcntl_compatible:
  assumes "compatible es" "fcntl pid pos fsize cmd l es = Some (es', r)"
  shows "compatible es'"
proof (cases "lock_range pos fsize l")
  case (Some lh)
  obtain lo hi where lh: "lh = (lo, hi)" by (cases lh)
  show ?thesis
  proof (cases "l_type l = F_UNLCK")
    case True
    have "compatible (set_range pid F_UNLCK lo hi es)"
      using assms(1) by (rule unlock_compatible)
    with Some lh True assms show ?thesis by (auto simp: fcntl_def)
  next
    case False
    with Some lh assms show ?thesis
      by (auto simp: fcntl_def split: if_splits intro: set_range_compatible)
  qed
qed (use assms in \<open>simp add: fcntl_def\<close>)

lemma release_compatible: "compatible es \<Longrightarrow> compatible (release_all pid es)"
  by (auto simp: compatible_def release_all_def)

end
