(* ===== verification/Single_Instance.thy ===== *)
theory Single_Instance
  imports Rec_Lock
begin

text \<open>
  \<open>src/src/utils/single_instance/single_instance.c\<close>: a process that finds its lock file locked ends
  itself; otherwise it keeps the lock until it ends and leaves its number in the file. The world is
  the files and the lock table of each; \<open>can_open\<close> says whether \<open>open\<close> succeeds.
\<close>

definition LOCKFILE :: string where "LOCKFILE = ''/var/run/default_proc.pid''"

record si_world =
  si_files :: "string \<Rightarrow> string option"
  si_locks :: "string \<Rightarrow> lock_entry list"

definition open_creat :: "string \<Rightarrow> si_world \<Rightarrow> si_world" where
  "open_creat f w = (if si_files w f = None then w\<lparr>si_files := (si_files w)(f \<mapsto> [])\<rparr> else w)"

text \<open>\<open>snprintf(buf, n, ...)\<close> of the given text.\<close>

definition snprintf :: "nat \<Rightarrow> string \<Rightarrow> string" where
  "snprintf n s = take (n - 1) s"

text \<open>The end of a process releases its locks on every file.\<close>

definition process_end :: "int \<Rightarrow> si_world \<Rightarrow> si_world" where
  "process_end pid w = w\<lparr>si_locks := (\<lambda>f. release_all pid (si_locks w f))\<rparr>"

definition pid_text :: "int \<Rightarrow> string" where
  "pid_text pid = snprintf 32 (show_int pid @ [NL])"

text \<open>The body that both functions share, on the path of the lock file.\<close>

definition guard_file :: "bool \<Rightarrow> string \<Rightarrow> int \<Rightarrow> si_world \<Rightarrow> (si_world \<times> int run) option" where
  "guard_file can_open f pid w =
     (if \<not> can_open then Some (process_end pid w, Exits 1)
      else do {
        let w1 = open_creat f w;
        (es, r) \<leftarrow> lock_reg pid 0 (int (length (the (si_files w1 f)))) F_SETLK F_WRLCK 0 SEEK_SET 0 (si_locks w1 f);
        if r < 0 then Some (process_end pid w1, Exits 1)
        else Some (w1\<lparr>si_locks := (si_locks w1)(f := es), si_files := (si_files w1)(f \<mapsto> pid_text pid)\<rparr>, Goes 0) })"

definition already_running :: "bool \<Rightarrow> int \<Rightarrow> si_world \<Rightarrow> (si_world \<times> int run) option" where
  "already_running can_open pid w = guard_file can_open LOCKFILE pid w"

definition already_running_with_name :: "bool \<Rightarrow> string \<Rightarrow> int \<Rightarrow> si_world \<Rightarrow> (si_world \<times> int run) option" where
  "already_running_with_name can_open lock_file_name pid w =
     guard_file can_open (snprintf 64 (''/var/run/'' @ lock_file_name @ ''.pid'')) pid w"

text \<open>The version in the retired \<open>src/trash/c_tools/miscellaneous/single_process.c\<close> has its own lock file.\<close>

definition PROCESS_PID_PATH :: string where "PROCESS_PID_PATH = ''/var/run/demo_signal_server.pid''"

definition single_process_already_running :: "bool \<Rightarrow> int \<Rightarrow> si_world \<Rightarrow> (si_world \<times> int run) option" where
  "single_process_already_running can_open pid w = guard_file can_open PROCESS_PID_PATH pid w"

section \<open>Processes starting and ending\<close>

text \<open>A state: the world and the processes that got past the guard, with their lock files.\<close>

inductive si_step :: "si_world \<times> (int \<times> string) set \<Rightarrow> si_world \<times> (int \<times> string) set \<Rightarrow> bool" where
  pass_named: "p \<notin> fst ` R \<Longrightarrow> already_running_with_name can_open n p w = Some (w', Goes r) \<Longrightarrow>
    si_step (w, R) (w', insert (p, snprintf 64 (''/var/run/'' @ n @ ''.pid'')) R)"
| pass_default: "p \<notin> fst ` R \<Longrightarrow> already_running can_open p w = Some (w', Goes r) \<Longrightarrow> si_step (w, R) (w', insert (p, LOCKFILE) R)"
| pass_retired: "p \<notin> fst ` R \<Longrightarrow> single_process_already_running can_open p w = Some (w', Goes r) \<Longrightarrow>
    si_step (w, R) (w', insert (p, PROCESS_PID_PATH) R)"
| refused_named: "p \<notin> fst ` R \<Longrightarrow> already_running_with_name can_open n p w = Some (w', Exits e) \<Longrightarrow> si_step (w, R) (w', R)"
| refused_default: "p \<notin> fst ` R \<Longrightarrow> already_running can_open p w = Some (w', Exits e) \<Longrightarrow> si_step (w, R) (w', R)"
| refused_retired: "p \<notin> fst ` R \<Longrightarrow> single_process_already_running can_open p w = Some (w', Exits e) \<Longrightarrow> si_step (w, R) (w', R)"
| ends: "(p, f) \<in> R \<Longrightarrow> si_step (w, R) (process_end p w, {x \<in> R. fst x \<noteq> p})"

inductive si_start :: "si_world \<times> (int \<times> string) set \<Rightarrow> bool" where
  boot: "(\<And>f. si_locks w f = []) \<Longrightarrow> si_start (w, {})"

abbreviation si_reach :: "si_world \<times> (int \<times> string) set \<Rightarrow> bool" where
  "si_reach \<equiv> reachable si_start si_step"

inductive_cases si_stepE: "si_step s s'"

section \<open>Properties\<close>

definition whole_file_lock :: "int \<Rightarrow> lock_entry" where
  "whole_file_lock p = \<lparr>l_pid = p, l_mode = F_WRLCK, l_lo = 0, l_hi = None\<rparr>"

definition si_inv :: "si_world \<times> (int \<times> string) set \<Rightarrow> bool" where
  "si_inv s \<longleftrightarrow> (case s of (w, R) \<Rightarrow>
     (\<forall>p f. (p, f) \<in> R \<longrightarrow> whole_file_lock p \<in> set (si_locks w f) \<and> si_files w f = Some (pid_text p)) \<and>
     (\<forall>p q f. (p, f) \<in> R \<and> (q, f) \<in> R \<longrightarrow> p = q))"

lemma open_creat_simps [simp]: "si_locks (open_creat f w) = si_locks w"
  "si_files w g = Some t \<Longrightarrow> si_files (open_creat f w) g = Some t"
  by (auto simp: open_creat_def)

lemma guard_file_passes:
  assumes "guard_file can_open f p w = Some (w', Goes r)"
  shows "\<And>e. e \<in> set (si_locks w f) \<Longrightarrow> l_hi e = None \<Longrightarrow> l_pid e = p"
    and "whole_file_lock p \<in> set (si_locks w' f)" "si_files w' f = Some (pid_text p)"
    and "g \<noteq> f \<Longrightarrow> si_locks w' g = si_locks w g" "g \<noteq> f \<Longrightarrow> si_files w g = Some t \<Longrightarrow> si_files w' g = Some t"
proof -
  obtain es r' where L: "lock_reg p 0 (int (length (the (si_files (open_creat f w) f)))) F_SETLK F_WRLCK 0 SEEK_SET 0 (si_locks w f) = Some (es, r')"
    "\<not> r' < 0" "w' = (open_creat f w)\<lparr>si_locks := (si_locks w)(f := es), si_files := (si_files (open_creat f w))(f \<mapsto> pid_text p)\<rparr>"
    using assms by (auto simp: guard_file_def Let_def split: if_splits Option.bind_splits)
  then have nc: "\<not> list_ex (conflicts p F_WRLCK 0 None) (si_locks w f)" "es = set_range p F_WRLCK 0 None (si_locks w f)"
    by (auto simp: lock_reg_def fcntl_def lock_range_def split: if_splits)
  show "l_pid e = p" if "e \<in> set (si_locks w f)" "l_hi e = None" for e
    using nc(1) that by (auto simp: list_ex_iff conflicts_def overlaps_def below_def)
  show "whole_file_lock p \<in> set (si_locks w' f)" by (simp add: L(3) nc(2) set_range_def whole_file_lock_def)
  show "si_files w' f = Some (pid_text p)" "g \<noteq> f \<Longrightarrow> si_locks w' g = si_locks w g"
    "g \<noteq> f \<Longrightarrow> si_files w g = Some t \<Longrightarrow> si_files w' g = Some t"
    by (simp_all add: L(3))
qed

lemma guard_file_refuses:
  assumes "guard_file can_open f p w = Some (w', Exits e)"
  shows "si_locks w' g = release_all p (si_locks w g)" "si_files w g = Some t \<Longrightarrow> si_files w' g = Some t"
  using assms by (auto simp: guard_file_def process_end_def Let_def split: if_splits Option.bind_splits)

lemma pass_inv:
  assumes "si_inv (w, R)" "p \<notin> fst ` R" "guard_file can_open f p w = Some (w', Goes r)"
  shows "si_inv (w', insert (p, f) R)"
proof -
  note G = guard_file_passes [OF assms(3)]
  have I: "whole_file_lock q \<in> set (si_locks w g)" "si_files w g = Some (pid_text q)" if "(q, g) \<in> R" for q g
    using assms(1) that by (auto simp: si_inv_def)
  have other: "(q, f) \<notin> R" for q
  proof
    assume q: "(q, f) \<in> R"
    then have "q = p" using G(1) [OF I(1)] by (simp add: whole_file_lock_def)
    with q assms(2) show False by force
  qed
  have I2: "q = q'" if "(q, g) \<in> R" "(q', g) \<in> R" for q q' g
    using assms(1) that unfolding si_inv_def by blast
  show ?thesis
    unfolding si_inv_def
  proof (clarify, intro conjI allI impI)
    fix q g assume "(q, g) \<in> insert (p, f) R"
    then show "whole_file_lock q \<in> set (si_locks w' g)" "si_files w' g = Some (pid_text q)"
      using G(2,3) G(4) [of g] G(5) [of g] I other by (cases "g = f"; auto)+
  next
    fix q q' g assume "(q, g) \<in> insert (p, f) R \<and> (q', g) \<in> insert (p, f) R"
    then show "q = q'" using I2 other by blast
  qed
qed

lemma gone_inv:
  assumes "si_inv (w, R)" "R' \<subseteq> R" "p \<notin> fst ` R'" "\<And>g. si_locks w' g = release_all p (si_locks w g)"
    "\<And>g t. si_files w g = Some t \<Longrightarrow> si_files w' g = Some t"
  shows "si_inv (w', R')"
  unfolding si_inv_def
proof (clarify, intro conjI allI impI)
  fix q g assume q: "(q, g) \<in> R'"
  then have "q \<noteq> p" "(q, g) \<in> R" using assms(2,3) by force+
  then show "whole_file_lock q \<in> set (si_locks w' g)" "si_files w' g = Some (pid_text q)"
    using assms(1,4,5) by (auto simp: si_inv_def release_all_def whole_file_lock_def)
next
  fix q q' g assume "(q, g) \<in> R' \<and> (q', g) \<in> R'"
  then show "q = q'" using assms(1,2) unfolding si_inv_def by blast
qed

interpretation si: step_system si_start si_step si_inv
proof
  fix s assume "si_start s"
  then show "si_inv s" by cases (simp add: si_inv_def)
next
  fix s s' assume step: "si_step s s'" and inv: "si_inv s"
  from step show "si_inv s'"
  proof cases
    case (pass_named p R can_open n w w' r)
    then show ?thesis using inv pass_inv by (simp add: already_running_with_name_def)
  next
    case (pass_default p R can_open w w' r)
    then show ?thesis using inv pass_inv by (simp add: already_running_def)
  next
    case (pass_retired p R can_open w w' r)
    then show ?thesis using inv pass_inv by (simp add: single_process_already_running_def)
  next
    case (refused_retired p R can_open w w' e)
    show ?thesis unfolding refused_retired(2)
      by (rule gone_inv [OF inv [unfolded refused_retired(1)] subset_refl refused_retired(3)])
        (use refused_retired(4) guard_file_refuses in \<open>auto simp: single_process_already_running_def\<close>)
  next
    case (refused_named p R can_open n w w' e)
    show ?thesis unfolding refused_named(2)
      by (rule gone_inv [OF inv [unfolded refused_named(1)] subset_refl refused_named(3)])
        (use refused_named(4) guard_file_refuses in \<open>auto simp: already_running_with_name_def\<close>)
  next
    case (refused_default p R can_open w w' e)
    show ?thesis unfolding refused_default(2)
      by (rule gone_inv [OF inv [unfolded refused_default(1)] subset_refl refused_default(3)])
        (use refused_default(4) guard_file_refuses in \<open>auto simp: already_running_def\<close>)
  next
    case (ends p f R w)
    show ?thesis unfolding ends(2)
      by (rule gone_inv [OF inv [unfolded ends(1)], of _ p]) (auto simp: process_end_def)
  qed
qed


definition no_files :: si_world where
  "no_files = \<lparr>si_files = (\<lambda>f. None), si_locks = (\<lambda>f. [])\<rparr>"

definition one_running :: si_world where
  "one_running = \<lparr>si_files = [LOCKFILE \<mapsto> pid_text 42], si_locks = (\<lambda>f. [])(LOCKFILE := [whole_file_lock 42])\<rparr>"

lemma one_running_reach: "si_reach (one_running, {(42, LOCKFILE)})"
proof -
  have "already_running True 42 no_files = Some (one_running, Goes 0)"
    by (simp add: already_running_def guard_file_def no_files_def one_running_def open_creat_def lock_reg_def fcntl_def
        lock_range_def set_range_def whole_file_lock_def)
  then have "si_step (no_files, {}) (one_running, {(42, LOCKFILE)})" by (intro pass_default) auto
  moreover have "si_reach (no_files, {})" by (rule at_start, rule boot) (simp add: no_files_def)
  ultimately show ?thesis by (rule by_step [rotated])
qed


end
