(* ===== verification/Redis.thy ===== *)
theory Redis
  imports CString Glib_Hash
begin

text \<open>
  \<open>src/src/utils/redis/redis_opt.c\<close>: one connection for commands, and per channel a connection, a
  thread and up to 50 callbacks.

  The redis client library is outside the repository. What the code uses of it is its outcomes, given
  as arguments: a connection attempt gives NULL, a context with its error flag set, or a context that
  works; a command gets a reply or none; \<open>redisGetReply\<close> gives an error or a reply. A context is the
  list of the commands sent over it, in a heap, so that one that was freed can be told from a live
  one. \<open>log_on\<close> says whether the log macro, whose header is not in the repository either, reads its
  arguments. Host and channel names are used as formats: a percent sign in them is undefined. A join
  of a detached thread fails at once (\<open>EINVAL\<close>), as the manual page of \<open>pthread_join\<close> says. The
  mutex does not change the data.
\<close>

section \<open>State\<close>

definition SUB_OK :: int where "SUB_OK = 0"
definition SUB_ERR :: int where "SUB_ERR = - 1"
definition CHANNEL_NAME_LEN :: nat where "CHANNEL_NAME_LEN = 128"
definition DEFINE_IP_LEN :: nat where "DEFINE_IP_LEN = 16"
definition FUNC_MAX_COUNT :: nat where "FUNC_MAX_COUNT = 50"

record redis_conn_info_t =
  rci_host :: string
  rci_port :: int

text \<open>Callbacks are numbers, none for NULL.\<close>

record sub_msg_t =
  sm_pt :: nat
  sm_c :: addr
  sm_channel_name :: string
  sm_message_func :: "nat option list"
  sm_size :: int

text \<open>\<open>thr\<close>: the threads, with the object they were started on and whether they were asked to end.\<close>

record 't redis_world =
  redis_conn_info :: "redis_conn_info_t gptr"
  redis_conn_hd :: "addr option"
  sub_hash :: "'t option"
  ctxs :: "addr \<Rightarrow> string list option"
  subs :: "addr \<Rightarrow> sub_msg_t option"
  thr :: "nat \<Rightarrow> (addr \<times> bool) option"
  rbrk :: addr

type_synonym 't sub_table = "('t, unit, addr) ghash"

datatype conn_result = CNull | CErr | COk

section \<open>The redis client\<close>

definition redisCommand :: "addr option \<Rightarrow> string \<Rightarrow> 't redis_world \<Rightarrow> 't redis_world option" where
  "redisCommand hnd cmd w = do {
     a \<leftarrow> hnd;
     cs \<leftarrow> ctxs w a;
     Some (w\<lparr>ctxs := (ctxs w)(a \<mapsto> cs @ [cmd])\<rparr>) }"

definition redisFree :: "addr option \<Rightarrow> 't redis_world \<Rightarrow> 't redis_world option" where
  "redisFree p w =
     (case p of None \<Rightarrow> Some w | Some a \<Rightarrow> if ctxs w a = None then None else Some (w\<lparr>ctxs := (ctxs w)(a := None)\<rparr>))"

section \<open>The functions\<close>

definition init_redis_conn :: "'t sub_table \<Rightarrow> bool \<Rightarrow> string \<Rightarrow> int \<Rightarrow> conn_result \<Rightarrow> 't redis_world \<Rightarrow> ('t redis_world \<times> int) option" where
  "init_redis_conn h log_on host port conn w =
     (if redis_conn_info w \<noteq> GNull then Some (w, SUB_OK)
      else if CHR ''%'' \<in> set host then None
      else
        let w1 = w\<lparr>redis_conn_info := GLive \<lparr>rci_host = take (DEFINE_IP_LEN - 1) host, rci_port = port\<rparr>, sub_hash := Some (gh_new h)\<rparr> in
        case conn of
          CNull \<Rightarrow> None
        | CErr \<Rightarrow> if log_on then None
            else Some (w1\<lparr>redis_conn_hd := Some (rbrk w), rbrk := Suc (rbrk w), redis_conn_info := GNull\<rparr>, SUB_ERR)
        | COk \<Rightarrow> Some (w1\<lparr>redis_conn_hd := Some (rbrk w), ctxs := (ctxs w)(rbrk w \<mapsto> []), rbrk := Suc (rbrk w)\<rparr>, SUB_OK))"

definition unsubscribe :: "bool \<Rightarrow> string option \<Rightarrow> 't redis_world \<Rightarrow> ('t redis_world \<times> int) option" where
  "unsubscribe got channel_name w =
     (if redis_conn_hd w = None then Some (w, SUB_ERR)
      else case channel_name of
        None \<Rightarrow> Some (w, SUB_ERR)
      | Some n \<Rightarrow> do {
          w1 \<leftarrow> redisCommand (redis_conn_hd w) (''UNSUBSCRIBE '' @ n) w;
          Some (w1, if got then SUB_OK else SUB_ERR) })"

text \<open>\<open>pthread_cancel\<close> is a request; the join fails, since the thread is detached.\<close>

definition sub_value_destroy :: "addr \<Rightarrow> 't redis_world \<Rightarrow> 't redis_world option" where
  "sub_value_destroy a w = do {
     v \<leftarrow> subs w a;
     let w1 = w\<lparr>thr := (thr w)(sm_pt v := map_option (\<lambda>(b, _). (b, True)) (thr w (sm_pt v)))\<rparr>;
     w2 \<leftarrow> redisFree (Some (sm_c v)) w1;
     Some (w2\<lparr>subs := (subs w2)(a := None)\<rparr>) }"

fun destroy_subs :: "addr list \<Rightarrow> 't redis_world \<Rightarrow> 't redis_world option" where
  "destroy_subs [] w = Some w"
| "destroy_subs (a # as) w = sub_value_destroy a w \<bind> destroy_subs as"

definition init_subscribe ::
  "'t sub_table \<Rightarrow> bool \<Rightarrow> conn_result \<Rightarrow> bool \<Rightarrow> string \<Rightarrow> nat \<Rightarrow> 't redis_world \<Rightarrow> ('t redis_world \<times> int) option" where
  "init_subscribe h log_on conn created channel_name func w =
     (case sub_hash w \<bind> (\<lambda>t. gh_lookup h t channel_name) of
        Some (_, a) \<Rightarrow> do {
          v \<leftarrow> subs w a;
          if sm_size v \<ge> int FUNC_MAX_COUNT then Some (w, SUB_ERR)
          else do {
            fs \<leftarrow> aset (sm_message_func v) (sm_size v) (Some func);
            Some (w\<lparr>subs := (subs w)(a \<mapsto> v\<lparr>sm_message_func := fs, sm_size := sm_size v + 1\<rparr>)\<rparr>, SUB_OK) } }
      | None \<Rightarrow>
          (case redis_conn_info w of
             GLive info \<Rightarrow>
               (case conn of
                  CNull \<Rightarrow> None
                | CErr \<Rightarrow> if log_on then None else Some (w\<lparr>rbrk := Suc (rbrk w)\<rparr>, SUB_ERR)
                | COk \<Rightarrow>
                    if CHR ''%'' \<in> set channel_name then None
                    else do {
                      let key = take (CHANNEL_NAME_LEN - 1) channel_name;
                      let c = rbrk w;
                      let a = Suc c;
                      let v = \<lparr>sm_pt = a, sm_c = c, sm_channel_name = channel_name,
                        sm_message_func = (replicate FUNC_MAX_COUNT None)[0 := Some func], sm_size = 1\<rparr>;
                      let w1 = w\<lparr>ctxs := (ctxs w)(c \<mapsto> []), subs := (subs w)(a \<mapsto> v), rbrk := Suc a\<rparr>;
                      if \<not> created then Some (w1, SUB_ERR)
                      else do {
                        t \<leftarrow> sub_hash w;
                        let (t', ks, vs) = gh_insert h t key () a;
                        w2 \<leftarrow> destroy_subs vs (w1\<lparr>thr := (thr w1)(a \<mapsto> (a, False)), sub_hash := Some t'\<rparr>);
                        Some (w2, SUB_OK) } })
           | _ \<Rightarrow> None))"

definition set_ttl_key :: "string option \<Rightarrow> string option \<Rightarrow> int \<Rightarrow> 't redis_world \<Rightarrow> ('t redis_world \<times> int) option" where
  "set_ttl_key data_key data_value ttl w =
     (case (data_key, data_value) of
        (Some k, Some v) \<Rightarrow> do {
          w1 \<leftarrow> redisCommand (redis_conn_hd w) (''SET '' @ k @ '' '' @ v) w;
          w2 \<leftarrow> redisCommand (redis_conn_hd w1) (''EXPIRE '' @ k @ '' '' @ show_int ttl) w1;
          Some (w2, 0) }
      | _ \<Rightarrow> Some (w, - 1))"

fun unsubscribe_all :: "(string \<Rightarrow> bool) \<Rightarrow> string list \<Rightarrow> 't redis_world \<Rightarrow> 't redis_world option" where
  "unsubscribe_all got [] w = Some w"
| "unsubscribe_all got (k # ks) w = do { (w1, r) \<leftarrow> unsubscribe (got k) (Some k) w; unsubscribe_all got ks w1 }"

definition destory_redis_conn :: "'t sub_table \<Rightarrow> (string \<Rightarrow> bool) \<Rightarrow> 't redis_world \<Rightarrow> 't redis_world option" where
  "destory_redis_conn h got w = do {
     t \<leftarrow> sub_hash w;
     w1 \<leftarrow> unsubscribe_all got (map fst (gh_entries h t)) w;
     let (t', ks, vs) = gh_remove_all h t;
     w2 \<leftarrow> destroy_subs vs w1;
     w3 \<leftarrow> redisFree (redis_conn_hd w2) (w2\<lparr>sub_hash := None\<rparr>);
     if redis_conn_info w3 = GDead then None
     else Some (w3\<lparr>redis_conn_info := (if redis_conn_info w3 = GNull then GNull else GDead)\<rparr>) }"

section \<open>The subscriber thread\<close>

text \<open>The start of the thread on its object: whether it goes on to the loop.\<close>

definition subscribe_start :: "nat \<Rightarrow> 't redis_world \<Rightarrow> ('t redis_world \<times> bool) option" where
  "subscribe_start tid w = do {
     (a, _) \<leftarrow> thr w tid;
     v \<leftarrow> subs w a;
     w1 \<leftarrow> redisCommand (Some (sm_c v)) (''SUBSCRIBE '' @ sm_channel_name v) w;
     Some (w1, True) }"

text \<open>A reply: whether it is an array, and the strings of its elements (none for a NULL string).\<close>

type_synonym reply = "bool \<times> string option list"

text \<open>The loop over the callbacks, as the list of the calls it makes.\<close>

function call_funcs :: "sub_msg_t \<Rightarrow> int \<Rightarrow> string option \<Rightarrow> string \<Rightarrow> (nat \<times> string option \<times> string \<times> int) list option" where
  "call_funcs v i chan m =
     (if i < sm_size v then do {
        f \<leftarrow> aget (sm_message_func v) i;
        func \<leftarrow> f;
        cs \<leftarrow> call_funcs v (i + 1) chan m;
        Some ((func, chan, m, int (length m)) # cs) }
      else Some [])"
  by pat_completeness auto

termination
  by (relation "measure (\<lambda>(v, i, chan, m). nat (sm_size v - i))") auto

declare call_funcs.simps [simp del]

text \<open>One round of the loop, from the result of \<open>redisGetReply\<close> (none: not \<open>REDIS_OK\<close>).\<close>

definition subscribe_round :: "nat \<Rightarrow> reply option \<Rightarrow> 't redis_world \<Rightarrow> (nat \<times> string option \<times> string \<times> int) list option" where
  "subscribe_round tid r w = do {
     (a, _) \<leftarrow> thr w tid;
     v \<leftarrow> subs w a;
     cs \<leftarrow> ctxs w (sm_c v);
     case r of
       Some (True, [x0, x1, Some m]) \<Rightarrow> call_funcs v 0 x1 m
     | _ \<Rightarrow> Some [] }"

section \<open>Subscriptions in order\<close>

definition callbacks :: "sub_msg_t \<Rightarrow> nat list" where
  "callbacks v = map the (take (nat (sm_size v)) (sm_message_func v))"

text \<open>The objects of a channel: live, with a live connection of its own, a running thread and 1 to 50 callbacks.\<close>

definition entry_ok :: "'t redis_world \<Rightarrow> addr \<Rightarrow> addr \<Rightarrow> sub_msg_t \<Rightarrow> bool" where
  "entry_ok w hnd a v \<longleftrightarrow> a < rbrk w \<and> sm_pt v = a \<and> Suc (sm_c v) = a \<and> ctxs w (sm_c v) \<noteq> None \<and> sm_c v \<noteq> hnd \<and>
     thr w a = Some (a, False) \<and> length (sm_message_func v) = FUNC_MAX_COUNT \<and> 1 \<le> sm_size v \<and> sm_size v \<le> int FUNC_MAX_COUNT \<and>
     (\<forall>i < nat (sm_size v). sm_message_func v ! i \<noteq> None)"

definition table_ok :: "'t sub_table \<Rightarrow> 't \<Rightarrow> addr \<Rightarrow> 't redis_world \<Rightarrow> bool" where
  "table_ok h t hnd w \<longleftrightarrow>
     (\<forall>k p a. gh_lookup h t k = Some (p, a) \<longrightarrow> (\<exists>v. subs w a = Some v \<and> entry_ok w hnd a v)) \<and>
     (\<forall>k k' p p' a. gh_lookup h t k = Some (p, a) \<and> gh_lookup h t k' = Some (p', a) \<longrightarrow> k = k')"

definition redis_ok :: "'t sub_table \<Rightarrow> 't redis_world \<Rightarrow> bool" where
  "redis_ok h w \<longleftrightarrow> (\<exists>info t hnd. redis_conn_info w = GLive info \<and> sub_hash w = Some t \<and> redis_conn_hd w = Some hnd \<and>
     hnd < rbrk w \<and> ctxs w hnd \<noteq> None \<and> table_ok h t hnd w)"

text \<open>What the clients see: the callbacks of each channel.\<close>

definition sub_entry :: "'t sub_table \<Rightarrow> 't redis_world \<Rightarrow> string \<Rightarrow> (addr \<times> sub_msg_t) option" where
  "sub_entry h w k = do { t \<leftarrow> sub_hash w; (p, a) \<leftarrow> gh_lookup h t k; v \<leftarrow> subs w a; Some (a, v) }"

definition sub_view :: "'t sub_table \<Rightarrow> 't redis_world \<Rightarrow> string \<Rightarrow> nat list" where
  "sub_view h w k = (case sub_entry h w k of None \<Rightarrow> [] | Some (a, v) \<Rightarrow> callbacks v)"

lemma entry_okD:
  assumes "entry_ok w hnd a v"
  shows "a < rbrk w" "sm_pt v = a" "Suc (sm_c v) = a" "\<exists>cs. ctxs w (sm_c v) = Some cs" "sm_c v \<noteq> hnd" "thr w a = Some (a, False)"
    "length (sm_message_func v) = FUNC_MAX_COUNT" "1 \<le> sm_size v" "sm_size v \<le> int FUNC_MAX_COUNT"
    "i < nat (sm_size v) \<Longrightarrow> sm_message_func v ! i \<noteq> None"
  using assms by (auto simp: entry_ok_def)

lemma table_okD:
  assumes "table_ok h t hnd w" "gh_lookup h t k = Some (p, a)"
  shows "\<exists>v. subs w a = Some v \<and> entry_ok w hnd a v" "gh_lookup h t k' = Some (p', a) \<Longrightarrow> k' = k"
  using assms unfolding table_ok_def by blast+

lemma redis_okE:
  assumes "redis_ok h w"
  obtains info t hnd where "redis_conn_info w = GLive info" "sub_hash w = Some t" "redis_conn_hd w = Some hnd" "hnd < rbrk w"
    "ctxs w hnd \<noteq> None" "table_ok h t hnd w"
  using assms by (auto simp: redis_ok_def)

lemma entry_ok_mono:
  "entry_ok w hnd a v \<Longrightarrow> rbrk w \<le> rbrk w' \<Longrightarrow> (\<And>b. b < rbrk w \<Longrightarrow> ctxs w b \<noteq> None \<Longrightarrow> ctxs w' b \<noteq> None) \<Longrightarrow>
   (\<And>b. b < rbrk w \<Longrightarrow> thr w' b = thr w b) \<Longrightarrow> entry_ok w' hnd a v"
  unfolding entry_ok_def by (metis Suc_lessD order_less_le_trans)

lemma length_callbacks: "entry_ok w hnd a v \<Longrightarrow> length (callbacks v) = nat (sm_size v)"
  by (auto simp: callbacks_def entry_ok_def)

section \<open>Delivering a message\<close>

lemma call_funcs_callbacks:
  assumes "entry_ok w hnd a v"
  shows "0 \<le> i \<Longrightarrow> i \<le> sm_size v \<Longrightarrow>
    call_funcs v i chan m = Some (map (\<lambda>g. (g, chan, m, int (length m))) (drop (nat i) (callbacks v)))"
proof (induction "nat (sm_size v - i)" arbitrary: i)
  case 0
  then show ?case using length_callbacks [OF assms] by (simp add: call_funcs.simps [of v i])
next
  case (Suc n)
  note D = entry_okD [OF assms]
  have i: "i < sm_size v" "nat i < nat (sm_size v)" using Suc.hyps(2) Suc.prems by auto
  have l: "nat i < length (sm_message_func v)" using i D(7,9) by simp
  obtain g where g: "sm_message_func v ! nat i = Some g" using D(10) [OF i(2)] by auto
  have cb: "nat i < length (callbacks v)" "callbacks v ! nat i = g"
    using length_callbacks [OF assms] i l g by (simp_all add: callbacks_def)
  have dr: "drop (nat i) (callbacks v) = g # drop (nat (i + 1)) (callbacks v)"
    using cb Cons_nth_drop_Suc [OF cb(1)] Suc.prems(1) by (simp add: nat_add_distrib)
  have "call_funcs v (i + 1) chan m = Some (map (\<lambda>g. (g, chan, m, int (length m))) (drop (nat (i + 1)) (callbacks v)))"
    using Suc.hyps(2) Suc.prems i by (intro Suc.hyps(1)) auto
  then show ?case using i l g Suc.prems(1) by (simp add: call_funcs.simps [of v i] aget_def dr)
qed

lemma deliver:
  assumes "redis_ok h w" "sub_entry h w k = Some (a, v)"
  shows "sm_pt v = a" "subscribe_round a (Some (True, [x0, x1, Some m])) w = Some (map (\<lambda>g. (g, x1, m, int (length m))) (sub_view h w k))"
proof -
  obtain info t hnd where w: "sub_hash w = Some t" "table_ok h t hnd w" using assms(1) by (rule redis_okE)
  obtain p where "gh_lookup h t k = Some (p, a)" "subs w a = Some v" using assms(2) w(1) by (auto simp: sub_entry_def split: Option.bind_splits)
  then have e: "entry_ok w hnd a v" using table_okD(1) [OF w(2)] by fastforce
  note D = entry_okD [OF e]
  show "sm_pt v = a" by (rule D(2))
  have "call_funcs v 0 x1 m = Some (map (\<lambda>g. (g, x1, m, int (length m))) (callbacks v))"
    using call_funcs_callbacks [OF e, of 0] D(8) by simp
  then show "subscribe_round a (Some (True, [x0, x1, Some m])) w = Some (map (\<lambda>g. (g, x1, m, int (length m))) (sub_view h w k))"
    using D(4,6) assms(2) \<open>subs w a = Some v\<close> by (auto simp: subscribe_round_def sub_view_def)
qed

lemma sub_size:
  assumes "redis_ok h w" "sub_entry h w k = Some (a, v)"
  shows "length (sub_view h w k) = nat (sm_size v) \<and> 1 \<le> sm_size v"
proof -
  obtain info t hnd where w: "sub_hash w = Some t" "table_ok h t hnd w" using assms(1) by (rule redis_okE)
  obtain p where "gh_lookup h t k = Some (p, a)" "subs w a = Some v" using assms(2) w(1) by (auto simp: sub_entry_def split: Option.bind_splits)
  then have e: "entry_ok w hnd a v" using table_okD(1) [OF w(2)] by fastforce
  then show ?thesis using length_callbacks [OF e] entry_okD(8) [OF e] assms(2) by (simp add: sub_view_def)
qed

section \<open>Adding a callback\<close>

lemma view_set:
  assumes t: "sub_hash w = Some t" and ok: "table_ok h t hnd w" and k: "gh_lookup h t k = Some (p, a)"
  shows "sub_view h (w\<lparr>subs := (subs w)(a \<mapsto> v)\<rparr>) = (sub_view h w)(k := callbacks v)"
proof
  fix j
  show "sub_view h (w\<lparr>subs := (subs w)(a \<mapsto> v)\<rparr>) j = ((sub_view h w)(k := callbacks v)) j"
  proof (cases "gh_lookup h t j")
    case (Some x)
    have "j = k" if "snd x = a" using table_okD(2) [OF ok k, of j "fst x"] Some that by (cases x) simp
    then show ?thesis using Some t k by (cases x) (auto simp: sub_view_def sub_entry_def)
  qed (use t k in \<open>auto simp: sub_view_def sub_entry_def\<close>)
qed

lemma callbacks_add:
  assumes e: "entry_ok w hnd a v" and l: "sm_size v < int FUNC_MAX_COUNT"
  shows "entry_ok w hnd a (v\<lparr>sm_message_func := (sm_message_func v)[nat (sm_size v) := Some f], sm_size := sm_size v + 1\<rparr>)"
    "callbacks (v\<lparr>sm_message_func := (sm_message_func v)[nat (sm_size v) := Some f], sm_size := sm_size v + 1\<rparr>) = callbacks v @ [f]"
proof -
  note D = entry_okD [OF e]
  define n where "n = nat (sm_size v)"
  have n: "nat (sm_size v + 1) = Suc n" "n < length (sm_message_func v)" using D(7,8) l by (simp_all add: n_def nat_add_distrib)
  show "callbacks (v\<lparr>sm_message_func := (sm_message_func v)[nat (sm_size v) := Some f], sm_size := sm_size v + 1\<rparr>) = callbacks v @ [f]"
    using n by (simp add: callbacks_def n_def [symmetric] take_Suc_conv_app_nth)
  show "entry_ok w hnd a (v\<lparr>sm_message_func := (sm_message_func v)[nat (sm_size v) := Some f], sm_size := sm_size v + 1\<rparr>)"
    using e l D(10) n by (auto simp: entry_ok_def n_def [symmetric] nth_list_update less_Suc_eq)
qed

lemma subscribe_known:
  assumes ok: "redis_ok h w" and e: "sub_entry h w k = Some (a, v)"
  shows "if sm_size v < int FUNC_MAX_COUNT
    then \<exists>w'. init_subscribe h log_on conn created k f w = Some (w', SUB_OK) \<and> redis_ok h w' \<and>
      sub_view h w' = (sub_view h w)(k := sub_view h w k @ [f]) \<and> sub_entry h w' k \<noteq> None
    else init_subscribe h log_on conn created k f w = Some (w, SUB_ERR)"
proof -
  obtain info t hnd where w: "redis_conn_info w = GLive info" "sub_hash w = Some t" "redis_conn_hd w = Some hnd" "hnd < rbrk w"
    "ctxs w hnd \<noteq> None" "table_ok h t hnd w"
    using ok by (rule redis_okE)
  obtain p where k: "gh_lookup h t k = Some (p, a)" "subs w a = Some v" using e w(2) by (auto simp: sub_entry_def split: Option.bind_splits)
  have en: "entry_ok w hnd a v" using table_okD(1) [OF w(6) k(1)] k(2) by simp
  note D = entry_okD [OF en]
  show ?thesis
  proof (cases "sm_size v < int FUNC_MAX_COUNT")
    case True
    define v' where "v' = v\<lparr>sm_message_func := (sm_message_func v)[nat (sm_size v) := Some f], sm_size := sm_size v + 1\<rparr>"
    let ?w' = "w\<lparr>subs := (subs w)(a \<mapsto> v')\<rparr>"
    have run: "init_subscribe h log_on conn created k f w = Some (?w', SUB_OK)"
      using True w(2) k D(7,8) by (simp add: init_subscribe_def aset_def v'_def)
    have same: "entry_ok ?w' hnd b u = entry_ok w hnd b u" for b u by (simp add: entry_ok_def)
    have "table_ok h t hnd ?w'"
      using w(6) callbacks_add(1) [OF en True] unfolding table_ok_def same by (auto simp: v'_def)
    then have "redis_ok h ?w'" using w by (auto simp: redis_ok_def)
    moreover have "sub_view h w k = callbacks v" using e by (simp add: sub_view_def)
    ultimately show ?thesis
      using run True view_set [OF w(2,6) k(1), of v'] callbacks_add(2) [OF en True, of f, folded v'_def] w(2) k
      by (auto simp: sub_entry_def)
  next
    case False
    then show ?thesis using w(2) k by (simp add: init_subscribe_def)
  qed
qed

lemma subscribe_new:
  assumes laws: "ghash_laws h" and ok: "redis_ok h w" and e: "sub_entry h w k = None"
    and k: "length k < CHANNEL_NAME_LEN" "CHR ''%'' \<notin> set k"
  shows "\<exists>w'. init_subscribe h log_on COk True k f w = Some (w', SUB_OK) \<and> redis_ok h w' \<and>
    sub_view h w' = (sub_view h w)(k := [f]) \<and> sub_entry h w' k \<noteq> None"
proof -
  obtain info t hnd where w: "redis_conn_info w = GLive info" "sub_hash w = Some t" "redis_conn_hd w = Some hnd" "hnd < rbrk w"
    "ctxs w hnd \<noteq> None" "table_ok h t hnd w"
    using ok by (rule redis_okE)
  have new: "gh_lookup h t k = None"
    using e w(2) table_okD(1) [OF w(6)] by (fastforce simp: sub_entry_def split: Option.bind_splits)
  define a where "a = Suc (rbrk w)"
  define v where "v = \<lparr>sm_pt = a, sm_c = rbrk w, sm_channel_name = k,
    sm_message_func = (replicate FUNC_MAX_COUNT None)[0 := Some f], sm_size = 1\<rparr>"
  obtain t' ks vs where ins: "gh_insert h t k () a = (t', ks, vs)" by (metis prod_cases3)
  have lk: "gh_lookup h t' = (gh_lookup h t)(k \<mapsto> ((), a))" "vs = []" using gh_insert_laws(1,3) [OF laws ins] new by simp_all
  let ?w' = "w\<lparr>ctxs := (ctxs w)(rbrk w \<mapsto> []), subs := (subs w)(a \<mapsto> v), rbrk := Suc a, thr := (thr w)(a \<mapsto> (a, False)), sub_hash := Some t'\<rparr>"
  have key: "take (CHANNEL_NAME_LEN - 1) k = k" using k(1) by simp
  have run: "init_subscribe h log_on COk True k f w = Some (?w', SUB_OK)"
    using w(1,2) new k(2) ins lk(2) key by (simp add: init_subscribe_def Let_def a_def [symmetric] v_def [symmetric])
  have old: "entry_ok ?w' hnd b u" if "entry_ok w hnd b u" for b u
    by (rule entry_ok_mono [OF that]) (auto simp: a_def)
  have fresh: "entry_ok ?w' hnd a v"
    using w(4) by (auto simp: entry_ok_def v_def a_def FUNC_MAX_COUNT_def)
  have lt: "b < rbrk w" if "gh_lookup h t j = Some (p, b)" for j p b using table_okD(1) [OF w(6) that] entry_okD(1) by blast
  have "table_ok h t' hnd ?w'"
    unfolding table_ok_def
  proof (intro conjI allI impI)
    fix j p b assume j: "gh_lookup h t' j = Some (p, b)"
    show "\<exists>u. subs ?w' b = Some u \<and> entry_ok ?w' hnd b u"
    proof (cases "j = k")
      case True
      then show ?thesis using j lk(1) fresh by auto
    next
      case False
      then have j': "gh_lookup h t j = Some (p, b)" using j lk(1) by simp
      then show ?thesis using table_okD(1) [OF w(6) j'] old lt [OF j'] by (auto simp: a_def)
    qed
  next
    fix j j' p p' b assume "gh_lookup h t' j = Some (p, b) \<and> gh_lookup h t' j' = Some (p', b)"
    then show "j = j'" using lk(1) lt [of j p b] lt [of j' p' b] table_okD(2) [OF w(6), of j p b j' p']
      by (auto simp: a_def split: if_splits)
  qed
  then have "redis_ok h ?w'" using w by (auto simp: redis_ok_def a_def)
  moreover have "sub_view h ?w' j = ((sub_view h w)(k := [f])) j" for j
  proof (cases "j = k")
    case True
    have "take 1 ((replicate FUNC_MAX_COUNT None)[0 := Some f]) = [Some f]" by (simp add: FUNC_MAX_COUNT_def numeral_eq_Suc)
    with True show ?thesis by (simp add: sub_view_def sub_entry_def lk(1) callbacks_def v_def)
  next
    case False
    have "b \<noteq> a" if "gh_lookup h t j = Some (p, b)" for p b using lt [OF that] by (simp add: a_def)
    with False show ?thesis using w(2) by (cases "gh_lookup h t j") (auto simp: sub_view_def sub_entry_def lk(1))
  qed
  moreover have "sub_entry h ?w' k \<noteq> None" by (simp add: sub_entry_def lk(1))
  ultimately show ?thesis using run by blast
qed

section \<open>Taking it down\<close>

lemma unsubscribe_all_ok:
  "redis_conn_hd w = Some hnd \<Longrightarrow> ctxs w hnd = Some cs \<Longrightarrow>
   \<exists>cs'. unsubscribe_all got ks w = Some (w\<lparr>ctxs := (ctxs w)(hnd \<mapsto> cs')\<rparr>)"
proof (induction ks arbitrary: w cs)
  case Nil
  have "unsubscribe_all got [] w = Some (w\<lparr>ctxs := (ctxs w)(hnd \<mapsto> cs)\<rparr>)" using Nil by (simp add: fun_upd_idem)
  then show ?case by blast
next
  case (Cons k ks)
  let ?w1 = "w\<lparr>ctxs := (ctxs w)(hnd \<mapsto> cs @ [''UNSUBSCRIBE '' @ k])\<rparr>"
  have "\<exists>cs'. unsubscribe_all got ks ?w1 = Some (?w1\<lparr>ctxs := (ctxs ?w1)(hnd \<mapsto> cs')\<rparr>)"
    using Cons.prems by (intro Cons.IH [of ?w1 "cs @ [''UNSUBSCRIBE '' @ k]"]) simp_all
  then obtain cs' where "unsubscribe_all got ks ?w1 = Some (?w1\<lparr>ctxs := (ctxs ?w1)(hnd \<mapsto> cs')\<rparr>)" by blast
  then have "unsubscribe_all got (k # ks) w = Some (w\<lparr>ctxs := (ctxs w)(hnd \<mapsto> cs')\<rparr>)"
    using Cons.prems by (simp add: unsubscribe_def redisCommand_def)
  then show ?case by blast
qed

lemma destroy_values_ok:
  "distinct as \<Longrightarrow> (\<And>a. a \<in> set as \<Longrightarrow> \<exists>v. subs w a = Some v \<and> entry_ok w hnd a v) \<Longrightarrow>
   destroy_subs as w = Some (w\<lparr>subs := (\<lambda>b. if b \<in> set as then None else subs w b),
     ctxs := (\<lambda>b. if Suc b \<in> set as then None else ctxs w b), thr := (\<lambda>b. if b \<in> set as then Some (b, True) else thr w b)\<rparr>)"
proof (induction "as" arbitrary: w)
  case (Cons a "as")
  obtain v where v: "subs w a = Some v" "entry_ok w hnd a v" using Cons.prems(2) by auto
  note D = entry_okD [OF v(2)]
  let ?w1 = "w\<lparr>thr := (thr w)(a \<mapsto> (a, True)), ctxs := (ctxs w)(sm_c v := None), subs := (subs w)(a := None)\<rparr>"
  have run: "sub_value_destroy a w = Some ?w1" using v(1) D by (auto simp: sub_value_destroy_def redisFree_def)
  have IH: "destroy_subs as ?w1 = Some (?w1\<lparr>subs := (\<lambda>b. if b \<in> set as then None else subs ?w1 b),
     ctxs := (\<lambda>b. if Suc b \<in> set as then None else ctxs ?w1 b), thr := (\<lambda>b. if b \<in> set as then Some (b, True) else thr ?w1 b)\<rparr>)"
  proof (rule Cons.IH)
    show "distinct as" using Cons.prems(1) by simp
    fix b assume b: "b \<in> set as"
    then have ne: "b \<noteq> a" using Cons.prems(1) by auto
    obtain u where u: "subs w b = Some u" "entry_ok w hnd b u" using Cons.prems(2) [of b] b by auto
    have "sm_c u \<noteq> sm_c v" using ne entry_okD(3) [OF u(2)] D(3) by auto
    with u ne have "entry_ok ?w1 hnd b u" by (simp add: entry_ok_def)
    then show "\<exists>v. subs ?w1 b = Some v \<and> entry_ok ?w1 hnd b v" using u(1) ne by simp
  qed
  have "Suc b = a \<longleftrightarrow> b = sm_c v" for b using D(3) by auto
  then show ?case using run IH by (auto simp: fun_eq_iff)
qed simp

lemma destory_ok:
  assumes laws: "ghash_laws h" and ok: "redis_ok h w"
  obtains w' hnd where "destory_redis_conn h got w = Some w'" "redis_conn_info w' = GDead" "redis_conn_hd w' = Some hnd" "ctxs w' hnd = None"
    "sub_hash w' = None" "\<forall>k a v. sub_entry h w k = Some (a, v) \<longrightarrow> subs w' a = None \<and> ctxs w' (sm_c v) = None \<and> thr w' a = Some (a, True)"
proof -
  obtain info t hnd where w: "redis_conn_info w = GLive info" "sub_hash w = Some t" "redis_conn_hd w = Some hnd" "hnd < rbrk w"
    "ctxs w hnd \<noteq> None" "table_ok h t hnd w"
    using ok by (rule redis_okE)
  obtain cs where cs: "ctxs w hnd = Some cs" using w(5) by auto
  obtain cs' where u: "unsubscribe_all got (map fst (gh_entries h t)) w = Some (w\<lparr>ctxs := (ctxs w)(hnd \<mapsto> cs')\<rparr>)"
    using unsubscribe_all_ok [OF w(3) cs] by blast
  let ?w1 = "w\<lparr>ctxs := (ctxs w)(hnd \<mapsto> cs')\<rparr>"
  obtain t' ks vs where rm: "gh_remove_all h t = (t', ks, vs)" by (metis prod_cases3)
  have inj: "\<forall>k k' p p' a. gh_lookup h t k = Some (p, a) \<and> gh_lookup h t k' = Some (p', a) \<longrightarrow> k = k'"
    using w(6) unfolding table_ok_def by (rule conjunct2)
  have d: "distinct vs" and mem: "\<And>a. a \<in> set vs \<longleftrightarrow> (\<exists>k p. gh_lookup h t k = Some (p, a))"
    using gh_values [OF laws rm inj] by blast+
  have same: "entry_ok ?w1 hnd a v = entry_ok w hnd a v" for a v by (auto simp: entry_ok_def)
  have live: "\<exists>v. subs ?w1 a = Some v \<and> entry_ok ?w1 hnd a v" if "a \<in> set vs" for a
    using that mem table_okD(1) [OF w(6)] unfolding same by auto
  let ?w2 = "?w1\<lparr>subs := (\<lambda>b. if b \<in> set vs then None else subs ?w1 b),
     ctxs := (\<lambda>b. if Suc b \<in> set vs then None else ctxs ?w1 b), thr := (\<lambda>b. if b \<in> set vs then Some (b, True) else thr ?w1 b)\<rparr>"
  have dv: "destroy_subs vs ?w1 = Some ?w2" by (rule destroy_values_ok [OF d live])
  have hnd: "Suc hnd \<notin> set vs"
  proof
    assume "Suc hnd \<in> set vs"
    then obtain v where "entry_ok ?w1 hnd (Suc hnd) v" using live by blast
    then show False using entry_okD(3,5) by blast
  qed
  let ?w' = "?w2\<lparr>ctxs := (ctxs ?w2)(hnd := None), sub_hash := None, redis_conn_info := GDead\<rparr>"
  have run: "destory_redis_conn h got w = Some ?w'"
    using w(1,2,3) u rm dv hnd by (simp add: destory_redis_conn_def redisFree_def)
  show ?thesis
  proof (rule that [OF run, of hnd], goal_cases)
    case 5
    show ?case
    proof (intro allI impI)
      fix k a v assume "sub_entry h w k = Some (a, v)"
      then obtain p where p: "gh_lookup h t k = Some (p, a)" "subs w a = Some v" using w(2) by (auto simp: sub_entry_def split: Option.bind_splits)
      then have "a \<in> set vs" "Suc (sm_c v) = a" using mem table_okD(1) [OF w(6) p(1)] entry_okD(3) by fastforce+
      then show "subs ?w' a = None \<and> ctxs ?w' (sm_c v) = None \<and> thr ?w' a = Some (a, True)" by simp
    qed
  qed (use w(3) in simp_all)
qed

section \<open>Properties\<close>

text \<open>
  C12: \<open>init_subscribe\<close> keeps, for each channel, the callbacks in the order they were added: with a
  server that answers, a channel name that fits its buffer and has no percent sign, the callback is
  added behind the channel's others and no other channel changes; the fifty-first is refused and
  changes nothing. The channel's thread hands a message to exactly these callbacks in this order.
\<close>

theorem redis_subscribe_refines:
  assumes "ghash_laws h" "redis_ok h w" "length k < CHANNEL_NAME_LEN" "CHR ''%'' \<notin> set k"
  shows "\<exists>w' r a v. init_subscribe h log_on COk True k f w = Some (w', r) \<and> redis_ok h w' \<and>
    (if length (sub_view h w k) < FUNC_MAX_COUNT
     then r = SUB_OK \<and> sub_view h w' = (sub_view h w)(k := sub_view h w k @ [f]) else r = SUB_ERR \<and> w' = w) \<and>
    sub_entry h w' k = Some (a, v) \<and>
    subscribe_round (sm_pt v) (Some (True, [x0, x1, Some m])) w' = Some (map (\<lambda>g. (g, x1, m, int (length m))) (sub_view h w' k))"
proof -
  have "\<exists>w' r. init_subscribe h log_on COk True k f w = Some (w', r) \<and> redis_ok h w' \<and>
    (if length (sub_view h w k) < FUNC_MAX_COUNT
     then r = SUB_OK \<and> sub_view h w' = (sub_view h w)(k := sub_view h w k @ [f]) else r = SUB_ERR \<and> w' = w) \<and>
    sub_entry h w' k \<noteq> None"
  proof (cases "sub_entry h w k")
    case None
    then have "sub_view h w k = []" by (simp add: sub_view_def)
    then show ?thesis using subscribe_new [OF assms(1,2) None assms(3,4), of log_on f] by (auto simp: FUNC_MAX_COUNT_def)
  next
    case (Some av)
    obtain a v where av: "av = (a, v)" by (cases av)
    have "length (sub_view h w k) < FUNC_MAX_COUNT \<longleftrightarrow> sm_size v < int FUNC_MAX_COUNT"
      using sub_size [OF assms(2) Some [unfolded av]] by auto
    then show ?thesis using subscribe_known [OF assms(2) Some [unfolded av], of log_on COk True f] assms(2) Some by (auto split: if_splits)
  qed
  then obtain w' r a v where "init_subscribe h log_on COk True k f w = Some (w', r)" "redis_ok h w'"
    "if length (sub_view h w k) < FUNC_MAX_COUNT
     then r = SUB_OK \<and> sub_view h w' = (sub_view h w)(k := sub_view h w k @ [f]) else r = SUB_ERR \<and> w' = w"
    and e: "sub_entry h w' k = Some (a, v)" by auto
  with deliver [OF this(2) e] show ?thesis by (intro exI [of _ w'] exI [of _ r] exI [of _ a] exI [of _ v]) auto
qed

text \<open>
  After \<open>destory_redis_conn\<close> the pointers to the freed connection and address stay in place. A new
  \<open>init_redis_conn\<close> reports success without connecting, and then setting a key, subscribing and
  destroying again are undefined. The detached subscriber threads are asked to end but not waited for:
  while one is still running, its object and its connection are already freed, and its next round is undefined.
\<close>

theorem redis_destroy_dangling:
  assumes "ghash_laws h" "redis_ok h w"
  shows "\<exists>w'. destory_redis_conn h got w = Some w' \<and> init_redis_conn h log_on host port conn w' = Some (w', SUB_OK) \<and>
    set_ttl_key (Some key) (Some val) ttl w' = None \<and> init_subscribe h log_on conn created k f w' = None \<and>
    destory_redis_conn h got w' = None \<and>
    (\<forall>j a v. sub_entry h w j = Some (a, v) \<longrightarrow> subscribe_round (sm_pt v) r w' = None)"
proof -
  obtain w' hnd where w': "destory_redis_conn h got w = Some w'" "redis_conn_info w' = GDead" "redis_conn_hd w' = Some hnd" "ctxs w' hnd = None"
    "sub_hash w' = None" "\<forall>k a v. sub_entry h w k = Some (a, v) \<longrightarrow> subs w' a = None \<and> ctxs w' (sm_c v) = None \<and> thr w' a = Some (a, True)"
    by (rule destory_ok [OF assms, of got])
  have "subscribe_round (sm_pt v) r w' = None" if "sub_entry h w j = Some (a, v)" for j a v
    using w'(6) that deliver(1) [OF assms(2) that] by (simp add: subscribe_round_def)
  then show ?thesis
    using w' by (auto simp: init_redis_conn_def set_ttl_key_def redisCommand_def init_subscribe_def destory_redis_conn_def)
qed

text \<open>A connection with one channel.\<close>

definition demo_redis :: "(unit, addr) altab redis_world" where
  "demo_redis = \<lparr>redis_conn_info = GNull, redis_conn_hd = None, sub_hash = None, ctxs = (\<lambda>a. None), subs = (\<lambda>a. None), thr = (\<lambda>a. None), rbrk = 0\<rparr>"

definition demo_connected :: "(unit, addr) altab redis_world" where
  "demo_connected = demo_redis\<lparr>redis_conn_info := GLive \<lparr>rci_host = ''127.0.0.1'', rci_port = 6379\<rparr>, sub_hash := Some (gh_new alist_ghash),
     redis_conn_hd := Some 0, ctxs := (\<lambda>a. None)(0 \<mapsto> []), rbrk := 1\<rparr>"

lemma demo_connected_ok: "init_redis_conn alist_ghash log_on ''127.0.0.1'' 6379 COk demo_redis = Some (demo_connected, SUB_OK)"
    "redis_ok alist_ghash demo_connected" "sub_view alist_ghash demo_connected ''news'' = []"
proof -
  show "init_redis_conn alist_ghash log_on ''127.0.0.1'' 6379 COk demo_redis = Some (demo_connected, SUB_OK)"
    by (simp add: init_redis_conn_def demo_redis_def demo_connected_def DEFINE_IP_LEN_def)
  show "redis_ok alist_ghash demo_connected"
    by (simp add: redis_ok_def demo_connected_def table_ok_def gh_lookup_new [OF alist_ghash_laws])
  show "sub_view alist_ghash demo_connected ''news'' = []"
    by (simp add: sub_view_def sub_entry_def demo_connected_def gh_lookup_new [OF alist_ghash_laws])
qed

theorem redis_subscribe_refines_witness:
  "\<exists>w' a v. init_subscribe alist_ghash True COk True ''news'' 7 demo_connected = Some (w', SUB_OK) \<and> redis_ok alist_ghash w' \<and>
    sub_view alist_ghash w' = (sub_view alist_ghash demo_connected)(''news'' := [7]) \<and> sub_entry alist_ghash w' ''news'' = Some (a, v) \<and>
    subscribe_round (sm_pt v) (Some (True, [None, Some ''news'', Some ''hi''])) w' = Some [(7, Some ''news'', ''hi'', 2)]"
  using redis_subscribe_refines [OF alist_ghash_laws demo_connected_ok(2), of "''news''" True 7 None "Some ''news''" "''hi''"] demo_connected_ok(3)
  by (auto simp: CHANNEL_NAME_LEN_def FUNC_MAX_COUNT_def)

theorem redis_destroy_dangling_witness:
  "\<exists>w'. destory_redis_conn alist_ghash (\<lambda>k. True) demo_connected = Some w' \<and>
    init_redis_conn alist_ghash True ''127.0.0.1'' 6379 COk w' = Some (w', SUB_OK) \<and>
    set_ttl_key (Some ''k'') (Some ''v'') 60 w' = None \<and> init_subscribe alist_ghash True COk True ''news'' 7 w' = None"
  using redis_destroy_dangling [OF alist_ghash_laws demo_connected_ok(2), of "\<lambda>k. True" True "''127.0.0.1''" 6379 COk "''k''" "''v''" 60 True "''news''" 7 None]
  by blast

end
