(* ===== verification/Sys_Tools.thy ===== *)
theory Sys_Tools
  imports CString
begin

text \<open>
  Three small utilities: \<open>src/src/utils/daemon/daemon.c\<close>, \<open>src/src/utils/get_trace/get_trace.c\<close> and
  \<open>src/src/utils/write_packet/write_single_packet.c\<close>.

  What the system answers is given as arguments: the results of the two forks, the descriptor limit,
  whether \<open>/dev/null\<close> opens; the symbols of the stack; whether the capture file opens. A capture file
  is the list of its packets.
\<close>

section \<open>Becoming a daemon\<close>

datatype fork_result = ForkFailed | InParent | InChild

record proc_state =
  p_umask :: int
  p_leader :: bool
  p_tty :: bool
  p_hup_ignored :: bool
  p_cwd :: string
  p_fds :: "(int \<times> string) list"

definition RLIM_INFINITY :: int where "RLIM_INFINITY = 2 ^ 64 - 1"

definition close_fd :: "int \<Rightarrow> (int \<times> string) list \<Rightarrow> (int \<times> string) list" where
  "close_fd fd fds = filter (\<lambda>x. fst x \<noteq> fd) fds"

text \<open>The loop over the descriptors: \<open>i\<close> is a 32-bit unsigned number, so with a larger limit it never ends.\<close>

partial_function (option) close_loop :: "int \<Rightarrow> int \<Rightarrow> (int \<times> string) list \<Rightarrow> (int \<times> string) list option" where
  "close_loop i m fds = (if i < m then close_loop ((i + 1) mod 2 ^ 32) m (close_fd i fds) else Some fds)"

definition open_fd :: "bool \<Rightarrow> string \<Rightarrow> (int \<times> string) list \<Rightarrow> (int \<times> string) list \<times> int" where
  "open_fd ok path fds = (if ok then ((lowest_fd fds, path) # fds, lowest_fd fds) else (fds, - 1))"

definition dup_fd :: "int \<Rightarrow> (int \<times> string) list \<Rightarrow> (int \<times> string) list \<times> int" where
  "dup_fd fd fds = (case map_of fds fd of Some path \<Rightarrow> ((lowest_fd fds, path) # fds, lowest_fd fds) | None \<Rightarrow> (fds, - 1))"

definition attach_null :: "bool \<Rightarrow> (int \<times> string) list \<Rightarrow> (int \<times> string) list run" where
  "attach_null ok fds =
     (let (f1, fd0) = open_fd ok ''/dev/null'' fds; (f2, fd1) = dup_fd 0 f1; (f3, fd2) = dup_fd 0 f2
      in if fd0 \<noteq> 0 \<or> fd1 \<noteq> 1 \<or> fd2 \<noteq> 2 then Exits 1 else Goes f3)"

definition daemonize :: "fork_result \<Rightarrow> fork_result \<Rightarrow> int \<Rightarrow> bool \<Rightarrow> proc_state \<Rightarrow> proc_state run option" where
  "daemonize fork1 fork2 rlim_max null_ok s =
     (let s1 = s\<lparr>p_umask := 0\<rparr> in
      case fork1 of
        ForkFailed \<Rightarrow> Some (Goes s1)
      | InParent \<Rightarrow> Some (Exits 0)
      | InChild \<Rightarrow>
          let s2 = s1\<lparr>p_leader := True, p_tty := False, p_hup_ignored := True\<rparr> in
          (case fork2 of
             ForkFailed \<Rightarrow> Some (Goes s2)
           | InParent \<Rightarrow> Some (Exits 0)
           | InChild \<Rightarrow> do {
               fds \<leftarrow> close_loop 0 (if rlim_max = RLIM_INFINITY then 1024 else rlim_max) (p_fds s2);
               andthen (Some (attach_null null_ok fds)) (\<lambda>fds'.
                 Some (Goes (s2\<lparr>p_leader := False, p_cwd := ''/'', p_fds := fds'\<rparr>))) }))"

section \<open>The stack trace\<close>

definition trace_line :: "nat \<Rightarrow> string \<Rightarrow> string" where
  "trace_line j nm = show_nat (Suc j) @ TAB # nm @ [NL]"

text \<open>\<open>snprintf(buf + off, n, ...)\<close>.\<close>

definition snprintf_at :: "char list \<Rightarrow> nat \<Rightarrow> nat \<Rightarrow> string \<Rightarrow> char list" where
  "snprintf_at buf off n s =
     (if n = 0 then buf else let t = take (n - 1) s @ [NUL] in take off buf @ t @ drop (off + length t) buf)"

text \<open>
  The loop with a buffer: \<open>offset\<close> grows by the length the line would have had, and a negative rest
  becomes a huge size.
\<close>

fun trace_loop :: "nat \<Rightarrow> string list \<Rightarrow> nat \<Rightarrow> nat \<Rightarrow> char list \<Rightarrow> char list option" where
  "trace_loop j [] len off buf = Some buf"
| "trace_loop j (nm # nms) len off buf =
     (if len < off then None
      else trace_loop (Suc j) nms len (off + length (trace_line j nm)) (snprintf_at buf off (len - off) (trace_line j nm)))"

fun trace_text :: "nat \<Rightarrow> string list \<Rightarrow> string" where
  "trace_text j [] = []"
| "trace_text j (nm # nms) = trace_line j nm @ trace_text (Suc j) nms"

text \<open>The buffer afterwards, or the printed text when there is none; the program ends when there are no symbols.\<close>

definition get_trace :: "string list option \<Rightarrow> char list option \<Rightarrow> nat \<Rightarrow> (char list option \<times> string) run option" where
  "get_trace strings stack_info len =
     (case strings of
        None \<Rightarrow> Some (Exits 1)
      | Some nms \<Rightarrow>
          (case stack_info of
             None \<Rightarrow> Some (Goes (None, trace_text 0 nms))
           | Some buf \<Rightarrow> map_option (\<lambda>b. Goes (Some b, [])) (trace_loop 0 nms len 0 buf)))"

section \<open>Saving a packet\<close>

record pcap_pkthdr =
  ts_sec :: int
  ts_usec :: int
  caplen :: int
  pkt_len :: int

text \<open>The file after the call; opening it for a dump empties it. \<open>ts\<close> counts 10 nanoseconds.\<close>

type_synonym pcap_file = "(pcap_pkthdr \<times> char list) list"

definition iridium_write_pcap_single :: "pcap_file \<Rightarrow> nat \<Rightarrow> char list \<Rightarrow> int \<Rightarrow> pcap_file option" where
  "iridium_write_pcap_single f ts data_buf len =
     (if length data_buf < nat len then None
      else Some (f @ [(\<lparr>ts_sec = int (ts div 100000000), ts_usec = int (ts div 100), caplen = len, pkt_len = len\<rparr>, take (nat len) data_buf)]))"

definition write_this_packet :: "bool \<Rightarrow> nat \<Rightarrow> char list option \<Rightarrow> int \<Rightarrow> pcap_file \<Rightarrow> (pcap_file \<times> int) option" where
  "write_this_packet can_open ts data_buf len f =
     (case data_buf of
        None \<Rightarrow> Some (f, - 1)
      | Some d \<Rightarrow>
          if len \<le> 0 then Some (f, - 1)
          else if \<not> can_open then Some (f, - 2)
          else map_option (\<lambda>f'. (f', 0)) (iridium_write_pcap_single [] ts d len))"

section \<open>Properties\<close>

lemma close_loop_all:
  "0 \<le> i \<Longrightarrow> i \<le> m \<Longrightarrow> m < 2 ^ 32 \<Longrightarrow> close_loop i m fds = Some (filter (\<lambda>x. \<not> (i \<le> fst x \<and> fst x < m)) fds)"
proof (induction "nat (m - i)" arbitrary: i fds)
  case 0
  then show ?case by (simp add: close_loop.simps [of i])
next
  case (Suc n)
  have i: "i < m" using Suc.hyps(2) by simp
  have "(i + 1) mod 2 ^ 32 = i + 1" using Suc.prems i by simp
  moreover have "close_loop (i + 1) m (close_fd i fds) = Some (filter (\<lambda>x. \<not> (i + 1 \<le> fst x \<and> fst x < m)) (close_fd i fds))"
    using Suc.hyps(2) Suc.prems i by (intro Suc.hyps(1)) auto
  moreover have "filter (\<lambda>x. \<not> (i + 1 \<le> fst x \<and> fst x < m)) (close_fd i fds) = filter (\<lambda>x. \<not> (i \<le> fst x \<and> fst x < m)) fds"
    using i unfolding close_fd_def filter_filter by (intro filter_cong) auto
  ultimately show ?case using i by (simp add: close_loop.simps [of i])
qed

lemma attach_null_empty:
  "attach_null ok [] = (if ok then Goes [(2, ''/dev/null''), (1, ''/dev/null''), (0, ''/dev/null'')] else Exits 1)"
proof -
  have "lowest_fd [] = 0" "lowest_fd [(0, x)] = 1" "lowest_fd [(1, x), (0, x)] = 2" for x
    by (simp_all add: lowest_fd_def)
  then show ?thesis by (simp add: attach_null_def open_fd_def dup_fd_def)
qed

text \<open>
  Becoming a daemon. The two parents leave with status 0. With open descriptors below the limit
  (1024 when it is infinite) and a limit below \<open>2\<^sup>32\<close>, the loop over the descriptors ends and the grandchild
  runs in the root directory without terminal, is not a session leader, ignores the hang-up signal,
  and has exactly the descriptors 0, 1 and 2, all on \<open>/dev/null\<close>; when that cannot be opened it ends with status 1.
\<close>

theorem daemonize_detaches:
  assumes "m = (if rlim = RLIM_INFINITY then 1024 else rlim)" "0 \<le> m" "m < 2 ^ 32" "list_all (\<lambda>x. 0 \<le> fst x \<and> fst x < m) (p_fds s)"
  shows "daemonize InChild InChild rlim null_ok s =
      Some (if null_ok then Goes \<lparr>p_umask = 0, p_leader = False, p_tty = False, p_hup_ignored = True, p_cwd = ''/'',
          p_fds = [(2, ''/dev/null''), (1, ''/dev/null''), (0, ''/dev/null'')]\<rparr> else Exits 1) \<and>
    daemonize InParent f rlim null_ok s = Some (Exits 0) \<and> daemonize InChild InParent rlim null_ok s = Some (Exits 0)"
proof -
  have "filter (\<lambda>x. \<not> (0 \<le> fst x \<and> fst x < m)) (p_fds s) = []" using assms(4) by (auto simp: filter_empty_conv list_all_iff)
  then have "close_loop 0 m (p_fds s) = Some []" using close_loop_all [of 0 m "p_fds s"] assms(2,3) by simp
  then show ?thesis by (cases s) (auto simp: daemonize_def assms(1) [symmetric] attach_null_empty Let_def)
qed

theorem daemonize_detaches_witness:
  "daemonize InChild InChild RLIM_INFINITY True \<lparr>p_umask = 18, p_leader = True, p_tty = True, p_hup_ignored = False, p_cwd = ''/home'',
      p_fds = [(0, ''tty''), (1, ''tty''), (2, ''tty''), (7, ''data'')]\<rparr> =
    Some (Goes \<lparr>p_umask = 0, p_leader = False, p_tty = False, p_hup_ignored = True, p_cwd = ''/'',
      p_fds = [(2, ''/dev/null''), (1, ''/dev/null''), (0, ''/dev/null'')]\<rparr>)"
  using daemonize_detaches [of 1024 RLIM_INFINITY "\<lparr>p_umask = 18, p_leader = True, p_tty = True, p_hup_ignored = False, p_cwd = ''/home'',
      p_fds = [(0, ''tty''), (1, ''tty''), (2, ''tty''), (7, ''data'')]\<rparr>" True]
  by simp

text \<open>The trace fits as long as every line starts inside the buffer.\<close>

lemma trace_loop_defined:
  "off \<le> len \<Longrightarrow> trace_loop j nms len off buf \<noteq> None \<longleftrightarrow> nms = [] \<or> off + length (trace_text j (butlast nms)) \<le> len"
proof (induction nms arbitrary: j off buf)
  case (Cons nm nms)
  let ?off = "off + length (trace_line j nm)"
  show ?case
  proof (cases "?off \<le> len")
    case True
    with Cons.IH [OF this] Cons.prems show ?thesis by (cases nms) auto
  next
    case False
    with Cons.prems show ?thesis by (cases nms) auto
  qed
qed simp

lemma snprintf_at_fits:
  assumes "length buf = len" "off + length s < len"
  shows "snprintf_at buf off (len - off) s = take off buf @ s @ NUL # drop (off + length s + 1) buf"
    "length (snprintf_at buf off (len - off) s) = len"
  using assms by (simp_all add: snprintf_at_def Let_def)

lemma trace_loop_text:
  assumes "no_nul (pre @ trace_text j nms)" "length buf = len" "take off buf = pre" "off = length pre"
    "off + length (trace_text j nms) < len" "nms \<noteq> []"
  shows "trace_loop j nms len off buf \<bind> cstring = Some (pre @ trace_text j nms)"
  using assms
proof (induction nms arbitrary: j off buf pre)
  case (Cons nm nms)
  let ?l = "trace_line j nm"
  let ?b = "snprintf_at buf off (len - off) ?l"
  have f: "?b = (pre @ ?l) @ NUL # drop (off + length ?l + 1) buf" "length ?b = len"
    using snprintf_at_fits [OF Cons.prems(2), of off ?l] Cons.prems(3,5) by simp_all
  show ?case
  proof (cases nms)
    case Nil
    have "no_nul (pre @ ?l)" using Cons.prems(1) Nil by simp
    then show ?thesis using Cons.prems(5) f(1) Nil cstring_terminated [of "pre @ ?l"] by simp
  next
    case (Cons nm' nms')
    have "trace_loop (Suc j) nms len (off + length ?l) ?b \<bind> cstring = Some ((pre @ ?l) @ trace_text (Suc j) nms)"
      by (rule Cons.IH) (use Cons.prems Cons f in auto)
    then show ?thesis using Cons.prems(5) by simp
  qed
qed simp

text \<open>
  A trace that is shorter than the buffer is in it as a string, all lines numbered from 1 in the order
  of the stack. The call is defined exactly when every line starts inside the buffer: the size that is
  left is computed from the lengths the lines would have had, so one line that did not fit makes the
  next one write outside. Without a buffer the same text is printed.
\<close>

theorem get_trace_fits:
  assumes "length buf = len" "no_nul (trace_text 0 nms)" "nms \<noteq> []"
  shows "(length (trace_text 0 nms) < len \<longrightarrow>
      (\<exists>b. get_trace (Some nms) (Some buf) len = Some (Goes (Some b, [])) \<and> cstring b = Some (trace_text 0 nms))) \<and>
    (get_trace (Some nms) (Some buf) len \<noteq> None \<longleftrightarrow> length (trace_text 0 (butlast nms)) \<le> len) \<and>
    get_trace (Some nms) None len = Some (Goes (None, trace_text 0 nms))"
proof (intro conjI impI)
  assume "length (trace_text 0 nms) < len"
  then have "trace_loop 0 nms len 0 buf \<bind> cstring = Some (trace_text 0 nms)"
    using trace_loop_text [of "[]" 0 nms buf len 0] assms by simp
  then show "\<exists>b. get_trace (Some nms) (Some buf) len = Some (Goes (Some b, [])) \<and> cstring b = Some (trace_text 0 nms)"
    by (auto simp: get_trace_def split: Option.bind_splits)
next
  show "get_trace (Some nms) (Some buf) len \<noteq> None \<longleftrightarrow> length (trace_text 0 (butlast nms)) \<le> len"
    using trace_loop_defined [of 0 len 0 nms buf] assms(3) by (simp add: get_trace_def)
qed (simp add: get_trace_def)

theorem get_trace_fits_witness:
  "get_trace (Some [''main'', ''start'', ''x'']) (Some (replicate 8 NUL)) 8 = None"
  using get_trace_fits [of "replicate 8 NUL" 8 "[''main'', ''start'', ''x'']"]
  by (simp add: trace_line_def no_nul_show_nat)

text \<open>
  The saved file holds exactly the one packet with its bytes, but its time stamp is wrong: the
  microseconds are those since the epoch, not those of the second, so they are below a million only
  for a time in the first second.
\<close>

theorem saved_packet_time:
  assumes "0 < len" "nat len \<le> length d"
  shows "\<exists>hdr. write_this_packet True ts (Some d) len f = Some ([(hdr, take (nat len) d)], 0) \<and> caplen hdr = len \<and> pkt_len hdr = len \<and>
    ts_sec hdr = int (ts div 100000000) \<and> (ts_usec hdr < 1000000 \<longleftrightarrow> ts < 100000000)"
proof -
  have "ts div 100 < 1000000 \<longleftrightarrow> ts < 100000000" by auto
  then show ?thesis using assms by (auto simp: write_this_packet_def iridium_write_pcap_single_def)
qed

theorem saved_packet_time_witness:
  "\<exists>hdr. write_this_packet True 153000000000000000 (Some ''abcd'') 3 [] = Some ([(hdr, ''abc'')], 0) \<and> ts_sec hdr = 1530000000 \<and> \<not> ts_usec hdr < 1000000"
  using saved_packet_time [of 3 "''abcd''" 153000000000000000 "[]"] by auto

end
