(* ===== verification/Retired.thy ===== *)
theory Retired
  imports Calendar
begin

text \<open>
  Two functions of the retired tools: \<open>compute_days\<close> of
  \<open>src/trash/c_tools/miscellaneous/compute_days.c\<close> and \<open>is_valid_ipv4\<close> of
  \<open>src/trash/c_tools/miscellaneous/check_ipv4.c\<close>.
\<close>

section \<open>Days between two dates\<close>

text \<open>The number that the function computes for one date, with every intermediate \<open>int\<close>.\<close>

definition day_number :: "int \<Rightarrow> int \<Rightarrow> int \<Rightarrow> int option" where
  "day_number y m d = do {
     a \<leftarrow> cint (m + 9);
     let m1 = a smod 12;
     y1 \<leftarrow> cint (y - m1 sdiv 10);
     t1 \<leftarrow> cint (365 * y1);
     t2 \<leftarrow> cint (t1 + y1 sdiv 4);
     t3 \<leftarrow> cint (t2 - y1 sdiv 100);
     t4 \<leftarrow> cint (t3 + y1 sdiv 400);
     u1 \<leftarrow> cint (m1 * 306);
     u2 \<leftarrow> cint (u1 + 5);
     t5 \<leftarrow> cint (t4 + u2 sdiv 10);
     d1 \<leftarrow> cint (d - 1);
     cint (t5 + d1) }"

definition compute_days :: "int \<Rightarrow> int \<Rightarrow> int \<Rightarrow> int \<Rightarrow> int \<Rightarrow> int \<Rightarrow> int option" where
  "compute_days y_s m_s d_s y_e m_e d_e = do {
     d1 \<leftarrow> day_number y_s m_s d_s;
     d2 \<leftarrow> day_number y_e m_e d_e;
     cint (d2 - d1) }"

section \<open>Days of the calendar\<close>

text \<open>No intermediate result leaves the range of \<open>int\<close> up to the year five million.\<close>

lemma day_number_date_no:
  assumes "is_date (y, m, d)" "y \<le> 5000000"
  shows "day_number y m d = Some (date_no (y, m, d)) \<and> 0 \<le> date_no (y, m, d) \<and> date_no (y, m, d) \<le> 2000000000"
proof -
  have v: "1 \<le> y" "1 \<le> m" "m \<le> 12" "1 \<le> d" "d \<le> 31"
    using assms(1) by (auto simp: is_date_def month_days_def split: if_splits)
  define m1 where "m1 = (m + 9) mod 12"
  define y1 where "y1 = y - m1 div 10"
  have m1: "0 \<le> m1" "m1 \<le> 11" by (simp_all add: m1_def)
  then have y1: "0 \<le> y1" "y1 \<le> 5000000" "m1 div 10 \<le> 1" "0 \<le> m1 div 10" using v(1) assms(2) by (simp_all add: y1_def)
  define q4 q100 q400 where "q4 = y1 div 4" and "q100 = y1 div 100" and "q400 = y1 div 400"
  have q: "0 \<le> q4" "q4 \<le> y1" "0 \<le> q100" "q100 \<le> y1" "0 \<le> q400" "q400 \<le> y1" "q100 \<le> q4"
    using y1(1) by (simp_all add: q4_def q100_def q400_def div_le_dividend zdiv_mono2)
  define u where "u = (m1 * 306 + 5) div 10"
  have u: "0 \<le> u" "u \<le> 400" using m1 by (simp_all add: u_def)
  have "day_number y m d = Some (365 * y1 + q4 - q100 + q400 + u + (d - 1))"
    using v m1 y1 q u
    by (simp add: day_number_def Let_def cint_in sdiv_nonneg smod_nonneg m1_def [symmetric] y1_def [symmetric]
        q4_def [symmetric] q100_def [symmetric] q400_def [symmetric] u_def [symmetric])
  moreover have "date_no (y, m, d) = 365 * y1 + q4 - q100 + q400 + u + (d - 1)"
    by (simp add: date_no_def leaps_def Let_def m1_def y1_def q4_def q100_def q400_def u_def)
  ultimately show ?thesis using v y1 q u by simp
qed

text \<open>
  \<open>compute_days\<close> counts calendar days: for a valid date from the year 1 and the date that is
  reached from it by \<open>n\<close> steps of the Gregorian calendar, both up to the year five million, it
  returns \<open>n\<close>, and \<open>- n\<close> with the dates exchanged; no intermediate result overflows.
\<close>

theorem compute_days_calendar:
  assumes "is_date (y, m, d)" "(next_date ^^ n) (y, m, d) = (y', m', d')" "y \<le> 5000000" "y' \<le> 5000000"
  shows "compute_days y m d y' m' d' = Some (int n) \<and> compute_days y' m' d' y m d = Some (- int n)"
proof -
  have e: "is_date (y', m', d')" "date_no (y', m', d') = date_no (y, m, d) + int n"
    using date_no_iter [OF assms(1), of n] assms(2) by simp_all
  note D = day_number_date_no [OF assms(1,3)] day_number_date_no [OF e(1) assms(4)]
  then have "int n \<le> 2000000000" using e(2) by linarith
  then show ?thesis using D e(2) by (simp add: compute_days_def cint_in)
qed

theorem compute_days_calendar_witness:
  "compute_days 2000 2 28 2000 3 1 = Some 2 \<and> compute_days 2000 3 1 2000 2 28 = Some (- 2)"
  using compute_days_calendar [of 2000 2 28 2 2000 3 1]
  by (simp add: is_date_def next_date_def month_days_def leap_def numeral_2_eq_2)

section \<open>Checking an IPv4 address\<close>

text \<open>\<open>%3u\<close>: white space, then up to three characters of a sign and digits; a negative number wraps around.\<close>

definition scan_u3 :: "string \<Rightarrow> (int \<times> string) option" where
  "scan_u3 s =
     (let s1 = dropWhile isspace s;
          neg = (s1 \<noteq> [] \<and> hd s1 = CHR ''-'');
          sgn = (s1 \<noteq> [] \<and> (hd s1 = CHR ''-'' \<or> hd s1 = CHR ''+''));
          s2 = (if sgn then tl s1 else s1);
          ds = take (if sgn then 2 else 3) (takeWhile isdigit s2)
      in if ds = [] then None
         else Some (if neg then (- digits_value ds) mod 2 ^ 32 else digits_value ds, drop (length ds) s2))"

definition scan_dot :: "string \<Rightarrow> string option" where
  "scan_dot s = (case s of c # s' \<Rightarrow> if c = CHR ''.'' then Some s' else None | [] \<Rightarrow> None)"

text \<open>The numbers and the rest, none when fewer than four numbers match.\<close>

definition scan_quad :: "string \<Rightarrow> (int list \<times> string) option" where
  "scan_quad s = do {
     (a, s1) \<leftarrow> scan_u3 s; s1' \<leftarrow> scan_dot s1;
     (b, s2) \<leftarrow> scan_u3 s1'; s2' \<leftarrow> scan_dot s2;
     (c, s3) \<leftarrow> scan_u3 s2'; s3' \<leftarrow> scan_dot s3;
     (d, s4) \<leftarrow> scan_u3 s3';
     Some ([a, b, c, d], s4) }"

text \<open>The conversion \<open>%s\<close> into the 16 bytes of \<open>tail\<close>.\<close>

definition is_valid_ipv4 :: "string option \<Rightarrow> int option" where
  "is_valid_ipv4 ip =
     (case ip of
        None \<Rightarrow> Some 0
      | Some s \<Rightarrow>
          if length s > 30 then Some 0
          else (case scan_quad s of
             None \<Rightarrow> Some 0
           | Some (ds, rest) \<Rightarrow>
               let tail = takeWhile (\<lambda>c. \<not> isspace c) (dropWhile isspace rest) in
               if length tail \<ge> 16 then None
               else if tail \<noteq> [] then Some 0
               else if list_ex (\<lambda>v. v > 255) ds then Some 0
               else Some 1))"

definition quad_text :: "nat \<Rightarrow> nat \<Rightarrow> nat \<Rightarrow> nat \<Rightarrow> string" where
  "quad_text a b c d = show_nat a @ ''.'' @ show_nat b @ ''.'' @ show_nat c @ ''.'' @ show_nat d"

lemma show_nat_short: "n < 1000 \<Longrightarrow> length (show_nat n) \<le> 3"
  by (simp add: show_nat.simps [of n] show_nat.simps [of "n div 10"] show_nat.simps [of "n div 10 div 10"])

lemma scan_u3_show:
  assumes "n < 1000" "rest = [] \<or> \<not> isdigit (hd rest)"
  shows "scan_u3 (show_nat n @ rest) = Some (int n, rest)"
proof -
  have D: "show_nat n \<noteq> []" "\<forall>c \<in> set (show_nat n). isdigit c" "digits_value (show_nat n) = int n"
    using show_nat_digits [of n] by auto
  then have h: "isdigit (hd (show_nat n))" by simp
  have "dropWhile isspace (show_nat n @ rest) = show_nat n @ rest"
    using D(1) h isdigit_not_special by (cases "show_nat n") auto
  moreover have "takeWhile isdigit (show_nat n @ rest) = show_nat n"
    using D(2) assms(2) by (cases rest) (auto simp: takeWhile_append2 takeWhile_eq_all_conv)
  ultimately show ?thesis
    using D show_nat_short [OF assms(1)] isdigit_not_special [OF h] by (simp add: scan_u3_def Let_def)
qed

lemma scan_quad_text:
  assumes "a < 1000" "b < 1000" "c < 1000" "d < 1000"
  shows "scan_quad (quad_text a b c d) = Some ([int a, int b, int c, int d], [])"
proof -
  have dot: "\<not> isdigit (CHR ''.'')" by (simp add: isdigit_def)
  show ?thesis
    using assms dot scan_u3_show [of a "''.'' @ show_nat b @ ''.'' @ show_nat c @ ''.'' @ show_nat d"]
      scan_u3_show [of b "''.'' @ show_nat c @ ''.'' @ show_nat d"] scan_u3_show [of c "''.'' @ show_nat d"] scan_u3_show [of d "[]"]
    by (simp add: scan_quad_def quad_text_def scan_dot_def)
qed

text \<open>
  A dotted quad is accepted exactly when its four numbers are at most 255; a longer text after the
  address than \<open>tail\<close> has room for is written behind it.
\<close>

theorem ipv4_quads:
  assumes "a < 1000" "b < 1000" "c < 1000" "d < 1000"
  shows "is_valid_ipv4 (Some (quad_text a b c d)) = Some (if a \<le> 255 \<and> b \<le> 255 \<and> c \<le> 255 \<and> d \<le> 255 then 1 else 0) \<and>
    is_valid_ipv4 (Some ''1.2.3.4aaaaaaaaaaaaaaaa'') = None"
proof -
  have "length (quad_text a b c d) \<le> 15"
    using assms [THEN show_nat_short] by (simp add: quad_text_def)
  moreover have "is_valid_ipv4 (Some ''1.2.3.4aaaaaaaaaaaaaaaa'') = None"
    by (simp add: is_valid_ipv4_def scan_quad_def scan_u3_def scan_dot_def isspace_def isdigit_def Let_def)
  ultimately show ?thesis
    using scan_quad_text [OF assms] by (auto simp: is_valid_ipv4_def Let_def)
qed

end
