(* ===== verification/Muduo_Conf.thy ===== *)
theory Muduo_Conf
  imports CString
begin

text \<open>
  \<open>src/src/log/muduo-clog/muduo/utils/ConfFileRead.h\<close> and \<open>ConfFileRead.cc\<close>: the two settings of the
  muduo logger are read from its configuration file.

  A position in a \<open>std::string\<close> is a \<^typ>\<open>nat option\<close>, with \<^term>\<open>None\<close> for \<open>npos\<close>; adding one to
  \<open>npos\<close> gives zero. \<open>substr\<close> and \<open>erase\<close> with a position behind the end throw, which is the result
  \<^term>\<open>None\<close>. The file is its contents, or \<^term>\<open>None\<close> when it cannot be opened.
\<close>

section \<open>Strings\<close>

definition pos_succ :: "nat option \<Rightarrow> nat" where
  "pos_succ p = (case p of None \<Rightarrow> 0 | Some k \<Rightarrow> Suc k)"

definition take_upto :: "nat option \<Rightarrow> string \<Rightarrow> string" where
  "take_upto p s = (case p of None \<Rightarrow> s | Some k \<Rightarrow> take k s)"

definition drop_upto :: "nat option \<Rightarrow> string \<Rightarrow> string" where
  "drop_upto p s = (case p of None \<Rightarrow> [] | Some k \<Rightarrow> drop k s)"

definition substr :: "string \<Rightarrow> nat \<Rightarrow> nat option \<Rightarrow> string option" where
  "substr s pos n = (if pos \<le> length s then Some (take_upto n (drop pos s)) else None)"

text \<open>\<open>erase(pos, n)\<close>.\<close>

definition str_erase :: "string \<Rightarrow> nat \<Rightarrow> nat option \<Rightarrow> string option" where
  "str_erase s pos n = (if pos \<le> length s then Some (take pos s @ drop_upto n (drop pos s)) else None)"

fun find_first_not_of :: "string \<Rightarrow> char \<Rightarrow> nat option" where
  "find_first_not_of [] c = None"
| "find_first_not_of (x # s) c = (if x \<noteq> c then Some 0 else map_option Suc (find_first_not_of s c))"

definition find_last_not_of :: "string \<Rightarrow> char \<Rightarrow> nat option" where
  "find_last_not_of s c = map_option (\<lambda>k. length s - Suc k) (find_first_not_of (rev s) c)"

definition trim :: "string \<Rightarrow> string option" where
  "trim s =
     (if s = [] then Some s
      else do {
        s \<leftarrow> str_erase s 0 (find_first_not_of s CHR '' '');
        s \<leftarrow> str_erase s (pos_succ (find_last_not_of s CHR '' '')) None;
        s \<leftarrow> str_erase s 0 (find_first_not_of s TAB);
        str_erase s (pos_succ (find_last_not_of s TAB)) None
      })"

section \<open>ConfFileRead\<close>

record ConfFileRead =
  cf_level :: int
  LogFileSize :: int

text \<open>The lines that \<open>getline\<close> gives until the end of the file is seen: what follows the last newline is one, too.\<close>

fun getlines :: "string \<Rightarrow> string list" where
  "getlines [] = [[]]"
| "getlines (c # s) = (case getlines s of
     [] \<Rightarrow> [] | l # ls \<Rightarrow> if c = NL then [] # l # ls else (c # l) # ls)"

text \<open>One round of the loop. A line without \<open>=\<close> leaves \<open>pos\<close> at zero after the increment.\<close>

definition read_line :: "ConfFileRead \<Rightarrow> string \<Rightarrow> ConfFileRead option" where
  "read_line r strLine = do {
     fullLine \<leftarrow> substr strLine 0 (strchr strLine CHR ''#'');
     let pos = strchr fullLine CHR ''='';
     key \<leftarrow> substr fullLine 0 pos;
     key \<leftarrow> trim key;
     (if key = ''LOG_LEVEL'' then do {
        v \<leftarrow> substr fullLine (pos_succ pos) None;
        v \<leftarrow> trim v;
        n \<leftarrow> atoi v;
        Some (r\<lparr>cf_level := (if n < 0 \<or> n > 2 then 3 else n)\<rparr>)
      } else if key = ''FILE_SIZE'' then do {
        v \<leftarrow> substr fullLine (pos_succ pos) None;
        v \<leftarrow> trim v;
        n \<leftarrow> atoi v;
        Some (r\<lparr>LogFileSize := (if n \<le> 8000000 then 524288000 else n)\<rparr>)
      } else Some r) }"

fun conf_lines :: "ConfFileRead \<Rightarrow> string list \<Rightarrow> ConfFileRead option" where
  "conf_lines r [] = Some r"
| "conf_lines r (l # ls) = read_line r l \<bind> (\<lambda>r. conf_lines r ls)"

definition new_ConfFileRead :: "string option \<Rightarrow> int \<Rightarrow> int \<Rightarrow> ConfFileRead option" where
  "new_ConfFileRead content level logFileSize =
     (let r = \<lparr>cf_level = level, LogFileSize = logFileSize\<rparr>
      in case content of None \<Rightarrow> Some r | Some t \<Rightarrow> conf_lines r (getlines t))"

text \<open>The default arguments.\<close>

definition read_conf :: "string option \<Rightarrow> ConfFileRead option" where
  "read_conf content = new_ConfFileRead content 2 524288000"

section \<open>Trimming\<close>

definition trim_char :: "char \<Rightarrow> string \<Rightarrow> string" where
  "trim_char c s = rev (dropWhile (\<lambda>x. x = c) (rev (dropWhile (\<lambda>x. x = c) s)))"

lemma find_first_not_of_drop: "drop_upto (find_first_not_of s c) s = dropWhile (\<lambda>x. x = c) s"
  by (induction s) (auto simp: drop_upto_def split: option.splits)

lemma find_first_not_of_take: "find_first_not_of s c = Some k \<Longrightarrow> k < length s \<and> drop k s = dropWhile (\<lambda>x. x = c) s"
  by (induction s arbitrary: k) (auto split: if_splits)

lemma find_first_not_of_None: "find_first_not_of s c = None \<longleftrightarrow> dropWhile (\<lambda>x. x = c) s = []"
  by (induction s) auto

lemma erase_left: "str_erase s 0 (find_first_not_of s c) = Some (dropWhile (\<lambda>x. x = c) s)"
  by (simp add: str_erase_def find_first_not_of_drop)

lemma erase_right: "str_erase s (pos_succ (find_last_not_of s c)) None = Some (rev (dropWhile (\<lambda>x. x = c) (rev s)))"
proof (cases "find_first_not_of (rev s) c")
  case None
  then show ?thesis using find_first_not_of_None [of "rev s" c]
    by (simp add: str_erase_def find_last_not_of_def pos_succ_def drop_upto_def)
next
  case (Some k)
  then have k: "k < length s" "drop k (rev s) = dropWhile (\<lambda>x. x = c) (rev s)" using find_first_not_of_take [OF Some] by simp_all
  have "rev (dropWhile (\<lambda>x. x = c) (rev s)) = take (length s - k) s" unfolding k(2) [symmetric] by (simp add: rev_drop)
  moreover have "pos_succ (find_last_not_of s c) = length s - k" using Some k(1) by (simp add: find_last_not_of_def pos_succ_def)
  ultimately show ?thesis by (simp add: str_erase_def drop_upto_def)
qed

lemma trim_eq: "trim s = Some (trim_char TAB (trim_char CHR '' '' s))"
  by (simp add: trim_def erase_left erase_right trim_char_def)

lemma trim_pad:
  assumes "s \<noteq> []" "hd s \<noteq> c" "last s \<noteq> c"
  shows "trim_char c (replicate i c @ s @ replicate j c) = s"
proof -
  have d: "dropWhile (\<lambda>x. x = c) (replicate k c @ t) = t" if "t \<noteq> []" "hd t \<noteq> c" for k t
    using that by (induction k) (auto simp: dropWhile_eq_self_iff)
  have "dropWhile (\<lambda>x. x = c) (replicate i c @ s @ replicate j c) = s @ replicate j c" using assms by (intro d) simp_all
  moreover have "dropWhile (\<lambda>x. x = c) (replicate j c @ rev s) = rev s" using assms by (intro d) (simp_all add: hd_rev)
  ultimately show ?thesis by (simp add: trim_char_def)
qed

lemma trim_none: "hd s \<noteq> c \<Longrightarrow> last s \<noteq> c \<Longrightarrow> s \<noteq> [] \<Longrightarrow> trim_char c s = s"
  using trim_pad [of s c 0 0] by simp

section \<open>What a file says\<close>

lemma take_upto_strchr: "take_upto (strchr s c) s = takeWhile (\<lambda>x. x \<noteq> c) s"
  by (induction s) (auto simp: take_upto_def simp del: strchr_None split: option.splits)

lemma getlines_nonempty [simp]: "getlines s \<noteq> []"
  by (induction s) (auto split: list.splits)

lemma getlines_line: "NL \<notin> set l \<Longrightarrow> getlines (l @ NL # s) = l # getlines s"
proof (induction l)
  case Nil
  then show ?case by (cases "getlines s") simp_all
qed auto

definition file_of :: "string list \<Rightarrow> string" where
  "file_of ls = concat (map (\<lambda>l. l @ [NL]) ls)"

lemma getlines_file: "\<forall>l \<in> set ls. NL \<notin> set l \<Longrightarrow> getlines (file_of ls) = ls @ [[]]"
  by (induction ls) (simp_all add: file_of_def getlines_line)

text \<open>The key of a line, and the lines that set a value, with any blanks around key and value and any comment behind.\<close>

definition line_key :: "string \<Rightarrow> string" where
  "line_key l = trim_char TAB (trim_char CHR '' '' (takeWhile (\<lambda>x. x \<noteq> CHR ''='') (takeWhile (\<lambda>x. x \<noteq> CHR ''#'') l)))"

datatype conf_entry = SetLevel nat nat nat nat int string | SetSize nat nat nat nat int string | Other string

definition blanks :: "nat \<Rightarrow> string" where
  "blanks n = replicate n CHR '' ''"

definition set_text :: "string \<Rightarrow> nat \<Rightarrow> nat \<Rightarrow> nat \<Rightarrow> nat \<Rightarrow> int \<Rightarrow> string \<Rightarrow> string" where
  "set_text key i j k m v com = blanks i @ key @ blanks j @ ''='' @ blanks k @ show_int v @ blanks m @ CHR ''#'' # com"

fun entry_text :: "conf_entry \<Rightarrow> string" where
  "entry_text (SetLevel i j k m v com) = set_text ''LOG_LEVEL'' i j k m v com"
| "entry_text (SetSize i j k m v com) = set_text ''FILE_SIZE'' i j k m v com"
| "entry_text (Other l) = l"

fun entry_ok :: "conf_entry \<Rightarrow> bool" where
  "entry_ok (SetLevel i j k m v com) \<longleftrightarrow> INT_MIN \<le> v \<and> v \<le> INT_MAX \<and> NL \<notin> set com"
| "entry_ok (SetSize i j k m v com) \<longleftrightarrow> INT_MIN \<le> v \<and> v \<le> INT_MAX \<and> NL \<notin> set com"
| "entry_ok (Other l) \<longleftrightarrow> NL \<notin> set l \<and> line_key l \<noteq> ''LOG_LEVEL'' \<and> line_key l \<noteq> ''FILE_SIZE''"

fun entry_set :: "ConfFileRead \<Rightarrow> conf_entry \<Rightarrow> ConfFileRead" where
  "entry_set r (SetLevel i j k m v com) = r\<lparr>cf_level := (if v \<in> {0, 1, 2} then v else 3)\<rparr>"
| "entry_set r (SetSize i j k m v com) = r\<lparr>LogFileSize := (if v > 8000000 then v else 524288000)\<rparr>"
| "entry_set r (Other l) = r"

lemma show_int_chars: "c \<in> set (show_int v) \<Longrightarrow> isdigit c \<or> c = CHR ''-''"
  using show_nat_digits by (auto simp: show_int_def split: if_splits)

lemma show_int_plain: "show_int v \<noteq> []" "c \<in> {CHR '' '', TAB, NL, CHR ''#'', CHR ''=''} \<Longrightarrow> c \<notin> set (show_int v)"
proof -
  show "show_int v \<noteq> []" using show_nat_digits by (auto simp: show_int_def)
  show "c \<notin> set (show_int v)" if "c \<in> {CHR '' '', TAB, NL, CHR ''#'', CHR ''=''}"
    using that by (auto dest!: show_int_chars simp: isdigit_def)
qed

lemma takeWhile_stop: "c \<notin> set s \<Longrightarrow> takeWhile (\<lambda>x. x \<noteq> c) (s @ c # t) = s"
  by (induction s) auto

text \<open>The two parts of a line that sets a value.\<close>

lemma set_text_parts:
  assumes key: "key \<in> {''LOG_LEVEL'', ''FILE_SIZE''}" and full: "full = takeWhile (\<lambda>x. x \<noteq> CHR ''#'') (set_text key i j k m v com)"
  shows "strchr full CHR ''='' = Some (length (blanks i @ key @ blanks j))"
    "drop (Suc (length (blanks i @ key @ blanks j))) full = blanks k @ show_int v @ blanks m"
    "line_key (set_text key i j k m v com) = key"
proof -
  let ?l = "blanks i @ key @ blanks j" and ?r = "blanks k @ show_int v @ blanks m"
  have n: "CHR ''#'' \<notin> set (?l @ ''='' @ ?r)" "CHR ''='' \<notin> set ?l"
  proof -
    have "CHR ''#'' \<notin> set (show_int v)" by (rule show_int_plain(2)) simp
    then show "CHR ''#'' \<notin> set (?l @ ''='' @ ?r)" "CHR ''='' \<notin> set ?l"
      using key by (auto simp: blanks_def)
  qed
  have f: "full = ?l @ CHR ''='' # ?r"
    using takeWhile_stop [OF n(1), of com] by (simp add: full set_text_def)
  show "strchr full CHR ''='' = Some (length ?l)" unfolding f using strchr_first [OF n(2), of ?r] by simp
  show "drop (Suc (length ?l)) full = ?r" by (simp add: f)
  have "takeWhile (\<lambda>x. x \<noteq> CHR ''='') full = ?l" unfolding f by (rule takeWhile_stop [OF n(2)])
  moreover have "trim_char CHR '' '' ?l = key" unfolding blanks_def using key by (intro trim_pad) auto
  moreover have "trim_char TAB key = key" using key by (intro trim_none) auto
  ultimately show "line_key (set_text key i j k m v com) = key" unfolding line_key_def full [symmetric] by simp
qed

lemma conf_line_key:
  "read_line r l = (let full = takeWhile (\<lambda>x. x \<noteq> CHR ''#'') l; v = drop (pos_succ (strchr full CHR ''='')) full in
     if line_key l = ''LOG_LEVEL'' then
       map_option (\<lambda>n. r\<lparr>cf_level := (if n < 0 \<or> n > 2 then 3 else n)\<rparr>) (atoi (trim_char TAB (trim_char CHR '' '' v)))
     else if line_key l = ''FILE_SIZE'' then
       map_option (\<lambda>n. r\<lparr>LogFileSize := (if n \<le> 8000000 then 524288000 else n)\<rparr>) (atoi (trim_char TAB (trim_char CHR '' '' v)))
     else Some r)"
proof -
  define full where "full = takeWhile (\<lambda>x. x \<noteq> CHR ''#'') l"
  have 1: "substr l 0 (strchr l CHR ''#'') = Some full" by (simp add: substr_def take_upto_strchr full_def)
  have 2: "substr full 0 (strchr full CHR ''='') = Some (takeWhile (\<lambda>x. x \<noteq> CHR ''='') full)" by (simp add: substr_def take_upto_strchr)
  have p: "pos_succ (strchr full CHR ''='') \<le> length full"
  proof (cases "strchr full CHR ''=''")
    case (Some k)
    then show ?thesis using strchr_Some [OF Some] by (simp add: pos_succ_def Suc_le_eq)
  qed (simp add: pos_succ_def del: strchr_None)
  then have 3: "substr full (pos_succ (strchr full CHR ''='')) None = Some (drop (pos_succ (strchr full CHR ''='')) full)"
    by (simp add: substr_def take_upto_def)
  have k: "line_key l = trim_char TAB (trim_char CHR '' '' (takeWhile (\<lambda>x. x \<noteq> CHR ''='') full))" by (simp add: line_key_def full_def)
  have m: "(m \<bind> (\<lambda>n. Some (f n))) = map_option f m" for m :: "int option" and f :: "int \<Rightarrow> ConfFileRead" by (cases m) simp_all
  show ?thesis unfolding full_def [symmetric] by (simp add: read_line_def 1 2 3 trim_eq k m Let_def)
qed

lemma conf_line_set:
  assumes "key \<in> {''LOG_LEVEL'', ''FILE_SIZE''}" "INT_MIN \<le> v" "v \<le> INT_MAX"
  shows "read_line r (set_text key i j k m v com) = Some (if key = ''LOG_LEVEL''
    then r\<lparr>cf_level := (if v < 0 \<or> v > 2 then 3 else v)\<rparr> else r\<lparr>LogFileSize := (if v \<le> 8000000 then 524288000 else v)\<rparr>)"
proof -
  define full where "full = takeWhile (\<lambda>x. x \<noteq> CHR ''#'') (set_text key i j k m v com)"
  note P = set_text_parts [OF assms(1) full_def]
  have ne: "hd (show_int v) \<noteq> c" "last (show_int v) \<noteq> c" if "c \<in> {CHR '' '', TAB}" for c
    using show_int_plain(2) [of c v] that hd_in_set [OF show_int_plain(1) [of v]] last_in_set [OF show_int_plain(1) [of v]] by auto
  have "trim_char CHR '' '' (blanks k @ show_int v @ blanks m) = show_int v"
    unfolding blanks_def by (rule trim_pad [OF show_int_plain(1)]; rule ne; simp)
  moreover have "trim_char TAB (show_int v) = show_int v" by (rule trim_none [OF _ _ show_int_plain(1)]; rule ne; simp)
  moreover have "atoi (show_int v) = Some v" using assms(2,3) by (simp add: atoi_def scan_dec_show cint_def)
  moreover have "drop (pos_succ (strchr full CHR ''='')) full = blanks k @ show_int v @ blanks m"
    by (simp only: P(1,2) pos_succ_def option.case)
  ultimately have "atoi (trim_char TAB (trim_char CHR '' '' (drop (pos_succ (strchr full CHR ''='')) full))) = Some v" by simp
  then show ?thesis
    using assms(1) unfolding conf_line_key Let_def full_def [symmetric] P(3) by (elim insertE) simp_all
qed

lemma conf_line_entry:
  assumes "entry_ok e"
  shows "read_line r (entry_text e) = Some (entry_set r e)"
proof (cases e)
  case (SetLevel i j k m v com)
  moreover have "v \<in> {0, 1, 2} \<longleftrightarrow> \<not> (v < 0 \<or> v > 2)" by auto
  ultimately show ?thesis using assms conf_line_set [of "''LOG_LEVEL''" v r i j k m com] by simp
next
  case (SetSize i j k m v com)
  then show ?thesis using assms conf_line_set [of "''FILE_SIZE''" v r i j k m com] by (simp add: not_less)
next
  case (Other l)
  then show ?thesis using assms by (simp add: conf_line_key Let_def)
qed

lemma conf_lines_entries: "list_all entry_ok es \<Longrightarrow> conf_lines r (map entry_text es @ ls) = conf_lines (foldl entry_set r es) ls"
  by (induction es arbitrary: r) (simp_all add: conf_line_entry)

lemma entry_no_newline: "entry_ok e \<Longrightarrow> NL \<notin> set (entry_text e)"
  using show_int_plain(2) [of NL] by (cases e) (auto simp: set_text_def blanks_def)



section \<open>Bounds of the settings\<close>

definition conf_ok :: "ConfFileRead \<Rightarrow> bool" where
  "conf_ok r \<longleftrightarrow> 0 \<le> cf_level r \<and> cf_level r \<le> 3 \<and> 8000000 < LogFileSize r"

lemma conf_line_ok: "read_line r l = Some r' \<Longrightarrow> conf_ok r \<Longrightarrow> conf_ok r'"
proof -
  assume l: "read_line r l = Some r'" and ok: "conf_ok r"
  from l have "r' = r \<or> (\<exists>n. r' = r\<lparr>cf_level := (if n < 0 \<or> n > 2 then 3 else n)\<rparr>) \<or>
      (\<exists>n. r' = r\<lparr>LogFileSize := (if n \<le> 8000000 then 524288000 else n)\<rparr>)"
    unfolding conf_line_key Let_def
    by (cases "line_key l = ''LOG_LEVEL''"; cases "line_key l = ''FILE_SIZE''") (simp_all split del: if_split, blast+)
  then show ?thesis using ok by (auto simp: conf_ok_def)
qed

lemma conf_lines_ok: "conf_lines r ls = Some r' \<Longrightarrow> conf_ok r \<Longrightarrow> conf_ok r'"
  by (induction ls arbitrary: r) (auto split: bind_splits dest: conf_line_ok)

lemma read_conf_ok:
  assumes "read_conf content = Some r"
  shows "conf_ok r"
proof -
  have "conf_ok \<lparr>cf_level = 2, LogFileSize = 524288000\<rparr>" by (simp add: conf_ok_def)
  then show ?thesis using assms conf_lines_ok by (auto simp: read_conf_def new_ConfFileRead_def Let_def split: option.splits)
qed

text \<open>A line with the key alone sets level 0, which logs everything: without \<open>=\<close> the key is read as its own value.\<close>

theorem conf_key_without_value: "read_line r ''LOG_LEVEL'' = Some (r\<lparr>cf_level := 0\<rparr>)"
proof -
  have "line_key ''LOG_LEVEL'' = ''LOG_LEVEL''" by (simp add: line_key_def trim_char_def)
  then show ?thesis
    by (simp add: conf_line_key Let_def pos_succ_def trim_char_def atoi_def scan_dec_def isspace_def isdigit_def)
qed

end
