(* ===== verification/Muduo_Date.thy ===== *)
theory Muduo_Date
  imports Calendar
begin

text \<open>
  \<open>src/src/log/muduo-clog/muduo/base/Date.h\<close>, \<open>Date.cc\<close>, \<open>Timestamp.h\<close>, \<open>Timestamp.cc\<close> and the UTC
  conversions of \<open>TimeZone.cc\<close>: Julian day numbers, time stamps, and the muduo versions of \<open>gmtime\<close>
  and \<open>timegm\<close>.

  Arithmetic of \<open>int\<close> is checked by \<^const>\<open>cint\<close> at every intermediate result, division truncates.
  \<open>time_t\<close> and \<open>int64_t\<close> are unbounded here; the hypotheses of the theorems keep them far inside
  64 bits. The lemmas relate the formulas to the calendar of the theory \<open>Calendar\<close>.
\<close>

section \<open>Date\<close>

record YearMonthDay =
  year :: int
  month :: int
  day :: int

definition getJulianDayNumber :: "int \<Rightarrow> int \<Rightarrow> int \<Rightarrow> int option" where
  "getJulianDayNumber yr mo dy = do {
     t \<leftarrow> cint (14 - mo);
     let a = t sdiv 12;
     t \<leftarrow> cint (yr + 4800);
     y \<leftarrow> cint (t - a);
     t \<leftarrow> cint (mo + 12 * a);
     m \<leftarrow> cint (t - 3);
     t \<leftarrow> cint (153 * m);
     t \<leftarrow> cint (t + 2);
     s \<leftarrow> cint (dy + t sdiv 5);
     t \<leftarrow> cint (y * 365);
     s \<leftarrow> cint (s + t);
     s \<leftarrow> cint (s + y sdiv 4);
     s \<leftarrow> cint (s - y sdiv 100);
     s \<leftarrow> cint (s + y sdiv 400);
     cint (s - 32045) }"

definition getYearMonthDay :: "int \<Rightarrow> YearMonthDay option" where
  "getYearMonthDay julianDayNumber = do {
     a \<leftarrow> cint (julianDayNumber + 32044);
     t \<leftarrow> cint (4 * a);
     t \<leftarrow> cint (t + 3);
     let b = t sdiv 146097;
     t \<leftarrow> cint (b * 146097);
     c \<leftarrow> cint (a - t sdiv 4);
     t \<leftarrow> cint (4 * c);
     t \<leftarrow> cint (t + 3);
     let d = t sdiv 1461;
     t \<leftarrow> cint (1461 * d);
     e \<leftarrow> cint (c - t sdiv 4);
     t \<leftarrow> cint (5 * e);
     t \<leftarrow> cint (t + 2);
     let m = t sdiv 153;
     t \<leftarrow> cint (153 * m);
     t \<leftarrow> cint (t + 2);
     t \<leftarrow> cint (e - t sdiv 5);
     dy \<leftarrow> cint (t + 1);
     t \<leftarrow> cint (m + 3);
     mo \<leftarrow> cint (t - 12 * (m sdiv 10));
     t \<leftarrow> cint (b * 100);
     t \<leftarrow> cint (t + d);
     t \<leftarrow> cint (t - 4800);
     yr \<leftarrow> cint (t + m sdiv 10);
     Some \<lparr>year = yr, month = mo, day = dy\<rparr> }"

record Date =
  julianDayNumber :: int

definition Date_ymd :: "int \<Rightarrow> int \<Rightarrow> int \<Rightarrow> Date option" where
  "Date_ymd y m d = map_option (\<lambda>j. \<lparr>julianDayNumber = j\<rparr>) (getJulianDayNumber y m d)"

definition Date_tm :: "tm \<Rightarrow> Date option" where
  "Date_tm t = do {
     y \<leftarrow> cint (tm_year t + 1900);
     m \<leftarrow> cint (tm_mon t + 1);
     Date_ymd y m (tm_mday t) }"

definition date_valid :: "Date \<Rightarrow> bool" where
  "date_valid x \<longleftrightarrow> julianDayNumber x > 0"

definition yearMonthDay :: "Date \<Rightarrow> YearMonthDay option" where
  "yearMonthDay x = getYearMonthDay (julianDayNumber x)"

definition kDaysPerWeek :: int where "kDaysPerWeek = 7"

definition weekDay :: "Date \<Rightarrow> int option" where
  "weekDay x = map_option (\<lambda>j. j smod kDaysPerWeek) (cint (julianDayNumber x + 1))"

text \<open>\<open>%4d\<close>: padded with blanks.\<close>

definition bpad :: "nat \<Rightarrow> string \<Rightarrow> string" where
  "bpad n s = replicate (n - length s) CHR '' '' @ s"

definition toIsoString :: "Date \<Rightarrow> string option" where
  "toIsoString x = map_option (\<lambda>ymd. snprintf_text 32 (bpad 4 (show_int (year ymd)) @ ''-'' @
     zpad 2 (month ymd) @ ''-'' @ zpad 2 (day ymd))) (yearMonthDay x)"

definition kJulianDayOf1970_01_01 :: int where "kJulianDayOf1970_01_01 = (case getJulianDayNumber 1970 1 1 of Some j \<Rightarrow> j | None \<Rightarrow> 0)"

section \<open>Timestamp\<close>

definition kMicroSecondsPerSecond :: int where "kMicroSecondsPerSecond = 1000 * 1000"

record Timestamp =
  microSecondsSinceEpoch :: int

definition secondsSinceEpoch :: "Timestamp \<Rightarrow> int" where
  "secondsSinceEpoch t = microSecondsSinceEpoch t sdiv kMicroSecondsPerSecond"

definition fromUnixTime :: "int \<Rightarrow> int \<Rightarrow> Timestamp" where
  "fromUnixTime t microseconds = \<lparr>microSecondsSinceEpoch = t * kMicroSecondsPerSecond + microseconds\<rparr>"

text \<open>\<open>now\<close> with the result of \<open>gettimeofday\<close>.\<close>

definition Timestamp_now :: "int \<Rightarrow> int \<Rightarrow> Timestamp" where
  "Timestamp_now tv_sec tv_usec = \<lparr>microSecondsSinceEpoch = tv_sec * kMicroSecondsPerSecond + tv_usec\<rparr>"

definition timestamp_toString :: "Timestamp \<Rightarrow> string" where
  "timestamp_toString t =
     (let seconds = microSecondsSinceEpoch t sdiv kMicroSecondsPerSecond;
          microseconds = microSecondsSinceEpoch t smod kMicroSecondsPerSecond
      in snprintf_text 31 (show_int seconds @ ''.'' @ zpad 6 microseconds))"

text \<open>\<open>20180509 12:30:00\<close>; \<open>gmtime\<close> is \<open>gmtime_r\<close> of the C library.\<close>

definition datetime_text :: "tm \<Rightarrow> string" where
  "datetime_text t = bpad 4 (show_int (tm_year t + 1900)) @ zpad 2 (tm_mon t + 1) @ zpad 2 (tm_mday t) @ '' '' @
     zpad 2 (tm_hour t) @ '':'' @ zpad 2 (tm_min t) @ '':'' @ zpad 2 (tm_sec t)"

definition toFormattedString :: "(int \<Rightarrow> tm) \<Rightarrow> Timestamp \<Rightarrow> bool \<Rightarrow> string" where
  "toFormattedString gmtime t showMicroseconds =
     (let seconds = microSecondsSinceEpoch t sdiv kMicroSecondsPerSecond;
          tm_time = gmtime seconds
      in if showMicroseconds
         then snprintf_text 32 (datetime_text tm_time @ ''.'' @ zpad 6 (microSecondsSinceEpoch t smod kMicroSecondsPerSecond))
         else snprintf_text 32 (datetime_text tm_time))"

section \<open>UTC time\<close>

definition kSecondsPerDay :: int where "kSecondsPerDay = 24 * 60 * 60"

text \<open>The fields of \<open>struct tm\<close> that only the conversions use.\<close>

record tmx = tm +
  tm_wday :: int
  tm_yday :: int
  tm_isdst :: int
  tm_gmtoff :: int
  tm_zone :: string

definition tm_zero :: tmx where
  "tm_zero = \<lparr>tm_sec = 0, tm_min = 0, tm_hour = 0, tm_mday = 0, tm_mon = 0, tm_year = 0,
     tm_wday = 0, tm_yday = 0, tm_isdst = 0, tm_gmtoff = 0, tm_zone = []\<rparr>"

definition fillHMS :: "int \<Rightarrow> tmx \<Rightarrow> tmx" where
  "fillHMS seconds utc =
     (let minutes = seconds div 60
      in utc\<lparr>tm_sec := seconds mod 60, tm_min := minutes mod 60, tm_hour := minutes div 60\<rparr>)"

text \<open>\<open>static_cast<int>\<close> of a 64-bit value wraps.\<close>

definition to_int32 :: "int \<Rightarrow> int" where
  "to_int32 x = (x + 2 ^ 31) mod 2 ^ 32 - 2 ^ 31"

definition toUtcTime :: "int \<Rightarrow> bool \<Rightarrow> tmx option" where
  "toUtcTime secs yday = do {
     let utc = tm_zero\<lparr>tm_zone := ''GMT''\<rparr>;
     let seconds = to_int32 (secs smod kSecondsPerDay);
     let days = to_int32 (secs sdiv kSecondsPerDay);
     (seconds, days) \<leftarrow> (if seconds < 0
        then map_option (Pair (seconds + kSecondsPerDay)) (cint (days - 1))
        else Some (seconds, days));
     let utc = fillHMS seconds utc;
     j \<leftarrow> cint (days + kJulianDayOf1970_01_01);
     let date = \<lparr>julianDayNumber = j\<rparr>;
     ymd \<leftarrow> yearMonthDay date;
     y \<leftarrow> cint (year ymd - 1900);
     wd \<leftarrow> weekDay date;
     let utc = utc\<lparr>tm_year := y, tm_mon := month ymd - 1, tm_mday := day ymd, tm_wday := wd\<rparr>;
     (if yday then do {
        startOfYear \<leftarrow> Date_ymd (year ymd) 1 1;
        yd \<leftarrow> cint (julianDayNumber date - julianDayNumber startOfYear);
        Some (utc\<lparr>tm_yday := yd\<rparr>)
      } else Some utc) }"

definition fromUtcTime6 :: "int \<Rightarrow> int \<Rightarrow> int \<Rightarrow> int \<Rightarrow> int \<Rightarrow> int \<Rightarrow> int option" where
  "fromUtcTime6 yr mo dy hr minute seconds = do {
     date \<leftarrow> Date_ymd yr mo dy;
     t \<leftarrow> cint (hr * 3600);
     u \<leftarrow> cint (minute * 60);
     t \<leftarrow> cint (t + u);
     secondsInDay \<leftarrow> cint (t + seconds);
     days \<leftarrow> cint (julianDayNumber date - kJulianDayOf1970_01_01);
     Some (days * kSecondsPerDay + secondsInDay) }"

definition fromUtcTime :: "('a) tm_scheme \<Rightarrow> int option" where
  "fromUtcTime utc = do {
     y \<leftarrow> cint (tm_year utc + 1900);
     m \<leftarrow> cint (tm_mon utc + 1);
     fromUtcTime6 y m (tm_mday utc) (tm_hour utc) (tm_min utc) (tm_sec utc) }"

section \<open>Julian days count the days of the calendar\<close>

definition julian_offset :: int where "julian_offset = 1721120"

text \<open>The year of these formulas starts in March; \<open>m1\<close> counts its months from 0.\<close>

lemma march_month:
  assumes "1 \<le> m" "m \<le> 12"
  shows "m + 12 * ((14 - m) div 12) - 3 = (m + 9) mod 12" "(14 - m) div 12 = (m + 9) mod 12 div 10"
    "(153 * ((m + 9) mod 12) + 2) div 5 = ((m + 9) mod 12 * 306 + 5) div (10 :: int)"
  using months [OF assms] by auto

lemma leaps_4800: "leaps (y + 4800) = leaps y + 1164"
proof -
  have "(y + 1200 * 4) div 4 = 1200 + y div 4" "(y + 48 * 100) div 100 = 48 + y div 100" "(y + 12 * 400) div 400 = 12 + y div 400"
    by (simp_all only: div_mult_self1 zero_neq_numeral not_False_eq_True)
  then show ?thesis by (simp add: leaps_def)
qed

lemma leaps_bounds: "0 \<le> y \<Longrightarrow> 0 \<le> y div 4 \<and> y div 4 \<le> y \<and> 0 \<le> y div 100 \<and> y div 100 \<le> y div 4 \<and> 0 \<le> y div 400 \<and> y div 400 \<le> (y :: int)"
proof -
  assume y: "0 \<le> y"
  have "y div 4 \<le> y div 1" "y div 100 \<le> y div 4" "y div 400 \<le> y div 1" using y by (intro zdiv_mono2; simp)+
  then show ?thesis using y by (simp add: pos_imp_zdiv_nonneg_iff)
qed

lemma julian_date_no:
  assumes "is_date (y, m, d)" "y \<le> 5000000"
  shows "getJulianDayNumber y m d = Some (date_no (y, m, d) + julian_offset)"
proof -
  have v: "1 \<le> y" "1 \<le> m" "m \<le> 12" "1 \<le> d" "d \<le> 31"
    using assms(1) by (auto simp: is_date_def month_days_def split: if_splits)
  define m1 where "m1 = (m + 9) mod 12"
  define a where "a = m1 div 10"
  define y2 where "y2 = y + 4800 - a"
  define t where "t = (153 * m1 + 2) div 5"
  note M = march_month [OF v(2,3), folded m1_def, folded a_def t_def]
  have m1: "0 \<le> m1" "m1 \<le> 11" by (simp_all add: m1_def)
  have a: "0 \<le> a" "a \<le> 1" using m1 by (simp_all add: a_def)
  have y2: "0 \<le> y2" "y2 \<le> 5004800" using v(1) assms(2) a by (simp_all add: y2_def)
  have t: "0 \<le> t" "t \<le> 400" using m1 by (simp_all add: t_def)
  have e: "(14 - m) sdiv 12 = a" using v(3) M(2) by (simp add: sdiv_nonneg)
  note B = leaps_bounds [OF y2(1)]
  have "getJulianDayNumber y m d = Some (d + t + y2 * 365 + y2 div 4 - y2 div 100 + y2 div 400 - 32045)"
    using v a y2 t m1 e B M(1) assms(2)
    by (simp add: getJulianDayNumber_def Let_def cint_in sdiv_nonneg y2_def [symmetric] t_def [symmetric])
  moreover have "date_no (y, m, d) + julian_offset = d + t + y2 * 365 + y2 div 4 - y2 div 100 + y2 div 400 - 32045"
  proof -
    have "y2 = (y - a) + 4800" by (simp add: y2_def)
    then have "leaps y2 = leaps (y - a) + 1164" using leaps_4800 by simp
    moreover have "date_no (y, m, d) = 365 * (y - a) + leaps (y - a) + t + (d - 1)"
      by (simp add: date_no_def Let_def m1_def [symmetric] a_def [symmetric] M(3))
    ultimately show ?thesis by (simp add: julian_offset_def leaps_def y2_def)
  qed
  ultimately show ?thesis by simp
qed

text \<open>Splitting off the 400-year cycle, the century, the year and the day of the year.\<close>

lemma year_split:
  fixes q s u e :: int
  assumes "0 \<le> s" "s \<le> 3" "0 \<le> u" "u \<le> 99" "0 \<le> e"
    "e \<le> 364 \<or> e = 365 \<and> u mod 4 = 3 \<and> (u = 99 \<longrightarrow> s = 3)"
    and a: "a = 146097 * q + 36524 * s + 365 * u + u div 4 + e"
  shows "(4 * a + 3) div 146097 = 4 * q + s"
    "a - (4 * q + s) * 146097 div 4 = 365 * u + u div 4 + e"
    "(4 * (365 * u + u div 4 + e) + 3) div 1461 = u"
    "365 * u + u div 4 + e - 1461 * u div 4 = e"
proof -
  define w v where "w = u div 4" and "v = u mod 4"
  have u: "u = 4 * w + v" "0 \<le> v" "v \<le> 3" by (simp_all add: w_def v_def)
  have w: "0 \<le> w" "w \<le> 24" using assms(3,4) u by auto
  show "(4 * a + 3) div 146097 = 4 * q + s"
    by (rule int_div_pos_eq [of _ _ _ "4 * (365 * u + w + e) + 3 - s"])
      (use assms u w in \<open>auto simp: w_def [symmetric] v_def [symmetric]\<close>)
  have "(4 * q + s) * 146097 div 4 = 146097 * q + 36524 * s"
    by (rule int_div_pos_eq [of _ _ _ s]) (use assms in auto)
  then show "a - (4 * q + s) * 146097 div 4 = 365 * u + u div 4 + e" using a by simp
  show "(4 * (365 * u + u div 4 + e) + 3) div 1461 = u"
    by (rule int_div_pos_eq [of _ _ _ "4 * e + 3 - v"])
      (use assms u w in \<open>auto simp: w_def [symmetric] v_def [symmetric]\<close>)
  have "1461 * u div 4 = 365 * u + w"
    by (rule int_div_pos_eq [of _ _ _ v]) (use u in auto)
  then show "365 * u + u div 4 + e - 1461 * u div 4 = e" by (simp add: w_def)
qed

text \<open>The month and the day of the month from the day of the year.\<close>

lemma month_split:
  fixes m1 d :: int
  assumes "0 \<le> m1" "m1 \<le> 11" "1 \<le> d" "d \<le> (if m1 = 11 then 29 else if m1 \<in> {1, 3, 6, 8} then 30 else 31)"
    and e: "e = (m1 * 306 + 5) div 10 + (d - 1)"
  shows "(5 * e + 2) div 153 = m1" "e - (153 * m1 + 2) div 5 + 1 = d"
proof -
  have c: "m1 \<in> {0, 1, 2, 3, 4, 5, 6, 7, 8, 9, 10, 11}" using assms(1,2) by (simp, presburger)
  show "(5 * e + 2) div 153 = m1"
    using c assms(3,4) e by (elim insertE) (auto intro!: int_div_pos_eq [of _ _ _ "5 * e + 2 - 153 * m1"])
  show "e - (153 * m1 + 2) div 5 + 1 = d" using c e by auto
qed

text \<open>The position of a date in the 400-year cycles.\<close>

lemma date_cycle:
  assumes "is_date (y, m, d)"
  obtains q s u m1 e :: int where "0 \<le> q" "0 \<le> s" "s \<le> 3" "0 \<le> u" "u \<le> 99" "0 \<le> e" "0 \<le> m1" "m1 \<le> 11" "1 \<le> d"
    "e \<le> 364 \<or> e = 365 \<and> u mod 4 = 3 \<and> (u = 99 \<longrightarrow> s = 3)"
    "date_no (y, m, d) + julian_offset + 32044 = 146097 * q + 36524 * s + 365 * u + u div 4 + e"
    "d \<le> (if m1 = 11 then 29 else if m1 \<in> {1, 3, 6, 8} then 30 else 31)" "e = (m1 * 306 + 5) div 10 + (d - 1)"
    "m = m1 + 3 - 12 * (m1 div 10)" "y + 4800 = 400 * q + 100 * s + u + m1 div 10"
proof -
  have v: "1 \<le> y" "1 \<le> m" "m \<le> 12" "1 \<le> d" "d \<le> month_days y m" using assms by (simp_all add: is_date_def)
  define m1 where "m1 = (m + 9) mod 12"
  define e where "e = (m1 * 306 + 5) div 10 + (d - 1)"
  define y2 where "y2 = y + 4800 - m1 div 10"
  define q s u where "q = y2 div 400" and "s = y2 mod 400 div 100" and "u = y2 mod 400 mod 100"
  have y2: "y2 = 400 * q + (100 * s + u)" unfolding q_def s_def u_def by (metis mult_div_mod_eq)
  have m1: "0 \<le> m1" "m1 \<le> 11" "m = m1 + 3 - 12 * (m1 div 10)"
    using months [OF v(2,3)] by (auto simp: m1_def)
  have r: "0 \<le> u" "u \<le> 99" "0 \<le> s" "s \<le> 3" by (simp_all add: u_def s_def div_int_pos_iff)
  have "m1 div 10 \<le> 1" using m1 by simp
  then have q: "0 \<le> q" using v(1) unfolding q_def y2_def by (simp add: pos_imp_zdiv_nonneg_iff)
  have d: "d \<le> (if m1 = 11 then 29 else if m1 \<in> {1, 3, 6, 8} then 30 else 31)" "m1 = 11 \<longrightarrow> d = 29 \<longrightarrow> leap y"
    using months [OF v(2,3)] v(5) by (auto simp: m1_def month_days_def split: if_splits)
  have e: "0 \<le> e" "e \<le> 364 \<or> e = 365 \<and> m1 = 11 \<and> d = 29"
  proof -
    have "m1 \<in> {0, 1, 2, 3, 4, 5, 6, 7, 8, 9, 10, 11}" using m1 by (simp, presburger)
    then show "0 \<le> e" "e \<le> 364 \<or> e = 365 \<and> m1 = 11 \<and> d = 29" using v(4) d(1) by (auto simp: e_def)
  qed
  have lp: "u mod 4 = 3 \<and> (u = 99 \<longrightarrow> s = 3)" if "m1 = 11" "leap y"
  proof -
    have y: "y = 400 * q + 100 * s + u + 1 - 4800" using y2 that(1) by (simp add: y2_def)
    have "4 dvd y" "\<not> 100 dvd y \<or> 400 dvd y" using that(2) by (auto simp: leap_def)
    then obtain i where i: "y = 4 * i" by blast
    have "u + 1 = 4 * (i - 100 * q - 25 * s + 1200)" using y i by simp
    then have "4 dvd u + 1" by (rule dvdI)
    then have "u mod 4 = 3" by presburger
    moreover have "s = 3" if "u = 99"
    proof -
      have "y = 100 * (4 * q + s - 47)" using y that by simp
      then have "100 dvd y" by (rule dvdI)
      then obtain j where "y = 400 * j" using \<open>\<not> 100 dvd y \<or> 400 dvd y\<close> by blast
      then have "s + 1 = 4 * (j - q + 12)" using y that by simp
      then have "4 dvd s + 1" by (rule dvdI)
      then show ?thesis using r(3,4) by presburger
    qed
    ultimately show ?thesis by blast
  qed
  have N: "365 * y2 + leaps y2 = 146097 * q + 36524 * s + 365 * u + u div 4"
  proof -
    have "y2 div 4 = (u + (100 * q + 25 * s) * 4) div 4" "y2 div 100 = (u + (4 * q + s) * 100) div 100"
      "y2 div 400 = ((100 * s + u) + q * 400) div 400" using y2 by (simp_all add: algebra_simps)
    then have "y2 div 4 = 100 * q + 25 * s + u div 4" "y2 div 100 = 4 * q + s + u div 100" "y2 div 400 = q + (100 * s + u) div 400"
      by (simp_all only: div_mult_self1 zero_neq_numeral not_False_eq_True)
    moreover have "u div 100 = 0" "(100 * s + u) div 400 = 0" using r by simp_all
    ultimately show ?thesis using y2 by (simp add: leaps_def)
  qed
  have n: "date_no (y, m, d) + julian_offset + 32044 = 365 * y2 + leaps y2 + e"
  proof -
    have "y2 = (y - m1 div 10) + 4800" by (simp add: y2_def)
    then have "leaps y2 = leaps (y - m1 div 10) + 1164" using leaps_4800 by simp
    then show ?thesis by (simp add: date_no_def Let_def m1_def [symmetric] e_def julian_offset_def y2_def)
  qed
  have l: "e \<le> 364 \<or> e = 365 \<and> u mod 4 = 3 \<and> (u = 99 \<longrightarrow> s = 3)" using e(2) d(2) lp by blast
  have n': "date_no (y, m, d) + julian_offset + 32044 = 146097 * q + 36524 * s + 365 * u + u div 4 + e" using n N by simp
  have y': "y + 4800 = 400 * q + 100 * s + u + m1 div 10" using y2 by (simp add: y2_def)
  show ?thesis by (rule that [OF q r(3,4,1,2) e(1) m1(1,2) v(4) l n' d(1) e_def m1(3) y'])
qed

lemma julian_ymd:
  assumes "is_date (y, m, d)" "y \<le> 1000000"
  shows "getYearMonthDay (date_no (y, m, d) + julian_offset) = Some \<lparr>year = y, month = m, day = d\<rparr>"
proof -
  obtain q s u m1 e where c: "0 \<le> q" "0 \<le> s" "s \<le> 3" "0 \<le> u" "u \<le> 99" "0 \<le> e" "0 \<le> m1" "m1 \<le> 11" "1 \<le> d"
    "e \<le> 364 \<or> e = 365 \<and> u mod 4 = 3 \<and> (u = 99 \<longrightarrow> s = 3)"
    "date_no (y, m, d) + julian_offset + 32044 = 146097 * q + 36524 * s + 365 * u + u div 4 + e"
    "d \<le> (if m1 = 11 then 29 else if m1 \<in> {1, 3, 6, 8} then 30 else 31)" "e = (m1 * 306 + 5) div 10 + (d - 1)"
    "m = m1 + 3 - 12 * (m1 div 10)" "y + 4800 = 400 * q + 100 * s + u + m1 div 10"
    by (rule date_cycle [OF assms(1)])
  define a where "a = 146097 * q + 36524 * s + 365 * u + u div 4 + e"
  define b where "b = 4 * q + s"
  define f where "f = 365 * u + u div 4 + e"
  define k where "k = (153 * m1 + 2) div 5"
  note Y = year_split [OF c(2-6) c(10) a_def, folded b_def, folded f_def]
  note M = month_split [OF c(7,8,9) c(12,13), folded k_def]
  have r: "q \<le> 2512" "0 \<le> u div 4" "u div 4 \<le> 24" "e \<le> 365" "m1 div 10 \<le> 1" "0 \<le> m1 div 10" "0 \<le> k" "k \<le> 400" "d \<le> 31"
    using c assms(2) by (auto simp: k_def split: if_splits)
  have z: "0 \<le> a" "a \<le> 400000000" "0 \<le> b" "b \<le> 10100" "0 \<le> f" "f \<le> 40000"
    using c(1-6) r unfolding a_def b_def f_def by linarith+
  have y: "1 \<le> y" using assms(1) by (simp add: is_date_def)
  have i: "cint a = Some a" "cint (4 * a) = Some (4 * a)" "cint (4 * a + 3) = Some (4 * a + 3)"
    "cint (b * 146097) = Some (b * 146097)" "cint f = Some f" "cint (4 * f) = Some (4 * f)" "cint (4 * f + 3) = Some (4 * f + 3)"
    "cint (1461 * u) = Some (1461 * u)" "cint e = Some e" "cint (5 * e) = Some (5 * e)" "cint (5 * e + 2) = Some (5 * e + 2)"
    "cint (153 * m1) = Some (153 * m1)" "cint (153 * m1 + 2) = Some (153 * m1 + 2)" "cint (e - k) = Some (e - k)" "cint d = Some d"
    "cint (m1 + 3) = Some (m1 + 3)" "cint m = Some m" "cint (b * 100) = Some (b * 100)" "cint (b * 100 + u) = Some (b * 100 + u)"
    "cint (b * 100 + u - 4800) = Some (b * 100 + u - 4800)" "cint y = Some y"
    using c(4-9) r z y assms(2) c(14) by (intro cint_in; linarith)+
  have j: "(4 * a + 3) sdiv 146097 = b" "a - b * 146097 sdiv 4 = f" "(4 * f + 3) sdiv 1461 = u" "f - 1461 * u sdiv 4 = e"
    "(5 * e + 2) sdiv 153 = m1" "(153 * m1 + 2) sdiv 5 = k" "m1 sdiv 10 = m1 div 10"
  proof -
    have nn: "0 \<le> 4 * a + 3" "0 \<le> b * 146097" "0 \<le> 4 * f + 3" "0 \<le> 1461 * u" "0 \<le> 5 * e + 2" "0 \<le> 153 * m1 + 2"
      using z c(4-9) by linarith+
    show "(4 * a + 3) sdiv 146097 = b" "a - b * 146097 sdiv 4 = f" "(4 * f + 3) sdiv 1461 = u" "f - 1461 * u sdiv 4 = e"
      "(5 * e + 2) sdiv 153 = m1" "(153 * m1 + 2) sdiv 5 = k" "m1 sdiv 10 = m1 div 10"
      by (simp_all only: sdiv_nonneg nn c(7) zero_less_numeral Y M(1) k_def)
  qed
  have y': "b * 100 + u - 4800 + m1 div 10 = y" using c(15) by (simp add: b_def)
  have n: "date_no (y, m, d) + julian_offset = a - 32044" using c(11) by (simp add: a_def)
  have g: "getYearMonthDay (a - 32044) = Some \<lparr>year = y, month = m, day = d\<rparr>"
    by (simp only: getYearMonthDay_def Let_def diff_add_cancel i j M(2) c(14) [symmetric] y' bind.bind_lunit)
  show ?thesis unfolding n by (rule g)
qed

text \<open>
  C13: Julian day numbers count the days of the Gregorian calendar, in both directions. Up to the year
  one million, the date that is \<open>n\<close> days after the first of January of the year 1 has the number
  \<open>1721426 + n\<close>, \<open>getYearMonthDay\<close> of this number is that date, and no intermediate result
  overflows an \<open>int\<close>.
\<close>

theorem julian_day_calendar:
  assumes "(next_date ^^ n) (1, 1, 1) = (y, m, d)" "y \<le> 1000000"
  shows "getJulianDayNumber y m d = Some (1721426 + int n) \<and>
    getYearMonthDay (1721426 + int n) = Some \<lparr>year = y, month = m, day = d\<rparr>"
proof -
  have "is_date (1, 1, 1)" by (simp add: is_date_def month_days_def)
  from date_no_iter [OF this, of n] assms(1)
  have x: "is_date (y, m, d)" "date_no (y, m, d) = date_no (1, 1, 1) + int n" by simp_all
  have "date_no (1, 1, 1) + julian_offset = 1721426" by (simp add: date_no_def leaps_def julian_offset_def)
  then have e: "date_no (y, m, d) + julian_offset = 1721426 + int n" using x(2) by simp
  have "getJulianDayNumber y m d = Some (1721426 + int n)" using julian_date_no [OF x(1)] assms(2) e by simp
  moreover have "getYearMonthDay (1721426 + int n) = Some \<lparr>year = y, month = m, day = d\<rparr>"
    using julian_ymd [OF x(1) assms(2)] unfolding e .
  ultimately show ?thesis by blast
qed

theorem julian_day_calendar_witness:
  "getJulianDayNumber 1 3 1 = Some (1721426 + int 59) \<and>
     getYearMonthDay (1721426 + int 59) = Some \<lparr>year = 1, month = 3, day = 1\<rparr>"
proof (rule julian_day_calendar)
  show "(next_date ^^ 59) (1, 1, 1) = (1, 3, 1)" by code_simp
qed simp

section \<open>UTC time\<close>

lemma split_day:
  fixes t D sd :: int
  assumes "t = 86400 * D + sd" "0 \<le> sd" "sd < 86400"
  shows "if t smod 86400 < 0 then t smod 86400 + 86400 = sd \<and> t sdiv 86400 - 1 = D else t smod 86400 = sd \<and> t sdiv 86400 = D"
proof (cases "0 \<le> t")
  case True
  have "t div 86400 = D" "t mod 86400 = sd" using assms by simp_all
  with True assms(2) show ?thesis by (simp add: sdiv_nonneg smod_nonneg)
next
  case neg: False
  have n: "t sdiv 86400 = - (- t div 86400)" "t smod 86400 = - (- t mod 86400)"
    using neg by (simp_all add: signed_divide_int_def signed_modulo_int_def minus_mod_eq_mult_div [symmetric])
  show ?thesis
  proof (cases "sd = 0")
    case True
    then have "- t div 86400 = - D" "- t mod 86400 = 0" using assms(1) by simp_all
    with True show ?thesis by (simp add: n)
  next
    case False
    have "- t = (86400 - sd) + (- D - 1) * 86400" using assms(1) by simp
    then have "- t div 86400 = - D - 1 + (86400 - sd) div 86400" "- t mod 86400 = (86400 - sd) mod 86400"
      by (simp_all only: div_mult_self1 mod_mult_self1 zero_neq_numeral not_False_eq_True)
    moreover have "0 \<le> 86400 - sd" "86400 - sd < 86400" using False assms(2,3) by simp_all
    then have "(86400 - sd) div 86400 = 0" "(86400 - sd) mod 86400 = 86400 - sd"
      by (rule div_pos_pos_trivial mod_pos_pos_trivial)+
    ultimately show ?thesis using assms(3) by (simp add: n)
  qed
qed

lemma kJulianDay [simp]: "kJulianDayOf1970_01_01 = 2440588"
  by code_simp

lemma to_int32_id [simp]: "- 2000000000 \<le> x \<Longrightarrow> x \<le> 2000000000 \<Longrightarrow> to_int32 x = x"
  by (simp add: to_int32_def)

lemma date_no_bounds:
  assumes "is_date (y, m, d)" "y \<le> 1000000"
  shows "306 \<le> date_no (y, m, d)" "date_no (y, m, d) \<le> 400000000"
proof -
  have v: "1 \<le> y" "1 \<le> m" "m \<le> 12" "1 \<le> d" "d \<le> 31" using assms(1) by (auto simp: is_date_def month_days_def split: if_splits)
  define m1 where "m1 = (m + 9) mod 12"
  have m1: "m1 \<in> {0, 1, 2, 3, 4, 5, 6, 7, 8, 9, 10, 11}" using months [OF v(2,3)] by (auto simp: m1_def)
  define y1 where "y1 = y - m1 div 10"
  have "0 \<le> y1" using m1 v(1) by (auto simp: y1_def)
  note B = leaps_bounds [OF this]
  have n: "date_no (y, m, d) = 365 * y1 + leaps y1 + (m1 * 306 + 5) div 10 + (d - 1)"
    by (simp add: date_no_def Let_def m1_def y1_def)
  have "0 \<le> leaps y1" "leaps y1 \<le> 2 * y1" using B unfolding leaps_def by linarith+
  moreover have "0 \<le> (m1 * 306 + 5) div 10" "(m1 * 306 + 5) div 10 \<le> 400" "y1 = 0 \<longrightarrow> 306 \<le> (m1 * 306 + 5) div 10" "y1 \<le> y"
    using m1 v(1) by (auto simp: y1_def)
  moreover have "y1 = 0 \<or> 1 \<le> y1" using \<open>0 \<le> y1\<close> by linarith
  ultimately show "306 \<le> date_no (y, m, d)" "date_no (y, m, d) \<le> 400000000"
    using n v assms(2) by (elim disjE; linarith)+
qed

text \<open>What \<open>toUtcTime\<close> returns for second \<open>sd\<close> of the day with number \<open>D\<close> from the first of January 1970.\<close>

lemma toUtcTime_fields:
  assumes x: "is_date (y, m, d)" "y \<le> 1000000" and D: "D = date_no (y, m, d) - date_no (1970, 1, 1)"
    and sd: "0 \<le> sd" "sd < 86400"
  shows "toUtcTime (86400 * D + sd) yday = Some (tm_zero\<lparr>tm_zone := ''GMT'', tm_sec := sd mod 60, tm_min := sd div 60 mod 60,
    tm_hour := sd div 60 div 60, tm_year := y - 1900, tm_mon := m - 1, tm_mday := d, tm_wday := (D + 4) mod 7,
    tm_yday := (if yday then date_no (y, m, d) - date_no (y, 1, 1) else 0)\<rparr>)"
proof -
  define t where "t = 86400 * D + sd"
  have e: "date_no (1970, 1, 1) + julian_offset = 2440588" by (simp add: date_no_def leaps_def julian_offset_def)
  have y: "1 \<le> y" and x0: "is_date (y, 1, 1)" using x(1) by (auto simp: is_date_def month_days_def split: if_splits)
  note b = date_no_bounds [OF x] date_no_bounds [OF x0 x(2)]
  have dn: "date_no (1970, 1, 1) = 719468" using e by (simp add: julian_offset_def)
  have Db: "- 719162 \<le> D" "D \<le> 400000000" using b(1,2) D dn by linarith+
  have j: "D + 2440588 = date_no (y, m, d) + julian_offset" using D e by simp
  have ymd: "getYearMonthDay (D + 2440588) = Some \<lparr>year = y, month = m, day = d\<rparr>" unfolding j by (rule julian_ymd [OF x])
  have sy: "getJulianDayNumber y 1 1 = Some (date_no (y, 1, 1) + julian_offset)" by (rule julian_date_no [OF x0]) (use x(2) in simp)
  have wd: "(D + 2440589) smod 7 = (D + 4) mod 7"
  proof -
    have "(D + 2440589) mod 7 = ((D + 4) + 348655 * 7) mod 7" by (simp add: add.commute)
    also have "\<dots> = (D + 4) mod 7" by (rule mod_mult_self1)
    finally show ?thesis using Db by (simp add: smod_nonneg)
  qed
  note T = split_day [OF t_def sd]
  have sp: "to_int32 (t smod 86400) = sd - 86400 \<and> to_int32 (t sdiv 86400) = D + 1 \<or>
      to_int32 (t smod 86400) = sd \<and> to_int32 (t sdiv 86400) = D"
  proof (cases "t smod 86400 < 0")
    case True
    then have "t smod 86400 = sd - 86400" "t sdiv 86400 = D + 1" using T by simp_all
    then show ?thesis using Db sd by simp
  next
    case False
    then have "t smod 86400 = sd" "t sdiv 86400 = D" using T by simp_all
    then show ?thesis using Db sd by simp
  qed
  have c: "cint (D + 2440588) = Some (D + 2440588)" "cint (D + 2440588 + 1) = Some (D + 2440589)" "cint (y - 1900) = Some (y - 1900)"
    "cint (D + 2440588 - (date_no (y, 1, 1) + julian_offset)) = Some (date_no (y, m, d) - date_no (y, 1, 1))"
    using Db y x(2) b j by (simp_all add: cint_in)
  have "cint D = Some D" "cint (2440589 + D) = Some (D + 2440589)" using Db by (simp_all add: cint_in)
  note C = this c ymd sy wd yearMonthDay_def weekDay_def kDaysPerWeek_def Date_ymd_def fillHMS_def tm_zero_def
  show ?thesis
    using sp sd unfolding t_def [symmetric] toUtcTime_def kSecondsPerDay_def
    by (elim disjE conjE) (simp_all add: Let_def C)
qed

text \<open>
  C24: \<open>toUtcTime\<close> is \<open>gmtime\<close> and \<open>fromUtcTime\<close> its inverse, also before 1970. The second \<open>sd\<close> of a
  calendar day \<open>D\<close> days away from the first of January 1970, in the years 1 to one million, gets the
  date of that day, its hour, minute and second, its weekday and, when asked for, the number of the
  day in the year, and converts back to the same time.
\<close>

theorem utc_time_roundtrip:
  assumes "is_date (y, m, d)" "y \<le> 1000000" "D = date_no (y, m, d) - date_no (1970, 1, 1)"
    "0 \<le> h" "h < 24" "0 \<le> mi" "mi < 60" "0 \<le> s" "s < 60" "t = 86400 * D + 3600 * h + 60 * mi + s"
  shows "\<exists>u. toUtcTime t yday = Some u \<and> tm_year u + 1900 = y \<and> tm_mon u + 1 = m \<and> tm_mday u = d \<and>
    tm_hour u = h \<and> tm_min u = mi \<and> tm_sec u = s \<and> tm_wday u = (D + 4) mod 7 \<and>
    (yday \<longrightarrow> tm_yday u = date_no (y, m, d) - date_no (y, 1, 1)) \<and> fromUtcTime u = Some t"
proof -
  define sd where "sd = 3600 * h + 60 * mi + s"
  have sd: "0 \<le> sd" "sd < 86400" "t = 86400 * D + sd" using assms(4-10) by (simp_all add: sd_def)
  have "sd = s + (60 * h + mi) * 60" by (simp add: sd_def)
  then have q: "sd div 60 = (60 * h + mi) + s div 60" "sd mod 60 = s mod 60"
    by (simp_all only: div_mult_self1 mod_mult_self1 zero_neq_numeral not_False_eq_True)
  have f: "sd div 60 = 60 * h + mi" "sd mod 60 = s" using q assms(8,9) by simp_all
  have g: "(60 * h + mi) div 60 = h" "(60 * h + mi) mod 60 = mi" using assms(4-7) by simp_all
  have y: "1 \<le> y" using assms(1) by (simp add: is_date_def)
  have e: "date_no (1970, 1, 1) + julian_offset = 2440588" by (simp add: date_no_def leaps_def julian_offset_def)
  note b = date_no_bounds [OF assms(1,2)]
  have "getJulianDayNumber y m d = Some (D + 2440588)"
    using julian_date_no [OF assms(1)] assms(2,3) e by simp
  moreover have "- 719162 \<le> D" "D \<le> 400000000" using b assms(3) e unfolding julian_offset_def by linarith+
  moreover have "1 \<le> m" "m \<le> 12" using assms(1) by (simp_all add: is_date_def)
  ultimately have r: "fromUtcTime6 y m d h mi s = Some t" "cint y = Some y" "cint m = Some m"
    using assms(2,4-9) y sd(3) by (simp_all add: fromUtcTime6_def Date_ymd_def cint_in kSecondsPerDay_def sd_def)
  show ?thesis
    unfolding sd(3) toUtcTime_fields [OF assms(1-3) sd(1,2)]
    using r sd(3) assms(6,7) by (simp add: fromUtcTime_def tm_zero_def f g)
qed

theorem utc_time_roundtrip_witness:
  "\<exists>u. toUtcTime (- 1) True = Some u \<and> tm_year u + 1900 = 1969 \<and> tm_mon u + 1 = 12 \<and> tm_mday u = 31 \<and>
    tm_hour u = 23 \<and> tm_min u = 59 \<and> tm_sec u = 59 \<and> tm_wday u = 3 \<and> tm_yday u = 364 \<and> fromUtcTime u = Some (- 1)"
  using utc_time_roundtrip [of 1969 12 31 "- 1" 23 59 59 "- 1" True]
  by (simp add: is_date_def month_days_def date_no_def leaps_def)

end
