(* ===== verification/Muduo_Stream.thy ===== *)
theory Muduo_Stream
  imports CString
begin

text \<open>
  \<open>src/src/log/muduo-clog/muduo/base/LogStream.h\<close> and \<open>LogStream.cc\<close>: the fixed buffers that log
  lines are put together in, and the stream operators that write into them.

  A \<open>FixedBuffer\<close> is its array \<open>data_\<close> and the offset of \<open>cur_\<close> in it. Every store goes through
  \<^const>\<open>aset\<close> or \<open>memcpy_at\<close>, so a result \<^term>\<open>None\<close> is a store outside the array. The text of a
  buffer is what lies before \<open>cur_\<close>. The section on the specification describes a stream by its text
  alone: a value is appended as a whole when the guard of its operator finds room, and left out as a
  whole otherwise. The lemmas show that the operators implement this and never leave the array.
\<close>

section \<open>FixedBuffer\<close>

definition kSmallBuffer :: nat where "kSmallBuffer = 4000"
definition kLargeBuffer :: nat where "kLargeBuffer = 8000 * 1000"

record FixedBuffer =
  fb_data :: "char list"
  fb_cur :: nat

text \<open>The array of a new buffer is not initialised: its contents are an argument.\<close>

definition new_FixedBuffer :: "char list \<Rightarrow> FixedBuffer" where
  "new_FixedBuffer garbage = \<lparr>fb_data = garbage, fb_cur = 0\<rparr>"

definition fb_length :: "FixedBuffer \<Rightarrow> int" where
  "fb_length b = int (fb_cur b)"

definition fb_avail :: "FixedBuffer \<Rightarrow> int" where
  "fb_avail b = int (length (fb_data b)) - int (fb_cur b)"

text \<open>\<open>memcpy\<close> of the first \<open>n\<close> bytes of \<open>src\<close> to offset \<open>at\<close> of \<open>dst\<close>.\<close>

definition memcpy_at :: "char list \<Rightarrow> nat \<Rightarrow> char list \<Rightarrow> nat \<Rightarrow> char list option" where
  "memcpy_at dst at src n =
     (if n \<le> length src \<and> at + n \<le> length dst then Some (take at dst @ take n src @ drop (at + n) dst) else None)"

definition fb_add :: "FixedBuffer \<Rightarrow> nat \<Rightarrow> FixedBuffer option" where
  "fb_add b n = (if fb_cur b + n \<le> length (fb_data b) then Some (b\<lparr>fb_cur := fb_cur b + n\<rparr>) else None)"

definition fb_append :: "FixedBuffer \<Rightarrow> char list \<Rightarrow> nat \<Rightarrow> FixedBuffer option" where
  "fb_append b buf n =
     (if fb_avail b > int n then do {
        d \<leftarrow> memcpy_at (fb_data b) (fb_cur b) buf n;
        fb_add (b\<lparr>fb_data := d\<rparr>) n
      } else Some b)"

definition fb_reset :: "FixedBuffer \<Rightarrow> FixedBuffer" where
  "fb_reset b = b\<lparr>fb_cur := 0\<rparr>"

definition fb_bzero :: "FixedBuffer \<Rightarrow> FixedBuffer" where
  "fb_bzero b = b\<lparr>fb_data := replicate (length (fb_data b)) NUL\<rparr>"

definition fb_toString :: "FixedBuffer \<Rightarrow> string" where
  "fb_toString b = take (fb_cur b) (fb_data b)"

definition debugString :: "FixedBuffer \<Rightarrow> FixedBuffer option" where
  "debugString b = map_option (\<lambda>d. b\<lparr>fb_data := d\<rparr>) (aset (fb_data b) (int (fb_cur b)) NUL)"

section \<open>Integer to string\<close>

definition digits :: string where "digits = ''9876543210123456789''"
definition digitsHex :: string where "digitsHex = ''0123456789ABCDEF''"

lemma sdiv_ten_smaller: "i sdiv 10 \<noteq> 0 \<Longrightarrow> nat \<bar>i sdiv 10\<bar> < nat \<bar>i :: int\<bar>"
  by (auto simp: signed_divide_int_def abs_mult sgn_if abs_if)

text \<open>The loop writes the least significant digit first; \<open>zero\<close> points to the middle of \<open>digits\<close>,
  because the remainder of a negative number is negative.\<close>

function convert_loop :: "char list \<Rightarrow> nat \<Rightarrow> int \<Rightarrow> (char list \<times> nat) option" where
  "convert_loop d p i = do {
     ch \<leftarrow> aget digits (9 + i smod 10);
     d \<leftarrow> aset d (int p) ch;
     (if i sdiv 10 \<noteq> 0 then convert_loop d (Suc p) (i sdiv 10) else Some (d, Suc p))
   }"
  by pat_completeness auto
termination
  by (relation "measure (\<lambda>(d, p, i). nat \<bar>i\<bar>)") (use sdiv_ten_smaller in auto)

declare convert_loop.simps [simp del]

definition reverse_at :: "char list \<Rightarrow> nat \<Rightarrow> nat \<Rightarrow> char list" where
  "reverse_at d from til = take from d @ rev (drop from (take til d)) @ drop til d"

definition convert :: "char list \<Rightarrow> nat \<Rightarrow> int \<Rightarrow> (char list \<times> nat) option" where
  "convert d buf value = do {
     (d, p) \<leftarrow> convert_loop d buf value;
     (d, p) \<leftarrow> (if value < 0 then map_option (\<lambda>d. (d, Suc p)) (aset d (int p) CHR ''-'') else Some (d, p));
     d \<leftarrow> aset d (int p) NUL;
     Some (reverse_at d buf p, p - buf)
   }"

function convertHex_loop :: "char list \<Rightarrow> nat \<Rightarrow> nat \<Rightarrow> (char list \<times> nat) option" where
  "convertHex_loop d p i = do {
     ch \<leftarrow> aget digitsHex (int (i mod 16));
     d \<leftarrow> aset d (int p) ch;
     (if i div 16 \<noteq> 0 then convertHex_loop d (Suc p) (i div 16) else Some (d, Suc p))
   }"
  by pat_completeness auto
termination by (relation "measure (\<lambda>(d, p, i). i)") auto

declare convertHex_loop.simps [simp del]

definition convertHex :: "char list \<Rightarrow> nat \<Rightarrow> nat \<Rightarrow> (char list \<times> nat) option" where
  "convertHex d buf value = do {
     (d, p) \<leftarrow> convertHex_loop d buf value;
     d \<leftarrow> aset d (int p) NUL;
     Some (reverse_at d buf p, p - buf)
   }"

section \<open>LogStream\<close>

definition kMaxNumericSize :: nat where "kMaxNumericSize = 32"

definition formatInteger :: "FixedBuffer \<Rightarrow> int \<Rightarrow> FixedBuffer option" where
  "formatInteger b v =
     (if fb_avail b \<ge> int kMaxNumericSize then do {
        (d, len) \<leftarrow> convert (fb_data b) (fb_cur b) v;
        fb_add (b\<lparr>fb_data := d\<rparr>) len
      } else Some b)"

definition put_pointer :: "FixedBuffer \<Rightarrow> nat \<Rightarrow> FixedBuffer option" where
  "put_pointer b v =
     (if fb_avail b \<ge> int kMaxNumericSize then do {
        d \<leftarrow> aset (fb_data b) (int (fb_cur b)) CHR ''0'';
        d \<leftarrow> aset d (int (fb_cur b) + 1) CHR ''x'';
        (d, len) \<leftarrow> convertHex d (fb_cur b + 2) v;
        fb_add (b\<lparr>fb_data := d\<rparr>) (len + 2)
      } else Some b)"

text \<open>\<open>snprintf(p, size, ...)\<close> of a text: at most \<open>size - 1\<close> characters and a NUL.\<close>

definition snprintf_to :: "char list \<Rightarrow> nat \<Rightarrow> nat \<Rightarrow> string \<Rightarrow> char list option" where
  "snprintf_to d at sz t =
     (let s = take (sz - 1) t @ [NUL] in memcpy_at d at s (length s))"

text \<open>\<open>g\<close> is the text that \<open>%.12g\<close> gives for the number.\<close>

definition put_double :: "FixedBuffer \<Rightarrow> string \<Rightarrow> FixedBuffer option" where
  "put_double b g =
     (if fb_avail b \<ge> int kMaxNumericSize then do {
        d \<leftarrow> snprintf_to (fb_data b) (fb_cur b) kMaxNumericSize g;
        fb_add (b\<lparr>fb_data := d\<rparr>) (length g)
      } else Some b)"

text \<open>What is written with \<open><<\<close>. A C string is the characters before its NUL, or the NULL pointer.\<close>

datatype log_item =
    IBool bool
  | IInt int
  | IPtr nat
  | IDouble string
  | IChar char
  | ICStr "string option"
  | IBytes string

definition put_item :: "FixedBuffer \<Rightarrow> log_item \<Rightarrow> FixedBuffer option" where
  "put_item b it = (case it of
     IBool v \<Rightarrow> fb_append b (if v then ''1'' else ''0'') 1
   | IInt v \<Rightarrow> formatInteger b v
   | IPtr p \<Rightarrow> put_pointer b p
   | IDouble g \<Rightarrow> put_double b g
   | IChar v \<Rightarrow> fb_append b [v] 1
   | ICStr (Some s) \<Rightarrow> fb_append b s (length s)
   | ICStr None \<Rightarrow> fb_append b ''(null)'' 6
   | IBytes s \<Rightarrow> fb_append b s (length s))"

fun put_items :: "FixedBuffer \<Rightarrow> log_item list \<Rightarrow> FixedBuffer option" where
  "put_items b [] = Some b"
| "put_items b (it # its) = put_item b it \<bind> (\<lambda>b. put_items b its)"

text \<open>\<open>Fmt\<close>: one number formatted into 32 bytes. Its length is that of the whole text.\<close>

record Fmt =
  fmt_buf :: "char list"
  fmt_length :: nat

definition new_Fmt :: "char list \<Rightarrow> string \<Rightarrow> Fmt option" where
  "new_Fmt garbage t = map_option (\<lambda>d. \<lparr>fmt_buf = d, fmt_length = length t\<rparr>) (snprintf_to garbage 0 32 t)"

definition put_Fmt :: "FixedBuffer \<Rightarrow> Fmt \<Rightarrow> FixedBuffer option" where
  "put_Fmt b f = fb_append b (fmt_buf f) (fmt_length f)"

section \<open>Specification\<close>

fun show_hex :: "nat \<Rightarrow> string" where
  "show_hex n = (if n < 16 then [digitsHex ! n] else show_hex (n div 16) @ [digitsHex ! (n mod 16)])"

declare show_hex.simps [simp del]

text \<open>The text of a value, and the room that its operator asks for.\<close>

definition item_text :: "log_item \<Rightarrow> string" where
  "item_text it = (case it of
     IBool v \<Rightarrow> (if v then ''1'' else ''0'')
   | IInt v \<Rightarrow> show_int v
   | IPtr p \<Rightarrow> ''0x'' @ show_hex p
   | IDouble g \<Rightarrow> g
   | IChar v \<Rightarrow> [v]
   | ICStr (Some s) \<Rightarrow> s
   | ICStr None \<Rightarrow> ''(null)''
   | IBytes s \<Rightarrow> s)"

definition item_room :: "log_item \<Rightarrow> nat" where
  "item_room it = (case it of
     IInt v \<Rightarrow> kMaxNumericSize | IPtr p \<Rightarrow> kMaxNumericSize | IDouble g \<Rightarrow> kMaxNumericSize
   | _ \<Rightarrow> Suc (length (item_text it)))"

text \<open>The values that fit the types of the operators: integers of at most 64 bits, and the texts of
  at most 31 characters that \<open>%.12g\<close> gives.\<close>

definition item_ok :: "log_item \<Rightarrow> bool" where
  "item_ok it = (case it of IInt v \<Rightarrow> - (2 ^ 63) \<le> v \<and> v < 2 ^ 64 | IPtr p \<Rightarrow> p < 2 ^ 64
     | IDouble g \<Rightarrow> length g < kMaxNumericSize | _ \<Rightarrow> True)"

definition spec_put :: "nat \<Rightarrow> string \<Rightarrow> log_item \<Rightarrow> string" where
  "spec_put n t it = (if length t + item_room it \<le> n then t @ item_text it else t)"

definition fb_ok :: "nat \<Rightarrow> FixedBuffer \<Rightarrow> bool" where
  "fb_ok n b \<longleftrightarrow> length (fb_data b) = n \<and> fb_cur b \<le> n"

section \<open>Writing into a buffer\<close>

lemma length_memcpy: "memcpy_at d at s n = Some d' \<Longrightarrow> length d' = length d"
  by (auto simp: memcpy_at_def split: if_splits)

lemma fb_text_length: "fb_ok n b \<Longrightarrow> length (fb_toString b) = fb_cur b"
  by (simp add: fb_ok_def fb_toString_def)

text \<open>Every operator ends with the same step: the array holds the text behind \<open>cur_\<close>, which moves past it.\<close>

lemma returns_fb_add:
  assumes "fb_ok n b" "fb_cur b + k \<le> n" "length d = n" "take (fb_cur b + k) d = take (fb_cur b) (fb_data b) @ t" "length t = k"
  shows "returns (fb_add (b\<lparr>fb_data := d\<rparr>) k) (\<lambda>b'. fb_ok n b' \<and> fb_toString b' = fb_toString b @ t)"
  using assms by (simp add: fb_add_def fb_ok_def fb_toString_def)

lemma fb_append_returns:
  assumes "fb_ok n b"
  shows "returns (fb_append b s (length s))
    (\<lambda>b'. fb_ok n b' \<and> fb_toString b' = (if fb_cur b + length s < n then fb_toString b @ s else fb_toString b))"
proof (cases "fb_cur b + length s < n")
  case True
  let ?d = "take (fb_cur b) (fb_data b) @ s @ drop (fb_cur b + length s) (fb_data b)"
  have m: "memcpy_at (fb_data b) (fb_cur b) s (length s) = Some ?d" and "fb_avail b > int (length s)"
    using True assms by (auto simp: memcpy_at_def fb_ok_def fb_avail_def)
  moreover have "returns (fb_add (b\<lparr>fb_data := ?d\<rparr>) (length s)) (\<lambda>b'. fb_ok n b' \<and> fb_toString b' = fb_toString b @ s)"
    by (rule returns_fb_add) (use True assms length_memcpy [OF m] in \<open>auto simp: fb_ok_def\<close>)
  ultimately show ?thesis using True by (simp add: fb_append_def)
next
  case False
  then show ?thesis using assms by (simp add: fb_append_def fb_avail_def fb_ok_def)
qed

section \<open>The digits\<close>

lemma digits_table: "list_all (\<lambda>k. digits ! (9 + k) = char_of (48 + k) \<and> digits ! (9 - k) = char_of (48 + k)) [0..<10]"
  by code_simp

lemma digits_nth: "k < 10 \<Longrightarrow> digits ! (9 + k) = char_of (48 + k) \<and> digits ! (9 - k) = char_of (48 + k)"
  using digits_table by (simp add: list_all_iff)

lemma sdiv_smod_ten: "nat \<bar>i sdiv 10\<bar> = nat \<bar>i\<bar> div 10" "i smod 10 = sgn i * (\<bar>i :: int\<bar> mod 10)"
proof -
  show "nat \<bar>i sdiv 10\<bar> = nat \<bar>i\<bar> div 10"
    by (simp add: signed_divide_int_def abs_mult sgn_if nat_div_distrib)
  show "i smod 10 = sgn i * (\<bar>i\<bar> mod 10)"
    by (simp add: signed_modulo_int_def signed_divide_int_def sgn_if minus_mod_eq_mult_div [symmetric])
qed

lemma zero_at: "aget digits (9 + i smod 10) = Some (char_of (48 + nat \<bar>i\<bar> mod 10))"
proof -
  define k where "k = nat \<bar>i\<bar> mod 10"
  have k: "k < 10" "int k = \<bar>i\<bar> mod 10" by (simp_all add: k_def zmod_int)
  have "9 + i smod 10 = (if i < 0 then int (9 - k) else int (9 + k))"
    using k by (simp add: sdiv_smod_ten sgn_if of_nat_diff)
  moreover have "length digits = 19" by (simp add: digits_def)
  ultimately show ?thesis
    using digits_nth [OF k(1)] k(1) unfolding k_def [symmetric] by (simp only: aget_int split: if_split) auto
qed

lemma put_next:
  assumes "p < length d"
  shows "take (Suc p) (d[p := c]) = take p d @ [c]" "drop (Suc p) (d[p := c]) = drop (Suc p) d"
  using assms by (simp_all add: take_Suc_conv_app_nth)

text \<open>The loops store the digits in reverse order.\<close>

lemma show_nat_step: "show_nat n = (if n div 10 = 0 then [] else show_nat (n div 10)) @ [char_of (48 + n mod 10)]"
  by (subst show_nat.simps) (simp add: div_eq_0_iff)

lemma show_hex_step: "show_hex n = (if n div 16 = 0 then [] else show_hex (n div 16)) @ [digitsHex ! (n mod 16)]"
  by (subst show_hex.simps) (simp add: div_eq_0_iff)

lemma convert_loop_digits:
  "p + length (show_nat (nat \<bar>i\<bar>)) \<le> length d \<Longrightarrow>
   convert_loop d p i = Some (take p d @ rev (show_nat (nat \<bar>i\<bar>)) @ drop (p + length (show_nat (nat \<bar>i\<bar>))) d,
     p + length (show_nat (nat \<bar>i\<bar>)))"
proof (induction d p i rule: convert_loop.induct)
  case (1 d p i)
  define n c where "n = nat \<bar>i\<bar>" and "c = char_of (48 + n mod 10)"
  have st: "show_nat n = (if n div 10 = 0 then [] else show_nat (n div 10)) @ [c]" unfolding c_def by (rule show_nat_step)
  have p: "p < length d" using 1(2) st by (simp add: n_def [symmetric])
  have z: "i sdiv 10 = 0 \<longleftrightarrow> n div 10 = 0" using sdiv_smod_ten(1) [of i] by (simp add: n_def) linarith
  have e: "aget digits (9 + i smod 10) = Some c" "aset d (int p) c = Some (d[p := c])"
    using zero_at [of i] p by (simp_all add: c_def n_def)
  show ?case
  proof (cases "n div 10 = 0")
    case True
    with e z p show ?thesis
      by (subst convert_loop.simps) (simp add: n_def [symmetric] st take_Suc_conv_app_nth upd_conv_take_nth_drop)
  next
    case False
    have n': "nat \<bar>i sdiv 10\<bar> = n div 10" by (simp add: sdiv_smod_ten n_def)
    have len: "length (show_nat n) = Suc (length (show_nat (n div 10)))" using st False by simp
    have "convert_loop (d[p := c]) (Suc p) (i sdiv 10) =
      Some (take (Suc p) (d[p := c]) @ rev (show_nat (n div 10)) @ drop (Suc p + length (show_nat (n div 10))) (d[p := c]),
        Suc p + length (show_nat (n div 10)))"
      using 1(1) [OF e(1) e(2)] 1(2) False z len by (simp add: n' n_def [symmetric])
    then show ?thesis using e z False p
      by (subst convert_loop.simps) (simp add: n_def [symmetric] st put_next)
  qed
qed

lemma convertHex_loop_digits:
  "p + length (show_hex i) \<le> length d \<Longrightarrow>
   convertHex_loop d p i = Some (take p d @ rev (show_hex i) @ drop (p + length (show_hex i)) d, p + length (show_hex i))"
proof (induction d p i rule: convertHex_loop.induct)
  case (1 d p i)
  define c where "c = digitsHex ! (i mod 16)"
  have st: "show_hex i = (if i div 16 = 0 then [] else show_hex (i div 16)) @ [c]" unfolding c_def by (rule show_hex_step)
  have p: "p < length d" using 1(2) st by simp
  have e: "aget digitsHex (int (i mod 16)) = Some c" "aset d (int p) c = Some (d[p := c])"
    using p by (simp_all add: c_def digitsHex_def del: of_nat_mod)
  show ?case
  proof (cases "i div 16 = 0")
    case True
    with e p show ?thesis
      by (subst convertHex_loop.simps) (simp add: st upd_conv_take_nth_drop del: of_nat_mod)
  next
    case False
    have len: "length (show_hex i) = Suc (length (show_hex (i div 16)))" using st False by simp
    have "convertHex_loop (d[p := c]) (Suc p) (i div 16) =
      Some (take (Suc p) (d[p := c]) @ rev (show_hex (i div 16)) @ drop (Suc p + length (show_hex (i div 16))) (d[p := c]),
        Suc p + length (show_hex (i div 16)))"
      using 1(1) [OF e(1) e(2) False] 1(2) len by simp
    then show ?thesis using e False p
      by (subst convertHex_loop.simps) (simp add: st put_next del: of_nat_mod)
  qed
qed

lemma length_show_nat: "n < 10 ^ Suc k \<Longrightarrow> length (show_nat n) \<le> Suc k"
proof (induction k arbitrary: n)
  case (Suc k)
  then have "n div 10 < 10 ^ Suc k" by (simp add: less_mult_imp_div_less)
  then show ?case using Suc(1) [of "n div 10"] by (subst show_nat_step) simp
qed (subst show_nat.simps, simp)

lemma length_show_hex: "n < 16 ^ Suc k \<Longrightarrow> length (show_hex n) \<le> Suc k"
proof (induction k arbitrary: n)
  case (Suc k)
  then have "n div 16 < 16 ^ Suc k" by (simp add: less_mult_imp_div_less)
  then show ?case using Suc(1) [of "n div 16"] by (subst show_hex_step) simp
qed (subst show_hex.simps, simp)

lemma length_show_int:
  assumes "- (2 ^ 63) \<le> v" "v < 2 ^ 64"
  shows "length (show_int v) \<le> 20"
proof (cases "v < 0")
  case True
  have "nat (- v) < 10 ^ Suc 18" using assms True by simp
  from length_show_nat [OF this] show ?thesis using True by (simp add: show_int_def)
next
  case False
  have "nat v < 10 ^ Suc 19" using assms False by simp
  from length_show_nat [OF this] show ?thesis using False by (simp add: show_int_def)
qed

text \<open>Reversing what a loop has stored gives the text in place.\<close>

lemma reverse_stored: "reverse_at (take p d @ rev t @ r) p (p + length t) = take p d @ t @ r" if "p \<le> length d"
  using that by (simp add: reverse_at_def min_def)

lemma convert_text:
  assumes "p + length (show_int v) < length d"
  shows "convert d p v = Some ((take p d @ show_int v @ drop (p + length (show_int v)) d)[p + length (show_int v) := NUL],
    length (show_int v))"
proof (cases "v < 0")
  case True
  define t where "t = show_nat (nat \<bar>v\<bar>)"
  have s: "show_int v = CHR ''-'' # t" using True by (simp add: show_int_def t_def abs_if)
  have l: "convert_loop d p v = Some (take p d @ rev t @ drop (p + length t) d, p + length t)"
    using convert_loop_digits [of p v d] assms s by (simp add: t_def)
  have k: "p + length t < length d" "Suc (p + length t) < length d" using assms s by simp_all
  have "(take p d @ rev t @ drop (p + length t) d)[p + length t := CHR ''-'', Suc (p + length t) := NUL]
      = take p d @ rev (show_int v) @ (drop (Suc (p + length t)) d)[0 := NUL]"
    using k s by (simp add: list_update_append min_def Cons_nth_drop_Suc [symmetric])
  then show ?thesis
    using True k l s reverse_stored [of p d "show_int v" "(drop (Suc (p + length t)) d)[0 := NUL]"]
    by (simp add: convert_def list_update_append min_def)
next
  case False
  define t where "t = show_nat (nat \<bar>v\<bar>)"
  have s: "show_int v = t" using False by (simp add: show_int_def t_def)
  have l: "convert_loop d p v = Some (take p d @ rev t @ drop (p + length t) d, p + length t)"
    using convert_loop_digits [of p v d] assms s by (simp add: t_def)
  have k: "p + length t < length d" using assms s by simp
  then show ?thesis
    using False l s reverse_stored [of p d t "(drop (p + length t) d)[0 := NUL]"]
    by (simp add: convert_def list_update_append min_def)
qed

lemma convertHex_text:
  assumes "p + length (show_hex v) < length d"
  shows "convertHex d p v = Some ((take p d @ show_hex v @ drop (p + length (show_hex v)) d)[p + length (show_hex v) := NUL],
    length (show_hex v))"
  using assms convertHex_loop_digits [of p v d] reverse_stored [of p d "show_hex v" "(drop (p + length (show_hex v)) d)[0 := NUL]"]
  by (simp add: convertHex_def list_update_append min_def)

section \<open>The operators\<close>

lemma fb_add_stored:
  assumes "fb_ok n b" "fb_cur b + length t < n"
    "d = (take (fb_cur b) (fb_data b) @ t @ drop (fb_cur b + length t) (fb_data b))[fb_cur b + length t := c]"
  shows "returns (fb_add (b\<lparr>fb_data := d\<rparr>) (length t)) (\<lambda>b'. fb_ok n b' \<and> fb_toString b' = fb_toString b @ t)"
  by (rule returns_fb_add) (use assms in \<open>auto simp: fb_ok_def min_def\<close>)

lemma formatInteger_returns:
  assumes "fb_ok n b" "- (2 ^ 63) \<le> v" "v < 2 ^ 64"
  shows "returns (formatInteger b v)
    (\<lambda>b'. fb_ok n b' \<and> fb_toString b' = (if fb_cur b + kMaxNumericSize \<le> n then fb_toString b @ show_int v else fb_toString b))"
proof (cases "fb_cur b + kMaxNumericSize \<le> n")
  case True
  then have k: "fb_cur b + length (show_int v) < n" using length_show_int [OF assms(2,3)] by (simp add: kMaxNumericSize_def)
  have "convert (fb_data b) (fb_cur b) v = Some ((take (fb_cur b) (fb_data b) @ show_int v @
      drop (fb_cur b + length (show_int v)) (fb_data b))[fb_cur b + length (show_int v) := NUL], length (show_int v))"
    using k assms(1) by (intro convert_text) (simp add: fb_ok_def)
  then show ?thesis
    using True assms(1) fb_add_stored [OF assms(1) k refl] by (simp add: formatInteger_def fb_avail_def fb_ok_def)
qed (use assms(1) in \<open>simp add: formatInteger_def fb_avail_def fb_ok_def\<close>)

lemma put_pointer_returns:
  assumes "fb_ok n b" "v < 2 ^ 64"
  shows "returns (put_pointer b v)
    (\<lambda>b'. fb_ok n b' \<and> fb_toString b' = (if fb_cur b + kMaxNumericSize \<le> n then fb_toString b @ ''0x'' @ show_hex v else fb_toString b))"
proof (cases "fb_cur b + kMaxNumericSize \<le> n")
  case True
  let ?c = "fb_cur b" and ?t = "''0x'' @ show_hex v"
  define d where "d = (fb_data b)[?c := CHR ''0'', ?c + 1 := CHR ''x'']"
  have "length (show_hex v) \<le> Suc 15" by (rule length_show_hex) (use assms(2) in simp)
  then have k: "?c + length ?t < n" using True by (simp add: kMaxNumericSize_def)
  have len: "length (fb_data b) = n" using assms(1) by (simp add: fb_ok_def)
  have pre: "take (?c + 2) d = take ?c (fb_data b) @ ''0x''" "drop (?c + 2 + m) d = drop (?c + length ''0x'' + m) (fb_data b)" for m
    using k len by (simp_all add: d_def take_Suc_conv_app_nth)
  have h: "convertHex d (?c + 2) v = Some ((take ?c (fb_data b) @ ?t @ drop (?c + length ?t) (fb_data b))[?c + length ?t := NUL],
      length (show_hex v))"
    using convertHex_text [of "?c + 2" v d] k len pre by (simp add: d_def add.assoc)
  have a: "aset (fb_data b) (int ?c) CHR ''0'' = Some ((fb_data b)[?c := CHR ''0''])"
    "aset ((fb_data b)[?c := CHR ''0'']) (int ?c + 1) CHR ''x'' = Some d"
    using k len by (simp_all add: d_def aset_def nat_add_distrib)
  show ?thesis
    using True a h fb_add_stored [OF assms(1) k refl] len by (simp add: put_pointer_def fb_avail_def add.commute)
qed (use assms(1) in \<open>simp add: put_pointer_def fb_avail_def fb_ok_def\<close>)

lemma put_double_returns:
  assumes "fb_ok n b" "length g < kMaxNumericSize"
  shows "returns (put_double b g)
    (\<lambda>b'. fb_ok n b' \<and> fb_toString b' = (if fb_cur b + kMaxNumericSize \<le> n then fb_toString b @ g else fb_toString b))"
proof (cases "fb_cur b + kMaxNumericSize \<le> n")
  case True
  then have k: "fb_cur b + length g < n" using assms(2) by simp
  have "snprintf_to (fb_data b) (fb_cur b) kMaxNumericSize g =
      Some ((take (fb_cur b) (fb_data b) @ g @ drop (fb_cur b + length g) (fb_data b))[fb_cur b + length g := NUL])"
    using k assms by (simp add: snprintf_to_def memcpy_at_def fb_ok_def list_update_append min_def Cons_nth_drop_Suc [symmetric])
  then show ?thesis
    using True assms(1) fb_add_stored [OF assms(1) k refl] by (simp add: put_double_def fb_avail_def fb_ok_def)
qed (use assms(1) in \<open>simp add: put_double_def fb_avail_def fb_ok_def\<close>)

lemma put_item_refines:
  assumes "fb_ok n b" "item_ok it"
  shows "returns (put_item b it) (\<lambda>b'. fb_ok n b' \<and> fb_toString b' = spec_put n (fb_toString b) it)"
proof -
  have app: "returns (fb_append b s k) (\<lambda>b'. fb_ok n b' \<and> fb_toString b' = spec_put n (fb_toString b) it)"
    if "item_text it = s" "item_room it = Suc (length s)" "k = length s" for s k
    using fb_append_returns [OF assms(1), of s] that fb_text_length [OF assms(1)]
    by (cases "fb_cur b + length s < n") (simp_all add: spec_put_def less_eq_Suc_le)
  show ?thesis
  proof (cases it)
    case (IInt v)
    then show ?thesis using formatInteger_returns [OF assms(1), of v] assms(2) fb_text_length [OF assms(1)]
      by (cases "fb_cur b + kMaxNumericSize \<le> n")
        (simp_all add: put_item_def item_ok_def spec_put_def item_room_def item_text_def)
  next
    case (IPtr v)
    then show ?thesis using put_pointer_returns [OF assms(1), of v] assms(2) fb_text_length [OF assms(1)]
      by (cases "fb_cur b + kMaxNumericSize \<le> n")
        (simp_all add: put_item_def item_ok_def spec_put_def item_room_def item_text_def)
  next
    case (IDouble g)
    then show ?thesis using put_double_returns [OF assms(1), of g] assms(2) fb_text_length [OF assms(1)]
      by (cases "fb_cur b + kMaxNumericSize \<le> n")
        (simp_all add: put_item_def item_ok_def spec_put_def item_room_def item_text_def)
  next
    case (IBool x)
    then show ?thesis using app [of "item_text it"]
      by (cases x) (simp_all add: put_item_def item_room_def item_text_def)
  next
    case (ICStr x)
    then show ?thesis using app [of "item_text it"]
      by (cases x) (simp_all add: put_item_def item_room_def item_text_def eval_nat_numeral)
  qed (use app [of "item_text it"] in \<open>simp_all add: put_item_def item_room_def item_text_def\<close>)
qed

lemma put_items_refines:
  assumes "fb_ok n b" "list_all item_ok its"
  shows "returns (put_items b its) (\<lambda>b'. fb_ok n b' \<and> fb_toString b' = foldl (spec_put n) (fb_toString b) its)"
  using assms
proof (induction its arbitrary: b)
  case (Cons it its)
  then have it: "returns (put_item b it) (\<lambda>b'. fb_ok n b' \<and> fb_toString b' = spec_put n (fb_toString b) it)"
    by (intro put_item_refines) simp_all
  show ?case unfolding put_items.simps returns_bind
  proof (rule returns_mono [OF it], elim conjE)
    fix x assume "fb_ok n x" "fb_toString x = spec_put n (fb_toString b) it"
    then show "returns (put_items x its) (\<lambda>b'. fb_ok n b' \<and> fb_toString b' = foldl (spec_put n) (fb_toString b) (it # its))"
      using Cons(1) [of x] Cons(3) by simp
  qed
qed simp

text \<open>
  C8: whatever sequence of values is written into a stream of \<open>n\<close> bytes, no store leaves the array, and
  the text of the stream is that of the specification: the decimal digits of integers, the hexadecimal
  digits of pointers, the characters of strings, in order, each value as a whole or not at all.
\<close>

theorem log_stream_refines:
  assumes "fb_ok n b" "list_all item_ok its"
  shows "returns (put_items b its) (\<lambda>b'. fb_ok n b' \<and> fb_toString b' = foldl (spec_put n) (fb_toString b) its)"
  using assms by (rule put_items_refines)

theorem log_stream_refines_witness:
  "returns (put_items (new_FixedBuffer (replicate 64 CHR ''?'')) [ICStr (Some ''n=''), IInt (- 42), IPtr 48879])
     (\<lambda>b. fb_ok 64 b \<and> fb_toString b = ''n=-42'' @ ''0xBEEF'')"
proof -
  let ?b = "new_FixedBuffer (replicate 64 CHR ''?'')" and ?its = "[ICStr (Some ''n=''), IInt (- 42), IPtr 48879]"
  have s: "foldl (spec_put 64) (fb_toString ?b) ?its = ''n=-42'' @ ''0xBEEF''"
    by (simp add: spec_put_def item_room_def item_text_def fb_toString_def new_FixedBuffer_def kMaxNumericSize_def show_int_def
        show_nat.simps show_hex.simps digitsHex_def char_of_def bit_0)
  show ?thesis
    using log_stream_refines [of 64 ?b ?its] unfolding s by (simp add: fb_ok_def new_FixedBuffer_def item_ok_def)
qed

text \<open>
  The digits that the stream operators write for an integer of any type read back as that integer,
  also for the smallest value of a type, whose absolute value the type cannot hold.
\<close>

theorem format_integer_roundtrip:
  assumes "fb_ok n b" "fb_cur b = 0" "kMaxNumericSize \<le> n" "- (2 ^ 63) \<le> v" "v < 2 ^ 64"
  shows "\<exists>b'. formatInteger b v = Some b' \<and> fb_length b' \<le> 20 \<and> scan_dec (fb_toString b') = Some v"
proof -
  have "fb_toString b = []" using assms(2) by (simp add: fb_toString_def)
  with formatInteger_returns [OF assms(1,4,5)] assms(2,3)
  obtain b' where b': "formatInteger b v = Some b'" "fb_ok n b'" "fb_toString b' = show_int v" by (auto elim!: returnsE)
  then have "fb_length b' = int (length (show_int v))" using fb_text_length [OF b'(2)] by (simp add: fb_length_def)
  with b' show ?thesis using length_show_int [OF assms(4,5)] by (simp add: scan_dec_show)
qed

theorem format_integer_roundtrip_witness:
  "\<exists>b'. formatInteger (new_FixedBuffer (replicate 40 NUL)) (- (2 ^ 63)) = Some b' \<and>
     fb_length b' \<le> 20 \<and> scan_dec (fb_toString b') = Some (- (2 ^ 63))"
  by (rule format_integer_roundtrip [of 40]) (simp_all add: fb_ok_def new_FixedBuffer_def kMaxNumericSize_def)

end
