(* ===== verification/Muduo_Logger.thy ===== *)
theory Muduo_Logger
  imports Muduo_Conf Muduo_Date Muduo_Stream Proc_Name
begin

text \<open>
  \<open>src/src/log/muduo-clog/muduo/base/Logging.h\<close>, \<open>Logging.cc\<close> and the thread number of \<open>CurrentThread.h\<close>
  and \<open>Thread.cc\<close>: one log line, from the constructor of \<open>Logger\<close> to the output function.

  A call has an environment: the time, the result of \<open>localtime_r\<close> and \<open>strerror_r\<close>, the number of the
  thread, \<open>errno\<close>, and the unknown contents of the stack array of the stream. The variables of the
  calling thread are passed explicitly. The result is the list of what happens: a line handed to the
  output function, a flush of the standard output, the end of the program.
\<close>

section \<open>Levels\<close>

datatype LogLevel = TRACE | DEBUG | INFO | WARN | ERROR | FATAL

fun level_no :: "LogLevel \<Rightarrow> nat" where
  "level_no TRACE = 0" | "level_no DEBUG = 1" | "level_no INFO = 2"
| "level_no WARN = 3" | "level_no ERROR = 4" | "level_no FATAL = 5"

lemma level_no_inject: "level_no x = level_no y \<Longrightarrow> x = y"
  by (cases x; cases y) simp_all

instantiation LogLevel :: linorder
begin

definition less_eq_LogLevel :: "LogLevel \<Rightarrow> LogLevel \<Rightarrow> bool" where
  "less_eq_LogLevel x y = (level_no x \<le> level_no y)"

definition less_LogLevel :: "LogLevel \<Rightarrow> LogLevel \<Rightarrow> bool" where
  "less_LogLevel x y = (level_no x < level_no y)"

instance
  by standard (auto simp: less_eq_LogLevel_def less_LogLevel_def intro: level_no_inject)

end

fun LogLevelName :: "LogLevel \<Rightarrow> string" where
  "LogLevelName TRACE = ''TRACE ''" | "LogLevelName DEBUG = ''DEBUG ''" | "LogLevelName INFO = ''INFO  ''"
| "LogLevelName WARN = ''WARN  ''" | "LogLevelName ERROR = ''ERROR ''" | "LogLevelName FATAL = ''FATAL ''"

definition initLogLevel :: "string option \<Rightarrow> LogLevel option" where
  "initLogLevel content = map_option (\<lambda>conf.
     let level = cf_level conf
     in if level = 0 then TRACE else if level = 1 then DEBUG else if level = 2 then INFO else WARN) (read_conf content)"

text \<open>The file name without its directories.\<close>

definition SourceFile :: "string \<Rightarrow> string" where
  "SourceFile filename = (case strrchr filename CHR ''/'' of None \<Rightarrow> filename | Some k \<Rightarrow> drop (Suc k) filename)"

section \<open>The variables of a thread\<close>

record thread_vars =
  t_time :: "char list"
  t_lastSecond :: int
  t_cachedTid :: int
  t_tidString :: "char list"
  t_tidStringLength :: nat

record logger_env =
  le_now :: int
  le_localtime :: "int \<Rightarrow> tm"
  le_zone :: "(int \<Rightarrow> tm) option"
  le_strerror :: "int \<Rightarrow> string"
  le_gettid :: int
  le_errno :: int
  le_stack :: "char list"

definition cacheTid :: "logger_env \<Rightarrow> thread_vars \<Rightarrow> thread_vars option" where
  "cacheTid e v = (if t_cachedTid v = 0 then
     (let t = bpad 5 (show_int (le_gettid e)) @ '' ''
      in map_option (\<lambda>d. v\<lparr>t_cachedTid := le_gettid e, t_tidString := d, t_tidStringLength := length t\<rparr>)
           (snprintf_to (t_tidString v) 0 32 t))
     else Some v)"

text \<open>\<open><< T(str, len)\<close> is \<open>append(str, len)\<close>. A valid \<open>g_logTimeZone\<close> converts the time, otherwise \<open>localtime_r\<close>.\<close>

definition formatTime :: "logger_env \<Rightarrow> thread_vars \<Rightarrow> FixedBuffer \<Rightarrow> (thread_vars \<times> FixedBuffer) option" where
  "formatTime e v b = do {
     let seconds = le_now e sdiv kMicroSecondsPerSecond;
     let microseconds = le_now e smod kMicroSecondsPerSecond;
     v \<leftarrow> (if seconds \<noteq> t_lastSecond v then
            (let tm_time = (case le_zone e of Some z \<Rightarrow> z seconds | None \<Rightarrow> le_localtime e seconds)
             in map_option (\<lambda>d. v\<lparr>t_lastSecond := seconds, t_time := d\<rparr>) (snprintf_to (t_time v) 0 32 (datetime_text tm_time)))
          else Some v);
     us \<leftarrow> new_Fmt (replicate 32 NUL) (''.'' @ zpad 6 microseconds @ (if le_zone e = None then ''Z '' else '' ''));
     b \<leftarrow> fb_append b (t_time v) 17;
     b \<leftarrow> fb_append b (fmt_buf us) (if le_zone e = None then 9 else 8);
     Some (v, b) }"

section \<open>Logger\<close>

definition Impl :: "logger_env \<Rightarrow> thread_vars \<Rightarrow> LogLevel \<Rightarrow> int \<Rightarrow> (thread_vars \<times> FixedBuffer) option" where
  "Impl e v level savedErrno = do {
     (v, b) \<leftarrow> formatTime e v (new_FixedBuffer (le_stack e));
     v \<leftarrow> cacheTid e v;
     b \<leftarrow> fb_append b (t_tidString v) (t_tidStringLength v);
     b \<leftarrow> fb_append b (LogLevelName level) 6;
     b \<leftarrow> (if savedErrno \<noteq> 0 then put_items b [ICStr (Some (le_strerror e savedErrno)), ICStr (Some '' (errno=''),
             IInt savedErrno, ICStr (Some '') '')] else Some b);
     Some (v, b) }"

definition finish_line :: "FixedBuffer \<Rightarrow> string \<Rightarrow> int \<Rightarrow> FixedBuffer option" where
  "finish_line b base line = put_items b [ICStr (Some '' - ''), IBytes base, IChar CHR '':'', IInt line, IChar NL]"

datatype log_effect = Out string | FlushOut | Aborts

text \<open>The destructor: \<open>g_output\<close>, and for a fatal message \<open>g_flush\<close> and \<open>abort\<close>.\<close>

definition destroy_Logger :: "LogLevel \<Rightarrow> FixedBuffer \<Rightarrow> string \<Rightarrow> int \<Rightarrow> log_effect list option" where
  "destroy_Logger level b base line = do {
     b \<leftarrow> finish_line b base line;
     Some (Out (fb_toString b) # (if level = FATAL then [FlushOut, Aborts] else [])) }"

text \<open>A whole statement \<open>Logger(file, line, ...).stream() << msg\<close>; \<open>func\<close> only with the constructor that takes it.\<close>

definition log_statement ::
  "logger_env \<Rightarrow> thread_vars \<Rightarrow> LogLevel \<Rightarrow> int \<Rightarrow> string option \<Rightarrow> string \<Rightarrow> string \<Rightarrow> int \<Rightarrow> (thread_vars \<times> log_effect list) option" where
  "log_statement e v level savedErrno func msg file line = do {
     (v, b) \<leftarrow> Impl e v level savedErrno;
     b \<leftarrow> (case func of Some f \<Rightarrow> put_items b [ICStr (Some f), IChar CHR '' ''] | None \<Rightarrow> Some b);
     b \<leftarrow> put_item b (ICStr (Some msg));
     es \<leftarrow> destroy_Logger level b (SourceFile file) line;
     Some (v, es) }"

section \<open>The text of a line\<close>

definition tid_text :: "int \<Rightarrow> string" where
  "tid_text tid = bpad 5 (show_int tid) @ '' ''"

definition conv :: "logger_env \<Rightarrow> int \<Rightarrow> tm" where
  "conv e = (case le_zone e of Some z \<Rightarrow> z | None \<Rightarrow> le_localtime e)"

text \<open>The thread's variables: the cached second and the cached thread number have their texts.\<close>

definition vars_ok :: "(int \<Rightarrow> tm) \<Rightarrow> int \<Rightarrow> thread_vars \<Rightarrow> bool" where
  "vars_ok cv tid v \<longleftrightarrow> length (t_time v) = 32 \<and> length (t_tidString v) = 32 \<and>
     (t_lastSecond v = 0 \<or> take 17 (t_time v) = datetime_text (cv (t_lastSecond v))) \<and>
     (t_cachedTid v = 0 \<or> t_tidStringLength v = length (tid_text tid) \<and> take (length (tid_text tid)) (t_tidString v) = tid_text tid)"

text \<open>The environment of a call at a time after 1970 that prints with 17 characters.\<close>

definition env_ok :: "logger_env \<Rightarrow> bool" where
  "env_ok e \<longleftrightarrow> length (le_stack e) = kSmallBuffer \<and> kMicroSecondsPerSecond \<le> le_now e \<and>
     length (datetime_text (conv e (le_now e div kMicroSecondsPerSecond))) = 17 \<and> 0 < le_gettid e \<and> le_gettid e \<le> INT_MAX"

definition head_text :: "logger_env \<Rightarrow> LogLevel \<Rightarrow> string" where
  "head_text e level = datetime_text (conv e (le_now e div kMicroSecondsPerSecond)) @ ''.'' @ zpad 6 (le_now e mod kMicroSecondsPerSecond) @
     (if le_zone e = None then ''Z '' else '' '') @ tid_text (le_gettid e) @ LogLevelName level"

lemma zpad_length:
  assumes "0 \<le> i" "i < 10 ^ Suc n"
  shows "length (zpad (Suc n) i) = Suc n"
proof -
  have "nat i < 10 ^ Suc n" using assms by (simp add: nat_less_iff)
  from length_show_nat [OF this] assms(1) show ?thesis by (simp add: zpad_def)
qed

lemma tid_text_length: "0 < tid \<Longrightarrow> tid \<le> INT_MAX \<Longrightarrow> length (tid_text tid) \<le> 12"
  using length_show_nat [of "nat tid" 9] by (simp add: tid_text_def bpad_def show_int_def int_limits nat_less_iff)

lemma LogLevelName_length [simp]: "length (LogLevelName l) = 6"
  by (cases l) simp_all

lemma fb_append_prefix: "n \<le> length buf \<Longrightarrow> fb_append b buf n = fb_append b (take n buf) (length (take n buf))"
  by (simp add: fb_append_def memcpy_at_def min_def)

lemma fb_append_fits:
  assumes "fb_ok n b" "k \<le> length buf" "take k buf = t" "fb_cur b + length t < n"
  shows "\<exists>b'. fb_append b buf k = Some b' \<and> fb_ok n b' \<and> fb_toString b' = fb_toString b @ t"
  using fb_append_returns [OF assms(1), of t] assms fb_append_prefix [OF assms(2), of b] by (auto elim!: returnsE)

lemma snprintf_take:
  assumes "length d = 32" "length t < 32"
  shows "\<exists>d'. snprintf_to d 0 32 t = Some d' \<and> length d' = 32 \<and> take (length t) d' = t"
  using assms by (simp add: snprintf_to_def memcpy_at_def)

lemma formatTime_returns:
  assumes e: "env_ok e" and v: "vars_ok (conv e) (le_gettid e) v"
  shows "\<exists>v' b. formatTime e v (new_FixedBuffer (le_stack e)) = Some (v', b) \<and> vars_ok (conv e) (le_gettid e) v' \<and>
    fb_ok kSmallBuffer b \<and> fb_toString b = datetime_text (conv e (le_now e div kMicroSecondsPerSecond)) @ ''.'' @
      zpad 6 (le_now e mod kMicroSecondsPerSecond) @ (if le_zone e = None then ''Z '' else '' '')"
proof -
  define s u where "s = le_now e div kMicroSecondsPerSecond" and "u = le_now e mod kMicroSecondsPerSecond"
  define z where "z = ''.'' @ zpad 6 u @ (if le_zone e = None then ''Z '' else '' '')"
  have pos: "1000000 \<le> le_now e" "0 < s" using e by (simp_all add: env_ok_def s_def kMicroSecondsPerSecond_def pos_imp_zdiv_pos_iff)
  have su: "le_now e sdiv kMicroSecondsPerSecond = s" "le_now e smod kMicroSecondsPerSecond = u"
    using pos by (simp_all add: s_def u_def sdiv_nonneg smod_nonneg kMicroSecondsPerSecond_def)
  have "length (zpad (Suc 5) u) = Suc 5" by (rule zpad_length) (simp_all add: u_def kMicroSecondsPerSecond_def)
  then have zl: "length z = (if le_zone e = None then 9 else 8)" by (simp add: z_def)
  have dl: "length (datetime_text (conv e s)) = 17" using e by (simp add: env_ok_def s_def)
  have "\<exists>v'. (if s \<noteq> t_lastSecond v then map_option (\<lambda>d. v\<lparr>t_lastSecond := s, t_time := d\<rparr>)
      (snprintf_to (t_time v) 0 32 (datetime_text (conv e s))) else Some v) = Some v' \<and> vars_ok (conv e) (le_gettid e) v' \<and>
      take 17 (t_time v') = datetime_text (conv e s)"
  proof (cases "s = t_lastSecond v")
    case True
    then show ?thesis using v pos by (auto simp: vars_ok_def)
  next
    case False
    obtain d where "snprintf_to (t_time v) 0 32 (datetime_text (conv e s)) = Some d" "length d = 32" "take 17 d = datetime_text (conv e s)"
      using snprintf_take [of "t_time v" "datetime_text (conv e s)"] v dl by (auto simp: vars_ok_def)
    with False show ?thesis using v by (auto simp: vars_ok_def)
  qed
  then obtain v' where v': "(if s \<noteq> t_lastSecond v then map_option (\<lambda>d. v\<lparr>t_lastSecond := s, t_time := d\<rparr>)
      (snprintf_to (t_time v) 0 32 (datetime_text (conv e s))) else Some v) = Some v'" "vars_ok (conv e) (le_gettid e) v'"
      "take 17 (t_time v') = datetime_text (conv e s)" by blast
  obtain d where d: "snprintf_to (replicate 32 NUL) 0 32 z = Some d" "length d = 32" "take (length z) d = z"
    using snprintf_take [of "replicate 32 NUL" z] zl by (auto split: if_splits)
  have ok: "fb_ok kSmallBuffer (new_FixedBuffer (le_stack e))" "fb_toString (new_FixedBuffer (le_stack e)) = []" "fb_cur (new_FixedBuffer (le_stack e)) = 0"
    using e by (simp_all add: env_ok_def fb_ok_def new_FixedBuffer_def fb_toString_def)
  obtain b where b: "fb_append (new_FixedBuffer (le_stack e)) (t_time v') 17 = Some b" "fb_ok kSmallBuffer b" "fb_toString b = datetime_text (conv e s)"
    using fb_append_fits [OF ok(1) _ v'(3)] v'(2) ok dl by (auto simp: vars_ok_def kSmallBuffer_def)
  have "fb_cur b = 17" using fb_text_length [OF b(2)] b(3) dl by simp
  then obtain b2 where b2: "fb_append b d (length z) = Some b2" "fb_ok kSmallBuffer b2" "fb_toString b2 = datetime_text (conv e s) @ z"
    using fb_append_fits [OF b(2) _ d(3)] b(3) d(2) zl by (auto simp: kSmallBuffer_def split: if_splits)
  have c: "(case le_zone e of Some z \<Rightarrow> z s | None \<Rightarrow> le_localtime e s) = conv e s" by (simp add: conv_def split: option.splits)
  have "formatTime e v (new_FixedBuffer (le_stack e)) = Some (v', b2)"
    using v'(1) d(1) b(1) b2(1) zl unfolding formatTime_def su c Let_def new_Fmt_def z_def [symmetric] by (simp split: if_splits)
  then show ?thesis using v'(2) b2 by (simp add: s_def [symmetric] u_def [symmetric] z_def)
qed

lemma cacheTid_returns:
  assumes "env_ok e" "vars_ok cv (le_gettid e) v"
  shows "\<exists>v'. cacheTid e v = Some v' \<and> vars_ok cv (le_gettid e) v' \<and> t_tidStringLength v' = length (tid_text (le_gettid e)) \<and>
    take (length (tid_text (le_gettid e))) (t_tidString v') = tid_text (le_gettid e)"
proof (cases "t_cachedTid v = 0")
  case True
  have "length (tid_text (le_gettid e)) < 32" using tid_text_length [of "le_gettid e"] assms(1) by (simp add: env_ok_def)
  then obtain d where d: "snprintf_to (t_tidString v) 0 32 (tid_text (le_gettid e)) = Some d" "length d = 32"
    "take (length (tid_text (le_gettid e))) d = tid_text (le_gettid e)"
    using snprintf_take [of "t_tidString v" "tid_text (le_gettid e)"] assms(2) by (auto simp: vars_ok_def)
  then show ?thesis using True assms(2) by (simp add: cacheTid_def Let_def tid_text_def [symmetric] vars_ok_def)
next
  case False
  then show ?thesis using assms(2) by (auto simp: cacheTid_def vars_ok_def)
qed

text \<open>Everything that is written into the stream of a statement, after the head.\<close>

definition errno_items :: "logger_env \<Rightarrow> int \<Rightarrow> log_item list" where
  "errno_items e n = (if n \<noteq> 0 then [ICStr (Some (le_strerror e n)), ICStr (Some '' (errno=''), IInt n, ICStr (Some '') '')] else [])"

definition func_items :: "string option \<Rightarrow> log_item list" where
  "func_items func = (case func of Some f \<Rightarrow> [ICStr (Some f), IChar CHR '' ''] | None \<Rightarrow> [])"

definition tail_items :: "string \<Rightarrow> int \<Rightarrow> log_item list" where
  "tail_items base line = [ICStr (Some '' - ''), IBytes base, IChar CHR '':'', IInt line, IChar NL]"

lemma put_items_append: "put_items b (xs @ ys) = put_items b xs \<bind> (\<lambda>b. put_items b ys)"
  by (induction xs arbitrary: b) simp_all

lemma Impl_returns:
  assumes e: "env_ok e" and v: "vars_ok (conv e) (le_gettid e) v" and n: "INT_MIN \<le> n" "n \<le> INT_MAX"
  shows "\<exists>v' b. Impl e v level n = Some (v', b) \<and> vars_ok (conv e) (le_gettid e) v' \<and> fb_ok kSmallBuffer b \<and>
    fb_toString b = foldl (spec_put kSmallBuffer) (head_text e level) (errno_items e n)"
proof -
  obtain v1 b1 where 1: "formatTime e v (new_FixedBuffer (le_stack e)) = Some (v1, b1)" "vars_ok (conv e) (le_gettid e) v1"
    "fb_ok kSmallBuffer b1" "fb_toString b1 = datetime_text (conv e (le_now e div kMicroSecondsPerSecond)) @ ''.'' @
      zpad 6 (le_now e mod kMicroSecondsPerSecond) @ (if le_zone e = None then ''Z '' else '' '')"
    using formatTime_returns [OF e v] by blast
  obtain v2 where 2: "cacheTid e v1 = Some v2" "vars_ok (conv e) (le_gettid e) v2" "t_tidStringLength v2 = length (tid_text (le_gettid e))"
    "take (length (tid_text (le_gettid e))) (t_tidString v2) = tid_text (le_gettid e)"
    using cacheTid_returns [OF e 1(2)] by blast
  have "length (zpad (Suc 5) (le_now e mod kMicroSecondsPerSecond)) = Suc 5" by (rule zpad_length) (simp_all add: kMicroSecondsPerSecond_def)
  then have c1: "fb_cur b1 \<le> 26" using fb_text_length [OF 1(3)] 1(4) e by (auto simp: env_ok_def split: if_splits)
  have tl: "length (tid_text (le_gettid e)) \<le> 12" using tid_text_length [of "le_gettid e"] e by (simp add: env_ok_def)
  have k: "length (tid_text (le_gettid e)) \<le> length (t_tidString v2)" using 2(2) tl by (simp add: vars_ok_def)
  obtain b2 where b2: "fb_append b1 (t_tidString v2) (t_tidStringLength v2) = Some b2" "fb_ok kSmallBuffer b2"
    "fb_toString b2 = fb_toString b1 @ tid_text (le_gettid e)"
    using fb_append_fits [OF 1(3) k 2(4)] c1 tl 2(3) by (auto simp: kSmallBuffer_def)
  have c2: "fb_cur b2 \<le> 38" using fb_text_length [OF b2(2)] b2(3) fb_text_length [OF 1(3)] c1 tl by simp
  obtain b3 where b3: "fb_append b2 (LogLevelName level) 6 = Some b3" "fb_ok kSmallBuffer b3" "fb_toString b3 = fb_toString b2 @ LogLevelName level"
    using fb_append_fits [OF b2(2), of 6 "LogLevelName level" "LogLevelName level"] c2 by (auto simp: kSmallBuffer_def)
  have h: "fb_toString b3 = head_text e level" using b3(3) b2(3) 1(4) by (simp add: head_text_def)
  have "list_all item_ok (errno_items e n)" using n by (auto simp: errno_items_def item_ok_def int_limits)
  from put_items_refines [OF b3(2) this]
  obtain b4 where b4: "put_items b3 (errno_items e n) = Some b4" "fb_ok kSmallBuffer b4"
    "fb_toString b4 = foldl (spec_put kSmallBuffer) (head_text e level) (errno_items e n)" by (auto simp: h elim!: returnsE)
  have E: "(if n \<noteq> 0 then put_items b3 [ICStr (Some (le_strerror e n)), ICStr (Some '' (errno=''), IInt n, ICStr (Some '') '')] else Some b3)
      = Some b4"
    using b4(1) by (simp add: errno_items_def del: put_items.simps(2) split: if_splits)
  have "Impl e v level n = Some (v2, b4)"
    unfolding Impl_def using 1(1) 2(1) b2(1) b3(1) E by (simp del: put_items.simps)
  with 2(2) b4 show ?thesis by blast
qed

lemma log_statement_text:
  assumes e: "env_ok e" and v: "vars_ok (conv e) (le_gettid e) v" and n: "INT_MIN \<le> n" "n \<le> INT_MAX" and line: "INT_MIN \<le> line" "line \<le> INT_MAX"
  shows "\<exists>v'. log_statement e v level n func msg file line = Some (v', Out (foldl (spec_put kSmallBuffer) (head_text e level)
      (errno_items e n @ func_items func @ [ICStr (Some msg)] @ tail_items (SourceFile file) line)) #
      (if level = FATAL then [FlushOut, Aborts] else [])) \<and> vars_ok (conv e) (le_gettid e) v'"
proof -
  obtain v1 b1 where 1: "Impl e v level n = Some (v1, b1)" "vars_ok (conv e) (le_gettid e) v1" "fb_ok kSmallBuffer b1"
    "fb_toString b1 = foldl (spec_put kSmallBuffer) (head_text e level) (errno_items e n)"
    using Impl_returns [OF e v n] by blast
  let ?its = "func_items func @ [ICStr (Some msg)] @ tail_items (SourceFile file) line"
  have "list_all item_ok ?its" using line by (auto simp: func_items_def tail_items_def item_ok_def int_limits split: option.splits)
  from put_items_refines [OF 1(3) this]
  obtain b2 where b2: "put_items b1 ?its = Some b2" "fb_toString b2 = foldl (spec_put kSmallBuffer) (fb_toString b1) ?its"
    by (auto elim!: returnsE)
  have f: "(case func of Some f \<Rightarrow> put_items b1 [ICStr (Some f), IChar CHR '' ''] | None \<Rightarrow> Some b1) = put_items b1 (func_items func)"
    by (simp add: func_items_def split: option.splits)
  have "put_items b1 ?its = do { b \<leftarrow> put_items b1 (func_items func); b \<leftarrow> put_item b (ICStr (Some msg)); finish_line b (SourceFile file) line }"
    by (simp add: put_items_append finish_line_def tail_items_def)
  then have "log_statement e v level n func msg file line = Some (v1, Out (fb_toString b2) # (if level = FATAL then [FlushOut, Aborts] else []))"
    using 1(1) b2(1) unfolding log_statement_def destroy_Logger_def by (auto simp: f bind_eq_Some_conv)
  with 1(2,4) b2(2) show ?thesis by simp
qed

section \<open>Properties\<close>

text \<open>Values that all find room are appended one after the other.\<close>

fun rooms_ok :: "nat \<Rightarrow> nat \<Rightarrow> log_item list \<Rightarrow> bool" where
  "rooms_ok n k [] \<longleftrightarrow> True"
| "rooms_ok n k (it # its) \<longleftrightarrow> k + item_room it \<le> n \<and> rooms_ok n (k + length (item_text it)) its"

lemma spec_put_all: "rooms_ok n (length t) its \<Longrightarrow> foldl (spec_put n) t its = t @ concat (map item_text its)"
  by (induction its arbitrary: t) (simp_all add: spec_put_def)

lemma head_length: "env_ok e \<Longrightarrow> length (head_text e level) \<le> 44"
proof -
  assume e: "env_ok e"
  have "length (zpad (Suc 5) (le_now e mod kMicroSecondsPerSecond)) = Suc 5" by (rule zpad_length) (simp_all add: kMicroSecondsPerSecond_def)
  then show ?thesis using e tid_text_length [of "le_gettid e"] by (auto simp: head_text_def env_ok_def)
qed

lemma tail_room:
  assumes "INT_MIN \<le> line" "line \<le> INT_MAX" "k + length base + 36 \<le> kSmallBuffer"
  shows "rooms_ok kSmallBuffer k (tail_items base line)"
proof -
  have "length (show_int line) \<le> 20" using assms(1,2) by (intro length_show_int) (simp_all add: int_limits)
  then show ?thesis using assms(3) by (simp add: tail_items_def item_room_def item_text_def kMaxNumericSize_def)
qed

text \<open>
  C23: the line that the output function gets. Whatever the thread has logged before, at a time that
  prints with seventeen characters, a message that leaves 80 bytes and the file name in the stream
  gives exactly one line: the time, the microseconds, the thread number, the level, the function when
  there is one, the message, the base name of the source file, and the line number. The variables of
  the thread are again as the next call needs them.
\<close>

theorem log_line_exact:
  assumes "env_ok e" "vars_ok (conv e) (le_gettid e) v" "level \<noteq> FATAL" "INT_MIN \<le> line" "line \<le> INT_MAX"
    "fn = (case func of Some f \<Rightarrow> f @ '' '' | None \<Rightarrow> [])" "length fn + length msg + length (SourceFile file) + 80 \<le> kSmallBuffer"
  shows "\<exists>v'. log_statement e v level 0 func msg file line =
      Some (v', [Out (head_text e level @ fn @ msg @ '' - '' @ SourceFile file @ '':'' @ show_int line @ [NL])]) \<and>
    vars_ok (conv e) (le_gettid e) v'"
proof -
  have h: "length (head_text e level) \<le> 44" by (rule head_length [OF assms(1)])
  let ?its = "func_items func @ [ICStr (Some msg)] @ tail_items (SourceFile file) line"
  have "rooms_ok kSmallBuffer (length (head_text e level)) ?its"
  proof (cases func)
    case None
    then show ?thesis using h assms(6,7) tail_room [OF assms(4,5), of "length (head_text e level) + length msg" "SourceFile file"]
      by (simp add: func_items_def item_room_def item_text_def)
  next
    case (Some f)
    then show ?thesis
      using h assms(6,7) tail_room [OF assms(4,5), of "Suc (length (head_text e level) + length f) + length msg" "SourceFile file"]
      by (simp add: func_items_def item_room_def item_text_def)
  qed
  note t = spec_put_all [OF this]
  have c: "concat (map item_text ?its) = fn @ msg @ '' - '' @ SourceFile file @ '':'' @ show_int line @ [NL]"
    by (simp add: assms(6) func_items_def tail_items_def item_text_def split: option.splits)
  have z: "errno_items e 0 = []" by (simp add: errno_items_def)
  from log_statement_text [OF assms(1,2) _ _ assms(4,5), of 0 level func msg "file"]
  show ?thesis unfolding z append_Nil t c using assms(3) by (simp add: int_limits)
qed

text \<open>
  A message that does not fit into the 4000 bytes of the stream is not cut but left out: when
  the head of the line and the message reach 4000 bytes, although the interface takes messages of
  32767, the line has time, thread, level, file and line number, and no message.
\<close>

theorem log_long_message_dropped:
  assumes "env_ok e" "vars_ok (conv e) (le_gettid e) v" "level \<noteq> FATAL" "INT_MIN \<le> line" "line \<le> INT_MAX"
    "kSmallBuffer \<le> length (head_text e level) + length msg" "length (SourceFile file) \<le> 255"
  shows "\<exists>v'. log_statement e v level 0 None msg file line =
      Some (v', [Out (head_text e level @ '' - '' @ SourceFile file @ '':'' @ show_int line @ [NL])])"
proof -
  have h: "length (head_text e level) \<le> 44" by (rule head_length [OF assms(1)])
  have "rooms_ok kSmallBuffer (length (head_text e level)) (tail_items (SourceFile file) line)"
    by (rule tail_room [OF assms(4,5)]) (use h assms(7) in \<open>simp add: kSmallBuffer_def\<close>)
  note t = spec_put_all [OF this]
  have m: "spec_put kSmallBuffer (head_text e level) (ICStr (Some msg)) = head_text e level"
    using assms(6) by (simp add: spec_put_def item_room_def item_text_def)
  have c: "concat (map item_text (tail_items (SourceFile file) line)) = '' - '' @ SourceFile file @ '':'' @ show_int line @ [NL]"
    by (simp add: tail_items_def item_text_def)
  have z: "errno_items e 0 = []" "func_items None = []" by (simp_all add: errno_items_def func_items_def)
  from log_statement_text [OF assms(1,2) _ _ assms(4,5), of 0 level None msg "file"]
  show ?thesis unfolding z append_Nil using assms(3) by (auto simp: int_limits m t c)
qed

text \<open>A call at 01:00:00 on the second of January 2018 by thread 4711.\<close>

definition demo_env :: logger_env where
  "demo_env = \<lparr>le_now = 1514854800000042, le_localtime = (\<lambda>t. \<lparr>tm_sec = 0, tm_min = 0, tm_hour = 1, tm_mday = 2, tm_mon = 0, tm_year = 118\<rparr>),
     le_zone = None, le_strerror = (\<lambda>n. ''E''), le_gettid = 4711, le_errno = 0, le_stack = replicate kSmallBuffer CHR ''?''\<rparr>"

definition fresh_vars :: thread_vars where
  "fresh_vars = \<lparr>t_time = replicate 32 NUL, t_lastSecond = 0, t_cachedTid = 0, t_tidString = replicate 32 NUL, t_tidStringLength = 6\<rparr>"

lemma demo_env_ok: "env_ok demo_env" "vars_ok (conv demo_env) (le_gettid demo_env) fresh_vars"
proof -
  have "length (zpad 2 i) = 2" if "0 \<le> i" "i < 100" for i using zpad_length [of i 1] that by (simp add: numeral_2_eq_2)
  then show "env_ok demo_env"
    by (simp add: env_ok_def demo_env_def conv_def datetime_text_def bpad_def show_int_def show_nat.simps kMicroSecondsPerSecond_def int_limits)
  show "vars_ok (conv demo_env) (le_gettid demo_env) fresh_vars" by (simp add: vars_ok_def fresh_vars_def)
qed

theorem log_line_exact_witness:
  "\<exists>v'. log_statement demo_env fresh_vars INFO 0 None ''hello'' ''src/main.c'' 12 =
      Some (v', [Out (head_text demo_env INFO @ ''hello - main.c:12'' @ [NL])]) \<and>
    vars_ok (conv demo_env) (le_gettid demo_env) v'"
proof -
  have f: "SourceFile ''src/main.c'' = ''main.c''" by (simp add: SourceFile_def)
  have l: "show_int 12 = ''12''" by (simp add: show_int_def show_nat.simps char_of_def bit_0)
  show ?thesis
    using log_line_exact [OF demo_env_ok, of INFO 12 "[]" None "''hello''" "''src/main.c''"]
    by (simp add: f l int_limits kSmallBuffer_def)
qed

theorem log_long_message_dropped_witness:
  "\<exists>v'. log_statement demo_env fresh_vars INFO 0 None (replicate 4000 CHR ''m'') ''main.c'' 12 =
      Some (v', [Out (head_text demo_env INFO @ '' - '' @ ''main.c'' @ '':'' @ show_int 12 @ [NL])])"
proof -
  have f: "SourceFile ''main.c'' = ''main.c''" by (simp add: SourceFile_def)
  have "\<exists>v'. log_statement demo_env fresh_vars INFO 0 None (replicate 4000 CHR ''m'') ''main.c'' 12 =
      Some (v', [Out (head_text demo_env INFO @ '' - '' @ SourceFile ''main.c'' @ '':'' @ show_int 12 @ [NL])])"
    by (rule log_long_message_dropped [OF demo_env_ok]) (simp_all add: f int_limits kSmallBuffer_def)
  then show ?thesis unfolding f .
qed

end
