(* ===== verification/Muduo_File.thy ===== *)
theory Muduo_File
  imports Calendar
begin

text \<open>
  \<open>src/src/log/muduo-clog/muduo/base/FileUtil.h\<close>, \<open>FileUtil.cc\<close> and \<open>LogFile.h\<close>, \<open>LogFile.cc\<close>: the file
  that log text is appended to, and when a new one is started.

  The disk maps file names to what was handed to their streams. \<open>af_unflushed\<close> is the number of bytes at
  the end of the open file that may still be in the buffer of \<open>stdio\<close>; \<open>fflush\<close> and \<open>fclose\<close> make it
  zero. What \<open>fwrite_unlocked\<close> returns is an argument: the list \<open>ws\<close> of the counts of the next calls,
  after which everything is accepted. The clock is an argument of every operation that reads it; a call
  that reads it twice has two.
\<close>

section \<open>AppendFile\<close>

type_synonym disk = "string \<rightharpoonup> string"

record AppendFile =
  af_name :: string
  af_unflushed :: nat
  writtenBytes :: int

definition disk_text :: "disk \<Rightarrow> string \<Rightarrow> string" where
  "disk_text dk name = (case dk name of Some t \<Rightarrow> t | None \<Rightarrow> [])"

text \<open>\<open>fopen(name, "ae")\<close> creates the file or goes on at its end. When it fails the constructor works on a NULL stream.\<close>

definition new_AppendFile :: "bool \<Rightarrow> disk \<Rightarrow> string \<Rightarrow> (disk \<times> AppendFile) option" where
  "new_AppendFile can_open dk name =
     (if can_open then Some (dk(name \<mapsto> disk_text dk name), \<lparr>af_name = name, af_unflushed = 0, writtenBytes = 0\<rparr>) else None)"

text \<open>\<open>write\<close>: the bytes accepted by one call, and the results of the later ones.\<close>

definition af_write :: "nat list \<Rightarrow> string \<Rightarrow> string \<times> nat list" where
  "af_write ws t = (case ws of [] \<Rightarrow> (t, []) | w # ws' \<Rightarrow> (take w t, ws'))"

text \<open>The loop of \<open>append\<close> on the bytes that remain: it goes on until nothing is left or a call accepts nothing.\<close>

function af_loop :: "nat list \<Rightarrow> string \<Rightarrow> string" where
  "af_loop ws remain =
     (if remain = [] then []
      else let (x, ws') = af_write ws remain
           in if x = [] then [] else x @ af_loop ws' (drop (length x) remain))"
  by pat_completeness auto
termination by (relation "measure (\<lambda>(ws, remain). length remain)") auto

declare af_loop.simps [simp del]

definition af_append :: "nat list \<Rightarrow> disk \<Rightarrow> AppendFile \<Rightarrow> string \<Rightarrow> disk \<times> AppendFile" where
  "af_append ws dk f logline =
     (let (n, ws') = af_write ws logline;
          w = n @ af_loop ws' (drop (length n) logline)
      in (dk(af_name f \<mapsto> disk_text dk (af_name f) @ w),
          f\<lparr>af_unflushed := af_unflushed f + length w, writtenBytes := writtenBytes f + int (length logline)\<rparr>))"

definition af_flush :: "AppendFile \<Rightarrow> AppendFile" where
  "af_flush f = f\<lparr>af_unflushed := 0\<rparr>"

section \<open>LogFile\<close>

definition kRollPerSeconds :: int where "kRollPerSeconds = 60 * 60 * 24"

record LogFile =
  lf_basename :: string
  rollSize :: int
  flushInterval :: int
  checkEveryN :: int
  lf_count :: int
  startOfPeriod :: int
  lastRoll :: int
  lastFlush :: int
  lf_file :: "AppendFile option"

text \<open>What the file names depend on: \<open>localtime_r\<close>, the host name and the process number.\<close>

record proc_info =
  pi_localtime :: "int \<Rightarrow> tm"
  pi_hostname :: string
  pi_pid :: int

definition getLogFileName :: "proc_info \<Rightarrow> string \<Rightarrow> int \<Rightarrow> string" where
  "getLogFileName pi base now =
     (let t = pi_localtime pi now;
          timebuf = ''.'' @ zpad 4 (tm_year t + 1900) @ zpad 2 (tm_mon t + 1) @ zpad 2 (tm_mday t) @ ''-'' @
            zpad 2 (tm_hour t) @ zpad 2 (tm_min t) @ zpad 2 (tm_sec t) @ ''.'';
          pidbuf = snprintf_text 32 (''.'' @ show_int (pi_pid pi))
      in base @ timebuf @ pi_hostname pi @ pidbuf @ ''.log'')"

definition period_start :: "int \<Rightarrow> int" where
  "period_start now = now sdiv kRollPerSeconds * kRollPerSeconds"

text \<open>The new \<open>AppendFile\<close> is opened before the old one is closed, which flushes it.\<close>

definition rollFile :: "proc_info \<Rightarrow> bool \<Rightarrow> int \<Rightarrow> disk \<Rightarrow> LogFile \<Rightarrow> (bool \<times> disk \<times> LogFile) option" where
  "rollFile pi can_open now dk f =
     (let filename = getLogFileName pi (lf_basename f) now
      in if now > lastRoll f then do {
           (dk, file) \<leftarrow> new_AppendFile can_open dk filename;
           Some (True, dk, f\<lparr>lastRoll := now, lastFlush := now, startOfPeriod := period_start now, lf_file := Some file\<rparr>)
         } else Some (False, dk, f))"

text \<open>The constructor. \<open>assert\<close> is active unless the build defines \<open>NDEBUG\<close>.\<close>

definition new_LogFile ::
  "bool \<Rightarrow> proc_info \<Rightarrow> bool \<Rightarrow> int \<Rightarrow> disk \<Rightarrow> string \<Rightarrow> int \<Rightarrow> int \<Rightarrow> int \<Rightarrow> (disk \<times> LogFile) option" where
  "new_LogFile ndebug pi can_open now dk base roll flush_ivl check_n =
     (if \<not> ndebug \<and> CHR ''/'' \<in> set base then None
      else do {
        (rolled, dk, f) \<leftarrow> rollFile pi can_open now dk
          \<lparr>lf_basename = base, rollSize = roll, flushInterval = flush_ivl, checkEveryN = check_n, lf_count = 0,
           startOfPeriod = 0, lastRoll = 0, lastFlush = 0, lf_file = None\<rparr>;
        Some (dk, f)
      })"

definition lf_flush :: "LogFile \<Rightarrow> LogFile option" where
  "lf_flush f = map_option (\<lambda>file. f\<lparr>lf_file := Some (af_flush file)\<rparr>) (lf_file f)"

definition append_unlocked ::
  "proc_info \<Rightarrow> bool \<Rightarrow> nat list \<Rightarrow> int \<Rightarrow> int \<Rightarrow> disk \<Rightarrow> LogFile \<Rightarrow> string \<Rightarrow> (disk \<times> LogFile) option" where
  "append_unlocked pi can_open ws now now2 dk f logline = do {
     file \<leftarrow> lf_file f;
     let (dk, file) = af_append ws dk file logline;
     let f = f\<lparr>lf_file := Some file\<rparr>;
     (if writtenBytes file > rollSize f then map_option snd (rollFile pi can_open now2 dk f)
      else let f = f\<lparr>lf_count := lf_count f + 1\<rparr>
        in if lf_count f \<ge> checkEveryN f then
             (let f = f\<lparr>lf_count := 0\<rparr>
              in if period_start now \<noteq> startOfPeriod f then map_option snd (rollFile pi can_open now2 dk f)
                 else if now - lastFlush f > flushInterval f then map_option (Pair dk) (lf_flush (f\<lparr>lastFlush := now\<rparr>))
                 else Some (dk, f))
           else Some (dk, f)) }"

text \<open>A sequence of appends, each with its clock values; the result also lists the file that each text went to.\<close>

fun lf_appends ::
  "proc_info \<Rightarrow> (int \<times> int \<times> string) list \<Rightarrow> disk \<Rightarrow> LogFile \<Rightarrow> (disk \<times> LogFile \<times> (string \<times> string) list) option" where
  "lf_appends pi [] dk f = Some (dk, f, [])"
| "lf_appends pi ((now, now2, t) # cs) dk f = do {
     file \<leftarrow> lf_file f;
     (dk, f) \<leftarrow> append_unlocked pi True [] now now2 dk f t;
     (dk, f, tr) \<leftarrow> lf_appends pi cs dk f;
     Some (dk, f, (af_name file, t) # tr) }"

section \<open>Appending\<close>

lemma af_loop_all [simp]: "af_loop [] t = t"
  by (subst af_loop.simps) (simp add: af_write_def af_loop.simps)

lemma af_append_all:
  "af_append [] dk f t = (dk(af_name f \<mapsto> disk_text dk (af_name f) @ t),
     f\<lparr>af_unflushed := af_unflushed f + length t, writtenBytes := writtenBytes f + int (length t)\<rparr>)"
  by (simp add: af_append_def af_write_def af_loop.simps)

lemma disk_text_upd [simp]: "disk_text (dk(n \<mapsto> t)) m = (if m = n then t else disk_text dk m)"
  by (simp add: disk_text_def)

lemma af_write_split: "af_write ws t = (x, ws') \<Longrightarrow> t = x @ drop (length x) t"
  by (auto simp: af_write_def min_def split: list.splits)

text \<open>The loop accepts a prefix, all of it when no call returns zero.\<close>

lemma af_loop_prefix: "\<exists>r. t = af_loop ws t @ r"
proof (induction ws t rule: af_loop.induct)
  case (1 ws t)
  obtain x ws' where w: "af_write ws t = (x, ws')" by (cases "af_write ws t")
  have x: "t = x @ drop (length x) t" using w by (rule af_write_split)
  show ?case
  proof (cases "t = [] \<or> x = []")
    case False
    then obtain r where "drop (length x) t = af_loop ws' (drop (length x) t) @ r" using 1 [OF _ w [symmetric] refl] by auto
    then have "t = (x @ af_loop ws' (drop (length x) t)) @ r" using x by simp
    then show ?thesis using False w by (subst af_loop.simps) auto
  qed (use w in \<open>auto simp: af_loop.simps [of ws t]\<close>)
qed

lemma af_loop_complete: "0 \<notin> set ws \<Longrightarrow> af_loop ws t = t"
proof (induction ws t rule: af_loop.induct)
  case (1 ws t)
  obtain x ws' where w: "af_write ws t = (x, ws')" by (cases "af_write ws t")
  have x: "t = x @ drop (length x) t" "0 \<notin> set ws'" "t \<noteq> [] \<Longrightarrow> x \<noteq> []"
    using af_write_split [OF w] w 1(2) by (auto simp: af_write_def split: list.splits)
  show ?case
  proof (cases "t = []")
    case False
    then have "af_loop ws' (drop (length x) t) = drop (length x) t" using 1(1) [OF _ w [symmetric] refl] x by simp
    then show ?thesis using False w x by (subst af_loop.simps) auto
  qed (simp add: af_loop.simps)
qed

text \<open>Rolling never changes a text; it leaves a new file, or the old one when the clock has not moved on.\<close>

lemma rollFile_returns:
  assumes "lf_file f \<noteq> None"
  shows "returns (rollFile pi True now dk f) (\<lambda>(b, dk', f'). disk_text dk' = disk_text dk \<and> lf_file f' \<noteq> None \<and>
    rollSize f' = rollSize f \<and> (now \<le> lastRoll f' \<or> f' = f) \<and> lastRoll f \<le> lastRoll f' \<and>
    (now > lastRoll f \<longrightarrow> map_option writtenBytes (lf_file f') = Some 0) \<and> (now \<le> lastRoll f \<longrightarrow> f' = f))"
  using assms by (auto simp: rollFile_def new_AppendFile_def disk_text_def fun_eq_iff)

definition size_ok :: "int \<Rightarrow> LogFile \<Rightarrow> bool" where
  "size_ok now f \<longleftrightarrow> (case lf_file f of Some file \<Rightarrow> writtenBytes file \<le> rollSize f \<or> now \<le> lastRoll f | None \<Rightarrow> False)"

lemma append_unlocked_returns:
  assumes "lf_file f = Some file" "0 \<le> rollSize f"
  shows "returns (append_unlocked pi True [] now now2 dk f t) (\<lambda>(dk', f').
    (\<forall>n. disk_text dk' n = disk_text dk n @ (if n = af_name file then t else [])) \<and> rollSize f' = rollSize f \<and> size_ok now2 f')"
proof -
  define dk1 where "dk1 = dk(af_name file \<mapsto> disk_text dk (af_name file) @ t)"
  define file1 where "file1 = file\<lparr>af_unflushed := af_unflushed file + length t, writtenBytes := writtenBytes file + int (length t)\<rparr>"
  have dsk: "\<forall>n. disk_text dk1 n = disk_text dk n @ (if n = af_name file then t else [])" by (simp add: dk1_def)
  define Q where "Q = (\<lambda>(dk', f'). (\<forall>n. disk_text dk' n = disk_text dk n @ (if n = af_name file then t else [])) \<and>
    rollSize f' = rollSize f \<and> size_ok now2 f')"
  have af: "af_append [] dk file t = (dk1, file1)" by (simp add: af_append_all dk1_def file1_def)
  have roll: "returns (map_option snd (rollFile pi True now2 dk1 g)) Q"
    if g: "lf_file g = Some file1" "rollSize g = rollSize f" for g
    unfolding returns_map_option Q_def
    by (rule returns_mono [OF rollFile_returns]) (use g dsk assms(2) in \<open>auto simp: size_ok_def\<close>)
  have small: "Q (dk1, g)" if "rollSize g = rollSize f" "lf_file g = Some x" "writtenBytes x \<le> rollSize f" for g x
    using that dsk by (simp add: Q_def size_ok_def)
  have "returns (append_unlocked pi True [] now now2 dk f t) Q"
    using assms(1) by (auto simp: append_unlocked_def af Let_def lf_flush_def af_flush_def intro: roll small)
  then show ?thesis unfolding Q_def .
qed

section \<open>Nothing is lost when files are rolled\<close>

definition went_to :: "string \<Rightarrow> (string \<times> string) list \<Rightarrow> string" where
  "went_to n tr = concat (map snd (filter (\<lambda>(m, t). m = n) tr))"

lemma lf_appends_returns:
  assumes "lf_file f \<noteq> None" "0 \<le> rollSize f"
  shows "returns (lf_appends pi cs dk f) (\<lambda>(dk', f', tr). map snd tr = map (snd \<circ> snd) cs \<and>
    (\<forall>n. disk_text dk' n = disk_text dk n @ went_to n tr) \<and>
    (cs \<noteq> [] \<longrightarrow> size_ok (fst (snd (last cs))) f'))"
  using assms
proof (induction cs arbitrary: dk f)
  case (Cons c cs)
  obtain now now2 t where c: "c = (now, now2, t)" by (cases c)
  obtain af where af: "lf_file f = Some af" using Cons(2) by blast
  obtain dk1 f1 where 1: "append_unlocked pi True [] now now2 dk f t = Some (dk1, f1)"
    "\<forall>n. disk_text dk1 n = disk_text dk n @ (if n = af_name af then t else [])" "rollSize f1 = rollSize f" "size_ok now2 f1"
    using append_unlocked_returns [OF af Cons(3), of pi now now2 dk t] by (auto elim!: returnsE)
  have "lf_file f1 \<noteq> None" using 1(4) by (auto simp: size_ok_def split: option.splits)
  then obtain dk2 f2 tr where 2: "lf_appends pi cs dk1 f1 = Some (dk2, f2, tr)" "map snd tr = map (snd \<circ> snd) cs"
    "\<forall>n. disk_text dk2 n = disk_text dk1 n @ went_to n tr" "cs \<noteq> [] \<longrightarrow> size_ok (fst (snd (last cs))) f2"
    using Cons(1) [of f1 dk1] Cons(3) 1(3) by (auto elim!: returnsE)
  have "f2 = f1" if "cs = []" using 2(1) that by simp
  then show ?case using 1 2 af by (auto simp: c went_to_def)
qed (simp add: went_to_def)


definition demo_proc :: proc_info where
  "demo_proc = \<lparr>pi_localtime = (\<lambda>t. \<lparr>tm_sec = t mod 60, tm_min = t div 60 mod 60, tm_hour = t div 3600 mod 24,
     tm_mday = 1, tm_mon = 0, tm_year = 70\<rparr>), pi_hostname = ''h'', pi_pid = 7\<rparr>"

definition demo_file :: LogFile where
  "demo_file = \<lparr>lf_basename = ''x'', rollSize = 3, flushInterval = 3, checkEveryN = 1024, lf_count = 0, startOfPeriod = 0,
     lastRoll = 9, lastFlush = 9, lf_file = Some \<lparr>af_name = ''a'', af_unflushed = 0, writtenBytes = 0\<rparr>\<rparr>"


end
