(* ===== verification/Muduo_Async.thy ===== *)
theory Muduo_Async
  imports Muduo_Stream Muduo_File
begin

text \<open>
  \<open>src/src/log/muduo-clog/muduo/base/AsyncLogging.h\<close> and \<open>AsyncLogging.cc\<close>: threads append log lines to
  buffers in memory, one background thread writes the buffers to the log file.

  The regions under the mutex are atomic steps. The background thread is at one of the locations of
  \<open>bpc\<close>; between its steps any number of calls of \<open>append\<close> and a call of \<open>stop\<close> may come. The timed wait
  returns at any moment (timeout, notification or spuriously): the code goes on in each case. Memory is
  sequentially consistent, also for the flag \<open>running_\<close>, which is read outside the mutex. The size of
  the buffers is the parameter \<open>n\<close> of the template.

  The file is used through the interface \<open>log_sink\<close>, which the theory interprets on \<open>LogFile\<close>. Two
  fields record history and have no counterpart in the code: the accepted lines, and what became of
  the text, in order. The lemmas show that nothing is lost, reordered or duplicated short of an overrun
  of more than 25 buffers, that every assertion of the background thread holds, and that a bounded
  number of its steps brings every accepted line into the file while it runs.
\<close>

section \<open>The object\<close>

datatype seg = Written string | Dropped string | Notice string

text \<open>\<open>BWriting i t\<close>: the loop has written the first \<open>i\<close> buffers; \<open>t\<close> is the text of the buffers that were erased.\<close>

datatype bpc = BTop | BWaiting | BCollected | BWriting nat string | BFinished

record 'f AsyncLogging =
  running :: bool
  currentBuffer :: FixedBuffer
  nextBuffer :: "FixedBuffer option"
  buffers :: "FixedBuffer list"
  newBuffer1 :: "FixedBuffer option"
  newBuffer2 :: "FixedBuffer option"
  buffersToWrite :: "FixedBuffer list"
  out :: 'f
  bpc :: bpc
  accepted :: "string list"
  segs :: "seg list"

text \<open>\<open>append\<close>. A buffer that has to be allocated has unknown contents.\<close>

definition async_append :: "char list \<Rightarrow> string \<Rightarrow> 'f AsyncLogging \<Rightarrow> 'f AsyncLogging option" where
  "async_append garbage logline a =
     (if fb_avail (currentBuffer a) > int (length logline) then
        map_option (\<lambda>b. a\<lparr>currentBuffer := b\<rparr>) (fb_append (currentBuffer a) logline (length logline))
      else
        (let a = a\<lparr>buffers := buffers a @ [currentBuffer a]\<rparr>;
             a = (case nextBuffer a of
                    Some b \<Rightarrow> a\<lparr>currentBuffer := b, nextBuffer := None\<rparr>
                  | None \<Rightarrow> a\<lparr>currentBuffer := new_FixedBuffer garbage\<rparr>)
         in map_option (\<lambda>b. a\<lparr>currentBuffer := b\<rparr>) (fb_append (currentBuffer a) logline (length logline))))"

text \<open>The second half of the region under the mutex in \<open>threadFunc\<close>: the buffers change hands.\<close>

definition collect :: "'f AsyncLogging \<Rightarrow> 'f AsyncLogging option" where
  "collect a = do {
     b1 \<leftarrow> newBuffer1 a;
     let a = a\<lparr>buffersToWrite := buffers a @ [currentBuffer a], buffers := buffersToWrite a,
               currentBuffer := b1, newBuffer1 := None\<rparr>;
     Some (if nextBuffer a = None then a\<lparr>nextBuffer := newBuffer2 a, newBuffer2 := None\<rparr> else a) }"

text \<open>After the loop: two buffers are kept for reuse.\<close>

definition refill1 :: "'f AsyncLogging \<Rightarrow> 'f AsyncLogging option" where
  "refill1 a = (if newBuffer1 a = None then
     (if buffersToWrite a = [] then None
      else Some (a\<lparr>newBuffer1 := Some (fb_reset (last (buffersToWrite a))), buffersToWrite := butlast (buffersToWrite a)\<rparr>))
     else Some a)"

definition refill2 :: "'f AsyncLogging \<Rightarrow> 'f AsyncLogging option" where
  "refill2 a = (if newBuffer2 a = None then
     (if buffersToWrite a = [] then None
      else Some (a\<lparr>newBuffer2 := Some (fb_reset (last (buffersToWrite a))), buffersToWrite := butlast (buffersToWrite a)\<rparr>))
     else Some a)"

definition recycle :: "'f AsyncLogging \<Rightarrow> 'f AsyncLogging option" where
  "recycle a = do {
     let a = (if length (buffersToWrite a) > 2 then a\<lparr>buffersToWrite := take 2 (buffersToWrite a)\<rparr> else a);
     a \<leftarrow> refill1 a;
     a \<leftarrow> refill2 a;
     Some (a\<lparr>buffersToWrite := []\<rparr>) }"

text \<open>The assertions at the head of the loop.\<close>

definition loop_asserts :: "'f AsyncLogging \<Rightarrow> bool" where
  "loop_asserts a \<longleftrightarrow> (case newBuffer1 a of Some b \<Rightarrow> fb_length b = 0 | None \<Rightarrow> False) \<and>
     (case newBuffer2 a of Some b \<Rightarrow> fb_length b = 0 | None \<Rightarrow> False) \<and> buffersToWrite a = []"

text \<open>The line that reports dropped buffers; \<open>now\<close> is the text of the time.\<close>

definition drop_notice :: "string \<Rightarrow> nat \<Rightarrow> string" where
  "drop_notice now k = snprintf_text 256 (''Dropped log messages at '' @ now @ '', '' @ show_nat (k - 2) @ '' larger buffers'' @ [NL])"

definition texts :: "FixedBuffer list \<Rightarrow> string" where
  "texts bs = concat (map fb_toString bs)"

text \<open>The steps of the background thread; \<open>app\<close> and \<open>fl\<close> are \<open>append\<close> and \<open>flush\<close> of the output.\<close>

inductive back_step :: "('f \<Rightarrow> string \<Rightarrow> 'f \<Rightarrow> bool) \<Rightarrow> ('f \<Rightarrow> 'f \<Rightarrow> bool) \<Rightarrow> 'f AsyncLogging \<Rightarrow> 'f AsyncLogging \<Rightarrow> bool"
  for app fl where
  top_wait: "bpc a = BTop \<Longrightarrow> running a \<Longrightarrow> buffers a = [] \<Longrightarrow> back_step app fl a (a\<lparr>bpc := BWaiting\<rparr>)"
| top_collect: "bpc a = BTop \<Longrightarrow> running a \<Longrightarrow> buffers a \<noteq> [] \<Longrightarrow> collect a = Some a' \<Longrightarrow>
    back_step app fl a (a'\<lparr>bpc := BCollected\<rparr>)"
| wake: "bpc a = BWaiting \<Longrightarrow> collect a = Some a' \<Longrightarrow> back_step app fl a (a'\<lparr>bpc := BCollected\<rparr>)"
| keep: "bpc a = BCollected \<Longrightarrow> length (buffersToWrite a) \<le> 25 \<Longrightarrow> back_step app fl a (a\<lparr>bpc := BWriting 0 []\<rparr>)"
| overrun: "bpc a = BCollected \<Longrightarrow> length (buffersToWrite a) > 25 \<Longrightarrow>
    t = drop_notice now (length (buffersToWrite a)) \<Longrightarrow> app (out a) t f \<Longrightarrow>
    back_step app fl a (a\<lparr>out := f, buffersToWrite := take 2 (buffersToWrite a),
      bpc := BWriting 0 (texts (drop 2 (buffersToWrite a))), segs := segs a @ [Notice t]\<rparr>)"
| put: "bpc a = BWriting i t \<Longrightarrow> i < length (buffersToWrite a) \<Longrightarrow> app (out a) (fb_toString (buffersToWrite a ! i)) f \<Longrightarrow>
    back_step app fl a (a\<lparr>out := f, bpc := BWriting (Suc i) t, segs := segs a @ [Written (fb_toString (buffersToWrite a ! i))]\<rparr>)"
| round_end: "bpc a = BWriting i t \<Longrightarrow> i = length (buffersToWrite a) \<Longrightarrow> recycle a = Some a' \<Longrightarrow> fl (out a) f \<Longrightarrow>
    back_step app fl a (a'\<lparr>out := f, bpc := BTop, segs := segs a @ [Dropped t]\<rparr>)"
| finish: "bpc a = BTop \<Longrightarrow> \<not> running a \<Longrightarrow> fl (out a) f \<Longrightarrow> back_step app fl a (a\<lparr>out := f, bpc := BFinished\<rparr>)"

inductive front_step :: "nat \<Rightarrow> 'f AsyncLogging \<Rightarrow> 'f AsyncLogging \<Rightarrow> bool" for n where
  append: "length garbage = n \<Longrightarrow> async_append garbage logline a = Some a' \<Longrightarrow>
    front_step n a (a'\<lparr>accepted := accepted a @ [logline]\<rparr>)"
| stop: "front_step n a (a\<lparr>running := False\<rparr>)"

definition async_step :: "('f \<Rightarrow> string \<Rightarrow> 'f \<Rightarrow> bool) \<Rightarrow> ('f \<Rightarrow> 'f \<Rightarrow> bool) \<Rightarrow> nat \<Rightarrow> 'f AsyncLogging \<Rightarrow> 'f AsyncLogging \<Rightarrow> bool" where
  "async_step app fl n a a' \<longleftrightarrow> front_step n a a' \<or> back_step app fl a a'"

text \<open>The constructor, \<open>start\<close> and the first statements of \<open>threadFunc\<close>.\<close>

definition zero_buffer :: "nat \<Rightarrow> FixedBuffer" where
  "zero_buffer n = fb_bzero (new_FixedBuffer (replicate n NUL))"

definition async_init :: "nat \<Rightarrow> 'f \<Rightarrow> 'f AsyncLogging" where
  "async_init n f = \<lparr>running = True, currentBuffer = zero_buffer n, nextBuffer = Some (zero_buffer n), buffers = [],
     newBuffer1 = Some (zero_buffer n), newBuffer2 = Some (zero_buffer n), buffersToWrite = [], out = f,
     bpc = BTop, accepted = [], segs = []\<rparr>"

inductive_cases back_stepE: "back_step app fl a a'"
inductive_cases front_stepE: "front_step n a a'"

section \<open>Invariants\<close>

definition empty_ok :: "nat \<Rightarrow> FixedBuffer option \<Rightarrow> bool" where
  "empty_ok n x \<longleftrightarrow> (\<forall>b. x = Some b \<longrightarrow> fb_ok n b \<and> fb_cur b = 0)"

text \<open>The buffers: sizes, the spare ones are empty, and there are always enough to refill both spares.\<close>

definition shared_ok :: "nat \<Rightarrow> 'f AsyncLogging \<Rightarrow> bool" where
  "shared_ok n a \<longleftrightarrow> fb_ok n (currentBuffer a) \<and> list_all (fb_ok n) (buffers a) \<and> empty_ok n (nextBuffer a) \<and>
     (nextBuffer a = None \<longrightarrow> buffers a \<noteq> [])"

definition spare_ok :: "nat \<Rightarrow> 'f AsyncLogging \<Rightarrow> bool" where
  "spare_ok n a \<longleftrightarrow> list_all (fb_ok n) (buffersToWrite a) \<and> empty_ok n (newBuffer1 a) \<and> empty_ok n (newBuffer2 a) \<and>
     (case bpc a of
        BCollected \<Rightarrow> newBuffer1 a = None \<and> length (buffersToWrite a) \<ge> (if newBuffer2 a = None then 2 else 1)
      | BWriting i t \<Rightarrow> i \<le> length (buffersToWrite a) \<and> length (buffersToWrite a) \<le> 25 \<and> newBuffer1 a = None \<and>
          length (buffersToWrite a) \<ge> (if newBuffer2 a = None then 2 else 1)
      | _ \<Rightarrow> newBuffer1 a \<noteq> None \<and> newBuffer2 a \<noteq> None \<and> buffersToWrite a = [])"

text \<open>The text: what was accepted is what has left, what is being written, and what waits in the shared buffers.\<close>

definition in_text :: "seg \<Rightarrow> string" where
  "in_text x = (case x of Written t \<Rightarrow> t | Dropped t \<Rightarrow> t | Notice t \<Rightarrow> [])"

definition out_text :: "seg \<Rightarrow> string" where
  "out_text x = (case x of Written t \<Rightarrow> t | Dropped t \<Rightarrow> [] | Notice t \<Rightarrow> t)"

definition consumed :: "'f AsyncLogging \<Rightarrow> string" where
  "consumed a = concat (map in_text (segs a))"

definition inflight :: "'f AsyncLogging \<Rightarrow> string" where
  "inflight a = (case bpc a of BCollected \<Rightarrow> texts (buffersToWrite a)
     | BWriting i t \<Rightarrow> texts (drop i (buffersToWrite a)) @ t | _ \<Rightarrow> [])"

definition waiting :: "'f AsyncLogging \<Rightarrow> string" where
  "waiting a = texts (buffers a) @ fb_toString (currentBuffer a)"

definition accepted_text :: "nat \<Rightarrow> string list \<Rightarrow> string" where
  "accepted_text n ls = concat (filter (\<lambda>l. length l < n) ls)"

definition overran :: "'f AsyncLogging \<Rightarrow> bool" where
  "overran a \<longleftrightarrow> (\<exists>t. Notice t \<in> set (segs a))"

definition text_ok :: "nat \<Rightarrow> 'f AsyncLogging \<Rightarrow> bool" where
  "text_ok n a \<longleftrightarrow> consumed a @ inflight a @ waiting a = accepted_text n (accepted a) \<and>
     (\<not> overran a \<longrightarrow> (\<forall>t. Dropped t \<in> set (segs a) \<longrightarrow> t = []) \<and> (\<forall>i t. bpc a = BWriting i t \<longrightarrow> t = []))"

lemma empty_ok_None [simp]: "empty_ok n None"
  by (simp add: empty_ok_def)

lemma texts_simps [simp]: "texts [] = []" "texts (b # bs) = fb_toString b @ texts bs" "texts (xs @ ys) = texts xs @ texts ys"
  by (simp_all add: texts_def)

lemma fb_toString_empty [simp]: "fb_cur b = 0 \<Longrightarrow> fb_toString b = []"
  by (simp add: fb_toString_def)

text \<open>What a call of \<open>append\<close> does to the shared part; nothing else changes.\<close>

definition same_back :: "'f AsyncLogging \<Rightarrow> 'f AsyncLogging \<Rightarrow> bool" where
  "same_back a a' \<longleftrightarrow> running a' = running a \<and> newBuffer1 a' = newBuffer1 a \<and> newBuffer2 a' = newBuffer2 a \<and>
     buffersToWrite a' = buffersToWrite a \<and> out a' = out a \<and> bpc a' = bpc a \<and> segs a' = segs a"

lemma async_append_returns:
  assumes "shared_ok n a" "length garbage = n"
  shows "returns (async_append garbage l a) (\<lambda>a'. shared_ok n a' \<and> same_back a a' \<and> accepted a' = accepted a \<and>
    waiting a' = waiting a @ (if length l < n then l else []))"
proof -
  have ok: "fb_ok n (currentBuffer a)" using assms(1) by (simp add: shared_ok_def)
  show ?thesis
  proof (cases "fb_avail (currentBuffer a) > int (length l)")
    case True
    then have fit: "fb_cur (currentBuffer a) + length l < n" using ok by (simp add: fb_avail_def fb_ok_def)
    then have "length l < n" by simp
    with fit True show ?thesis
      using fb_append_returns [OF ok, of l] assms(1)
      by (auto simp: async_append_def returns_map_option shared_ok_def same_back_def waiting_def elim!: returns_mono)
  next
    case False
    define b where "b = (case nextBuffer a of Some b \<Rightarrow> b | None \<Rightarrow> new_FixedBuffer garbage)"
    have b: "fb_ok n b" "fb_cur b = 0"
      using assms by (auto simp: b_def shared_ok_def empty_ok_def new_FixedBuffer_def fb_ok_def split: option.splits)
    have "async_append garbage l a = map_option (\<lambda>c. a\<lparr>buffers := buffers a @ [currentBuffer a], nextBuffer := None, currentBuffer := c\<rparr>)
        (fb_append b l (length l))"
      using False by (cases a; cases "nextBuffer a") (simp_all add: async_append_def b_def Let_def)
    then show ?thesis
      using fb_append_returns [OF b(1), of l] b assms(1)
      by (auto simp: returns_map_option shared_ok_def same_back_def waiting_def empty_ok_def elim!: returns_mono split: if_splits)
  qed
qed

lemma collect_returns:
  assumes "shared_ok n a" "spare_ok n a" "bpc a = BTop \<or> bpc a = BWaiting"
  shows "returns (collect a) (\<lambda>a'. shared_ok n (a'\<lparr>bpc := BCollected\<rparr>) \<and> spare_ok n (a'\<lparr>bpc := BCollected\<rparr>) \<and>
    texts (buffersToWrite a') = waiting a \<and> waiting a' = [] \<and>
    segs a' = segs a \<and> accepted a' = accepted a \<and> out a' = out a \<and> running a' = running a)"
  using assms
  by (auto simp: collect_def shared_ok_def spare_ok_def empty_ok_def waiting_def Let_def Suc_le_eq)

lemma fb_reset_ok [simp]: "fb_ok n b \<Longrightarrow> fb_ok n (fb_reset b)" "fb_cur (fb_reset b) = 0"
  by (simp_all add: fb_reset_def fb_ok_def)

lemma recycle_returns:
  assumes "spare_ok n a" "bpc a = BWriting i t"
  shows "returns (recycle a) (\<lambda>a'. spare_ok n (a'\<lparr>bpc := BTop\<rparr>) \<and> currentBuffer a' = currentBuffer a \<and> nextBuffer a' = nextBuffer a \<and>
    buffers a' = buffers a \<and> segs a' = segs a \<and> accepted a' = accepted a \<and> out a' = out a \<and> running a' = running a)"
proof -
  have ok: "list_all (fb_ok n) (buffersToWrite a)" "newBuffer1 a = None" "empty_ok n (newBuffer2 a)"
    "length (buffersToWrite a) \<ge> (if newBuffer2 a = None then 2 else 1)"
    using assms by (simp_all add: spare_ok_def)
  obtain bs where bs: "bs = (if length (buffersToWrite a) > 2 then take 2 (buffersToWrite a) else buffersToWrite a)" by blast
  have l: "list_all (fb_ok n) bs" "length bs \<ge> (if newBuffer2 a = None then 2 else 1)" "length bs \<le> 2"
    using ok(1,4) by (auto simp: bs list_all_iff dest: in_set_takeD)
  from l(2,3) consider x where "bs = [x]" "newBuffer2 a \<noteq> None" | x y where "bs = [x, y]"
    by (cases bs; cases "tl bs"; auto split: if_splits)
  moreover have "(if length (buffersToWrite a) > 2 then a\<lparr>buffersToWrite := take 2 (buffersToWrite a)\<rparr> else a) = a\<lparr>buffersToWrite := bs\<rparr>"
    by (cases a) (simp add: bs)
  then have r: "recycle a = do { a \<leftarrow> refill1 (a\<lparr>buffersToWrite := bs\<rparr>); a \<leftarrow> refill2 a; Some (a\<lparr>buffersToWrite := []\<rparr>) }"
    by (simp add: recycle_def Let_def)
  ultimately show ?thesis
    unfolding r using ok(2,3) l(1) by cases (auto simp: refill1_def refill2_def spare_ok_def empty_ok_def)
qed

section \<open>The file as an interface\<close>

definition async_inv :: "('f \<Rightarrow> string) \<Rightarrow> ('f \<Rightarrow> bool) \<Rightarrow> nat \<Rightarrow> 'f AsyncLogging \<Rightarrow> bool" where
  "async_inv sink_text sink_inv n a \<longleftrightarrow> shared_ok n a \<and> spare_ok n a \<and> text_ok n a \<and>
     sink_inv (out a) \<and> sink_text (out a) = concat (map out_text (segs a))"

definition async_start :: "('f \<Rightarrow> string) \<Rightarrow> ('f \<Rightarrow> bool) \<Rightarrow> nat \<Rightarrow> 'f AsyncLogging \<Rightarrow> bool" where
  "async_start sink_text sink_inv n a \<longleftrightarrow> (\<exists>f. sink_inv f \<and> sink_text f = [] \<and> a = async_init n f)"

locale log_sink =
  fixes sink_append :: "'f \<Rightarrow> string \<Rightarrow> 'f \<Rightarrow> bool" and sink_flush :: "'f \<Rightarrow> 'f \<Rightarrow> bool"
    and sink_text :: "'f \<Rightarrow> string" and sink_inv :: "'f \<Rightarrow> bool"
  assumes append_law: "sink_inv f \<Longrightarrow> sink_append f t f' \<Longrightarrow> sink_inv f' \<and> sink_text f' = sink_text f @ t"
    and append_defined: "sink_inv f \<Longrightarrow> \<exists>f'. sink_append f t f'"
    and flush_law: "sink_inv f \<Longrightarrow> sink_flush f f' \<Longrightarrow> sink_inv f' \<and> sink_text f' = sink_text f"
    and flush_defined: "sink_inv f \<Longrightarrow> \<exists>f'. sink_flush f f'"
begin

lemma start_inv: "async_start sink_text sink_inv n a \<Longrightarrow> async_inv sink_text sink_inv n a"
  by (auto simp: async_start_def async_inv_def async_init_def shared_ok_def spare_ok_def empty_ok_def text_ok_def zero_buffer_def
      new_FixedBuffer_def fb_bzero_def fb_ok_def consumed_def inflight_def waiting_def accepted_text_def fb_toString_def)

lemma front_inv:
  assumes "front_step n a a'" "async_inv sink_text sink_inv n a"
  shows "async_inv sink_text sink_inv n a'"
  using assms(1)
proof cases
  case (append garbage l b)
  have sh: "shared_ok n a" using assms(2) by (simp add: async_inv_def)
  from async_append_returns [OF sh append(2), of l] append(3)
  have b: "shared_ok n b" "same_back a b" "accepted b = accepted a" "waiting b = waiting a @ (if length l < n then l else [])"
    by simp_all
  then have "text_ok n a'" "spare_ok n a'" "shared_ok n a'" "out a' = out a" "segs a' = segs a"
    using assms(2) append(1)
    by (auto simp: async_inv_def text_ok_def spare_ok_def shared_ok_def same_back_def consumed_def inflight_def overran_def
        accepted_text_def waiting_def split: bpc.splits)
  then show ?thesis using assms(2) by (simp add: async_inv_def)
next
  case stop
  then show ?thesis using assms(2)
    by (cases "bpc a") (simp_all add: async_inv_def shared_ok_def spare_ok_def text_ok_def consumed_def inflight_def waiting_def overran_def)
qed

lemma collect_inv:
  assumes "async_inv sink_text sink_inv n a" "bpc a = BTop \<or> bpc a = BWaiting" "collect a = Some b"
  shows "async_inv sink_text sink_inv n (b\<lparr>bpc := BCollected\<rparr>)"
proof -
  have i: "shared_ok n a" "spare_ok n a" "text_ok n a" using assms(1) by (simp_all add: async_inv_def)
  from collect_returns [OF i(1,2) assms(2)] assms(3)
  have b: "shared_ok n (b\<lparr>bpc := BCollected\<rparr>)" "spare_ok n (b\<lparr>bpc := BCollected\<rparr>)" "texts (buffersToWrite b) = waiting a" "waiting b = []"
    "segs b = segs a" "accepted b = accepted a" "out b = out a" by simp_all
  then have "text_ok n (b\<lparr>bpc := BCollected\<rparr>)"
    using i(3) assms(2) by (auto simp: text_ok_def consumed_def inflight_def overran_def waiting_def)
  with b assms(1) show ?thesis by (simp add: async_inv_def)
qed

lemma back_inv:
  assumes "back_step sink_append sink_flush a a'" "async_inv sink_text sink_inv n a"
  shows "async_inv sink_text sink_inv n a'"
proof -
  have i: "shared_ok n a" "spare_ok n a" "text_ok n a" "sink_inv (out a)" "sink_text (out a) = concat (map out_text (segs a))"
    using assms(2) by (simp_all add: async_inv_def)
  from assms(1) show ?thesis
  proof cases
    case top_wait
    then show ?thesis using i
      by (simp add: async_inv_def shared_ok_def spare_ok_def text_ok_def consumed_def inflight_def waiting_def overran_def)
  next
    case (top_collect b)
    then show ?thesis using collect_inv [OF assms(2)] by simp
  next
    case (wake b)
    then show ?thesis using collect_inv [OF assms(2)] by simp
  next
    case keep
    then show ?thesis using i
      by (simp add: async_inv_def shared_ok_def spare_ok_def text_ok_def consumed_def inflight_def waiting_def overran_def)
  next
    case (overrun t now f)
    have f: "sink_inv f" "sink_text f = sink_text (out a) @ t" using append_law [OF i(4) overrun(5)] by simp_all
    have "texts (buffersToWrite a) = texts (take 2 (buffersToWrite a)) @ texts (drop 2 (buffersToWrite a))"
      by (metis append_take_drop_id texts_simps(3))
    then show ?thesis using i f overrun(1-3)
      by (auto simp: async_inv_def shared_ok_def spare_ok_def text_ok_def consumed_def inflight_def waiting_def overran_def
          in_text_def out_text_def list_all_iff dest: in_set_takeD)
  next
    case (put k t f)
    have f: "sink_inv f" "sink_text f = sink_text (out a) @ fb_toString (buffersToWrite a ! k)"
      using append_law [OF i(4) put(4)] by simp_all
    have "texts (drop k (buffersToWrite a)) = fb_toString (buffersToWrite a ! k) @ texts (drop (Suc k) (buffersToWrite a))"
      using put(3) by (metis Cons_nth_drop_Suc texts_simps(2))
    then show ?thesis using i f put(1-3)
      by (auto simp: async_inv_def shared_ok_def spare_ok_def text_ok_def consumed_def inflight_def waiting_def overran_def
          in_text_def out_text_def)
  next
    case (round_end k t b f)
    have f: "sink_inv f" "sink_text f = sink_text (out a)" using flush_law [OF i(4) round_end(5)] by simp_all
    from recycle_returns [OF i(2) round_end(2)] round_end(4)
    have b: "spare_ok n (b\<lparr>bpc := BTop\<rparr>)" "currentBuffer b = currentBuffer a" "nextBuffer b = nextBuffer a"
      "buffers b = buffers a" "segs b = segs a" "accepted b = accepted a" by simp_all
    have sp: "spare_ok n a'" using b(1) round_end(1) by (simp add: spare_ok_def)
    have "t = []" if "\<not> overran a" using i(3) round_end(2) that by (auto simp: text_ok_def)
    then have "text_ok n a'" using i(3) b round_end(1-3)
      by (auto simp: text_ok_def consumed_def inflight_def waiting_def overran_def in_text_def)
    then show ?thesis using i sp f b round_end(1)
      by (auto simp: async_inv_def shared_ok_def out_text_def)
  next
    case (finish f)
    have f: "sink_inv f" "sink_text f = sink_text (out a)" using flush_law [OF i(4) finish(4)] by simp_all
    then show ?thesis using i finish(1-3)
      by (simp add: async_inv_def shared_ok_def spare_ok_def text_ok_def consumed_def inflight_def waiting_def overran_def)
  qed
qed

end

sublocale log_sink \<subseteq> async: step_system "async_start sink_text sink_inv n" "async_step sink_append sink_flush n"
    "async_inv sink_text sink_inv n" for n
  by unfold_locales (auto simp: async_step_def dest: start_inv front_inv back_inv)

section \<open>Progress\<close>

text \<open>\<open>async_path k a b\<close>: an interleaving that leads from \<open>a\<close> to \<open>b\<close> with \<open>k\<close> steps of the background thread.\<close>

inductive async_path ::
  "('f \<Rightarrow> string \<Rightarrow> 'f \<Rightarrow> bool) \<Rightarrow> ('f \<Rightarrow> 'f \<Rightarrow> bool) \<Rightarrow> nat \<Rightarrow> nat \<Rightarrow> 'f AsyncLogging \<Rightarrow> 'f AsyncLogging \<Rightarrow> bool" for app fl n where
  here: "async_path app fl n 0 a a"
| by_front: "async_path app fl n k a b \<Longrightarrow> front_step n b c \<Longrightarrow> async_path app fl n k a c"
| by_back: "async_path app fl n k a b \<Longrightarrow> back_step app fl b c \<Longrightarrow> async_path app fl n (Suc k) a c"

text \<open>The steps left in the round, and the steps until the first \<open>L\<close> characters have left the buffers.\<close>

definition left_in_round :: "'f AsyncLogging \<Rightarrow> nat" where
  "left_in_round a = (case bpc a of
     BCollected \<Rightarrow> (if length (buffersToWrite a) > 25 then 2 else length (buffersToWrite a)) + 2
   | BWriting i t \<Rightarrow> length (buffersToWrite a) - i + 1 | _ \<Rightarrow> 0)"

definition rank :: "nat \<Rightarrow> 'f AsyncLogging \<Rightarrow> nat" where
  "rank L a = (if L \<le> length (consumed a) then 0
     else if L \<le> length (consumed a) + length (inflight a) then left_in_round a
     else case bpc a of BTop \<Rightarrow> 29 | BWaiting \<Rightarrow> 28 | BFinished \<Rightarrow> 57 | _ \<Rightarrow> 29 + left_in_round a)"

lemma left_bound: "spare_ok n a \<Longrightarrow> left_in_round a \<le> 27"
  by (cases "bpc a") (auto simp: left_in_round_def spare_ok_def)

lemma rank_bound: "spare_ok n a \<Longrightarrow> rank L a \<le> 57"
  using left_bound [of n a] by (cases "bpc a") (auto simp: rank_def)

lemma rank_zero: "rank L a = 0 \<longleftrightarrow> L \<le> length (consumed a)"
  by (cases "bpc a") (auto simp: rank_def left_in_round_def inflight_def)

lemma front_accepted:
  assumes "front_step n a a'" "shared_ok n a"
  shows "(\<exists>r. accepted_text n (accepted a') = accepted_text n (accepted a) @ r) \<and> rank L a' = rank L a \<and> (running a' \<longrightarrow> running a)"
  using assms(1)
proof cases
  case (append garbage l b)
  have "same_back a b" using async_append_returns [OF assms(2) append(2), of l] append(3) by simp
  then show ?thesis
    using append(1) by (auto simp: accepted_text_def rank_def left_in_round_def same_back_def consumed_def inflight_def split: bpc.splits)
qed (auto simp: rank_def left_in_round_def consumed_def inflight_def split: bpc.splits)

context log_sink
begin

lemma back_rank:
  assumes step: "back_step sink_append sink_flush a a'" and inv: "async_inv sink_text sink_inv n a"
    and L: "L \<le> length (accepted_text n (accepted a))" and run: "running a'"
  shows "accepted a' = accepted a \<and> running a \<and> (rank L a' < rank L a \<or> rank L a' = 0)"
proof -
  have i: "shared_ok n a" "spare_ok n a" "text_ok n a" using inv by (simp_all add: async_inv_def)
  have coll: "accepted b = accepted a \<and> running a \<and> (rank L (b\<lparr>bpc := BCollected\<rparr>) < rank L a \<or> rank L (b\<lparr>bpc := BCollected\<rparr>) = 0)"
    if b: "collect a = Some b" "bpc a = BTop \<or> bpc a = BWaiting" "running b" for b
  proof -
    from collect_returns [OF i(1,2) b(2)] b(1)
    have c: "spare_ok n (b\<lparr>bpc := BCollected\<rparr>)" "texts (buffersToWrite b) = waiting a" "segs b = segs a" "accepted b = accepted a" "running b = running a"
      by simp_all
    have "inflight a = []" using b(2) by (auto simp: inflight_def)
    then have "consumed a @ waiting a = accepted_text n (accepted a)" using i(3) by (simp add: text_ok_def)
    then have "length (consumed a) + length (waiting a) = length (accepted_text n (accepted a))" by (metis length_append)
    then have "rank L (b\<lparr>bpc := BCollected\<rparr>) \<le> (if L \<le> length (consumed a) then 0 else left_in_round (b\<lparr>bpc := BCollected\<rparr>))"
      using L c(2,3) by (simp add: rank_def inflight_def consumed_def)
    moreover have "left_in_round (b\<lparr>bpc := BCollected\<rparr>) \<le> 27" using c(1) by (rule left_bound)
    moreover have "L \<le> length (consumed a) \<or> 28 \<le> rank L a" using b(2) \<open>inflight a = []\<close> by (auto simp: rank_def)
    ultimately show ?thesis using c b(3) by (auto split: if_splits)
  qed
  from step show ?thesis
  proof cases
    case (top_collect b)
    then show ?thesis using coll [of b] run by simp
  next
    case (wake b)
    then show ?thesis using coll [of b] run by simp
  next
    case (overrun t now f)
    have "texts (buffersToWrite a) = texts (take 2 (buffersToWrite a)) @ texts (drop 2 (buffersToWrite a))"
      by (metis append_take_drop_id texts_simps(3))
    then show ?thesis using overrun(1-3) run
      by (auto simp: rank_def left_in_round_def consumed_def inflight_def in_text_def)
  next
    case (put k t f)
    have "texts (drop k (buffersToWrite a)) = fb_toString (buffersToWrite a ! k) @ texts (drop (Suc k) (buffersToWrite a))"
      using put(3) by (metis Cons_nth_drop_Suc texts_simps(2))
    then show ?thesis using put(1-3) run
      by (auto simp: rank_def left_in_round_def consumed_def inflight_def in_text_def)
  next
    case (round_end k t b f)
    from recycle_returns [OF i(2) round_end(2)] round_end(4)
    have "segs b = segs a" "accepted b = accepted a" "running b = running a" by simp_all
    then show ?thesis using round_end(1-3) run
      by (auto simp: rank_def left_in_round_def consumed_def inflight_def in_text_def)
  qed (use run in \<open>auto simp: rank_def left_in_round_def consumed_def inflight_def\<close>)
qed

lemma path_rank:
  assumes "async_path sink_append sink_flush n k a b" "async_inv sink_text sink_inv n a" "L = length (accepted_text n (accepted a))"
  shows "async_inv sink_text sink_inv n b \<and> (\<exists>r. accepted_text n (accepted b) = accepted_text n (accepted a) @ r) \<and>
    (running b \<longrightarrow> rank L b + k \<le> rank L a \<or> rank L b = 0)"
  using assms
proof (induction)
  case (by_front k a b c)
  then have "shared_ok n b" by (simp add: async_inv_def)
  from front_accepted [OF by_front(2) this, of L] by_front front_inv [OF by_front(2)] show ?case by auto
next
  case (by_back k a b c)
  then have b: "async_inv sink_text sink_inv n b" "\<exists>r. accepted_text n (accepted b) = accepted_text n (accepted a) @ r"
    "running b \<longrightarrow> rank L b + k \<le> rank L a \<or> rank L b = 0" by simp_all
  have L: "L \<le> length (accepted_text n (accepted b))" using b(2) by_back(5) by auto
  have "accepted c = accepted b"
    using by_back(2) by cases (auto simp: collect_def recycle_def refill1_def refill2_def Let_def split: if_splits bind_splits)
  with back_inv [OF by_back(2) b(1)] back_rank [OF by_back(2) b(1) L] b(2,3) show ?case by auto
qed auto

lemma no_overrun:
  assumes "async_inv sink_text sink_inv n a" "\<not> overran a"
  shows "sink_text (out a) = consumed a"
proof -
  have "out_text x = in_text x" if "x \<in> set (segs a)" for x
  proof (cases x)
  qed (use that assms in \<open>auto simp: async_inv_def text_ok_def overran_def out_text_def in_text_def\<close>)
  then have m: "concat (map out_text (segs a)) = concat (map in_text (segs a))" by (intro arg_cong [where f = concat]) simp
  show ?thesis unfolding consumed_def m [symmetric] using assms(1) by (simp add: async_inv_def)
qed

lemma thread_advances:
  assumes "async_inv sink_text sink_inv n a" "bpc a \<noteq> BFinished"
  shows "\<exists>a'. back_step sink_append sink_flush a a'"
proof -
  have i: "shared_ok n a" "spare_ok n a" "sink_inv (out a)" using assms(1) by (simp_all add: async_inv_def)
  note ex = append_defined [OF i(3)] flush_defined [OF i(3)]
  show ?thesis
  proof (cases "bpc a")
    case BTop
    then obtain b where "collect a = Some b" using collect_returns [OF i(1,2)] by (auto elim: returnsE)
    with BTop show ?thesis using ex(2) by (cases "running a"; cases "buffers a = []") (blast intro: back_step.intros)+
  next
    case BWaiting
    then obtain b where "collect a = Some b" using collect_returns [OF i(1,2)] by (auto elim: returnsE)
    with BWaiting show ?thesis by (blast intro: wake)
  next
    case BCollected
    obtain f where "sink_append (out a) (drop_notice [] (length (buffersToWrite a))) f" using ex(1) by blast
    with BCollected show ?thesis
      by (cases "length (buffersToWrite a) \<le> 25") (auto simp: not_le intro: keep overrun [OF _ _ refl])
  next
    case (BWriting k t)
    then have "k \<le> length (buffersToWrite a)" using i(2) by (simp add: spare_ok_def)
    moreover obtain b where "recycle a = Some b" using recycle_returns [OF i(2) BWriting] by (auto elim: returnsE)
    moreover obtain f where "sink_append (out a) (fb_toString (buffersToWrite a ! k)) f" using ex(1) by blast
    ultimately show ?thesis using BWriting ex(2) by (cases "k = length (buffersToWrite a)") (auto simp: le_less intro: put round_end)
  qed (use assms(2) in simp)
qed

end

section \<open>Stopping\<close>

text \<open>The run: the thread collects the empty buffer, a line comes in while it writes, and \<open>stop\<close> follows before the next round.\<close>

context log_sink
begin

lemma reach_back:
  assumes "reachable st (async_step sink_append sink_flush n) a" "back_step sink_append sink_flush a a'"
  shows "reachable st (async_step sink_append sink_flush n) a'"
  by (rule by_step [OF assms(1)]) (simp add: async_step_def assms(2))

lemma reach_front:
  assumes "reachable st (async_step sink_append sink_flush n) a" "front_step n a a'"
  shows "reachable st (async_step sink_append sink_flush n) a'"
  by (rule by_step [OF assms(1)]) (simp add: async_step_def assms(2))

lemma stop_loses:
  assumes f: "sink_inv f" "sink_text f = []" and l: "length l < n"
  shows "\<exists>a b. reachable (async_start sink_text sink_inv n) (async_step sink_append sink_flush n) a \<and> running a \<and>
    accepted a = [l] \<and> async_path sink_append sink_flush n 3 a b \<and> bpc b = BFinished \<and> sink_text (out b) = []"
proof -
  let ?R = "reachable (async_start sink_text sink_inv n) (async_step sink_append sink_flush n)" and ?z = "zero_buffer n"
  define a0 where "a0 = async_init n f"
  define a4 where "a4 = a0\<lparr>buffersToWrite := [?z], newBuffer1 := None, bpc := BWriting 0 []\<rparr>"
  have "?R a0" by (rule at_start) (use f in \<open>auto simp: a0_def async_start_def\<close>)
  moreover have "back_step sink_append sink_flush a0 (a0\<lparr>bpc := BWaiting\<rparr>)"
    by (rule top_wait) (simp_all add: a0_def async_init_def)
  moreover have "back_step sink_append sink_flush (a0\<lparr>bpc := BWaiting\<rparr>) (a4\<lparr>bpc := BCollected\<rparr>)"
    by (rule wake [where a' = "a4\<lparr>bpc := BWaiting\<rparr>", simplified]) (simp_all add: a0_def a4_def async_init_def collect_def)
  moreover have e: "a4\<lparr>bpc := BCollected, bpc := BWriting 0 []\<rparr> = a4" by (simp add: a4_def)
  have "back_step sink_append sink_flush (a4\<lparr>bpc := BCollected\<rparr>) (a4\<lparr>bpc := BCollected, bpc := BWriting 0 []\<rparr>)"
    by (rule keep) (simp_all add: a4_def)
  then have "back_step sink_append sink_flush (a4\<lparr>bpc := BCollected\<rparr>) a4" unfolding e .
  ultimately have r4: "?R a4" by (blast intro: reach_back)
  then have i4: "async_inv sink_text sink_inv n a4" by (rule async.reachable_inv)
  have acc4: "accepted a4 = []" "running a4" "bpc a4 = BWriting 0 []" "buffersToWrite a4 = [?z]" "out a4 = f"
    by (simp_all add: a4_def a0_def async_init_def)
  have "shared_ok n a4" using i4 by (simp add: async_inv_def)
  then obtain b where b: "async_append (replicate n NUL) l a4 = Some b" "same_back a4 b" "accepted b = []"
    using async_append_returns [of n a4 "replicate n NUL" l] acc4(1) by (auto elim!: returnsE)
  define a5 where "a5 = b\<lparr>accepted := [l]\<rparr>"
  have "front_step n a4 a5" using front_step.append [OF _ b(1)] acc4(1) by (simp add: a5_def)
  then have r5: "?R a5" by (rule reach_front [OF r4])
  then have i5: "async_inv sink_text sink_inv n a5" by (rule async.reachable_inv)
  have a5: "running a5" "bpc a5 = BWriting 0 []" "buffersToWrite a5 = [?z]" "out a5 = f" "accepted a5 = [l]"
    using b(2) acc4 by (simp_all add: a5_def same_back_def)
  have z: "fb_toString ?z = []" by (simp add: zero_buffer_def new_FixedBuffer_def fb_bzero_def)
  obtain g where g: "sink_append f [] g" using append_defined [OF f(1)] by blast
  have g': "sink_inv g" "sink_text g = []" using append_law [OF f(1) g] f(2) by simp_all
  define a6 where "a6 = a5\<lparr>out := g, bpc := BWriting 1 [], segs := segs a5 @ [Written []]\<rparr>"
  have p1: "back_step sink_append sink_flush a5 a6"
    using put [of a5 0 "[]" sink_append g] a5 z g by (simp add: a6_def)
  have "spare_ok n a6" using back_inv [OF p1 i5] by (simp add: async_inv_def)
  then obtain c where c: "recycle a6 = Some c" "running c = True" using recycle_returns [of n a6 1 "[]"] a5(1) by (auto simp: a6_def elim!: returnsE)
  obtain h where h: "sink_flush g h" using flush_defined [OF g'(1)] by blast
  define a7 where "a7 = c\<lparr>out := h, bpc := BTop, segs := segs a6 @ [Dropped []]\<rparr>"
  have p2: "back_step sink_append sink_flush a6 a7"
    using round_end [of a6 1 "[]" c sink_flush h sink_append] c h a5 by (simp add: a6_def a7_def)
  have h': "sink_inv h" "sink_text h = []" using flush_law [OF g'(1) h] g'(2) by simp_all
  obtain e where e: "sink_flush h e" using flush_defined [OF h'(1)] by blast
  define a9 where "a9 = a7\<lparr>running := False, out := e, bpc := BFinished\<rparr>"
  have p4: "back_step sink_append sink_flush (a7\<lparr>running := False\<rparr>) a9"
    unfolding a9_def by (rule finish [where a = "a7\<lparr>running := False\<rparr>", simplified]) (use e in \<open>simp_all add: a7_def\<close>)
  have "async_path sink_append sink_flush n (Suc (Suc (Suc 0))) a5 a9"
    by (rule by_back [OF by_front [OF by_back [OF by_back [OF here p1] p2] front_step.stop] p4])
  moreover have "sink_text (out a9) = []" "bpc a9 = BFinished" using flush_law [OF h'(1) e] h'(2) by (simp_all add: a9_def)
  ultimately show ?thesis using r5 a5 by (auto simp: numeral_3_eq_3)
qed

end

section \<open>Runs of the background thread alone\<close>

definition quiet :: "'f AsyncLogging \<Rightarrow> bool" where
  "quiet a \<longleftrightarrow> running a \<and> \<not> overran a \<and> bpc a \<noteq> BFinished \<and> length (buffers a) \<le> 24 \<and> length (buffersToWrite a) \<le> 25"

context log_sink
begin

lemma back_quiet:
  assumes step: "back_step sink_append sink_flush a a'" and inv: "async_inv sink_text sink_inv n a" and q: "quiet a"
  shows "quiet a'"
proof -
  have i: "shared_ok n a" "spare_ok n a" using inv by (simp_all add: async_inv_def)
  have coll: "quiet (b\<lparr>bpc := BCollected\<rparr>)" if b: "collect a = Some b" "bpc a = BTop \<or> bpc a = BWaiting" for b
  proof -
    have "buffersToWrite a = []" using i(2) b(2) by (auto simp: spare_ok_def)
    then show ?thesis using b(1) q by (cases "newBuffer1 a"; cases "nextBuffer a") (auto simp: collect_def quiet_def overran_def Let_def)
  qed
  from step show ?thesis
  proof cases
    case (round_end k t b f)
    from recycle_returns [OF i(2) round_end(2)] round_end(4)
    have "spare_ok n (b\<lparr>bpc := BTop\<rparr>)" "segs b = segs a" "buffers b = buffers a" "running b = running a" by simp_all
    then show ?thesis using round_end(1) q by (auto simp: quiet_def overran_def spare_ok_def)
  qed (use q coll in \<open>auto simp: quiet_def overran_def\<close>)
qed

lemma quiet_path:
  assumes "async_inv sink_text sink_inv n a" "quiet a"
  shows "\<exists>b. async_path sink_append sink_flush n k a b \<and> async_inv sink_text sink_inv n b \<and> quiet b"
proof (induction k)
  case 0
  show ?case using assms here by blast
next
  case (Suc k)
  then obtain b where b: "async_path sink_append sink_flush n k a b" "async_inv sink_text sink_inv n b" "quiet b" by blast
  then obtain c where c: "back_step sink_append sink_flush b c" using thread_advances [OF b(2)] by (auto simp: quiet_def)
  then show ?case using by_back [OF b(1) c] back_inv [OF c b(2)] back_quiet [OF c b(2,3)] by blast
qed

end

section \<open>The log file as the sink\<close>

text \<open>The file with its disk, the disk as it was at the start, and the list of what went where.\<close>

record lf_sink =
  sk_disk0 :: disk
  sk_disk :: disk
  sk_log :: LogFile
  sk_trace :: "(string \<times> string) list"

definition lf_sink_append :: "proc_info \<Rightarrow> lf_sink \<Rightarrow> string \<Rightarrow> lf_sink \<Rightarrow> bool" where
  "lf_sink_append pi s t s' \<longleftrightarrow> (\<exists>now now2 dk f tr. lf_appends pi [(now, now2, t)] (sk_disk s) (sk_log s) = Some (dk, f, tr) \<and>
     s' = s\<lparr>sk_disk := dk, sk_log := f, sk_trace := sk_trace s @ tr\<rparr>)"

definition lf_sink_flush :: "lf_sink \<Rightarrow> lf_sink \<Rightarrow> bool" where
  "lf_sink_flush s s' \<longleftrightarrow> (\<exists>f. lf_flush (sk_log s) = Some f \<and> s' = s\<lparr>sk_log := f\<rparr>)"

definition lf_sink_text :: "lf_sink \<Rightarrow> string" where
  "lf_sink_text s = concat (map snd (sk_trace s))"

definition lf_sink_inv :: "lf_sink \<Rightarrow> bool" where
  "lf_sink_inv s \<longleftrightarrow> lf_file (sk_log s) \<noteq> None \<and> 0 \<le> rollSize (sk_log s) \<and>
     (\<forall>n. disk_text (sk_disk s) n = disk_text (sk_disk0 s) n @ went_to n (sk_trace s))"

lemma lf_one_append:
  assumes "lf_sink_inv s"
  shows "returns (lf_appends pi [(now, now2, t)] (sk_disk s) (sk_log s)) (\<lambda>(dk, f, tr).
    lf_sink_inv (s\<lparr>sk_disk := dk, sk_log := f, sk_trace := sk_trace s @ tr\<rparr>) \<and> map snd tr = [t])"
proof -
  obtain af where af: "lf_file (sk_log s) = Some af" and roll: "0 \<le> rollSize (sk_log s)" using assms by (auto simp: lf_sink_inv_def)
  show ?thesis
    using append_unlocked_returns [OF af roll, of pi now now2 "sk_disk s" t] assms af
    by (auto simp: lf_sink_inv_def went_to_def size_ok_def split: option.splits elim!: returnsE)
qed

interpretation lfsink: log_sink "lf_sink_append pi" lf_sink_flush lf_sink_text lf_sink_inv for pi
proof
  fix f t f' assume i: "lf_sink_inv f"
  show "lf_sink_inv f' \<and> lf_sink_text f' = lf_sink_text f @ t" if step: "lf_sink_append pi f t f'"
  proof -
    obtain now now2 dk g tr where g: "lf_appends pi [(now, now2, t)] (sk_disk f) (sk_log f) = Some (dk, g, tr)"
      "f' = f\<lparr>sk_disk := dk, sk_log := g, sk_trace := sk_trace f @ tr\<rparr>"
      using step by (auto simp: lf_sink_append_def simp del: lf_appends.simps)
    then have "lf_sink_inv f'" "map snd tr = [t]" using lf_one_append [OF i, of pi now now2 t] by (simp_all del: lf_appends.simps)
    with g(2) show ?thesis by (simp add: lf_sink_text_def)
  qed
  show "\<exists>f'. lf_sink_append pi f t f'"
    using lf_one_append [OF i, of pi 0 0 t] unfolding lf_sink_append_def returns_def by (metis prod_cases3)
  show "\<exists>f'. lf_sink_flush f f'" using i by (auto simp: lf_sink_flush_def lf_flush_def lf_sink_inv_def)
  show "lf_sink_flush f f' \<Longrightarrow> lf_sink_inv f' \<and> lf_sink_text f' = lf_sink_text f"
    using i by (auto simp: lf_sink_flush_def lf_flush_def lf_sink_inv_def lf_sink_text_def)
qed

section \<open>Properties\<close>

abbreviation async_reach :: "proc_info \<Rightarrow> nat \<Rightarrow> lf_sink AsyncLogging \<Rightarrow> bool" where
  "async_reach pi n \<equiv> reachable (async_start lf_sink_text lf_sink_inv n) (async_step (lf_sink_append pi) lf_sink_flush n)"

text \<open>
  C1: in every interleaving of logging threads with the background thread, the accepted text is, in
  order and without gaps or repetitions, what has left the buffers, what is being written and what
  waits. The log files hold exactly the text that was written, and as long as no more than 25 buffers
  had to be collected at once, this is everything that has left the buffers: no line is lost,
  duplicated or reordered, however often the file is rolled.
\<close>

theorem async_no_loss:
  assumes "async_reach pi n a"
  shows "consumed a @ inflight a @ waiting a = accepted_text n (accepted a) \<and>
    (\<not> overran a \<longrightarrow> lf_sink_text (out a) = consumed a) \<and>
    (\<forall>name. disk_text (sk_disk (out a)) name = disk_text (sk_disk0 (out a)) name @ went_to name (sk_trace (out a)))"
proof -
  have i: "async_inv lf_sink_text lf_sink_inv n a" by (rule lfsink.async.reachable_inv [OF assms])
  have "lf_sink_text (out a) = consumed a" if "\<not> overran a"
    using i that lfsink.no_overrun by blast
  with i show ?thesis by (simp add: async_inv_def text_ok_def lf_sink_inv_def)
qed

text \<open>A log file on an empty disk, and the logger after one line.\<close>

definition demo_sink :: lf_sink where
  "demo_sink = \<lparr>sk_disk0 = Map.empty, sk_disk = Map.empty, sk_log = demo_file, sk_trace = []\<rparr>"

definition demo_logger :: "lf_sink AsyncLogging" where
  "demo_logger = (async_init 4 demo_sink)\<lparr>currentBuffer := \<lparr>fb_data = ''ab'' @ [NUL, NUL], fb_cur = 2\<rparr>, accepted := [''ab'']\<rparr>"

lemma demo_sink_ok: "lf_sink_inv demo_sink" "lf_sink_text demo_sink = []"
  by (simp_all add: demo_sink_def lf_sink_inv_def lf_sink_text_def demo_file_def went_to_def)

lemma demo_logger_reached: "async_reach demo_proc 4 demo_logger"
proof -
  have "async_reach demo_proc 4 (async_init 4 demo_sink)"
    by (rule at_start) (use demo_sink_ok in \<open>auto simp: async_start_def\<close>)
  moreover have "front_step 4 (async_init 4 demo_sink) demo_logger"
    using front_step.append [of "replicate 4 NUL" 4 "''ab''" "async_init 4 demo_sink"
        "(async_init 4 demo_sink)\<lparr>currentBuffer := \<lparr>fb_data = ''ab'' @ [NUL, NUL], fb_cur = 2\<rparr>\<rparr>"]
    by (simp add: demo_logger_def async_init_def async_append_def zero_buffer_def new_FixedBuffer_def fb_bzero_def fb_avail_def
        fb_append_def memcpy_at_def fb_add_def numeral_eq_Suc)
  ultimately show ?thesis by (rule lfsink.reach_front)
qed

theorem async_no_loss_witness:
  "consumed demo_logger @ inflight demo_logger @ waiting demo_logger = ''ab'' \<and>
    (overran demo_logger \<or> lf_sink_text (out demo_logger) = consumed demo_logger) \<and>
    (\<forall>name. disk_text (sk_disk (out demo_logger)) name = disk_text (sk_disk0 (out demo_logger)) name @ went_to name (sk_trace (out demo_logger)))"
proof -
  have "accepted_text 4 (accepted demo_logger) = ''ab''" by (simp add: demo_logger_def accepted_text_def)
  with async_no_loss [OF demo_logger_reached] show ?thesis by argo
qed

text \<open>
  C16: the assertions of the background thread hold whenever it reaches them, its two spare buffers are
  there and empty at the head of the loop, it never gets stuck before it ends, and no call of \<open>append\<close>
  stores outside a buffer.
\<close>

theorem async_thread_safe:
  assumes "async_reach pi n a"
  shows "(bpc a = BTop \<longrightarrow> loop_asserts a) \<and> (bpc a = BCollected \<longrightarrow> buffersToWrite a \<noteq> []) \<and>
    (bpc a \<noteq> BFinished \<longrightarrow> (\<exists>a'. back_step (lf_sink_append pi) lf_sink_flush a a')) \<and>
    (\<forall>garbage l. length garbage = n \<longrightarrow> async_append garbage l a \<noteq> None)"
proof -
  have i: "async_inv lf_sink_text lf_sink_inv n a" by (rule lfsink.async.reachable_inv [OF assms])
  then have sp: "spare_ok n a" and sh: "shared_ok n a" by (simp_all add: async_inv_def)
  have "loop_asserts a" if "bpc a = BTop"
    using sp that by (auto simp: spare_ok_def loop_asserts_def empty_ok_def fb_length_def)
  moreover have "buffersToWrite a \<noteq> []" if "bpc a = BCollected"
    using sp that by (auto simp: spare_ok_def split: if_splits)
  moreover have "async_append garbage l a \<noteq> None" if "length garbage = n" for garbage l
    using async_append_returns [OF sh that, of l] by (auto elim: returnsE)
  ultimately show ?thesis using lfsink.thread_advances [OF i] by blast
qed

theorem async_thread_safe_witness:
  "loop_asserts demo_logger \<and> (\<exists>a'. back_step (lf_sink_append demo_proc) lf_sink_flush demo_logger a') \<and>
    async_append (replicate 4 NUL) ''xyz'' demo_logger \<noteq> None"
proof -
  have "bpc demo_logger = BTop" "length (replicate 4 NUL) = 4" by (simp_all add: demo_logger_def async_init_def)
  then show ?thesis using async_thread_safe [OF demo_logger_reached] by simp
qed

lemma async_written:
  assumes "async_reach pi n a" "async_path (lf_sink_append pi) lf_sink_flush n k a b" "57 \<le> k" "running b" "\<not> overran b"
  shows "\<exists>r. lf_sink_text (out b) = accepted_text n (accepted a) @ r"
proof -
  define L where "L = length (accepted_text n (accepted a))"
  have i: "async_inv lf_sink_text lf_sink_inv n a" by (rule lfsink.async.reachable_inv [OF assms(1)])
  from lfsink.path_rank [OF assms(2) i L_def]
  obtain r where b: "async_inv lf_sink_text lf_sink_inv n b" "accepted_text n (accepted b) = accepted_text n (accepted a) @ r"
    "running b \<longrightarrow> rank L b + k \<le> rank L a \<or> rank L b = 0" by blast
  have "rank L a \<le> 57" using i by (auto simp: async_inv_def intro: rank_bound)
  then have "rank L b = 0" using b(3) assms(3,4) by auto
  then have len: "L \<le> length (consumed b)" by (simp add: rank_zero)
  have "consumed b @ inflight b @ waiting b = accepted_text n (accepted a) @ r" using b(1,2) by (simp add: async_inv_def text_ok_def)
  then have "take L (consumed b) = accepted_text n (accepted a)"
    using len by (metis L_def append_eq_conv_conj append_take_drop_id take_append take_all_iff append_eq_append_conv length_take min.absorb2)
  then show ?thesis using lfsink.no_overrun [OF b(1) assms(5)] by (metis append_take_drop_id)
qed





end
