(* ===== verification/Muduo_Clog.thy ===== *)
theory Muduo_Clog
  imports Muduo_Logger Muduo_Async
begin

text \<open>
  The C interface \<open>src/src/log/muduo-clog/muduo/clog/muduo_clog.h\<close> and \<open>muduo_clog.cc\<close> of the muduo
  logger: the macros with their levels, the functions behind them, and the start of asynchronous
  logging. The formatted text of a message is an argument.
\<close>

section \<open>The C interface\<close>

definition CLOG_MAX_LEN :: nat where "CLOG_MAX_LEN = 1024 * 32"

text \<open>\<open>vsnprintf\<close> into the zeroed array: the message that the stream gets from the formatted text.\<close>

definition va_message :: "string \<Rightarrow> string" where
  "va_message txt = takeWhile (\<lambda>c. c \<noteq> NUL) (take (CLOG_MAX_LEN - 1) txt)"

definition nothing :: "thread_vars \<Rightarrow> (thread_vars \<times> log_effect list) option" where
  "nothing v = Some (v, [])"

definition muduo_clog_trace ::
  "LogLevel \<Rightarrow> logger_env \<Rightarrow> thread_vars \<Rightarrow> string \<Rightarrow> string \<Rightarrow> int \<Rightarrow> string \<Rightarrow> (thread_vars \<times> log_effect list) option" where
  "muduo_clog_trace g e v c_file func line txt =
     (if g \<le> TRACE then log_statement e v TRACE 0 (Some func) (va_message txt) c_file line else nothing v)"

definition muduo_clog_debug ::
  "LogLevel \<Rightarrow> logger_env \<Rightarrow> thread_vars \<Rightarrow> string \<Rightarrow> string \<Rightarrow> int \<Rightarrow> string \<Rightarrow> (thread_vars \<times> log_effect list) option" where
  "muduo_clog_debug g e v c_file func line txt =
     (if g \<le> DEBUG then log_statement e v DEBUG 0 (Some func) (va_message txt) c_file line else nothing v)"

definition muduo_clog_info ::
  "LogLevel \<Rightarrow> logger_env \<Rightarrow> thread_vars \<Rightarrow> string \<Rightarrow> int \<Rightarrow> string \<Rightarrow> (thread_vars \<times> log_effect list) option" where
  "muduo_clog_info g e v c_file line txt =
     (if g \<le> INFO then log_statement e v INFO 0 None (va_message txt) c_file line else nothing v)"

definition muduo_clog_warn :: "logger_env \<Rightarrow> thread_vars \<Rightarrow> string \<Rightarrow> int \<Rightarrow> string \<Rightarrow> (thread_vars \<times> log_effect list) option" where
  "muduo_clog_warn e v c_file line txt = log_statement e v WARN 0 None (va_message txt) c_file line"

definition muduo_clog_error :: "logger_env \<Rightarrow> thread_vars \<Rightarrow> string \<Rightarrow> int \<Rightarrow> string \<Rightarrow> (thread_vars \<times> log_effect list) option" where
  "muduo_clog_error e v c_file line txt = log_statement e v ERROR 0 None (va_message txt) c_file line"

definition muduo_clog_fatal :: "logger_env \<Rightarrow> thread_vars \<Rightarrow> string \<Rightarrow> int \<Rightarrow> string \<Rightarrow> (thread_vars \<times> log_effect list) option" where
  "muduo_clog_fatal e v c_file line txt = log_statement e v FATAL 0 None (va_message txt) c_file line"

definition muduo_clog_syserr :: "logger_env \<Rightarrow> thread_vars \<Rightarrow> string \<Rightarrow> int \<Rightarrow> string \<Rightarrow> (thread_vars \<times> log_effect list) option" where
  "muduo_clog_syserr e v c_file line txt = log_statement e v ERROR (le_errno e) None (va_message txt) c_file line"

definition muduo_clog_sysfatal :: "logger_env \<Rightarrow> thread_vars \<Rightarrow> string \<Rightarrow> int \<Rightarrow> string \<Rightarrow> (thread_vars \<times> log_effect list) option" where
  "muduo_clog_sysfatal e v c_file line txt = log_statement e v FATAL (le_errno e) None (va_message txt) c_file line"

text \<open>The macros: \<open>lv\<close> is \<open>muduo_clog_level\<close>, the level as of \<open>muduo_clog_init\<close> (0 before), \<open>g\<close> the level of the C++ logger.\<close>

datatype clog_macro = CLOG_TRACE string | CLOG_DEBUG string | CLOG_INFO | CLOG_WARN | CLOG_ERROR | CLOG_FATAL | CLOG_SYSERR | CLOG_SYSFATAL

definition clog ::
  "nat \<Rightarrow> LogLevel \<Rightarrow> logger_env \<Rightarrow> thread_vars \<Rightarrow> clog_macro \<Rightarrow> string \<Rightarrow> int \<Rightarrow> string \<Rightarrow> (thread_vars \<times> log_effect list) option" where
  "clog lv g e v c c_file line txt = (case c of
     CLOG_TRACE func \<Rightarrow> if lv \<le> level_no TRACE then muduo_clog_trace g e v c_file func line txt else nothing v
   | CLOG_DEBUG func \<Rightarrow> if lv \<le> level_no DEBUG then muduo_clog_debug g e v c_file func line txt else nothing v
   | CLOG_INFO \<Rightarrow> if lv \<le> level_no INFO then muduo_clog_info g e v c_file line txt else nothing v
   | CLOG_WARN \<Rightarrow> muduo_clog_warn e v c_file line txt
   | CLOG_ERROR \<Rightarrow> muduo_clog_error e v c_file line txt
   | CLOG_FATAL \<Rightarrow> muduo_clog_fatal e v c_file line txt
   | CLOG_SYSERR \<Rightarrow> muduo_clog_syserr e v c_file line txt
   | CLOG_SYSFATAL \<Rightarrow> muduo_clog_sysfatal e v c_file line txt)"

section \<open>Starting\<close>

record clog_state =
  muduo_clog_level :: nat
  g_asyncLog :: "lf_sink AsyncLogging"

definition CLOG_DIR :: string where "CLOG_DIR = ''/var/log/iridium/run/''"

text \<open>
  The first call of \<open>muduo_clog_init\<close>; the object \<open>log\<close> is static. \<open>ndebug\<close> is the build, \<open>can_open\<close> and
  \<open>now\<close> belong to the log file that the background thread opens before its first round, \<open>conf\<close> is the
  configuration file, \<open>g\<close> the level of the C++ logger.
\<close>

definition muduo_clog_init ::
  "bool \<Rightarrow> proc_info \<Rightarrow> bool \<Rightarrow> int \<Rightarrow> disk \<Rightarrow> bool \<Rightarrow> bool \<Rightarrow> string option \<Rightarrow> LogLevel \<Rightarrow> string option \<Rightarrow>
   (int \<times> clog_state option) option" where
  "muduo_clog_init ndebug pi can_open now dk dir_exists mkdir_ok conf g proc_name = (case proc_name of
     None \<Rightarrow> Some (- 1, None)
   | Some pn \<Rightarrow>
       if \<not> dir_exists \<and> \<not> mkdir_ok then Some (- 1, None)
       else do {
         let name = CLOG_DIR @ snprintf_text (256 - length CLOG_DIR) pn;
         c \<leftarrow> read_conf conf;
         (dk', f) \<leftarrow> new_LogFile ndebug pi can_open now dk name (LogFileSize c) 3 1024;
         Some (0, Some \<lparr>muduo_clog_level = level_no g,
           g_asyncLog = async_init kLargeBuffer \<lparr>sk_disk0 = dk', sk_disk = dk', sk_log = f, sk_trace = []\<rparr>\<rparr>)
       })"

text \<open>\<open>asyncOutput\<close> appends to the buffers of the logger; a flush of the standard output does not touch them.
  The result says whether the program has ended.\<close>

definition asyncOutput :: "char list \<Rightarrow> string \<Rightarrow> 'f AsyncLogging \<Rightarrow> 'f AsyncLogging option" where
  "asyncOutput garbage msg a = map_option (\<lambda>a'. a'\<lparr>accepted := accepted a @ [msg]\<rparr>) (async_append garbage msg a)"

fun run_effects :: "char list \<Rightarrow> log_effect list \<Rightarrow> 'f AsyncLogging \<Rightarrow> ('f AsyncLogging \<times> bool) option" where
  "run_effects garbage [] a = Some (a, False)"
| "run_effects garbage (Out l # es) a = asyncOutput garbage l a \<bind> run_effects garbage es"
| "run_effects garbage (FlushOut # es) a = run_effects garbage es a"
| "run_effects garbage (Aborts # es) a = Some (a, True)"

section \<open>Properties\<close>

definition macro_level :: "clog_macro \<Rightarrow> LogLevel" where
  "macro_level c = (case c of CLOG_TRACE f \<Rightarrow> TRACE | CLOG_DEBUG f \<Rightarrow> DEBUG | CLOG_INFO \<Rightarrow> INFO | CLOG_WARN \<Rightarrow> WARN
     | CLOG_ERROR \<Rightarrow> ERROR | CLOG_SYSERR \<Rightarrow> ERROR | CLOG_FATAL \<Rightarrow> FATAL | CLOG_SYSFATAL \<Rightarrow> FATAL)"

definition macro_errno :: "logger_env \<Rightarrow> clog_macro \<Rightarrow> int" where
  "macro_errno e c = (if c = CLOG_SYSERR \<or> c = CLOG_SYSFATAL then le_errno e else 0)"

definition macro_func :: "clog_macro \<Rightarrow> string option" where
  "macro_func c = (case c of CLOG_TRACE f \<Rightarrow> Some f | CLOG_DEBUG f \<Rightarrow> Some f | _ \<Rightarrow> None)"

text \<open>The text of the line of a call.\<close>

definition clog_text :: "logger_env \<Rightarrow> clog_macro \<Rightarrow> string \<Rightarrow> int \<Rightarrow> string \<Rightarrow> string" where
  "clog_text e c c_file line txt = foldl (spec_put kSmallBuffer) (head_text e (macro_level c))
     (errno_items e (macro_errno e c) @ func_items (macro_func c) @ [ICStr (Some (va_message txt))] @ tail_items (SourceFile c_file) line)"

lemmas clog_defs = muduo_clog_trace_def muduo_clog_debug_def muduo_clog_info_def muduo_clog_warn_def muduo_clog_error_def
  muduo_clog_fatal_def muduo_clog_syserr_def muduo_clog_sysfatal_def nothing_def

lemma clog_statement:
  assumes "g \<le> WARN"
  shows "clog (level_no g) g e v c c_file line txt = (if macro_level c < g then Some (v, [])
    else log_statement e v (macro_level c) (macro_errno e c) (macro_func c) (va_message txt) c_file line)"
  using assms
  by (cases c; cases g) (simp_all add: clog_def clog_defs macro_level_def macro_errno_def macro_func_def less_eq_LogLevel_def less_LogLevel_def)

text \<open>
  C27: a macro logs exactly when its level is switched on. With the level that \<open>muduo_clog_init\<close> took over
  from the configuration, a call below the level does nothing, and every other call, the warnings and
  errors always, hands one line to the output function; only the fatal ones then end the program.
\<close>

theorem clog_level_filter:
  assumes "env_ok e" "vars_ok (conv e) (le_gettid e) v" "g \<le> WARN" "INT_MIN \<le> line" "line \<le> INT_MAX" "INT_MIN \<le> le_errno e" "le_errno e \<le> INT_MAX"
  shows "\<exists>v'. clog (level_no g) g e v c c_file line txt = Some (v', if macro_level c < g then []
      else Out (clog_text e c c_file line txt) # (if macro_level c = FATAL then [FlushOut, Aborts] else [])) \<and>
    vars_ok (conv e) (le_gettid e) v'"
proof (cases "macro_level c < g")
  case True
  then show ?thesis using assms(2) by (simp add: clog_statement [OF assms(3)])
next
  case False
  have n: "INT_MIN \<le> macro_errno e c" "macro_errno e c \<le> INT_MAX" using assms(6,7) by (simp_all add: macro_errno_def int_limits)
  show ?thesis
    using False log_statement_text [OF assms(1,2) n assms(4,5), of "macro_level c" "macro_func c" "va_message txt" c_file]
    by (simp add: clog_statement [OF assms(3)] clog_text_def)
qed

theorem clog_level_filter_witness:
  "\<exists>v'. clog (level_no INFO) INFO demo_env fresh_vars CLOG_INFO ''main.c'' 12 ''hello'' =
     Some (v', [Out (clog_text demo_env CLOG_INFO ''main.c'' 12 ''hello'')]) \<and> vars_ok (conv demo_env) (le_gettid demo_env) v'"
  using clog_level_filter [OF demo_env_ok, of INFO 12 CLOG_INFO "''main.c''" "''hello''"]
  by (simp add: less_eq_LogLevel_def less_LogLevel_def macro_level_def int_limits demo_env_def)

text \<open>A line never exceeds the stream.\<close>

lemma spec_put_length: "item_ok it \<Longrightarrow> length t \<le> n \<Longrightarrow> length (spec_put n t it) \<le> n"
proof -
  assume ok: "item_ok it" and t: "length t \<le> n"
  have "length (item_text it) \<le> item_room it"
  proof (cases it)
    case (IInt v)
    then show ?thesis using ok length_show_int [of v] by (simp add: item_ok_def item_text_def item_room_def kMaxNumericSize_def)
  next
    case (IPtr p)
    then have "length (show_hex p) \<le> Suc 15" using ok by (intro length_show_hex) (simp add: item_ok_def)
    then show ?thesis using IPtr by (simp add: item_text_def item_room_def kMaxNumericSize_def)
  next
    case (IDouble g)
    then show ?thesis using ok by (simp add: item_ok_def item_text_def item_room_def)
  qed (simp_all add: item_room_def)
  then show ?thesis using t by (simp add: spec_put_def)
qed

lemma spec_puts_length: "list_all item_ok its \<Longrightarrow> length t \<le> n \<Longrightarrow> length (foldl (spec_put n) t its) \<le> n"
  by (induction its arbitrary: t) (simp_all add: spec_put_length)

lemma clog_text_length:
  assumes "env_ok e" "INT_MIN \<le> line" "line \<le> INT_MAX" "INT_MIN \<le> le_errno e" "le_errno e \<le> INT_MAX"
  shows "length (clog_text e c c_file line txt) < kLargeBuffer"
proof -
  have "length (clog_text e c c_file line txt) \<le> kSmallBuffer"
    unfolding clog_text_def
  proof (rule spec_puts_length)
    show "list_all item_ok (errno_items e (macro_errno e c) @ func_items (macro_func c) @ [ICStr (Some (va_message txt))] @
        tail_items (SourceFile c_file) line)"
      using assms by (auto simp: errno_items_def macro_errno_def func_items_def tail_items_def item_ok_def int_limits split: option.splits)
    show "length (head_text e (macro_level c)) \<le> kSmallBuffer" using head_length [OF assms(1), of "macro_level c"] by (simp add: kSmallBuffer_def)
  qed
  then show ?thesis by (simp add: kSmallBuffer_def kLargeBuffer_def)
qed

lemma asyncOutput_returns:
  assumes "async_reach pi n a" "length garbage = n" "length l < n"
  shows "\<exists>a'. asyncOutput garbage l a = Some a' \<and> async_reach pi n a' \<and> same_back a a' \<and> accepted a' = accepted a @ [l] \<and>
    waiting a' = waiting a @ l"
proof -
  have "shared_ok n a" using lfsink.async.reachable_inv [OF assms(1)] by (simp add: async_inv_def)
  then obtain b where b: "async_append garbage l a = Some b" "same_back a b" "accepted b = accepted a" "waiting b = waiting a @ l"
    using async_append_returns [of n a garbage l] assms(2,3) by (auto elim!: returnsE)
  have "async_reach pi n (b\<lparr>accepted := accepted a @ [l]\<rparr>)"
    by (rule lfsink.reach_front [OF assms(1) front_step.append [OF assms(2) b(1)]])
  then show ?thesis using b by (auto simp: asyncOutput_def same_back_def waiting_def)
qed

text \<open>The calls that the theorems below speak of: enabled, in a possible environment.\<close>

definition call_ok :: "logger_env \<Rightarrow> thread_vars \<Rightarrow> LogLevel \<Rightarrow> clog_macro \<Rightarrow> int \<Rightarrow> bool" where
  "call_ok e v g c line \<longleftrightarrow> env_ok e \<and> vars_ok (conv e) (le_gettid e) v \<and> g \<le> WARN \<and> \<not> macro_level c < g \<and>
     INT_MIN \<le> line \<and> line \<le> INT_MAX \<and> INT_MIN \<le> le_errno e \<and> le_errno e \<le> INT_MAX"

lemma clog_call:
  assumes "call_ok e v g c line" "async_reach pi kLargeBuffer a" "length garbage = kLargeBuffer"
  shows "\<exists>v' es a'. clog (level_no g) g e v c c_file line txt = Some (v', es) \<and> length es \<le> 3 \<and>
    run_effects garbage es a = Some (a', macro_level c = FATAL) \<and> async_reach pi kLargeBuffer a' \<and> same_back a a' \<and>
    accepted a' = accepted a @ [clog_text e c c_file line txt] \<and> waiting a' = waiting a @ clog_text e c c_file line txt"
proof -
  have c: "env_ok e" "vars_ok (conv e) (le_gettid e) v" "g \<le> WARN" "\<not> macro_level c < g" "INT_MIN \<le> line" "line \<le> INT_MAX"
    "INT_MIN \<le> le_errno e" "le_errno e \<le> INT_MAX" using assms(1) by (simp_all add: call_ok_def)
  have n: "INT_MIN \<le> macro_errno e c" "macro_errno e c \<le> INT_MAX" using c(7,8) by (simp_all add: macro_errno_def int_limits)
  obtain v' where v': "clog (level_no g) g e v c c_file line txt =
      Some (v', Out (clog_text e c c_file line txt) # (if macro_level c = FATAL then [FlushOut, Aborts] else []))"
    using log_statement_text [OF c(1,2) n c(5,6), of "macro_level c" "macro_func c" "va_message txt" c_file] c(4)
    by (auto simp: clog_statement [OF c(3)] clog_text_def)
  obtain a' where "asyncOutput garbage (clog_text e c c_file line txt) a = Some a'" "async_reach pi kLargeBuffer a'" "same_back a a'"
    "accepted a' = accepted a @ [clog_text e c c_file line txt]" "waiting a' = waiting a @ clog_text e c c_file line txt"
    using asyncOutput_returns [OF assms(2,3) clog_text_length [OF c(1,5-8)]] by blast
  with v' show ?thesis by auto
qed



text \<open>
  What \<open>muduo_clog_init\<close> does. For a process name, a directory that is there or can be made, and a
  configuration that can be read, the release build answers 0 with the level of the logger and an
  asynchronous logger in its start state, on a log file in the directory with the configured roll size,
  above eight million. The debug build ends in the assertion that the name has no slash. Without a
  name or a directory the answer is -1.
\<close>

theorem clog_init_starts:
  assumes "read_conf conf = Some c" "dir_exists \<or> mkdir_ok" "0 < now"
  shows "(\<exists>st. muduo_clog_init True pi True now dk dir_exists mkdir_ok conf g (Some pn) = Some (0, Some st) \<and>
      muduo_clog_level st = level_no g \<and> async_start lf_sink_text lf_sink_inv kLargeBuffer (g_asyncLog st) \<and>
      rollSize (sk_log (out (g_asyncLog st))) = LogFileSize c \<and> 8000000 < LogFileSize c \<and>
      lf_basename (sk_log (out (g_asyncLog st))) = CLOG_DIR @ take (255 - length CLOG_DIR) pn) \<and>
    muduo_clog_init False pi True now dk dir_exists mkdir_ok conf g (Some pn) = None \<and>
    muduo_clog_init ndebug pi True now dk dir_exists mkdir_ok conf g None = Some (- 1, None) \<and>
    muduo_clog_init ndebug pi True now dk False False conf g (Some pn) = Some (- 1, None)"
proof -
  have c: "8000000 < LogFileSize c" using read_conf_ok [OF assms(1)] by (simp add: conf_ok_def)
  have slash: "CHR ''/'' \<in> set CLOG_DIR" by (simp add: CLOG_DIR_def)
  have ok: "\<not> (\<not> dir_exists \<and> \<not> mkdir_ok)" using assms(2) by blast
  show ?thesis
    using c assms(1,3) slash ok
    by (auto simp: muduo_clog_init_def new_LogFile_def rollFile_def new_AppendFile_def async_start_def async_init_def
        lf_sink_inv_def lf_sink_text_def went_to_def snprintf_text_def Let_def)
qed

section \<open>Witnesses\<close>

abbreviation demo_start :: "lf_sink AsyncLogging" where
  "demo_start \<equiv> async_init kLargeBuffer demo_sink"

lemma demo_start_reached: "async_reach demo_proc kLargeBuffer demo_start"
  by (rule at_start) (use demo_sink_ok in \<open>auto simp: async_start_def\<close>)

lemma demo_call_ok: "call_ok demo_env fresh_vars INFO CLOG_INFO 12" "call_ok demo_env fresh_vars INFO CLOG_FATAL 12"
  using demo_env_ok
  by (simp_all add: call_ok_def less_eq_LogLevel_def less_LogLevel_def macro_level_def int_limits) (simp_all add: demo_env_def)

lemma async_append_quiet:
  assumes "async_append garbage l a = Some a'" "quiet a" "length (buffers a) \<le> 23"
  shows "quiet (a'\<lparr>accepted := x\<rparr>) \<and> length (buffers a') \<le> Suc (length (buffers a))"
  using assms by (auto simp: async_append_def quiet_def overran_def Let_def split: if_splits option.splits)

lemma run_effects_quiet:
  "run_effects garbage es a = Some (a', x) \<Longrightarrow> quiet a \<Longrightarrow> length (buffers a) + length es \<le> 24 \<Longrightarrow> quiet a'"
proof (induction garbage es a rule: run_effects.induct)
  case (2 garbage l es a)
  from 2(2) obtain b where b: "async_append garbage l a = Some b" "run_effects garbage es (b\<lparr>accepted := accepted a @ [l]\<rparr>) = Some (a', x)"
    by (auto simp: asyncOutput_def bind_eq_Some_conv)
  have "quiet (b\<lparr>accepted := accepted a @ [l]\<rparr>)" "length (buffers b) \<le> Suc (length (buffers a))"
    using async_append_quiet [OF b(1) 2(3)] 2(4) by auto
  then show ?case using 2(1) [of "b\<lparr>accepted := accepted a @ [l]\<rparr>"] b 2(4) by (simp add: asyncOutput_def)
qed simp_all



theorem clog_init_starts_witness:
  "\<exists>st. muduo_clog_init True demo_proc True 10 Map.empty True False None INFO (Some ''app'') = Some (0, Some st) \<and>
    muduo_clog_level st = 2 \<and> async_start lf_sink_text lf_sink_inv kLargeBuffer (g_asyncLog st)"
  using clog_init_starts [of None "\<lparr>cf_level = 2, LogFileSize = 524288000\<rparr>" True False 10 demo_proc Map.empty INFO "''app''"]
  by (auto simp: read_conf_def new_ConfFileRead_def)

end
