(* ===== verification/Muduo_Queue.thy ===== *)
theory Muduo_Queue
  imports LcPrelude
begin

text \<open>
  \<open>src/src/log/muduo-clog/muduo/base/BlockingQueue.h\<close>, \<open>BoundedBlockingQueue.h\<close>, \<open>CountDownLatch.h\<close>,
  \<open>CountDownLatch.cc\<close>: the monitors of the muduo base library.

  A region under a mutex is one step; a wait on a condition releases the mutex and ends the step. The
  threads inside an operation are a multiset of locations: ready to enter the region, or waiting on a
  condition. \<open>notify\<close> makes one of the waiting threads ready, any of them, and does nothing when there
  is none; a waiting thread may also wake up spuriously. The lemmas show order, bounds, and that no
  wake-up is lost.
\<close>

section \<open>BlockingQueue and BoundedBlockingQueue\<close>

text \<open>One relation for both classes: \<open>bq_capacity\<close> is \<^term>\<open>None\<close> for the unbounded one, in which nobody waits to put.\<close>

datatype 'a qpc = QPut 'a | QPutWait 'a | QTake | QTakeWait

record 'a bqueue =
  bq_items :: "'a list"
  bq_capacity :: "nat option"
  bq_threads :: "'a qpc multiset"
  bq_put :: "'a list"
  bq_taken :: "'a list"

definition bq_full :: "'a bqueue \<Rightarrow> bool" where
  "bq_full q = (case bq_capacity q of None \<Rightarrow> False | Some c \<Rightarrow> length (bq_items q) \<ge> c)"

definition bq_empty :: "'a bqueue \<Rightarrow> bool" where
  "bq_empty q \<longleftrightarrow> bq_items q = []"

definition bq_size :: "'a bqueue \<Rightarrow> nat" where
  "bq_size q = length (bq_items q)"

text \<open>\<open>move x y T\<close>: one thread goes from \<open>x\<close> to \<open>y\<close>.\<close>

definition move :: "'p \<Rightarrow> 'p \<Rightarrow> 'p multiset \<Rightarrow> 'p multiset" where
  "move x y T = add_mset y (T - {#x#})"

inductive notify :: "('p \<Rightarrow> 'p option) \<Rightarrow> 'p multiset \<Rightarrow> 'p multiset \<Rightarrow> bool" for woken where
  one: "p \<in># T \<Longrightarrow> woken p = Some p' \<Longrightarrow> notify woken T (move p p' T)"
| none: "\<forall>p \<in># T. woken p = None \<Longrightarrow> notify woken T T"

fun woken_take :: "'a qpc \<Rightarrow> 'a qpc option" where
  "woken_take QTakeWait = Some QTake" | "woken_take _ = None"

fun woken_put :: "'a qpc \<Rightarrow> 'a qpc option" where
  "woken_put (QPutWait x) = Some (QPut x)" | "woken_put _ = None"

inductive bq_step :: "'a bqueue \<Rightarrow> 'a bqueue \<Rightarrow> bool" where
  call_put: "bq_step q (q\<lparr>bq_threads := add_mset (QPut x) (bq_threads q)\<rparr>)"
| call_take: "bq_step q (q\<lparr>bq_threads := add_mset QTake (bq_threads q)\<rparr>)"
| put_wait: "QPut x \<in># bq_threads q \<Longrightarrow> bq_full q \<Longrightarrow> bq_step q (q\<lparr>bq_threads := move (QPut x) (QPutWait x) (bq_threads q)\<rparr>)"
| put: "QPut x \<in># bq_threads q \<Longrightarrow> \<not> bq_full q \<Longrightarrow> notify woken_take (bq_threads q - {#QPut x#}) T \<Longrightarrow>
    bq_step q (q\<lparr>bq_items := bq_items q @ [x], bq_threads := T, bq_put := bq_put q @ [x]\<rparr>)"
| take_wait: "QTake \<in># bq_threads q \<Longrightarrow> bq_empty q \<Longrightarrow> bq_step q (q\<lparr>bq_threads := move QTake QTakeWait (bq_threads q)\<rparr>)"
| take: "QTake \<in># bq_threads q \<Longrightarrow> bq_items q = x # xs \<Longrightarrow> notify woken_put (bq_threads q - {#QTake#}) T \<Longrightarrow>
    bq_step q (q\<lparr>bq_items := xs, bq_threads := T, bq_taken := bq_taken q @ [x]\<rparr>)"
| spurious: "p \<in># bq_threads q \<Longrightarrow> woken_take p = Some p' \<or> woken_put p = Some p' \<Longrightarrow>
    bq_step q (q\<lparr>bq_threads := move p p' (bq_threads q)\<rparr>)"

definition bq_start :: "nat option \<Rightarrow> 'a bqueue \<Rightarrow> bool" where
  "bq_start c q \<longleftrightarrow> q = \<lparr>bq_items = [], bq_capacity = c, bq_threads = {#}, bq_put = [], bq_taken = []\<rparr>"

inductive_cases notifyE: "notify woken T T'"

text \<open>The invariant: order, capacity, and for either condition at least as many ready threads as there is work, when somebody waits.\<close>

definition ready_puts :: "'a qpc multiset \<Rightarrow> nat" where
  "ready_puts T = size (filter_mset (\<lambda>p. \<exists>x. p = QPut x) T)"

definition bq_inv :: "nat option \<Rightarrow> 'a bqueue \<Rightarrow> bool" where
  "bq_inv c q \<longleftrightarrow> bq_capacity q = c \<and> bq_put q = bq_taken q @ bq_items q \<and>
     (\<forall>k. c = Some k \<longrightarrow> length (bq_items q) \<le> k) \<and>
     (QTakeWait \<in># bq_threads q \<longrightarrow> length (bq_items q) \<le> count (bq_threads q) QTake) \<and>
     (\<forall>x. QPutWait x \<in># bq_threads q \<longrightarrow> (\<exists>k. c = Some k \<and> k \<le> length (bq_items q) + ready_puts (bq_threads q)))"

lemma move_iff: "x \<in># T \<Longrightarrow> p \<in># move x y T \<longleftrightarrow> p = y \<or> (if p = x then count T x > 1 else p \<in># T)"
  by (auto simp: move_def count_greater_zero_iff [symmetric] simp del: count_greater_zero_iff)

lemma count_move: "x \<in># T \<Longrightarrow> x \<noteq> y \<Longrightarrow> count (move x y T) p = (if p = y then count T p + 1 else if p = x then count T p - 1 else count T p)"
  by (simp add: move_def)

lemma ready_puts_simps [simp]:
  "ready_puts (add_mset (QPut x) T) = Suc (ready_puts T)" "ready_puts (add_mset QTake T) = ready_puts T"
  "ready_puts (add_mset QTakeWait T) = ready_puts T" "ready_puts (add_mset (QPutWait x) T) = ready_puts T"
  by (simp_all add: ready_puts_def)

lemma ready_puts_diff:
  "QPut x \<in># T \<Longrightarrow> Suc (ready_puts (T - {#QPut x#})) = ready_puts T"
  "ready_puts (T - {#QTake#}) = ready_puts T" "ready_puts (T - {#QTakeWait#}) = ready_puts T" "ready_puts (T - {#QPutWait x#}) = ready_puts T"
proof -
  show "Suc (ready_puts (T - {#QPut x#})) = ready_puts T" if "QPut x \<in># T"
    using that by (metis insert_DiffM ready_puts_simps(1))
  show "ready_puts (T - {#QTake#}) = ready_puts T" by (metis diff_single_trivial insert_DiffM ready_puts_simps(2))
  show "ready_puts (T - {#QTakeWait#}) = ready_puts T" by (metis diff_single_trivial insert_DiffM ready_puts_simps(3))
  show "ready_puts (T - {#QPutWait x#}) = ready_puts T" by (metis diff_single_trivial insert_DiffM ready_puts_simps(4))
qed

lemma ready_put_exists: "0 < ready_puts T \<Longrightarrow> \<exists>y. QPut y \<in># T"
proof -
  assume "0 < ready_puts T"
  then have "filter_mset (\<lambda>p. \<exists>x. p = QPut x) T \<noteq> {#}" unfolding ready_puts_def by (metis less_irrefl size_empty)
  then obtain p where "p \<in># filter_mset (\<lambda>p. \<exists>x. p = QPut x) T" by (rule multiset_nonemptyE)
  then show ?thesis by auto
qed

lemma woken_take_Some: "woken_take p = Some p' \<longleftrightarrow> p = QTakeWait \<and> p' = QTake"
  by (cases p) auto

lemma woken_put_Some: "woken_put p = Some p' \<longleftrightarrow> (\<exists>x. p = QPutWait x \<and> p' = QPut x)"
  by (cases p) auto

text \<open>Notifying takers leaves the putters alone and makes one waiting taker ready, and the other way round.\<close>

lemma notify_take:
  assumes "notify woken_take T T'"
  shows "ready_puts T' = ready_puts T" "QPutWait x \<in># T' \<longleftrightarrow> QPutWait x \<in># T"
    "QTakeWait \<in># T' \<Longrightarrow> QTakeWait \<in># T \<and> count T' QTake = Suc (count T QTake)" 
  using assms
proof (atomize (full), cases)
  case (one p p')
  then have p: "p = QTakeWait" "p' = QTake" by (simp_all add: woken_take_Some)
  then show "ready_puts T' = ready_puts T \<and> (QPutWait x \<in># T' \<longleftrightarrow> QPutWait x \<in># T) \<and>
      (QTakeWait \<in># T' \<longrightarrow> QTakeWait \<in># T \<and> count T' QTake = Suc (count T QTake))"
    using one by (auto simp: move_def ready_puts_diff in_diff_count)
next
  case none
  then have "QTakeWait \<notin># T" by force
  then show "ready_puts T' = ready_puts T \<and> (QPutWait x \<in># T' \<longleftrightarrow> QPutWait x \<in># T) \<and>
      (QTakeWait \<in># T' \<longrightarrow> QTakeWait \<in># T \<and> count T' QTake = Suc (count T QTake))"
    using none by simp
qed

lemma notify_put:
  assumes "notify woken_put T T'"
  shows "count T' QTake = count T QTake \<and> (QTakeWait \<in># T' \<longleftrightarrow> QTakeWait \<in># T) \<and>
    (QPutWait x \<in># T' \<longrightarrow> (\<exists>y. QPutWait y \<in># T) \<and> ready_puts T' = Suc (ready_puts T))"
  using assms
proof cases
  case (one p p')
  then obtain y where p: "p = QPutWait y" "p' = QPut y" by (auto simp: woken_put_Some)
  then show ?thesis using one by (auto simp: move_def ready_puts_diff in_diff_count)
next
  case none
  then have "\<forall>y. QPutWait y \<notin># T" by force
  then show ?thesis using none by simp
qed

lemma bq_inv_step:
  assumes "bq_step q q'" "bq_inv c q"
  shows "bq_inv c q'"
  using assms(1)
proof cases
  case (call_put x)
  then show ?thesis using assms(2) by (auto simp: bq_inv_def)
next
  case call_take
  then show ?thesis using assms(2) by (auto simp: bq_inv_def)
next
  case (put_wait x)
  have "Suc (ready_puts (bq_threads q - {#QPut x#})) = ready_puts (bq_threads q)" by (rule ready_puts_diff(1) [OF put_wait(2)])
  then show ?thesis using assms(2) put_wait
    by (auto simp: bq_inv_def bq_full_def move_def in_diff_count split: option.splits)
next
  case (put x T)
  define T0 where "T0 = bq_threads q - {#QPut x#}"
  have r: "Suc (ready_puts T0) = ready_puts (bq_threads q)" unfolding T0_def by (rule ready_puts_diff(1) [OF put(2)])
  have n: "ready_puts T = ready_puts T0" "\<And>y. QPutWait y \<in># T \<longleftrightarrow> QPutWait y \<in># T0"
    "QTakeWait \<in># T \<Longrightarrow> QTakeWait \<in># T0 \<and> count T QTake = Suc (count T0 QTake)"
    using notify_take [OF put(4)] by (simp_all add: T0_def)
  have t: "QTakeWait \<in># T0 \<Longrightarrow> QTakeWait \<in># bq_threads q" "QPutWait y \<in># T0 \<Longrightarrow> QPutWait y \<in># bq_threads q"
    "count T0 QTake = count (bq_threads q) QTake" for y by (auto simp: T0_def in_diff_count)
  show ?thesis using assms(2) put(1,3) n r t unfolding bq_inv_def
    by (auto simp: bq_full_def split: option.splits)
next
  case take_wait
  then show ?thesis using assms(2)
    by (auto simp: bq_inv_def bq_empty_def move_def in_diff_count ready_puts_diff)
next
  case (take x xs T)
  define T0 where "T0 = bq_threads q - {#QTake#}"
  have r: "ready_puts T0 = ready_puts (bq_threads q)" unfolding T0_def by (rule ready_puts_diff(2))
  have n: "count T QTake = count T0 QTake" "QTakeWait \<in># T \<longleftrightarrow> QTakeWait \<in># T0"
    "\<And>y. QPutWait y \<in># T \<Longrightarrow> (\<exists>z. QPutWait z \<in># T0) \<and> ready_puts T = Suc (ready_puts T0)"
    using notify_put [OF take(4)] by (auto simp: T0_def)
  have t: "QTakeWait \<in># T0 \<Longrightarrow> QTakeWait \<in># bq_threads q" "QPutWait y \<in># T0 \<Longrightarrow> QPutWait y \<in># bq_threads q"
    "Suc (count T0 QTake) = count (bq_threads q) QTake" for y using take(2) by (auto simp: T0_def in_diff_count)
  show ?thesis using assms(2) take(1,3) n r t unfolding bq_inv_def by fastforce
next
  case (spurious p p')
  then show ?thesis using assms(2)
    by (auto simp: bq_inv_def woken_take_Some woken_put_Some move_def in_diff_count ready_puts_diff)
qed

interpretation bq: step_system "bq_start c" bq_step "bq_inv c" for c
proof
  show "bq_start c q \<Longrightarrow> bq_inv c q" for q :: "'a bqueue" by (simp add: bq_start_def bq_inv_def)
qed (rule bq_inv_step)

abbreviation bq_reach :: "nat option \<Rightarrow> 'a bqueue \<Rightarrow> bool" where
  "bq_reach c \<equiv> reachable (bq_start c) bq_step"

text \<open>
  C9: the blocking queues are queues and lose no wake-up. In every interleaving of any number of threads,
  what was taken and what is in the queue is what was put, in order; the bounded queue never exceeds its
  capacity; when a thread waits to take although the queue is not empty, another one is already on its
  way to take, and when a thread waits to put although there is room, another one is on its way to put.
\<close>

theorem blocking_queue_no_lost_wakeup:
  assumes "bq_reach c q"
  shows "bq_put q = bq_taken q @ bq_items q \<and> (\<forall>k. c = Some k \<longrightarrow> bq_size q \<le> k) \<and>
    (QTakeWait \<in># bq_threads q \<and> \<not> bq_empty q \<longrightarrow> QTake \<in># bq_threads q) \<and>
    (\<forall>x. QPutWait x \<in># bq_threads q \<and> \<not> bq_full q \<longrightarrow> (\<exists>y. QPut y \<in># bq_threads q))"
proof -
  have i: "bq_inv c q" by (rule bq.reachable_inv [OF assms])
  have "QTake \<in># bq_threads q" if "QTakeWait \<in># bq_threads q" "\<not> bq_empty q"
  proof -
    have "0 < length (bq_items q)" using that(2) by (simp add: bq_empty_def)
    then have "0 < count (bq_threads q) QTake" using i that(1) unfolding bq_inv_def by linarith
    then show ?thesis by simp
  qed
  moreover have "\<exists>y. QPut y \<in># bq_threads q" if "QPutWait x \<in># bq_threads q" "\<not> bq_full q" for x
  proof -
    have "0 < ready_puts (bq_threads q)" using i that by (auto simp: bq_inv_def bq_full_def)
    then show ?thesis by (rule ready_put_exists)
  qed
  ultimately show ?thesis using i by (auto simp: bq_inv_def bq_size_def)
qed

text \<open>One thread has put its element into a queue of one place while another waits to take.\<close>

definition demo_queue :: "nat bqueue" where
  "demo_queue = \<lparr>bq_items = [7], bq_capacity = Some 1, bq_threads = {#QTake#}, bq_put = [7], bq_taken = []\<rparr>"

lemma demo_queue_reached: "bq_reach (Some 1) demo_queue"
proof -
  define q where "q T = \<lparr>bq_items = [], bq_capacity = Some 1, bq_threads = T, bq_put = [], bq_taken = []\<rparr>" for T :: "nat qpc multiset"
  have "bq_reach (Some 1) (q {#})" by (rule at_start) (simp add: bq_start_def q_def)
  moreover have "bq_step (q {#}) (q {#QTake#})" using call_take [of "q {#}"] by (simp add: q_def)
  moreover have "bq_step (q {#QTake#}) (q {#QTakeWait#})" using take_wait [of "q {#QTake#}"] by (simp add: q_def bq_empty_def move_def)
  moreover have "bq_step (q {#QTakeWait#}) (q {#QPut 7, QTakeWait#})" using call_put [of "q {#QTakeWait#}" 7] by (simp add: q_def)
  moreover have "bq_step (q {#QPut 7, QTakeWait#}) demo_queue"
    using put [of 7 "q {#QPut 7, QTakeWait#}" "{#QTake#}"] notify.one [of QTakeWait "{#QTakeWait#}" woken_take QTake]
    by (simp add: q_def bq_full_def demo_queue_def move_def)
  ultimately show ?thesis by (blast intro: by_step)
qed

theorem blocking_queue_no_lost_wakeup_witness:
  "bq_put demo_queue = bq_taken demo_queue @ bq_items demo_queue \<and> bq_size demo_queue \<le> 1"
  using blocking_queue_no_lost_wakeup [OF demo_queue_reached] by simp

section \<open>CountDownLatch\<close>

record latch =
  la_count :: int
  la_ready :: nat
  la_waiting :: nat
  la_passed :: nat

text \<open>\<open>notifyAll\<close> makes every waiting thread ready. The count is unbounded here; in the code it is an \<open>int\<close>.\<close>

inductive latch_step :: "latch \<Rightarrow> latch \<Rightarrow> bool" where
  call_wait: "latch_step l (l\<lparr>la_ready := Suc (la_ready l)\<rparr>)"
| wait: "la_ready l = Suc r \<Longrightarrow> la_count l > 0 \<Longrightarrow> latch_step l (l\<lparr>la_ready := r, la_waiting := Suc (la_waiting l)\<rparr>)"
| pass: "la_ready l = Suc r \<Longrightarrow> \<not> la_count l > 0 \<Longrightarrow> latch_step l (l\<lparr>la_ready := r, la_passed := Suc (la_passed l)\<rparr>)"
| countDown: "latch_step l (if la_count l - 1 = 0
      then l\<lparr>la_count := la_count l - 1, la_ready := la_ready l + la_waiting l, la_waiting := 0\<rparr>
      else l\<lparr>la_count := la_count l - 1\<rparr>)"
| spuriously: "la_waiting l = Suc w \<Longrightarrow> latch_step l (l\<lparr>la_waiting := w, la_ready := Suc (la_ready l)\<rparr>)"

definition latch_start :: "int \<Rightarrow> latch \<Rightarrow> bool" where
  "latch_start n l \<longleftrightarrow> l = \<lparr>la_count = n, la_ready = 0, la_waiting = 0, la_passed = 0\<rparr>"

definition latch_inv :: "latch \<Rightarrow> bool" where
  "latch_inv l \<longleftrightarrow> (la_waiting l > 0 \<longrightarrow> la_count l > 0) \<and> (la_passed l > 0 \<longrightarrow> la_count l \<le> 0)"

interpretation latch: step_system "latch_start n" latch_step latch_inv for n
proof
  show "latch_start n l \<Longrightarrow> latch_inv l" for l by (simp add: latch_start_def latch_inv_def)
  show "latch_step l l' \<Longrightarrow> latch_inv l \<Longrightarrow> latch_inv l'" for l l'
    by (induction rule: latch_step.induct) (auto simp: latch_inv_def)
qed

text \<open>
  A thread passes the latch only when it has been counted down to zero, and then no thread stays
  behind: while the count is positive nobody has passed, and once it is not, nobody waits and the next
  step of a thread that entered lets it pass.
\<close>

theorem latch_opens_for_all:
  assumes "reachable (latch_start n) latch_step l"
  shows "(la_count l > 0 \<longrightarrow> la_passed l = 0) \<and>
    (la_count l \<le> 0 \<longrightarrow> la_waiting l = 0 \<and>
      (\<forall>r. la_ready l = Suc r \<longrightarrow> latch_step l (l\<lparr>la_ready := r, la_passed := Suc (la_passed l)\<rparr>)))"
proof -
  have i: "latch_inv l" by (rule latch.reachable_inv [OF assms])
  have "latch_step l (l\<lparr>la_ready := r, la_passed := Suc (la_passed l)\<rparr>)" if "la_count l \<le> 0" "la_ready l = Suc r" for r
    using that by (intro pass) simp_all
  with i show ?thesis by (auto simp: latch_inv_def)
qed

theorem latch_opens_for_all_witness:
  "la_waiting \<lparr>la_count = 0, la_ready = 1, la_waiting = 0, la_passed = 0\<rparr> = 0 \<and>
    latch_step \<lparr>la_count = 0, la_ready = 1, la_waiting = 0, la_passed = 0\<rparr> \<lparr>la_count = 0, la_ready = 0, la_waiting = 0, la_passed = 1\<rparr>"
proof -
  define l where "l c r w = \<lparr>la_count = c, la_ready = r, la_waiting = w, la_passed = 0\<rparr>" for c :: int and r w :: nat
  have "reachable (latch_start 1) latch_step (l 1 0 0)" by (rule at_start) (simp add: latch_start_def l_def)
  moreover have "latch_step (l 1 0 0) (l 1 1 0)" using call_wait [of "l 1 0 0"] by (simp add: l_def)
  moreover have "latch_step (l 1 1 0) (l 1 0 1)" using wait [of "l 1 1 0" 0] by (simp add: l_def)
  moreover have "latch_step (l 1 0 1) (l 0 1 0)" using countDown [of "l 1 0 1"] by (simp add: l_def)
  ultimately have "reachable (latch_start 1) latch_step (l 0 1 0)" by (blast intro: by_step)
  from latch_opens_for_all [OF this] show ?thesis by (simp add: l_def)
qed

end
