(* ===== verification/Muduo_Pool.thy ===== *)
theory Muduo_Pool
  imports Muduo_Queue
begin

text \<open>
  \<open>src/src/log/muduo-clog/muduo/base/ThreadPool.h\<close> and \<open>ThreadPool.cc\<close>: tasks are put into a queue and
  run by a fixed number of threads.

  The same view of threads, mutex and conditions as in the theory \<open>Muduo_Queue\<close>: callers of \<open>run\<close> and
  workers in \<open>runInThread\<close> are a multiset of locations. The tasks do not throw.
\<close>

section \<open>ThreadPool\<close>

text \<open>Callers: ready to enter, or waiting on \<open>notFull_\<close>. Workers: at the head of the loop, ready to enter \<open>take\<close>, waiting
  on \<open>notEmpty_\<close>, with a task, ended.\<close>

datatype 't ppc = PRun 't | PRunWait 't | WTop | WTake | WTakeWait | WTask 't | WExit

record 't pool =
  p_running :: bool
  p_queue :: "'t list"
  p_max :: nat
  p_workers :: nat
  p_threads :: "'t ppc multiset"
  p_submitted :: "'t list"
  p_started :: "'t list"

definition isFull :: "'t pool \<Rightarrow> bool" where
  "isFull p \<longleftrightarrow> p_max p > 0 \<and> length (p_queue p) \<ge> p_max p"

definition queueSize :: "'t pool \<Rightarrow> nat" where
  "queueSize p = length (p_queue p)"

fun woken_work :: "'t ppc \<Rightarrow> 't ppc option" where
  "woken_work WTakeWait = Some WTake" | "woken_work _ = None"

fun woken_run :: "'t ppc \<Rightarrow> 't ppc option" where
  "woken_run (PRunWait t) = Some (PRun t)" | "woken_run _ = None"

text \<open>\<open>start\<close>, with the limit of \<open>setMaxQueueSize\<close>; \<open>p_workers\<close> is the size of \<open>threads_\<close>.\<close>

definition pool_start :: "nat \<Rightarrow> nat \<Rightarrow> 't pool \<Rightarrow> bool" where
  "pool_start numThreads maxSize p \<longleftrightarrow> p = \<lparr>p_running = True, p_queue = [], p_max = maxSize,
     p_workers = numThreads, p_threads = replicate_mset numThreads WTop, p_submitted = [], p_started = []\<rparr>"

text \<open>\<open>notifyAll\<close> on \<open>notEmpty_\<close>.\<close>

definition wake_workers :: "'t ppc multiset \<Rightarrow> 't ppc multiset" where
  "wake_workers T = image_mset (\<lambda>x. if x = WTakeWait then WTake else x) T"

inductive pool_step :: "'t pool \<Rightarrow> 't pool \<Rightarrow> bool" where
  call_run: "pool_step p (p\<lparr>p_threads := add_mset (PRun t) (p_threads p)\<rparr>)"
| run_here: "PRun t \<in># p_threads p \<Longrightarrow> p_workers p = 0 \<Longrightarrow>
    pool_step p (p\<lparr>p_threads := p_threads p - {#PRun t#}, p_submitted := p_submitted p @ [t], p_started := p_started p @ [t]\<rparr>)"
| run_wait: "PRun t \<in># p_threads p \<Longrightarrow> 0 < p_workers p \<Longrightarrow> isFull p \<Longrightarrow>
    pool_step p (p\<lparr>p_threads := move (PRun t) (PRunWait t) (p_threads p)\<rparr>)"
| run: "PRun t \<in># p_threads p \<Longrightarrow> 0 < p_workers p \<Longrightarrow> \<not> isFull p \<Longrightarrow> notify woken_work (p_threads p - {#PRun t#}) T \<Longrightarrow>
    pool_step p (p\<lparr>p_queue := p_queue p @ [t], p_threads := T, p_submitted := p_submitted p @ [t]\<rparr>)"
| loop: "WTop \<in># p_threads p \<Longrightarrow> pool_step p (p\<lparr>p_threads := move WTop (if p_running p then WTake else WExit) (p_threads p)\<rparr>)"
| work_wait: "WTake \<in># p_threads p \<Longrightarrow> p_queue p = [] \<Longrightarrow> p_running p \<Longrightarrow>
    pool_step p (p\<lparr>p_threads := move WTake WTakeWait (p_threads p)\<rparr>)"
| work_none: "WTake \<in># p_threads p \<Longrightarrow> p_queue p = [] \<Longrightarrow> \<not> p_running p \<Longrightarrow>
    pool_step p (p\<lparr>p_threads := move WTake WTop (p_threads p)\<rparr>)"
| work_take: "WTake \<in># p_threads p \<Longrightarrow> p_queue p = t # ts \<Longrightarrow>
    (if p_max p > 0 then notify woken_run (p_threads p - {#WTake#}) T else T = p_threads p - {#WTake#}) \<Longrightarrow>
    pool_step p (p\<lparr>p_queue := ts, p_threads := add_mset (WTask t) T, p_started := p_started p @ [t]\<rparr>)"
| work_done: "WTask t \<in># p_threads p \<Longrightarrow> pool_step p (p\<lparr>p_threads := move (WTask t) WTop (p_threads p)\<rparr>)"
| pool_stop: "pool_step p (p\<lparr>p_running := False, p_threads := wake_workers (p_threads p)\<rparr>)"
| p_spurious: "x \<in># p_threads p \<Longrightarrow> woken_work x = Some x' \<or> woken_run x = Some x' \<Longrightarrow>
    pool_step p (p\<lparr>p_threads := move x x' (p_threads p)\<rparr>)"

section \<open>Invariant\<close>

definition ready_runs :: "'t ppc multiset \<Rightarrow> nat" where
  "ready_runs T = size (filter_mset (\<lambda>x. \<exists>t. x = PRun t) T)"

definition pool_inv :: "nat \<Rightarrow> 't pool \<Rightarrow> bool" where
  "pool_inv maxSize p \<longleftrightarrow> p_max p = maxSize \<and> p_submitted p = p_started p @ p_queue p \<and>
     (p_workers p = 0 \<longrightarrow> p_queue p = []) \<and> (maxSize > 0 \<longrightarrow> length (p_queue p) \<le> maxSize) \<and>
     (WTakeWait \<in># p_threads p \<longrightarrow> p_running p \<and> length (p_queue p) \<le> count (p_threads p) WTake) \<and>
     (\<forall>t. PRunWait t \<in># p_threads p \<longrightarrow> maxSize > 0 \<and> 0 < p_workers p \<and>
        maxSize \<le> length (p_queue p) + ready_runs (p_threads p))"

lemma ready_runs_add [simp]: "ready_runs (add_mset x T) = (if \<exists>t. x = PRun t then Suc (ready_runs T) else ready_runs T)"
  by (simp add: ready_runs_def)

lemma ready_runs_diff: "x \<in># T \<Longrightarrow> ready_runs T = (if \<exists>t. x = PRun t then Suc (ready_runs (T - {#x#})) else ready_runs (T - {#x#}))"
  by (metis insert_DiffM ready_runs_add)

lemma ready_runs_drop: "PRun t \<in># T \<Longrightarrow> Suc (ready_runs (T - {#PRun t#})) = ready_runs T"
  by (subst (2) ready_runs_diff [of "PRun t"]) auto

lemma ready_runs_keep: "x \<in># T \<Longrightarrow> \<nexists>t. x = PRun t \<Longrightarrow> ready_runs (T - {#x#}) = ready_runs T"
  using ready_runs_diff [of x T] by presburger

text \<open>A thread that moves on leaves the other locations as they were.\<close>

lemma in_drop: "z \<noteq> x \<Longrightarrow> z \<in># T - {#x#} \<longleftrightarrow> z \<in># T"
  by (simp add: in_diff_count)

lemma in_move: "z \<noteq> x \<Longrightarrow> z \<in># move x y T \<longleftrightarrow> z = y \<or> z \<in># T"
  by (simp add: move_def in_drop)

lemma count_moved: "z \<noteq> x \<Longrightarrow> count (move x y T) z = (if z = y then Suc (count T z) else count T z)"
  by (auto simp: move_def)

lemma ready_runs_move: "x \<in># T \<Longrightarrow> \<nexists>t. x = PRun t \<Longrightarrow> \<nexists>t. y = PRun t \<Longrightarrow> ready_runs (move x y T) = ready_runs T"
  by (simp add: move_def ready_runs_keep)

lemmas moved = in_drop in_move count_moved ready_runs_move ready_runs_keep

lemma woken_work_Some: "woken_work x = Some x' \<longleftrightarrow> x = WTakeWait \<and> x' = WTake"
  by (cases x) auto

lemma woken_run_Some: "woken_run x = Some x' \<longleftrightarrow> (\<exists>t. x = PRunWait t \<and> x' = PRun t)"
  by (cases x) auto

lemma notify_work:
  assumes "notify woken_work T T'"
  shows "ready_runs T' = ready_runs T \<and> (PRunWait t \<in># T' \<longleftrightarrow> PRunWait t \<in># T) \<and>
    (WTakeWait \<in># T' \<longrightarrow> WTakeWait \<in># T \<and> count T' WTake = Suc (count T WTake))"
  using assms
proof cases
  case (one p p')
  then have p: "p = WTakeWait" "p' = WTake" by (simp_all add: woken_work_Some)
  then show ?thesis using one ready_runs_diff [OF one(2)] by (auto simp: move_def in_diff_count)
next
  case none
  then have "WTakeWait \<notin># T" by force
  then show ?thesis using none by simp
qed

lemma notify_run:
  assumes "notify woken_run T T'"
  shows "count T' WTake = count T WTake \<and> (WTakeWait \<in># T' \<longleftrightarrow> WTakeWait \<in># T) \<and>
    (PRunWait t \<in># T' \<longrightarrow> (\<exists>u. PRunWait u \<in># T) \<and> ready_runs T' = Suc (ready_runs T))"
  using assms
proof cases
  case (one p p')
  then obtain u where p: "p = PRunWait u" "p' = PRun u" by (auto simp: woken_run_Some)
  then show ?thesis using one ready_runs_diff [OF one(2)] by (auto simp: move_def in_diff_count)
next
  case none
  then have "\<forall>u. PRunWait u \<notin># T" by force
  then show ?thesis using none by simp
qed

lemma wake_workers_in:
  "WTakeWait \<notin># wake_workers T" "PRunWait t \<in># wake_workers T \<longleftrightarrow> PRunWait t \<in># T" "ready_runs (wake_workers T) = ready_runs T"
proof -
  show "WTakeWait \<notin># wake_workers T" "PRunWait t \<in># wake_workers T \<longleftrightarrow> PRunWait t \<in># T"
    by (auto simp: wake_workers_def split: if_splits)
  show "ready_runs (wake_workers T) = ready_runs T" by (induction T) (auto simp: wake_workers_def)
qed

lemma pool_inv_step:
  assumes "pool_step p p'" "pool_inv m p"
  shows "pool_inv m p'"
  using assms(1)
proof cases
  case (call_run t)
  then show ?thesis using assms(2) by (auto simp: pool_inv_def)
next
  case (run_here t)
  then show ?thesis using assms(2) by (auto simp: pool_inv_def moved)
next
  case (run_wait t)
  then have "p_max p \<le> length (p_queue p)" "0 < p_max p" by (simp_all add: isFull_def)
  then show ?thesis using assms(2) run_wait(1,2,3) by (auto simp: pool_inv_def moved)
next
  case (run t T)
  define T0 where "T0 = p_threads p - {#PRun t#}"
  have n: "ready_runs T = ready_runs T0 \<and> (PRunWait u \<in># T \<longleftrightarrow> PRunWait u \<in># T0) \<and>
    (WTakeWait \<in># T \<longrightarrow> WTakeWait \<in># T0 \<and> count T WTake = Suc (count T0 WTake))" for u
    using notify_work [OF run(5)] by (simp add: T0_def)
  have t: "Suc (ready_runs T0) = ready_runs (p_threads p)" "WTakeWait \<in># T0 \<Longrightarrow> WTakeWait \<in># p_threads p"
    "PRunWait u \<in># T0 \<Longrightarrow> PRunWait u \<in># p_threads p" "count T0 WTake = count (p_threads p) WTake" for u
    using run(2) by (simp_all add: T0_def moved ready_runs_drop)
  show ?thesis using assms(2) run(1,3,4) n t unfolding pool_inv_def by (auto simp: isFull_def)
next
  case loop
  then show ?thesis using assms(2) by (auto simp: pool_inv_def moved)
next
  case work_wait
  then show ?thesis using assms(2) by (auto simp: pool_inv_def moved)
next
  case work_none
  then show ?thesis using assms(2) by (auto simp: pool_inv_def moved)
next
  case (work_take t ts T)
  define T0 where "T0 = p_threads p - {#WTake#}"
  have n: "count T WTake = count T0 WTake \<and> (WTakeWait \<in># T \<longleftrightarrow> WTakeWait \<in># T0) \<and>
    (PRunWait u \<in># T \<longrightarrow> (\<exists>w. PRunWait w \<in># T0) \<and> (p_max p > 0 \<longrightarrow> ready_runs T = Suc (ready_runs T0)))" for u
    using work_take(4) notify_run [of T0 T u] by (auto simp: T0_def split: if_splits)
  have t: "ready_runs T0 = ready_runs (p_threads p)" "WTakeWait \<in># T0 \<Longrightarrow> WTakeWait \<in># p_threads p"
    "PRunWait u \<in># T0 \<Longrightarrow> PRunWait u \<in># p_threads p" "Suc (count T0 WTake) = count (p_threads p) WTake" for u
    using work_take(2) by (simp_all add: T0_def moved)
  show ?thesis using assms(2) work_take(1,3) n t unfolding pool_inv_def by fastforce
next
  case (work_done t)
  then show ?thesis using assms(2) by (auto simp: pool_inv_def moved)
next
  case pool_stop
  then show ?thesis using assms(2) by (simp add: pool_inv_def wake_workers_in)
next
  case (p_spurious x x')
  then show ?thesis using assms(2) by (auto simp: pool_inv_def woken_work_Some woken_run_Some moved move_def)
qed

interpretation pool: step_system "pool_start k m" pool_step "pool_inv m" for k m
proof
  show "pool_start k m p \<Longrightarrow> pool_inv m p" for p :: "'t pool" by (auto simp: pool_start_def pool_inv_def split: if_splits)
qed (rule pool_inv_step)

section \<open>Order, bounds and wake-ups\<close>


definition demo_pool :: "string pool" where
  "demo_pool = \<lparr>p_running = True, p_queue = [], p_max = 1, p_workers = 1, p_threads = {#WTop#}, p_submitted = [], p_started = []\<rparr>"

text \<open>A pool with one worker and room for one task: two callers, one of them has to wait.\<close>

lemma demo_pool_waits:
  "reachable (pool_start 1 1) pool_step (demo_pool\<lparr>p_queue := [''a''], p_threads := {#PRunWait ''b'', WTop#}, p_submitted := [''a'']\<rparr>)"
proof -
  have 0: "reachable (pool_start 1 1) pool_step demo_pool"
    by (rule at_start) (simp add: pool_start_def demo_pool_def)
  have "pool_step demo_pool (demo_pool\<lparr>p_threads := {#PRun ''a'', WTop#}\<rparr>)"
    using call_run [of demo_pool "''a''"] by (simp add: demo_pool_def)
  note 1 = by_step [OF 0, OF this]
  have "pool_step (demo_pool\<lparr>p_threads := {#PRun ''a'', WTop#}\<rparr>)
      (demo_pool\<lparr>p_queue := [''a''], p_threads := {#WTop#}, p_submitted := [''a'']\<rparr>)"
    using run [of "''a''" "demo_pool\<lparr>p_threads := {#PRun ''a'', WTop#}\<rparr>" "{#WTop#}"] notify.none [of "{#WTop#}" woken_work]
    by (simp add: demo_pool_def isFull_def)
  note 2 = by_step [OF 1, OF this]
  have "pool_step (demo_pool\<lparr>p_queue := [''a''], p_threads := {#WTop#}, p_submitted := [''a'']\<rparr>)
      (demo_pool\<lparr>p_queue := [''a''], p_threads := {#PRun ''b'', WTop#}, p_submitted := [''a'']\<rparr>)"
    using call_run [of "demo_pool\<lparr>p_queue := [''a''], p_threads := {#WTop#}, p_submitted := [''a'']\<rparr>" "''b''"]
    by (simp add: demo_pool_def)
  note 3 = by_step [OF 2, OF this]
  have "pool_step (demo_pool\<lparr>p_queue := [''a''], p_threads := {#PRun ''b'', WTop#}, p_submitted := [''a'']\<rparr>)
      (demo_pool\<lparr>p_queue := [''a''], p_threads := {#PRunWait ''b'', WTop#}, p_submitted := [''a'']\<rparr>)"
    using run_wait [of "''b''" "demo_pool\<lparr>p_queue := [''a''], p_threads := {#PRun ''b'', WTop#}, p_submitted := [''a'']\<rparr>"]
    by (simp add: demo_pool_def isFull_def move_def)
  from by_step [OF 3, OF this] show ?thesis .
qed


section \<open>Stopping\<close>

text \<open>All workers have left their loop.\<close>

definition all_exited :: "'t pool \<Rightarrow> bool" where
  "all_exited p \<longleftrightarrow> (\<forall>x \<in># p_threads p. x = WExit \<or> (\<exists>t. x = PRun t \<or> x = PRunWait t))"

lemma stranded_step:
  assumes "pool_step p p'" "0 < p_workers p" "isFull p" "all_exited p"
  shows "0 < p_workers p' \<and> isFull p' \<and> all_exited p' \<and> p_submitted p' = p_submitted p \<and>
    p_queue p' = p_queue p \<and> p_started p' = p_started p"
  using assms
  by cases (fastforce simp: all_exited_def isFull_def move_def wake_workers_def woken_run_Some woken_work_Some dest: in_diffD)+

lemma stranded:
  assumes "pool_step\<^sup>*\<^sup>* p p'" "0 < p_workers p" "isFull p" "all_exited p"
  shows "0 < p_workers p' \<and> isFull p' \<and> all_exited p' \<and> p_submitted p' = p_submitted p \<and>
    p_queue p' = p_queue p \<and> p_started p' = p_started p"
  using assms by (induction rule: rtranclp_induct) (simp, use stranded_step in metis)

text \<open>
  \<open>ThreadPool::stop\<close> wakes the workers but not the callers waiting for room, and workers leave without
  emptying the queue. From a state in which the workers have ended and the queue is full, whatever is scheduled, the
  queue stays as it is and no call of \<open>run\<close>, neither a waiting one nor a new one, ever returns.
\<close>

theorem pool_stop_strands_callers:
  assumes "0 < p_workers p" "isFull p" "all_exited p" "pool_step\<^sup>*\<^sup>* p p'"
  shows "isFull p' \<and> p_queue p' = p_queue p \<and> p_submitted p' = p_submitted p \<and> p_started p' = p_started p"
  using stranded [OF assms(4,1-3)] by simp

text \<open>The waiting caller of \<open>demo_pool_waits\<close>: \<open>stop\<close> is called before the worker enters \<open>take\<close>.\<close>

lemma demo_pool_stopped:
  "reachable (pool_start 1 1) pool_step
     (demo_pool\<lparr>p_running := False, p_queue := [''a''], p_threads := {#PRunWait ''b'', WExit#}, p_submitted := [''a'']\<rparr>)"
proof -
  let ?p = "demo_pool\<lparr>p_running := False, p_queue := [''a''], p_threads := {#PRunWait ''b'', WTop#}, p_submitted := [''a'']\<rparr>"
  have "pool_step (demo_pool\<lparr>p_queue := [''a''], p_threads := {#PRunWait ''b'', WTop#}, p_submitted := [''a'']\<rparr>) ?p"
    using pool_stop [of "demo_pool\<lparr>p_queue := [''a''], p_threads := {#PRunWait ''b'', WTop#}, p_submitted := [''a'']\<rparr>"]
    by (simp add: demo_pool_def wake_workers_def)
  note 1 = by_step [OF demo_pool_waits, OF this]
  have "pool_step ?p (?p\<lparr>p_threads := {#PRunWait ''b'', WExit#}\<rparr>)"
    using loop [of ?p] by (simp add: demo_pool_def move_def add_mset_commute)
  from by_step [OF 1, OF this] show ?thesis by (simp add: demo_pool_def)
qed

theorem pool_stop_strands_callers_witness:
  "\<exists>p :: string pool. reachable (pool_start 1 1) pool_step p \<and> PRunWait ''b'' \<in># p_threads p \<and> p_submitted p = [''a''] \<and>
     (\<forall>p'. pool_step\<^sup>*\<^sup>* p p' \<longrightarrow> p_submitted p' = [''a''])"
proof -
  let ?p = "demo_pool\<lparr>p_running := False, p_queue := [''a''], p_threads := {#PRunWait ''b'', WExit#}, p_submitted := [''a'']\<rparr>"
  have "0 < p_workers ?p" "isFull ?p" "all_exited ?p" by (simp_all add: demo_pool_def isFull_def all_exited_def)
  from pool_stop_strands_callers [OF this] demo_pool_stopped show ?thesis
    by (intro exI [of _ ?p]) (simp add: demo_pool_def)
qed

end
