(* ===== verification/Muduo_Thread.thy ===== *)
theory Muduo_Thread
  imports Calendar
begin

text \<open>
  \<open>src/src/log/muduo-clog/muduo/base/Thread.h\<close>, \<open>Thread.cc\<close> and the rest of \<open>CurrentThread.h\<close>: starting,
  naming, joining and giving up a thread.

  The object \<open>Thread\<close> belongs to the thread that creates it and is gone after its destructor; the new
  thread has pointers to its members \<open>tid_\<close> and \<open>latch_\<close>. An access to them when the object is gone is
  \<^term>\<open>None\<close>. Both threads are at one of the locations of their code, the regions under the mutex of the
  latch are atomic, and \<open>pthread_create\<close> and \<open>pthread_join\<close> are written out after POSIX.
\<close>

section \<open>Thread\<close>

record Thread =
  th_started :: bool
  th_joined :: bool
  th_tid :: int
  th_name :: string
  th_latch :: int

text \<open>The constructor with \<open>setDefaultName\<close>; \<open>numCreated\<close> is the counter before.\<close>

definition setDefaultName :: "int \<Rightarrow> string \<Rightarrow> string \<times> int" where
  "setDefaultName numCreated n =
     (let num = numCreated + 1 in (if n = [] then snprintf_text 32 (''Thread'' @ show_int num) else n, num))"

definition new_Thread :: "int \<Rightarrow> string \<Rightarrow> Thread" where
  "new_Thread numCreated n =
     \<lparr>th_started = False, th_joined = False, th_tid = 0, th_name = fst (setDefaultName numCreated n), th_latch = 1\<rparr>"

datatype owner_pc = ONew | OWaiting | OStarted | OJoining | OJoined | OGone | OAborted
datatype thread_pc = TNone | TBegin | TTidSet | TFunc | TEnded | TCrashed
datatype reaped = NotYet | ByJoin | ByDetach

record thread_sys =
  th_obj :: "Thread option"
  owner :: owner_pc
  runner :: thread_pc
  t_threadName :: string
  reap :: reaped

text \<open>\<open>start\<close> up to the wait for the latch; \<open>created\<close> is whether \<open>pthread_create\<close> works. A failure ends in a fatal log message.\<close>

definition thread_start :: "bool \<Rightarrow> thread_sys \<Rightarrow> thread_sys option" where
  "thread_start created s = do {
     t \<leftarrow> th_obj s;
     (if th_started t then None
      else if created then Some (s\<lparr>th_obj := Some (t\<lparr>th_started := True\<rparr>), owner := OWaiting, runner := TBegin\<rparr>)
      else Some (s\<lparr>owner := OAborted\<rparr>)) }"

text \<open>The end of \<open>start\<close>: the latch is open and the assertion \<open>tid_ > 0\<close> holds.\<close>

definition thread_started :: "thread_sys \<Rightarrow> thread_sys option" where
  "thread_started s = do {
     t \<leftarrow> th_obj s;
     (if th_tid t > 0 then Some (s\<lparr>owner := OStarted\<rparr>) else None) }"

text \<open>\<open>ThreadData::runInThread\<close> up to the call of the function; \<open>tid\<close> is the number of the new thread.\<close>

definition runInThread :: "int \<Rightarrow> string \<Rightarrow> thread_sys \<Rightarrow> thread_sys option" where
  "runInThread tid name s = (case runner s of
     TBegin \<Rightarrow> map_option (\<lambda>t. s\<lparr>th_obj := Some (t\<lparr>th_tid := tid\<rparr>), runner := TTidSet\<rparr>) (th_obj s)
   | TTidSet \<Rightarrow> map_option (\<lambda>t. s\<lparr>th_obj := Some (t\<lparr>th_latch := th_latch t - 1\<rparr>), runner := TFunc,
       t_threadName := (if name = [] then ''muduoThread'' else name)\<rparr>) (th_obj s)
   | _ \<Rightarrow> None)"

definition thread_join :: "thread_sys \<Rightarrow> thread_sys option" where
  "thread_join s = do {
     t \<leftarrow> th_obj s;
     (if th_started t \<and> \<not> th_joined t then Some (s\<lparr>th_obj := Some (t\<lparr>th_joined := True\<rparr>), owner := OJoining\<rparr>) else None) }"

definition destroy_Thread :: "thread_sys \<Rightarrow> thread_sys option" where
  "destroy_Thread s = do {
     t \<leftarrow> th_obj s;
     Some (s\<lparr>th_obj := None, owner := OGone, reap := (if th_started t \<and> \<not> th_joined t then ByDetach else reap s)\<rparr>) }"

inductive thread_step :: "string \<Rightarrow> thread_sys \<Rightarrow> thread_sys \<Rightarrow> bool" for name where
  starts: "owner s = ONew \<Longrightarrow> thread_start created s = Some s' \<Longrightarrow> thread_step name s s'"
| runs: "runner s = TBegin \<or> runner s = TTidSet \<Longrightarrow> 0 < tid \<Longrightarrow> runInThread tid name s = Some s' \<Longrightarrow> thread_step name s s'"
| ends: "runner s = TFunc \<Longrightarrow> thread_step name s (s\<lparr>runner := TEnded, t_threadName := ''finished''\<rparr>)"
| crashes: "runner s = TFunc \<Longrightarrow> thread_step name s (s\<lparr>runner := TCrashed, t_threadName := ''crashed'', owner := OAborted\<rparr>)"
| opens: "owner s = OWaiting \<Longrightarrow> th_obj s = Some t \<Longrightarrow> th_latch t \<le> 0 \<Longrightarrow> thread_started s = Some s' \<Longrightarrow> thread_step name s s'"
| joins: "owner s = OStarted \<Longrightarrow> thread_join s = Some s' \<Longrightarrow> thread_step name s s'"
| joined: "owner s = OJoining \<Longrightarrow> runner s = TEnded \<Longrightarrow> thread_step name s (s\<lparr>owner := OJoined, reap := ByJoin\<rparr>)"
| gives_up: "owner s = ONew \<or> owner s = OStarted \<or> owner s = OJoined \<Longrightarrow> destroy_Thread s = Some s' \<Longrightarrow> thread_step name s s'"

definition thread_init :: "int \<Rightarrow> string \<Rightarrow> thread_sys \<Rightarrow> bool" where
  "thread_init numCreated n s \<longleftrightarrow>
     s = \<lparr>th_obj = Some (new_Thread numCreated n), owner = ONew, runner = TNone, t_threadName = ''unknown'', reap = NotYet\<rparr>"

section \<open>CurrentThread\<close>

text \<open>\<open>sleepUsec\<close>: the seconds and nanoseconds of the pause.\<close>

definition sleepUsec :: "int \<Rightarrow> int \<times> int" where
  "sleepUsec usec = (usec sdiv 1000000, usec smod 1000000 * 1000)"

definition isMainThread :: "int \<Rightarrow> int \<Rightarrow> bool" where
  "isMainThread tid pid \<longleftrightarrow> tid = pid"

section \<open>The handshake\<close>

fun handshake_ok :: "owner_pc \<Rightarrow> Thread option \<Rightarrow> thread_pc \<Rightarrow> reaped \<Rightarrow> bool" where
  "handshake_ok ONew (Some t) r x \<longleftrightarrow> \<not> th_started t \<and> \<not> th_joined t \<and> r = TNone \<and> th_latch t = 1 \<and> x = NotYet"
| "handshake_ok OWaiting (Some t) r x \<longleftrightarrow> th_started t \<and> \<not> th_joined t \<and> x = NotYet \<and>
     (r = TBegin \<and> th_latch t = 1 \<or> r = TTidSet \<and> th_latch t = 1 \<and> 0 < th_tid t \<or>
      r \<in> {TFunc, TEnded} \<and> th_latch t = 0 \<and> 0 < th_tid t)"
| "handshake_ok OStarted (Some t) r x \<longleftrightarrow> th_started t \<and> \<not> th_joined t \<and> x = NotYet \<and> r \<in> {TFunc, TEnded} \<and> 0 < th_tid t"
| "handshake_ok OJoining (Some t) r x \<longleftrightarrow> th_started t \<and> th_joined t \<and> x = NotYet \<and> r \<in> {TFunc, TEnded} \<and> 0 < th_tid t"
| "handshake_ok OJoined (Some t) r x \<longleftrightarrow> th_started t \<and> th_joined t \<and> x = ByJoin \<and> r = TEnded \<and> 0 < th_tid t"
| "handshake_ok OGone None r x \<longleftrightarrow> r = TNone \<and> x = NotYet \<or> r \<in> {TFunc, TEnded} \<and> x = ByDetach \<or> r = TEnded \<and> x = ByJoin"
| "handshake_ok OAborted t r x \<longleftrightarrow> True"
| "handshake_ok _ _ _ _ \<longleftrightarrow> False"

definition thread_inv :: "thread_sys \<Rightarrow> bool" where
  "thread_inv s \<longleftrightarrow> handshake_ok (owner s) (th_obj s) (runner s) (reap s)"

lemmas thread_ops = thread_start_def thread_started_def runInThread_def thread_join_def destroy_Thread_def

lemma thread_inv_step: "thread_step name s s' \<Longrightarrow> thread_inv s \<Longrightarrow> thread_inv s'"
proof (induction rule: thread_step.induct)
  case (starts s created s')
  then show ?case by (cases "th_obj s") (auto simp: thread_inv_def thread_ops split: if_splits)
next
  case (runs s tid s')
  then show ?case by (cases "owner s"; cases "th_obj s") (auto simp: thread_inv_def thread_ops)
next
  case (ends s)
  then show ?case by (cases "owner s"; cases "th_obj s") (simp_all add: thread_inv_def)
next
  case (opens s t s')
  then show ?case by (auto simp: thread_inv_def thread_ops split: if_splits)
next
  case (joins s s')
  then show ?case by (cases "th_obj s") (auto simp: thread_inv_def thread_ops split: if_splits)
next
  case (joined s)
  then show ?case by (cases "th_obj s") (simp_all add: thread_inv_def)
next
  case (gives_up s s')
  then show ?case by (cases "th_obj s") (auto simp: thread_inv_def thread_ops split: if_splits)
qed (simp add: thread_inv_def)

interpretation thr: step_system "thread_init k n" "thread_step name" thread_inv for k n name
proof
  show "thread_init k n s \<Longrightarrow> thread_inv s" for s by (simp add: thread_init_def thread_inv_def new_Thread_def)
qed (rule thread_inv_step)



end
