(* ===== verification/Muduo_Mutex.thy ===== *)
theory Muduo_Mutex
  imports Calendar
begin

text \<open>
  \<open>src/src/log/muduo-clog/muduo/base/Mutex.h\<close>, \<open>Condition.h\<close> and \<open>Condition.cc\<close>: a mutex that knows its
  holder, and the condition that waits with it.

  Threads are their numbers (\<open>gettid\<close>, positive). The pthread mutex is its owner; \<open>holder_\<close> is a field
  that the owner writes in statements of its own, so each thread has a location between them. A thread
  may try every method that the calling rules of the classes allow at its location: lock outside,
  unlock, wait or notify inside. \<open>pthread_cond_wait\<close> releases the mutex and enters the queue in one
  step, and comes back, notified or not, once it has the mutex again.
\<close>

section \<open>The mutex\<close>

datatype mpc =
    Outside         \<comment> \<open>does not use the mutex\<close>
  | Acquired        \<comment> \<open>in \<open>lock\<close>, before \<open>assignHolder\<close>\<close>
  | Inside          \<comment> \<open>after \<open>lock\<close>\<close>
  | Releasing       \<comment> \<open>in \<open>unlock\<close>, after \<open>unassignHolder\<close>\<close>
  | WaitUnassigned  \<comment> \<open>in \<open>wait\<close>, after the constructor of \<open>UnassignGuard\<close>\<close>
  | Waiting         \<comment> \<open>in \<open>pthread_cond_wait\<close>\<close>
  | WaitAcquired    \<comment> \<open>in \<open>wait\<close>, before the destructor of \<open>UnassignGuard\<close>\<close>

record MutexLock =
  mutex_owner :: "int option"
  holder :: int
  at_pc :: "int \<Rightarrow> mpc"

definition new_MutexLock :: MutexLock where
  "new_MutexLock = \<lparr>mutex_owner = None, holder = 0, at_pc = (\<lambda>_. Outside)\<rparr>"

definition assignHolder :: "int \<Rightarrow> MutexLock \<Rightarrow> MutexLock" where
  "assignHolder tid m = m\<lparr>holder := tid\<rparr>"

definition unassignHolder :: "MutexLock \<Rightarrow> MutexLock" where
  "unassignHolder m = m\<lparr>holder := 0\<rparr>"

definition isLockedByThisThread :: "int \<Rightarrow> MutexLock \<Rightarrow> bool" where
  "isLockedByThisThread tid m \<longleftrightarrow> holder m = tid"

text \<open>The assertion of the destructor, and \<open>assertLocked\<close>.\<close>

definition destroy_MutexLock :: "MutexLock \<Rightarrow> unit option" where
  "destroy_MutexLock m = (if holder m = 0 then Some () else None)"

definition assertLocked :: "int \<Rightarrow> MutexLock \<Rightarrow> unit option" where
  "assertLocked tid m = (if isLockedByThisThread tid m then Some () else None)"

text \<open>
  \<open>pthread_mutex_lock\<close> and \<open>pthread_mutex_unlock\<close>; the unlock of a mutex that another thread owns is
  undefined.
\<close>

definition acquire :: "int \<Rightarrow> MutexLock \<Rightarrow> MutexLock" where
  "acquire t m = m\<lparr>mutex_owner := Some t\<rparr>"

definition release :: "int \<Rightarrow> MutexLock \<Rightarrow> MutexLock option" where
  "release t m = (if mutex_owner m = Some t then Some (m\<lparr>mutex_owner := None\<rparr>) else None)"

definition goto :: "int \<Rightarrow> mpc \<Rightarrow> MutexLock \<Rightarrow> MutexLock" where
  "goto t l m = m\<lparr>at_pc := (at_pc m)(t := l)\<rparr>"

inductive mutex_step :: "MutexLock \<Rightarrow> MutexLock \<Rightarrow> bool" where
  lock_enter: "\<lbrakk>0 < t; at_pc m t = Outside; mutex_owner m = None\<rbrakk> \<Longrightarrow> mutex_step m (goto t Acquired (acquire t m))"
| lock_assign: "at_pc m t = Acquired \<Longrightarrow> mutex_step m (goto t Inside (assignHolder t m))"
| unlock_unassign: "at_pc m t = Inside \<Longrightarrow> mutex_step m (goto t Releasing (unassignHolder m))"
| unlock_leave: "\<lbrakk>at_pc m t = Releasing; release t m = Some m'\<rbrakk> \<Longrightarrow> mutex_step m (goto t Outside m')"
| wait_unassign: "at_pc m t = Inside \<Longrightarrow> mutex_step m (goto t WaitUnassigned (unassignHolder m))"
| wait_sleep: "\<lbrakk>at_pc m t = WaitUnassigned; release t m = Some m'\<rbrakk> \<Longrightarrow> mutex_step m (goto t Waiting m')"
| wait_wake: "\<lbrakk>at_pc m t = Waiting; mutex_owner m = None\<rbrakk> \<Longrightarrow> mutex_step m (goto t WaitAcquired (acquire t m))"
| wait_assign: "at_pc m t = WaitAcquired \<Longrightarrow> mutex_step m (goto t Inside (assignHolder t m))"

definition mutex_start :: "MutexLock \<Rightarrow> bool" where
  "mutex_start m \<longleftrightarrow> m = new_MutexLock"

section \<open>Timed waiting\<close>

definition kNanoSecondsPerSecond :: int where "kNanoSecondsPerSecond = 1000000000"

text \<open>
  The deadline of \<open>waitForSeconds\<close>: seconds and nanoseconds of the clock, and the time to wait in
  nanoseconds (the product of the floating-point argument, cut to an integer). \<open>/\<close> and \<open>%\<close> round to zero.
\<close>

definition wait_abstime :: "int \<times> int \<Rightarrow> int \<Rightarrow> int \<times> int" where
  "wait_abstime now nanoseconds =
     (let s = snd now + nanoseconds in (fst now + s sdiv kNanoSecondsPerSecond, s smod kNanoSecondsPerSecond))"

section \<open>The holder is the owner\<close>

definition owning :: "mpc \<Rightarrow> bool" where
  "owning l \<longleftrightarrow> l \<noteq> Outside \<and> l \<noteq> Waiting"

definition mutex_inv :: "MutexLock \<Rightarrow> bool" where
  "mutex_inv m \<longleftrightarrow> 0 \<le> holder m \<and>
     (\<forall>t. (owning (at_pc m t) \<longleftrightarrow> mutex_owner m = Some t) \<and>
          (at_pc m t \<noteq> Outside \<longrightarrow> 0 < t) \<and>
          (0 < t \<longrightarrow> (at_pc m t = Inside \<longleftrightarrow> holder m = t)))"

lemmas mutex_defs = goto_def acquire_def release_def assignHolder_def unassignHolder_def

lemma mutex_invD:
  assumes "mutex_inv m"
  shows "0 \<le> holder m" "owning (at_pc m t) \<longleftrightarrow> mutex_owner m = Some t" "at_pc m t \<noteq> Outside \<Longrightarrow> 0 < t"
    "0 < t \<Longrightarrow> at_pc m t = Inside \<longleftrightarrow> holder m = t"
  using assms unfolding mutex_inv_def by blast+

text \<open>One thread moves: only what it owns, before or after, changes.\<close>

lemma mutex_inv_move:
  assumes "mutex_inv m" "0 < t" "owning l \<longleftrightarrow> w = Some t" "w = None \<or> w = Some t" "mutex_owner m = None \<or> mutex_owner m = Some t"
    "mutex_owner m' = w" "at_pc m' = (at_pc m)(t := l)" "holder m' = (if l = Inside then t else 0)"
  shows "mutex_inv m'"
proof -
  have "at_pc m u \<noteq> Inside" "\<not> owning (at_pc m u)" if "u \<noteq> t" for u
    using mutex_invD(2) [OF assms(1), of u] assms(5) that by (auto simp: owning_def)
  then show ?thesis using assms mutex_invD(3) [OF assms(1)] unfolding mutex_inv_def by (auto simp: owning_def)
qed

lemma free_holder:
  assumes "mutex_inv m" "mutex_owner m = None \<or> mutex_owner m = Some t" "at_pc m t \<noteq> Inside"
  shows "holder m = 0"
proof (rule ccontr)
  assume "holder m \<noteq> 0"
  then have "at_pc m (holder m) = Inside" using mutex_invD(1,4) [OF assms(1)] by force
  then show False using mutex_invD(2) [OF assms(1), of "holder m"] assms(2,3) by (auto simp: owning_def)
qed

lemma mutex_inv_step: "mutex_step m m' \<Longrightarrow> mutex_inv m \<Longrightarrow> mutex_inv m'"
proof (induction rule: mutex_step.induct)
  case (lock_enter t m)
  then show ?case using free_holder [of m t]
    by - (rule mutex_inv_move [of m t Acquired "Some t"]; auto simp: mutex_defs owning_def split: if_splits)
next
  case (lock_assign m t)
  then show ?case using mutex_invD(2-4) [of m t]
    by - (rule mutex_inv_move [of m t Inside "Some t"]; auto simp: mutex_defs owning_def split: if_splits)
next
  case (unlock_unassign m t)
  then show ?case using mutex_invD(2-4) [of m t]
    by - (rule mutex_inv_move [of m t Releasing "Some t"]; auto simp: mutex_defs owning_def split: if_splits)
next
  case (unlock_leave m t m')
  then show ?case using mutex_invD(2-4) [of m t] free_holder [of m t]
    by - (rule mutex_inv_move [of m t Outside None]; auto simp: mutex_defs owning_def split: if_splits)
next
  case (wait_unassign m t)
  then show ?case using mutex_invD(2-4) [of m t]
    by - (rule mutex_inv_move [of m t WaitUnassigned "Some t"]; auto simp: mutex_defs owning_def split: if_splits)
next
  case (wait_sleep m t m')
  then show ?case using mutex_invD(2-4) [of m t] free_holder [of m t]
    by - (rule mutex_inv_move [of m t Waiting None]; auto simp: mutex_defs owning_def split: if_splits)
next
  case (wait_wake m t)
  then show ?case using mutex_invD(2-4) [of m t] free_holder [of m t]
    by - (rule mutex_inv_move [of m t WaitAcquired "Some t"]; auto simp: mutex_defs owning_def split: if_splits)
next
  case (wait_assign m t)
  then show ?case using mutex_invD(2-4) [of m t]
    by - (rule mutex_inv_move [of m t Inside "Some t"]; auto simp: mutex_defs owning_def split: if_splits)
qed

interpretation mtx: step_system mutex_start mutex_step mutex_inv
proof
  show "mutex_inv m" if "mutex_start m" for m
    using that by (simp add: mutex_start_def mutex_inv_def new_MutexLock_def owning_def)
qed (rule mutex_inv_step)

lemma mutex_reachable_facts:
  assumes "reachable mutex_start mutex_step m"
  shows "at_pc m t = Inside \<Longrightarrow> at_pc m u = Inside \<Longrightarrow> t = u"
    "0 < t \<Longrightarrow> isLockedByThisThread t m \<longleftrightarrow> at_pc m t = Inside"
    "at_pc m t = Inside \<Longrightarrow> assertLocked t m = Some ()"
    "at_pc m t = Releasing \<or> at_pc m t = WaitUnassigned \<Longrightarrow> returns (release t m) (\<lambda>m'. mutex_owner m' = None)"
    "(\<forall>t. at_pc m t \<noteq> Inside) \<Longrightarrow> destroy_MutexLock m = Some ()"
proof -
  note i = mutex_invD [OF mtx.reachable_inv [OF assms]]
  show uq: "at_pc m t = Inside \<Longrightarrow> at_pc m u = Inside \<Longrightarrow> t = u"
    using i(2) [of t] i(2) [of u] by (simp add: owning_def)
  show lk: "0 < t \<Longrightarrow> isLockedByThisThread t m \<longleftrightarrow> at_pc m t = Inside"
    using i(4) [of t] by (auto simp: isLockedByThisThread_def)
  show "at_pc m t = Inside \<Longrightarrow> assertLocked t m = Some ()"
    using i(3) [of t] lk by (simp add: assertLocked_def)
  show "at_pc m t = Releasing \<or> at_pc m t = WaitUnassigned \<Longrightarrow> returns (release t m) (\<lambda>m'. mutex_owner m' = None)"
    using i(2) [of t] by (auto simp: owning_def release_def)
  show "(\<forall>t. at_pc m t \<noteq> Inside) \<Longrightarrow> destroy_MutexLock m = Some ()"
    using i(1) i(4) [of "holder m"] by (force simp: destroy_MutexLock_def)
qed

text \<open>
  C19: Whatever the threads do with a mutex and its conditions, at most one of them is inside; the test
  \<open>isLockedByThisThread\<close> is true exactly for the thread that is inside, so \<open>assertLocked\<close> holds there;
  every \<open>pthread_mutex_unlock\<close> and \<open>pthread_cond_wait\<close> is called by the owner of the mutex; and the
  assertion of the destructor holds when no thread is inside.
\<close>

theorem mutex_holder_owns:
  assumes "reachable mutex_start mutex_step m"
  shows "(\<forall>t u. at_pc m t = Inside \<and> at_pc m u = Inside \<longrightarrow> t = u) \<and>
    (\<forall>t. 0 < t \<longrightarrow> (isLockedByThisThread t m \<longleftrightarrow> at_pc m t = Inside)) \<and>
    (\<forall>t. at_pc m t = Inside \<longrightarrow> assertLocked t m = Some ()) \<and>
    (\<forall>t. at_pc m t = Releasing \<or> at_pc m t = WaitUnassigned \<longrightarrow> returns (release t m) (\<lambda>m'. mutex_owner m' = None)) \<and>
    ((\<forall>t. at_pc m t \<noteq> Inside) \<longrightarrow> destroy_MutexLock m = Some ())"
  using mutex_reachable_facts [OF assms] by blast

definition held_by_7 :: MutexLock where
  "held_by_7 = goto 7 Inside (assignHolder 7 (goto 7 Acquired (acquire 7 new_MutexLock)))"

lemma held_by_7_reachable: "reachable mutex_start mutex_step held_by_7"
proof -
  have "reachable mutex_start mutex_step new_MutexLock" by (rule at_start) (simp add: mutex_start_def)
  from by_step [OF this, OF lock_enter [of 7]]
  have "reachable mutex_start mutex_step (goto 7 Acquired (acquire 7 new_MutexLock))" by (simp add: new_MutexLock_def)
  from by_step [OF this, OF lock_assign [of _ 7]] show ?thesis by (simp add: held_by_7_def mutex_defs)
qed

theorem mutex_holder_owns_witness:
  "isLockedByThisThread 7 held_by_7 \<and> \<not> isLockedByThisThread 8 held_by_7"
proof -
  have "at_pc held_by_7 7 = Inside" "at_pc held_by_7 8 = Outside" by (simp_all add: held_by_7_def mutex_defs new_MutexLock_def)
  moreover have "isLockedByThisThread t held_by_7 \<longleftrightarrow> at_pc held_by_7 t = Inside" if "0 < t" for t
    using mutex_holder_owns [OF held_by_7_reachable] that by blast
  ultimately show ?thesis by simp
qed

lemma wait_abstime_facts:
  assumes "wait_abstime (s, ns) w = (s', ns')" "0 \<le> ns" "ns < kNanoSecondsPerSecond"
  shows "s' * kNanoSecondsPerSecond + ns' = s * kNanoSecondsPerSecond + ns + w"
    "0 \<le> w \<Longrightarrow> 0 \<le> ns' \<and> ns' < kNanoSecondsPerSecond"
    "ns + w < 0 \<Longrightarrow> \<not> kNanoSecondsPerSecond dvd ns + w \<Longrightarrow> ns' < 0"
proof -
  let ?k = kNanoSecondsPerSecond
  have k: "0 < ?k" by (simp add: kNanoSecondsPerSecond_def)
  have r: "s' = s + (ns + w) sdiv ?k" "ns' = (ns + w) smod ?k" using assms(1) by (auto simp: wait_abstime_def Let_def)
  show "s' * ?k + ns' = s * ?k + ns + w" unfolding r using sdiv_mult_smod_eq [of "ns + w" ?k] by (simp add: distrib_right)
  show "0 \<le> ns' \<and> ns' < ?k" if "0 \<le> w" using that assms(2) k unfolding r by (simp add: smod_nonneg)
  show "ns' < 0" if "ns + w < 0" "\<not> ?k dvd ns + w"
  proof -
    have "- (ns + w) mod ?k \<noteq> 0" using that(2) by (metis dvd_eq_mod_eq_0 dvd_minus_iff)
    then have "0 < - (ns + w) mod ?k" using pos_mod_sign [OF k, of "- (ns + w)"] by linarith
    moreover have "ns' = - (- (ns + w) mod ?k)"
      using that(1) k unfolding r signed_modulo_int_def by simp
    ultimately show ?thesis by linarith
  qed
qed

text \<open>
  The deadline of a timed wait is the given time after now, with nanoseconds in the range that
  \<open>pthread_cond_timedwait\<close> demands, provided the time to wait does not lie in the past; for a negative
  time, that ends before the current second, the nanoseconds are negative.
\<close>

theorem wait_deadline:
  assumes "wait_abstime (s, ns) w = (s', ns')" "0 \<le> ns" "ns < kNanoSecondsPerSecond"
  shows "s' * kNanoSecondsPerSecond + ns' = s * kNanoSecondsPerSecond + ns + w \<and>
    (0 \<le> w \<longrightarrow> 0 \<le> ns' \<and> ns' < kNanoSecondsPerSecond) \<and>
    (ns + w < 0 \<and> \<not> kNanoSecondsPerSecond dvd ns + w \<longrightarrow> ns' < 0)"
  using wait_abstime_facts [OF assms] by blast

theorem wait_deadline_witness:
  "wait_abstime (10, 900000000) 300000000 = (11, 200000000) \<and> (11 :: int) * kNanoSecondsPerSecond + 200000000 = 10 * kNanoSecondsPerSecond + 900000000 + 300000000"
proof -
  have e: "wait_abstime (10, 900000000) 300000000 = (11, 200000000)" by code_simp
  then show ?thesis using wait_deadline [OF e] by (simp add: kNanoSecondsPerSecond_def)
qed

end
