(* ===== verification/Muduo_Zone.thy ===== *)
theory Muduo_Zone
  imports Muduo_Date
begin

text \<open>
  The time zones of \<open>src/src/log/muduo-clog/muduo/base/TimeZone.h\<close> and \<open>TimeZone.cc\<close>: a reader of
  zone files, the search for the local time that is in force, and the conversions. The part of the
  file that needs no zone (UTC) is in the theory \<open>Muduo_Date\<close>.

  A zone file is its bytes, as characters, or \<^term>\<open>None\<close> when it cannot be opened. The reader changes
  the data of the zone on the way, so a computation of it gives the data and the rest of the file also
  when it throws; undefined behaviour is \<^term>\<open>None\<close>. \<open>localtime_r\<close> and \<open>timegm\<close> of the C library are
  arguments.
\<close>

section \<open>Data\<close>

record Transition =
  gmttime :: int
  tr_localtime :: int
  localtimeIdx :: nat

record Localtime =
  gmtOffset :: int
  isDst :: bool
  arrbIdx :: nat

record zone_data =
  transitions :: "Transition list"
  localtimes :: "Localtime list"
  abbreviations :: string

definition new_Data :: zone_data where
  "new_Data = \<lparr>transitions = [], localtimes = [], abbreviations = []\<rparr>"

definition Comp :: "bool \<Rightarrow> Transition \<Rightarrow> Transition \<Rightarrow> bool" where
  "Comp compareGmt lhs rhs = (if compareGmt then gmttime lhs < gmttime rhs else tr_localtime lhs < tr_localtime rhs)"

definition Comp_equal :: "bool \<Rightarrow> Transition \<Rightarrow> Transition \<Rightarrow> bool" where
  "Comp_equal compareGmt lhs rhs = (if compareGmt then gmttime lhs = gmttime rhs else tr_localtime lhs = tr_localtime rhs)"

section \<open>Reading a zone file\<close>

text \<open>A result is the message of a \<open>logic_error\<close> or a value.\<close>

type_synonym 'a reader = "zone_data \<Rightarrow> string \<Rightarrow> ((string + 'a) \<times> zone_data \<times> string) option"

definition got :: "'a \<Rightarrow> 'a reader" where
  "got x d s = Some (Inr x, d, s)"

definition throw_error :: "string \<Rightarrow> 'a reader" where
  "throw_error e d s = Some (Inl e, d, s)"

definition and_read :: "'a reader \<Rightarrow> ('a \<Rightarrow> 'b reader) \<Rightarrow> 'b reader" where
  "and_read m f d s = (case m d s of
     None \<Rightarrow> None
   | Some (Inl e, d, s) \<Rightarrow> Some (Inl e, d, s)
   | Some (Inr x, d, s) \<Rightarrow> f x d s)"

text \<open>The array \<open>buf[n]\<close> needs a size that is not negative.\<close>

definition readBytes :: "int \<Rightarrow> string reader" where
  "readBytes n d s =
     (if n < 0 then None
      else if length s < nat n then Some (Inl ''no enough data'', d, [])
      else Some (Inr (take (nat n) s), d, drop (nat n) s))"

definition be32toh :: "string \<Rightarrow> int" where
  "be32toh s = to_int32 (foldl (\<lambda>a c. 256 * a + int (of_char c)) 0 s)"

definition readInt32 :: "int reader" where
  "readInt32 d s = (if length s < 4 then Some (Inl ''bad int32_t data'', d, []) else Some (Inr (be32toh (take 4 s)), d, drop 4 s))"

definition readUInt8 :: "nat reader" where
  "readUInt8 d s = (case s of [] \<Rightarrow> Some (Inl ''bad uint8_t data'', d, []) | c # s' \<Rightarrow> Some (Inr (of_char c), d, s'))"

fun read_trans :: "nat \<Rightarrow> int list reader" where
  "read_trans 0 = got []"
| "read_trans (Suc n) = and_read readInt32 (\<lambda>x. and_read (read_trans n) (\<lambda>xs. got (x # xs)))"

fun read_indexes :: "nat \<Rightarrow> nat list reader" where
  "read_indexes 0 = got []"
| "read_indexes (Suc n) = and_read readUInt8 (\<lambda>x. and_read (read_indexes n) (\<lambda>xs. got (x # xs)))"

definition push_localtime :: "Localtime \<Rightarrow> unit reader" where
  "push_localtime l d s = Some (Inr (), d\<lparr>localtimes := localtimes d @ [l]\<rparr>, s)"

fun read_types :: "nat \<Rightarrow> unit reader" where
  "read_types 0 = got ()"
| "read_types (Suc n) =
     and_read readInt32 (\<lambda>gmtoff. and_read readUInt8 (\<lambda>isdst. and_read readUInt8 (\<lambda>abbrind.
       and_read (push_localtime \<lparr>gmtOffset = gmtoff, isDst = (isdst \<noteq> 0), arrbIdx = abbrind\<rparr>) (\<lambda>_. read_types n))))"

text \<open>The index of a transition is not checked against the number of local times.\<close>

fun push_transitions :: "(int \<times> nat) list \<Rightarrow> unit reader" where
  "push_transitions [] = got ()"
| "push_transitions ((t, i) # ts) = (\<lambda>d s.
     if i < length (localtimes d) then
       push_transitions ts (d\<lparr>transitions := transitions d @
         [\<lparr>gmttime = t, tr_localtime = t + gmtOffset (localtimes d ! i), localtimeIdx = i\<rparr>]\<rparr>) s
     else None)"

definition set_abbreviation :: "string \<Rightarrow> unit reader" where
  "set_abbreviation a d s = Some (Inr (), d\<lparr>abbreviations := a\<rparr>, s)"

text \<open>\<open>reserve\<close> of a negative number, taken as a size, throws a \<open>length_error\<close>, which is a \<open>logic_error\<close>.\<close>

definition read_zone :: "unit reader" where
  "read_zone =
     and_read (readBytes 4) (\<lambda>head.
     if head \<noteq> ''TZif'' then throw_error ''bad head''
     else and_read (readBytes 1) (\<lambda>version. and_read (readBytes 15) (\<lambda>_.
     and_read readInt32 (\<lambda>isgmtcnt. and_read readInt32 (\<lambda>isstdcnt. and_read readInt32 (\<lambda>leapcnt.
     and_read readInt32 (\<lambda>timecnt. and_read readInt32 (\<lambda>typecnt. and_read readInt32 (\<lambda>charcnt.
     if timecnt < 0 then throw_error ''vector::reserve''
     else and_read (read_trans (nat timecnt)) (\<lambda>trans. and_read (read_indexes (nat timecnt)) (\<lambda>idx.
     and_read (read_types (nat typecnt)) (\<lambda>_. and_read (push_transitions (zip trans idx)) (\<lambda>_.
     and_read (readBytes charcnt) set_abbreviation)))))))))))))"

text \<open>The result, the data, and what went to the standard error.\<close>

definition readTimeZoneFile :: "string option \<Rightarrow> zone_data \<Rightarrow> (bool \<times> zone_data \<times> string) option" where
  "readTimeZoneFile f d = (case f of
     None \<Rightarrow> Some (True, d, [])
   | Some s \<Rightarrow> (case read_zone d s of
       None \<Rightarrow> None
     | Some (Inl e, d', _) \<Rightarrow> Some (True, d', e @ [NL])
     | Some (Inr _, d', _) \<Rightarrow> Some (True, d', [])))"

section \<open>The local time in force\<close>

text \<open>\<open>std::lower_bound\<close>: the first position not before the value, for a range that is partitioned by it.\<close>

definition lower_bound :: "('a \<Rightarrow> 'b \<Rightarrow> bool) \<Rightarrow> 'a list \<Rightarrow> 'b \<Rightarrow> nat option" where
  "lower_bound lt xs v =
     (if list_all (\<lambda>x. \<not> lt x v) (dropWhile (\<lambda>x. lt x v) xs) then Some (length (takeWhile (\<lambda>x. lt x v) xs)) else None)"

definition localtime_at :: "zone_data \<Rightarrow> nat \<Rightarrow> Localtime option" where
  "localtime_at d i = (if i < length (localtimes d) then Some (localtimes d ! i) else None)"

definition findLocaltime :: "zone_data \<Rightarrow> Transition \<Rightarrow> bool \<Rightarrow> Localtime option" where
  "findLocaltime d sentry gmt =
     (if transitions d = [] \<or> Comp gmt sentry (hd (transitions d)) then localtime_at d 0
      else do {
        i \<leftarrow> lower_bound (Comp gmt) (transitions d) sentry;
        (if i < length (transitions d) then
           if \<not> Comp_equal gmt sentry (transitions d ! i)
           then (if i = 0 then None else localtime_at d (localtimeIdx (transitions d ! (i - 1))))
           else localtime_at d (localtimeIdx (transitions d ! i))
         else localtime_at d (localtimeIdx (last (transitions d)))) })"

section \<open>TimeZone\<close>

text \<open>The pointer \<open>data_\<close>: \<^term>\<open>None\<close> is NULL.\<close>

record TimeZone =
  zone :: "zone_data option"

definition TimeZone_file :: "string option \<Rightarrow> TimeZone option" where
  "TimeZone_file zonefile = do {
     (ok, d, err) \<leftarrow> readTimeZoneFile zonefile new_Data;
     Some \<lparr>zone = (if ok then Some d else None)\<rparr> }"

definition TimeZone_fixed :: "int \<Rightarrow> string \<Rightarrow> TimeZone" where
  "TimeZone_fixed eastOfUtc name =
     \<lparr>zone = Some (new_Data\<lparr>localtimes := [\<lparr>gmtOffset = eastOfUtc, isDst = False, arrbIdx = 0\<rparr>], abbreviations := name\<rparr>)\<rparr>"

definition zone_valid :: "TimeZone \<Rightarrow> bool" where
  "zone_valid z \<longleftrightarrow> zone z \<noteq> None"

definition clong :: "int \<Rightarrow> int option" where
  "clong x = (if - (2 ^ 63) \<le> x \<and> x < 2 ^ 63 then Some x else None)"

text \<open>\<open>tm_zone\<close> points into the abbreviations.\<close>

definition toLocalTime :: "(int \<Rightarrow> tmx) \<Rightarrow> TimeZone \<Rightarrow> int \<Rightarrow> tmx option" where
  "toLocalTime localtime_r z seconds = do {
     d \<leftarrow> zone z;
     l \<leftarrow> findLocaltime d \<lparr>gmttime = seconds, tr_localtime = 0, localtimeIdx = 0\<rparr> True;
     localSeconds \<leftarrow> clong (seconds + gmtOffset l);
     (if arrbIdx l \<le> length (abbreviations d) then
        Some ((localtime_r localSeconds)\<lparr>tm_isdst := (if isDst l then 1 else 0), tm_gmtoff := gmtOffset l,
          tm_zone := takeWhile (\<lambda>c. c \<noteq> NUL) (drop (arrbIdx l) (abbreviations d))\<rparr>)
      else None) }"

definition fromLocalTime :: "(int \<Rightarrow> tmx) \<Rightarrow> (tmx \<Rightarrow> int) \<Rightarrow> TimeZone \<Rightarrow> tmx \<Rightarrow> int option" where
  "fromLocalTime localtime_r timegm z localTm = do {
     d \<leftarrow> zone z;
     let seconds = timegm localTm;
     l \<leftarrow> findLocaltime d \<lparr>gmttime = 0, tr_localtime = seconds, localtimeIdx = 0\<rparr> False;
     utc \<leftarrow> clong (seconds - gmtOffset l);
     (if tm_isdst localTm \<noteq> 0 then do {
        tryTm \<leftarrow> toLocalTime localtime_r z utc;
        (if tm_isdst tryTm = 0 \<and> tm_hour tryTm = tm_hour localTm \<and> tm_min tryTm = tm_min localTm
         then clong (seconds - 3600) \<bind> (\<lambda>seconds. clong (seconds - gmtOffset l)) else Some utc)
      } else Some utc) }"

section \<open>Round trip of zone files\<close>

text \<open>The bytes of a zone file that holds the data \<open>d\<close>.\<close>

definition be32_text :: "int \<Rightarrow> string" where
  "be32_text v = (let n = nat (v mod 2 ^ 32) in
     [char_of (n div 16777216), char_of (n div 65536), char_of (n div 256), char_of n])"

definition type_text :: "Localtime \<Rightarrow> string" where
  "type_text l = be32_text (gmtOffset l) @ [char_of (if isDst l then 1 else 0 :: nat), char_of (arrbIdx l)]"

definition zone_text :: "string \<Rightarrow> int \<Rightarrow> int \<Rightarrow> int \<Rightarrow> zone_data \<Rightarrow> string" where
  "zone_text hdr n1 n2 n3 d = ''TZif'' @ hdr @ be32_text n1 @ be32_text n2 @ be32_text n3 @
     be32_text (int (length (transitions d))) @ be32_text (int (length (localtimes d))) @ be32_text (int (length (abbreviations d))) @
     concat (map (be32_text \<circ> gmttime) (transitions d)) @ map (char_of \<circ> localtimeIdx) (transitions d) @
     concat (map type_text (localtimes d)) @ abbreviations d"

definition is_int32 :: "int \<Rightarrow> bool" where
  "is_int32 v \<longleftrightarrow> - (2 ^ 31) \<le> v \<and> v < 2 ^ 31"

text \<open>Transitions refer to local times and carry their time in the new local time.\<close>

definition transition_ok :: "Localtime list \<Rightarrow> Transition \<Rightarrow> bool" where
  "transition_ok ls t \<longleftrightarrow> localtimeIdx t < length ls \<and> tr_localtime t = gmttime t + gmtOffset (ls ! localtimeIdx t)"

definition zone_ok :: "zone_data \<Rightarrow> bool" where
  "zone_ok d \<longleftrightarrow> list_all (transition_ok (localtimes d)) (transitions d) \<and> localtimes d \<noteq> [] \<and>
     list_all (\<lambda>l. arrbIdx l \<le> length (abbreviations d)) (localtimes d)"

definition zone_fits :: "zone_data \<Rightarrow> bool" where
  "zone_fits d \<longleftrightarrow> list_all (\<lambda>t. is_int32 (gmttime t) \<and> localtimeIdx t < 256) (transitions d) \<and>
     list_all (\<lambda>l. is_int32 (gmtOffset l) \<and> arrbIdx l < 256) (localtimes d) \<and>
     is_int32 (int (length (transitions d))) \<and> is_int32 (int (length (localtimes d))) \<and> is_int32 (int (length (abbreviations d)))"

lemma and_read_got [simp]: "m d s = Some (Inr x, d', s') \<Longrightarrow> and_read m f d s = f x d' s'"
  by (simp add: and_read_def)

lemma length_be32 [simp]: "length (be32_text v) = 4"
  by (simp add: be32_text_def Let_def)

lemma bytes_value: "(n :: nat) < 2 ^ 32 \<Longrightarrow>
  256 * (256 * (256 * (n div 16777216 mod 256) + n div 65536 mod 256) + n div 256 mod 256) + n mod 256 = n"
proof -
  assume n: "n < 2 ^ 32"
  have a: "n div 65536 = n div 256 div 256" "n div 16777216 = n div 256 div 256 div 256"
    by (simp_all add: div_mult2_eq [symmetric])
  have "n div 256 div 256 div 256 < 256" using n by (simp add: div_mult2_eq [symmetric] less_mult_imp_div_less)
  then have "n div 256 div 256 div 256 mod 256 = n div 256 div 256 div 256" by simp
  moreover have "256 * (n div 256 div 256 div 256) + n div 256 div 256 mod 256 = n div 256 div 256"
    "256 * (n div 256 div 256) + n div 256 mod 256 = n div 256" "256 * (n div 256) + n mod 256 = n" by simp_all
  ultimately show ?thesis unfolding a by simp
qed

lemma be32toh_be32: "is_int32 v \<Longrightarrow> be32toh (be32_text v) = v"
proof -
  assume v: "is_int32 v"
  define n where "n = nat (v mod 2 ^ 32)"
  have n: "n < 2 ^ 32" "int n = v mod 2 ^ 32" by (simp_all add: n_def nat_less_iff)
  have b: "be32_text v = [char_of (n div 16777216), char_of (n div 65536), char_of (n div 256), char_of n]"
    unfolding be32_text_def Let_def n_def by (rule refl)
  have "foldl (\<lambda>a c. 256 * a + int (of_char c)) 0 (be32_text v) =
      int (256 * (256 * (256 * (n div 16777216 mod 256) + n div 65536 mod 256) + n div 256 mod 256) + n mod 256)"
    by (simp add: b)
  also have "\<dots> = v mod 2 ^ 32" by (simp only: bytes_value [OF n(1)] n(2))
  finally show ?thesis using v unfolding be32toh_def to_int32_def is_int32_def by (simp add: mod_add_left_eq)
qed

lemma readInt32_be32 [simp]: "is_int32 v \<Longrightarrow> readInt32 d (be32_text v @ s) = Some (Inr v, d, s)"
  by (simp add: readInt32_def be32toh_be32)

lemma readUInt8_char [simp]: "n < 256 \<Longrightarrow> readUInt8 d (char_of n # s) = Some (Inr n, d, s)"
  by (simp add: readUInt8_def)

lemma readBytes_prefix [simp]: "n = int (length t) \<Longrightarrow> readBytes n d (t @ s) = Some (Inr t, d, s)"
  by (simp add: readBytes_def)

lemma read_trans_text:
  "list_all is_int32 ts \<Longrightarrow> read_trans (length ts) d (concat (map be32_text ts) @ s) = Some (Inr ts, d, s)"
  by (induction ts) (simp_all add: got_def)

lemma read_indexes_text:
  "list_all (\<lambda>i. i < 256) is \<Longrightarrow> read_indexes (length is) d (map char_of is @ s) = Some (Inr is, d, s)"
  by (induction "is") (simp_all add: got_def)

lemma read_types_text:
  "list_all (\<lambda>l. is_int32 (gmtOffset l) \<and> arrbIdx l < 256) ls \<Longrightarrow>
   read_types (length ls) d (concat (map type_text ls) @ s) = Some (Inr (), d\<lparr>localtimes := localtimes d @ ls\<rparr>, s)"
proof (induction ls arbitrary: d)
  case (Cons l ls)
  have "\<lparr>gmtOffset = gmtOffset l, isDst = isDst l, arrbIdx = arrbIdx l\<rparr> = l" by simp
  with Cons show ?case by (cases "isDst l") (simp_all add: type_text_def push_localtime_def)
qed (simp add: got_def)

lemma push_transitions_all:
  "list_all (transition_ok (localtimes d)) ts \<Longrightarrow>
   push_transitions (zip (map gmttime ts) (map localtimeIdx ts)) d s = Some (Inr (), d\<lparr>transitions := transitions d @ ts\<rparr>, s)"
proof (induction ts arbitrary: d)
  case (Cons t ts)
  then have "\<lparr>gmttime = gmttime t, tr_localtime = gmttime t + gmtOffset (localtimes d ! localtimeIdx t), localtimeIdx = localtimeIdx t\<rparr> = t"
    by (simp add: transition_ok_def)
  with Cons show ?case by (simp add: transition_ok_def)
qed (simp add: got_def)

lemma read_zone_text:
  assumes "zone_ok d" "zone_fits d" "length hdr = 16" "is_int32 n1" "is_int32 n2" "is_int32 n3"
  shows "read_zone new_Data (zone_text hdr n1 n2 n3 d @ rest) = Some (Inr (), d, rest)"
proof -
  define ts ls where "ts = transitions d" and "ls = localtimes d"
  obtain v pad where hdr: "hdr = v # pad" "length pad = 15" using assms(3) by (cases hdr) auto
  have b: "readBytes 1 e (v # s) = Some (Inr [v], e, s)" for e s by (simp add: readBytes_def)
  have b4: "readBytes 4 e (CHR ''T'' # CHR ''Z'' # CHR ''i'' # CHR ''f'' # s) = Some (Inr ''TZif'', e, s)" for e s by (simp add: readBytes_def)
  have b15: "readBytes 15 e (pad @ s) = Some (Inr pad, e, s)" for e s using hdr(2) by simp
  have n: "is_int32 (int (length ts))" "is_int32 (int (length ls))" "is_int32 (int (length (abbreviations d)))"
    using assms(2) by (simp_all add: zone_fits_def ts_def ls_def)
  have g: "list_all is_int32 (map gmttime ts)" "list_all (\<lambda>i. i < 256) (map localtimeIdx ts)"
    "list_all (\<lambda>l. is_int32 (gmtOffset l) \<and> arrbIdx l < 256) ls"
    using assms(2) by (simp_all add: zone_fits_def ts_def ls_def list_all_iff)
  have t: "read_trans (length ts) e (concat (map (be32_text \<circ> gmttime) ts) @ s) = Some (Inr (map gmttime ts), e, s)" for e s
    using read_trans_text [OF g(1), of e s] by simp
  have i: "read_indexes (length ts) e (map (char_of \<circ> localtimeIdx) ts @ s) = Some (Inr (map localtimeIdx ts), e, s)" for e s
    using read_indexes_text [OF g(2), of e s] by simp
  have p: "push_transitions (zip (map gmttime ts) (map localtimeIdx ts)) (new_Data\<lparr>localtimes := ls\<rparr>) s =
      Some (Inr (), new_Data\<lparr>localtimes := ls, transitions := ts\<rparr>, s)" for s
    using push_transitions_all [of "new_Data\<lparr>localtimes := ls\<rparr>" ts s] assms(1) by (simp add: zone_ok_def ts_def ls_def new_Data_def)
  have y: "read_types (length ls) new_Data (concat (map type_text ls) @ s) = Some (Inr (), new_Data\<lparr>localtimes := ls\<rparr>, s)" for s
    using read_types_text [OF g(3), of new_Data s] by (simp add: new_Data_def)
  have d: "new_Data\<lparr>localtimes := ls, transitions := ts, abbreviations := abbreviations d\<rparr> = d" by (simp add: new_Data_def ts_def ls_def)
  show ?thesis
    unfolding read_zone_def zone_text_def ts_def [symmetric] ls_def [symmetric] hdr(1)
    by (simp add: b b4 b15 n assms(4-6) t i p y set_abbreviation_def d)
qed

text \<open>
  C20: The zone file reader inverts the file format. For any zone whose numbers fit their fields, the file
  with its transitions, local times and abbreviations, whatever the unused fields of the head and
  whatever follows, is read back as exactly that zone, and nothing is printed.
\<close>

theorem zone_file_roundtrip:
  assumes "zone_ok d" "zone_fits d" "length hdr = 16" "is_int32 n1" "is_int32 n2" "is_int32 n3"
  shows "TimeZone_file (Some (zone_text hdr n1 n2 n3 d @ rest)) = Some \<lparr>zone = Some d\<rparr> \<and>
    readTimeZoneFile (Some (zone_text hdr n1 n2 n3 d @ rest)) new_Data = Some (True, d, [])"
  using read_zone_text [OF assms, of rest] by (simp add: TimeZone_file_def readTimeZoneFile_def)

text \<open>Standard time, and summer time between the seconds 1000000 and 2000000.\<close>

definition demo_zone :: zone_data where
  "demo_zone = \<lparr>transitions = [\<lparr>gmttime = 1000000, tr_localtime = 1007200, localtimeIdx = 1\<rparr>,
       \<lparr>gmttime = 2000000, tr_localtime = 2003600, localtimeIdx = 0\<rparr>],
     localtimes = [\<lparr>gmtOffset = 3600, isDst = False, arrbIdx = 0\<rparr>, \<lparr>gmtOffset = 7200, isDst = True, arrbIdx = 4\<rparr>],
     abbreviations = ''MEZ'' @ [NUL] @ ''MESZ''\<rparr>"

lemma demo_zone_ok: "zone_ok demo_zone" "zone_fits demo_zone"
  by (simp_all add: demo_zone_def zone_ok_def zone_fits_def transition_ok_def is_int32_def)

theorem zone_file_roundtrip_witness:
  "TimeZone_file (Some (zone_text (''2'' @ replicate 15 NUL) 0 0 0 demo_zone @ ''TZif2'')) = Some \<lparr>zone = Some demo_zone\<rparr> \<and>
   readTimeZoneFile (Some (zone_text (''2'' @ replicate 15 NUL) 0 0 0 demo_zone @ ''TZif2'')) new_Data = Some (True, demo_zone, [])"
  by (rule zone_file_roundtrip) (simp_all add: demo_zone_ok is_int32_def)

text \<open>
  A bad zone file is not noticed. A file that cannot be opened, that is shorter than four bytes or
  that does not start with the mark of a zone file gives a zone that counts as valid, and every
  conversion with it takes the first of no local times.
\<close>

theorem bad_zone_file:
  assumes "f = None \<or> (\<exists>s. f = Some s \<and> take 4 s \<noteq> ''TZif'')"
  shows "\<exists>z. TimeZone_file f = Some z \<and> zone_valid z \<and>
    (\<forall>lr t. toLocalTime lr z t = None) \<and> (\<forall>lr tg u. fromLocalTime lr tg z u = None)"
proof -
  have "TimeZone_file f = Some \<lparr>zone = Some new_Data\<rparr>"
    using assms by (auto simp: TimeZone_file_def readTimeZoneFile_def read_zone_def and_read_def readBytes_def throw_error_def)
  moreover have "findLocaltime new_Data sentry gmt = None" for sentry gmt
    by (simp add: findLocaltime_def new_Data_def localtime_at_def)
  ultimately show ?thesis by (simp add: zone_valid_def toLocalTime_def fromLocalTime_def)
qed

theorem bad_zone_file_witness:
  "\<exists>z. TimeZone_file (Some ''<html>'') = Some z \<and> zone_valid z \<and>
    (\<forall>lr t. toLocalTime lr z t = None) \<and> (\<forall>lr tg u. fromLocalTime lr tg z u = None)"
  by (rule bad_zone_file) simp

section \<open>The local time in force\<close>

definition tr_key :: "bool \<Rightarrow> Transition \<Rightarrow> int" where
  "tr_key gmt t = (if gmt then gmttime t else tr_localtime t)"

definition ascending :: "bool \<Rightarrow> zone_data \<Rightarrow> bool" where
  "ascending gmt d \<longleftrightarrow> sorted_wrt (\<lambda>x y. tr_key gmt x < tr_key gmt y) (transitions d)"

text \<open>The last transition that has happened decides; before the first one it is the first local time.\<close>

definition zone_at :: "bool \<Rightarrow> zone_data \<Rightarrow> int \<Rightarrow> Localtime" where
  "zone_at gmt d v = (let xs = filter (\<lambda>x. tr_key gmt x \<le> v) (transitions d)
     in localtimes d ! (if xs = [] then 0 else localtimeIdx (last xs)))"

lemma Comp_keys: "Comp gmt x y \<longleftrightarrow> tr_key gmt x < tr_key gmt y" "Comp_equal gmt x y \<longleftrightarrow> tr_key gmt x = tr_key gmt y"
  by (simp_all add: Comp_def Comp_equal_def tr_key_def)

text \<open>What \<open>lower_bound\<close> finds in an ascending list.\<close>

lemma lower_bound_split:
  assumes "sorted_wrt (\<lambda>x y. k x < k y) (xs :: 'a list)"
  obtains ys zs where "xs = ys @ zs" "\<forall>y \<in> set ys. k y < (v :: int)" "\<forall>z \<in> set zs. v \<le> k z" "zs \<noteq> [] \<longrightarrow> (\<forall>z \<in> set (tl zs). v < k z)"
    "takeWhile (\<lambda>x. k x < v) xs = ys" "dropWhile (\<lambda>x. k x < v) xs = zs"
proof -
  define ys zs where "ys = takeWhile (\<lambda>x. k x < v) xs" and "zs = dropWhile (\<lambda>x. k x < v) xs"
  have x: "xs = ys @ zs" by (simp add: ys_def zs_def)
  have y: "\<forall>y \<in> set ys. k y < v" by (auto simp: ys_def dest: set_takeWhileD)
  have s: "sorted_wrt (\<lambda>x y. k x < k y) zs" using assms x by (simp add: sorted_wrt_append)
  have h: "zs \<noteq> [] \<longrightarrow> v \<le> k (hd zs)" using hd_dropWhile [of "\<lambda>x. k x < v" xs] unfolding zs_def not_less by blast
  have "\<forall>z \<in> set zs. v \<le> k z" "zs \<noteq> [] \<longrightarrow> (\<forall>z \<in> set (tl zs). v < k z)"
    using s h by (cases zs; auto)+
  with x y show ?thesis by (intro that) (simp_all add: ys_def zs_def)
qed

lemma find_last:
  assumes "zone_ok d" "ascending gmt d" "tr_key gmt sentry = v"
  shows "findLocaltime d sentry gmt = Some (zone_at gmt d v)"
proof -
  let ?ts = "transitions d"
  obtain ys zs where s: "?ts = ys @ zs" "\<forall>y \<in> set ys. tr_key gmt y < v" "\<forall>z \<in> set zs. v \<le> tr_key gmt z"
      "zs \<noteq> [] \<longrightarrow> (\<forall>z \<in> set (tl zs). v < tr_key gmt z)"
      "takeWhile (\<lambda>x. tr_key gmt x < v) ?ts = ys" "dropWhile (\<lambda>x. tr_key gmt x < v) ?ts = zs"
    by (rule lower_bound_split [OF assms(2) [unfolded ascending_def], of v]) blast
  have lb: "lower_bound (Comp gmt) ?ts sentry = Some (length ys)"
    using s(3,5,6) by (simp add: lower_bound_def Comp_keys assms(3) list_all_iff not_less)
  have idx: "localtime_at d (localtimeIdx t) = Some (localtimes d ! localtimeIdx t)" if "t \<in> set ?ts" for t
    using assms(1) that by (simp add: zone_ok_def list_all_iff transition_ok_def localtime_at_def)
  have first: "localtime_at d 0 = Some (localtimes d ! 0)" using assms(1) by (simp add: zone_ok_def localtime_at_def)
  have fy: "filter (\<lambda>x. tr_key gmt x \<le> v) ys = ys" using s(2) by (auto intro!: filter_True)
  have front: "\<not> Comp gmt sentry (hd ?ts)" if "ys \<noteq> []"
    using that s(1,2) assms(3) by (cases ys) (auto simp: Comp_keys)
  note defs = findLocaltime_def zone_at_def Let_def Comp_keys(2) assms(3)
  show ?thesis
  proof (cases zs)
    case Nil
    then have "last ys \<in> set ?ts" if "ys \<noteq> []" using s(1) that by simp
    then show ?thesis using Nil s(1) fy lb first idx front by (cases "ys = []") (simp_all add: defs)
  next
    case (Cons z zs')
    have fz: "filter (\<lambda>x. tr_key gmt x \<le> v) zs' = []" using s(4) Cons by (auto simp: filter_empty_conv)
    show ?thesis
    proof (cases "tr_key gmt z = v")
      case True
      have "\<not> Comp gmt sentry (hd ?ts)" using True front s(1) Cons assms(3) by (cases "ys = []") (simp_all add: Comp_keys)
      then show ?thesis using True Cons s(1) lb fy fz idx [of z] by (simp add: defs nth_append)
    next
      case False
      then have z: "v < tr_key gmt z" using s(3) Cons by auto
      show ?thesis
      proof (cases ys rule: rev_cases)
        case Nil
        then show ?thesis using z Cons s(1) fy fz first by (simp add: defs Comp_keys)
      next
        case (snoc ys' y)
        then have "tr_key gmt y \<le> v" using s(2) by auto
        then show ?thesis using z False Cons snoc s(1) lb fz idx [of y] front by (simp add: defs nth_append)
      qed
    qed
  qed
qed

text \<open>
  C21: The search through the transitions, a binary search with three special cases, finds the local time
  that is in force: that of the last transition at or before the given time, and the first local time
  of the zone when there is none. It holds for times in UTC and for local times, with transitions that
  ascend in the times compared.
\<close>

theorem find_localtime_in_force:
  assumes "zone_ok d" "ascending gmt d"
  shows "findLocaltime d sentry gmt = Some (zone_at gmt d (tr_key gmt sentry))"
  using assms by (rule find_last) (rule refl)

lemma demo_zone_ascending: "ascending gmt demo_zone"
  by (simp add: ascending_def demo_zone_def tr_key_def)

theorem find_localtime_in_force_witness:
  "findLocaltime demo_zone \<lparr>gmttime = 1500000, tr_localtime = 0, localtimeIdx = 0\<rparr> True = Some \<lparr>gmtOffset = 7200, isDst = True, arrbIdx = 4\<rparr>"
  using find_localtime_in_force [OF demo_zone_ok(1) demo_zone_ascending, of "\<lparr>gmttime = 1500000, tr_localtime = 0, localtimeIdx = 0\<rparr>" True]
  by (simp add: zone_at_def demo_zone_def tr_key_def)

section \<open>Local time and back\<close>

text \<open>\<open>timegm\<close> inverts \<open>gmtime_r\<close>, whatever the fields that it does not read.\<close>

definition timegm_inverts :: "(int \<Rightarrow> tmx) \<Rightarrow> (tmx \<Rightarrow> int) \<Rightarrow> bool" where
  "timegm_inverts gm tg \<longleftrightarrow> (\<forall>s i off n. tg ((gm s)\<lparr>tm_isdst := i, tm_gmtoff := off, tm_zone := n\<rparr>) = s)"

lemma sorted_wrt_last: "sorted_wrt R xs \<Longrightarrow> x \<in> set xs \<Longrightarrow> x = last xs \<or> R x (last xs)"
  by (cases xs rule: rev_cases) (auto simp: sorted_wrt_append)

lemma zone_at_in: "zone_ok d \<Longrightarrow> zone_at gmt d v \<in> set (localtimes d)"
proof -
  assume d: "zone_ok d"
  define xs where "xs = filter (\<lambda>x. tr_key gmt x \<le> v) (transitions d)"
  have "localtimeIdx (last xs) < length (localtimes d)" if "xs \<noteq> []"
  proof -
    have "last xs \<in> set (transitions d)" using last_in_set [OF that] by (simp add: xs_def)
    then show ?thesis using d by (simp add: zone_ok_def list_all_iff transition_ok_def)
  qed
  then show ?thesis using d by (auto simp: zone_at_def Let_def xs_def [symmetric] zone_ok_def)
qed

text \<open>Outside of the hours that the clock repeats, both searches agree.\<close>

lemma zone_at_local:
  assumes "zone_ok d" "ascending False d" "off = gmtOffset (zone_at True d t)"
    "\<forall>x \<in> set (transitions d). t < gmttime x \<longrightarrow> t + off < tr_localtime x"
  shows "zone_at False d (t + off) = zone_at True d t"
proof -
  define xs where "xs = filter (\<lambda>x. gmttime x \<le> t) (transitions d)"
  have le: "tr_localtime x \<le> t + off" if x: "x \<in> set xs" for x
  proof -
    have ne: "xs \<noteq> []" using x by auto
    have l: "last xs \<in> set (transitions d)" "gmttime (last xs) \<le> t" using last_in_set [OF ne] by (simp_all add: xs_def)
    have "off = gmtOffset (localtimes d ! localtimeIdx (last xs))" using assms(3) ne by (simp add: zone_at_def tr_key_def xs_def)
    then have "tr_localtime (last xs) \<le> t + off" using assms(1) l by (simp add: zone_ok_def list_all_iff transition_ok_def)
    moreover have "sorted_wrt (\<lambda>x y. tr_localtime x < tr_localtime y) xs"
      using assms(2) by (simp add: ascending_def tr_key_def xs_def sorted_wrt_filter)
    ultimately show ?thesis using sorted_wrt_last [OF _ x] by fastforce
  qed
  have "filter (\<lambda>x. tr_localtime x \<le> t + off) (transitions d) = xs"
    unfolding xs_def using le assms(4) by (intro filter_cong) (auto simp: xs_def not_le [symmetric])
  then show ?thesis by (simp add: zone_at_def tr_key_def xs_def)
qed

lemma toLocalTime_at:
  assumes "zone_ok d" "ascending True d" "l = zone_at True d t" "clong (t + gmtOffset l) = Some (t + gmtOffset l)"
  shows "toLocalTime lr \<lparr>zone = Some d\<rparr> t = Some ((lr (t + gmtOffset l))\<lparr>tm_isdst := (if isDst l then 1 else 0), tm_gmtoff := gmtOffset l,
    tm_zone := takeWhile (\<lambda>c. c \<noteq> NUL) (drop (arrbIdx l) (abbreviations d))\<rparr>)"
proof -
  have f: "findLocaltime d \<lparr>gmttime = t, tr_localtime = 0, localtimeIdx = 0\<rparr> True = Some l"
    unfolding assms(3) by (rule find_last [OF assms(1,2)]) (simp add: tr_key_def)
  have "arrbIdx l \<le> length (abbreviations d)"
    using zone_at_in [OF assms(1), of True t] assms(1,3) by (simp add: zone_ok_def list_all_iff)
  with f assms(4) show ?thesis by (simp add: toLocalTime_def)
qed

text \<open>
  C22: \<open>toLocalTime\<close> gives the local time in force with its flag, offset and name, and \<open>fromLocalTime\<close> leads
  back to the same time, with summer time or without, except in the hour that the clock repeats. This
  needs a process that runs in UTC, where \<open>localtime_r\<close> is \<open>gmtime_r\<close>.
\<close>

theorem zone_time_roundtrip:
  assumes "zone_ok d" "ascending True d" "ascending False d" "timegm_inverts gm tg" "l = zone_at True d t"
    "\<forall>x \<in> set (transitions d). t < gmttime x \<longrightarrow> t + gmtOffset l < tr_localtime x"
    "clong t = Some t" "clong (t + gmtOffset l) = Some (t + gmtOffset l)"
  shows "\<exists>u. toLocalTime gm \<lparr>zone = Some d\<rparr> t = Some u \<and> tg u = t + gmtOffset l \<and> tm_gmtoff u = gmtOffset l \<and>
    (tm_isdst u \<noteq> 0 \<longleftrightarrow> isDst l) \<and> fromLocalTime gm tg \<lparr>zone = Some d\<rparr> u = Some t"
proof -
  define u where "u = (gm (t + gmtOffset l))\<lparr>tm_isdst := (if isDst l then 1 else 0), tm_gmtoff := gmtOffset l,
    tm_zone := takeWhile (\<lambda>c. c \<noteq> NUL) (drop (arrbIdx l) (abbreviations d))\<rparr>"
  have to: "toLocalTime gm \<lparr>zone = Some d\<rparr> t = Some u" unfolding u_def by (rule toLocalTime_at [OF assms(1,2,5,8)])
  have tg: "tg u = t + gmtOffset l" using assms(4) by (simp add: timegm_inverts_def u_def)
  have "findLocaltime d \<lparr>gmttime = 0, tr_localtime = t + gmtOffset l, localtimeIdx = 0\<rparr> False = Some (zone_at False d (t + gmtOffset l))"
    by (rule find_last [OF assms(1,3)]) (simp add: tr_key_def)
  moreover have "zone_at False d (t + gmtOffset l) = l"
    using zone_at_local [OF assms(1,3) _ assms(6)] assms(5) by simp
  ultimately have "fromLocalTime gm tg \<lparr>zone = Some d\<rparr> u = Some t"
    using to tg assms(7) by (simp add: fromLocalTime_def)
  with to tg show ?thesis by (intro exI [of _ u]) (simp add: u_def)
qed

definition demo_gmtime :: "int \<Rightarrow> tmx" where
  "demo_gmtime s = tm_zero\<lparr>tm_sec := s mod 60, tm_min := s div 60 mod 60, tm_hour := s div 3600\<rparr>"

definition demo_timegm :: "tmx \<Rightarrow> int" where
  "demo_timegm u = tm_hour u * 3600 + tm_min u * 60 + tm_sec u"

lemma demo_timegm_inverts: "timegm_inverts demo_gmtime demo_timegm"
proof -
  have "s div 3600 * 3600 + s div 60 mod 60 * 60 + s mod 60 = s" for s :: int
  proof -
    have "s div 3600 = s div 60 div 60" by (simp add: zdiv_zmult2_eq [symmetric])
    then show ?thesis using mult_div_mod_eq [of 60 "s div 60"] mult_div_mod_eq [of 60 s] by linarith
  qed
  then show ?thesis by (simp add: timegm_inverts_def demo_timegm_def demo_gmtime_def)
qed

theorem zone_time_roundtrip_witness:
  "\<exists>u. toLocalTime demo_gmtime \<lparr>zone = Some demo_zone\<rparr> 1500000 = Some u \<and> tm_isdst u \<noteq> 0 \<and>
    fromLocalTime demo_gmtime demo_timegm \<lparr>zone = Some demo_zone\<rparr> u = Some 1500000"
proof -
  have l: "zone_at True demo_zone 1500000 = \<lparr>gmtOffset = 7200, isDst = True, arrbIdx = 4\<rparr>"
    by (simp add: zone_at_def demo_zone_def tr_key_def)
  show ?thesis
    using zone_time_roundtrip [OF demo_zone_ok(1) demo_zone_ascending demo_zone_ascending demo_timegm_inverts l [symmetric]]
    by (auto simp: clong_def demo_zone_def)
qed

text \<open>
  In a process with a time zone of its own both offsets are added. When \<open>localtime_r\<close> is off by \<open>p\<close>
  seconds from UTC, a zone of fixed offset shows the time \<open>p\<close> seconds wrong, and the way back does not
  lead to the same time.
\<close>

theorem zone_offset_twice:
  assumes "timegm_inverts gm tg" "clong (t + e) = Some (t + e)" "clong (t + p) = Some (t + p)"
  shows "\<exists>u. toLocalTime (\<lambda>s. gm (s + p)) (TimeZone_fixed e n) t = Some u \<and> tg u = t + e + p \<and>
    fromLocalTime (\<lambda>s. gm (s + p)) tg (TimeZone_fixed e n) u = Some (t + p)"
proof -
  let ?d = "new_Data\<lparr>localtimes := [\<lparr>gmtOffset = e, isDst = False, arrbIdx = 0\<rparr>], abbreviations := n\<rparr>"
  have f: "findLocaltime ?d x g = Some \<lparr>gmtOffset = e, isDst = False, arrbIdx = 0\<rparr>" for x g
    by (simp add: findLocaltime_def new_Data_def localtime_at_def)
  define u where "u = (gm (t + e + p))\<lparr>tm_isdst := 0, tm_gmtoff := e, tm_zone := takeWhile (\<lambda>c. c \<noteq> NUL) n\<rparr>"
  have "toLocalTime (\<lambda>s. gm (s + p)) (TimeZone_fixed e n) t = Some u"
    using assms(2) f by (simp add: toLocalTime_def TimeZone_fixed_def u_def new_Data_def)
  moreover have tg: "tg u = t + e + p" using assms(1) by (simp add: timegm_inverts_def u_def)
  moreover have "t + e + p - e = t + p" by simp
  then have "fromLocalTime (\<lambda>s. gm (s + p)) tg (TimeZone_fixed e n) u = Some (t + p)"
    using f assms(3) by (simp add: fromLocalTime_def TimeZone_fixed_def tg) (simp add: u_def)
  ultimately show ?thesis by blast
qed

theorem zone_offset_twice_witness:
  "\<exists>u. toLocalTime (\<lambda>s. demo_gmtime (s + 28800)) (TimeZone_fixed 28800 ''CST'') 0 = Some u \<and> demo_timegm u = 57600 \<and>
    fromLocalTime (\<lambda>s. demo_gmtime (s + 28800)) demo_timegm (TimeZone_fixed 28800 ''CST'') u = Some 28800"
  using zone_offset_twice [OF demo_timegm_inverts, of 0 28800 28800 "''CST''"] by (simp add: clong_def)

end
