(* ===== verification/Muduo_Process.thy ===== *)
theory Muduo_Process
  imports Proc_Name Muduo_Stream Calendar
begin

text \<open>
  \<open>ReadSmallFile\<close> of \<open>src/src/log/muduo-clog/muduo/base/FileUtil.h\<close> and \<open>FileUtil.cc\<close>, and
  \<open>ProcessInfo.h\<close>, \<open>ProcessInfo.cc\<close>, which reads the \<open>/proc\<close> file system through it.

  An open file is what is left to read and how the next calls of \<open>read\<close> behave: a call may give fewer
  bytes than asked for, but at least one unless the file is at its end, or fail with an error number;
  behind the end of the list calls give what they are asked for.
\<close>

section \<open>ReadSmallFile\<close>

definition kBufferSize :: nat where "kBufferSize = 64 * 1024"

datatype sys_read = Chunk nat | ReadFails int

type_synonym open_file = "sys_read list \<times> string"

definition do_read :: "open_file \<Rightarrow> nat \<Rightarrow> (int + string) \<times> open_file" where
  "do_read f n = (case f of
     ([], s) \<Rightarrow> (Inr (take n s), ([], drop n s))
   | (Chunk k # rs, s) \<Rightarrow> (Inr (take (min (Suc k) n) s), (rs, drop (min (Suc k) n) s))
   | (ReadFails e # rs, s) \<Rightarrow> (Inl e, (rs, s)))"

record ReadSmallFile =
  rsf_fd :: "open_file option"
  rsf_err :: int
  rsf_buf :: "char list"

text \<open>The constructor; \<open>op\<close> is the result of \<open>open\<close>, \<open>garbage\<close> the array before.\<close>

definition new_ReadSmallFile :: "int + open_file \<Rightarrow> char list \<Rightarrow> ReadSmallFile option" where
  "new_ReadSmallFile op garbage = map_option (\<lambda>b. (case op of
       Inl errno \<Rightarrow> \<lparr>rsf_fd = None, rsf_err = errno, rsf_buf = b\<rparr>
     | Inr f \<Rightarrow> \<lparr>rsf_fd = Some f, rsf_err = 0, rsf_buf = b\<rparr>)) (aset garbage 0 NUL)"

datatype file_kind = Regular | Directory | OtherFile

record stat_info =
  st_kind :: file_kind
  st_size :: int
  st_mtime :: int
  st_ctime :: int

definition EISDIR :: int where "EISDIR = 21"

text \<open>The loop: the content and the error so far.\<close>

function read_loop :: "open_file \<Rightarrow> nat \<Rightarrow> string \<Rightarrow> int \<Rightarrow> int \<times> string" where
  "read_loop f maxSize content err =
     (if length content < maxSize then
        (case do_read f (min (maxSize - length content) kBufferSize) of
           (Inl e, f') \<Rightarrow> (e, content)
         | (Inr t, f') \<Rightarrow> if t = [] then (err, content) else read_loop f' maxSize (content @ t) err)
      else (err, content))"
  by pat_completeness auto
termination by (relation "measure (\<lambda>(f, m, c, e). m - length c)") (auto simp: neq_Nil_conv)

declare read_loop.simps [simp del]

text \<open>The results behind the pointers \<open>fileSize\<close>, \<open>modifyTime\<close> and \<open>createTime\<close>; \<^term>\<open>None\<close> is an object left alone.\<close>

record stat_out =
  out_size :: "int option"
  out_mtime :: "int option"
  out_ctime :: "int option"

text \<open>\<open>implicit_cast<size_t>\<close> of an \<open>int\<close>.\<close>

definition to_size :: "int \<Rightarrow> nat" where
  "to_size n = nat (n mod 2 ^ 64)"

definition stat_part :: "int + stat_info \<Rightarrow> bool \<Rightarrow> bool \<Rightarrow> int \<Rightarrow> int \<times> stat_out" where
  "stat_part st wantMtime wantCtime err = (case st of
     Inl e \<Rightarrow> (e, \<lparr>out_size = None, out_mtime = None, out_ctime = None\<rparr>)
   | Inr i \<Rightarrow> (if st_kind i = Directory then EISDIR else err,
       \<lparr>out_size = (if st_kind i = Regular then Some (st_size i) else None),
        out_mtime = (if wantMtime then Some (st_mtime i) else None),
        out_ctime = (if wantCtime then Some (st_ctime i) else None)\<rparr>))"

definition readToString ::
  "ReadSmallFile \<Rightarrow> int + stat_info \<Rightarrow> int \<Rightarrow> string \<Rightarrow> bool \<Rightarrow> bool \<Rightarrow> bool \<Rightarrow> int \<times> string \<times> stat_out" where
  "readToString f st maxSize content wantSize wantMtime wantCtime = (case rsf_fd f of
     None \<Rightarrow> (rsf_err f, content, \<lparr>out_size = None, out_mtime = None, out_ctime = None\<rparr>)
   | Some fd \<Rightarrow>
       (let (err, o') = (if wantSize then stat_part st wantMtime wantCtime (rsf_err f)
                         else (rsf_err f, \<lparr>out_size = None, out_mtime = None, out_ctime = None\<rparr>));
            (err, content) = read_loop fd (to_size maxSize) [] err
        in (err, content, o')))"

text \<open>\<open>pread\<close> from the start of the file; \<open>n\<close> bytes of it are given.\<close>

definition readToBuffer :: "ReadSmallFile \<Rightarrow> int + nat \<Rightarrow> (int \<times> int option \<times> ReadSmallFile) option" where
  "readToBuffer f res = (case rsf_fd f of
     None \<Rightarrow> Some (rsf_err f, None, f)
   | Some (rs, s) \<Rightarrow> (case res of
       Inl e \<Rightarrow> Some (e, None, f)
     | Inr k \<Rightarrow> (let t = take (min k (kBufferSize - 1)) s in do {
         b \<leftarrow> memcpy_at (rsf_buf f) 0 t (length t);
         b \<leftarrow> aset b (int (length t)) NUL;
         Some (rsf_err f, Some (int (length t)), f\<lparr>rsf_buf := b\<rparr>) })))"

definition readFile :: "int + open_file \<Rightarrow> char list \<Rightarrow> int + stat_info \<Rightarrow> int \<Rightarrow> string \<Rightarrow> (int \<times> string) option" where
  "readFile op garbage st maxSize content = do {
     f \<leftarrow> new_ReadSmallFile op garbage;
     let (err, content, out) = readToString f st maxSize content False False False;
     Some (err, content) }"

section \<open>ProcessInfo\<close>

definition pidString :: "int \<Rightarrow> string" where
  "pidString pid = snprintf_text 32 (show_int pid)"

text \<open>\<open>getpwuid_r\<close> gives the name of the user or nothing.\<close>

definition username :: "string option \<Rightarrow> string" where
  "username pw_name = (case pw_name of Some n \<Rightarrow> n | None \<Rightarrow> ''unknownuser'')"

text \<open>\<open>gethostname\<close> into 256 bytes: \<open>None\<close> is its failure, otherwise the array it leaves.\<close>

definition hostname :: "char list option \<Rightarrow> string option" where
  "hostname res = (case res of
     None \<Rightarrow> Some ''unknownhost''
   | Some buf \<Rightarrow> aset buf 255 NUL \<bind> cstring)"

definition procname :: "string \<Rightarrow> string" where
  "procname stat = (case (strchr stat CHR ''('', strrchr stat CHR '')'') of
     (Some lp, Some rp) \<Rightarrow> if lp < rp then take (rp - lp - 1) (drop (lp + 1) stat) else []
   | _ \<Rightarrow> [])"

text \<open>\<open>procStatus\<close>, \<open>procStat\<close> and \<open>threadStat\<close> of a file: the content, also after an error.\<close>

definition proc_text :: "int + open_file \<Rightarrow> char list \<Rightarrow> string option" where
  "proc_text op garbage = map_option snd (readFile op garbage (Inl 0) 65536 [])"

definition threadStat_path :: "int \<Rightarrow> string" where
  "threadStat_path tid = snprintf_text 64 (''/proc/self/task/'' @ show_int tid @ ''/stat'')"

definition exePath :: "char list \<Rightarrow> int \<Rightarrow> string" where
  "exePath buf n = (if n > 0 then take (nat n) buf else [])"

text \<open>A directory is the list of the names in it; the filters count or collect and reject every entry.\<close>

definition fdDirFilter :: "nat \<Rightarrow> string \<Rightarrow> nat" where
  "fdDirFilter n d_name = (case d_name of c # s \<Rightarrow> if isdigit c then n + 1 else n | [] \<Rightarrow> n)"

definition openedFiles :: "string list \<Rightarrow> nat" where
  "openedFiles ds = foldl fdDirFilter 0 ds"

definition maxOpenFiles :: "int option \<Rightarrow> string list \<Rightarrow> int" where
  "maxOpenFiles rlim_cur ds = (case rlim_cur of None \<Rightarrow> int (openedFiles ds) | Some n \<Rightarrow> (n + 2 ^ 31) mod 2 ^ 32 - 2 ^ 31)"

fun taskDirFilter :: "string list \<Rightarrow> int list \<Rightarrow> int list option" where
  "taskDirFilter [] t_pids = Some t_pids"
| "taskDirFilter (d_name # ds) t_pids =
     (if d_name \<noteq> [] \<and> isdigit (hd d_name) then atoi d_name \<bind> (\<lambda>p. taskDirFilter ds (t_pids @ [p])) else taskDirFilter ds t_pids)"

definition process_threads :: "string list \<Rightarrow> int list option" where
  "process_threads ds = map_option sort (taskDirFilter ds [])"

text \<open>The position of the first occurrence of a text.\<close>

fun str_find :: "string \<Rightarrow> string \<Rightarrow> nat option" where
  "str_find [] t = (if t = [] then Some 0 else None)"
| "str_find (c # s) t = (if take (length t) (c # s) = t then Some 0 else map_option Suc (str_find s t))"

definition numThreads :: "string \<Rightarrow> int option" where
  "numThreads status = (case str_find status ''Threads:'' of
     None \<Rightarrow> Some 0
   | Some pos \<Rightarrow> atoi (takeWhile (\<lambda>c. c \<noteq> NUL) (drop (pos + 8) status)))"

section \<open>What is read\<close>

lemma do_read_cases:
  assumes "do_read (rs, s) n = (r, rs', s')" "0 < n"
  obtains e where "r = Inl e" "ReadFails e \<in> set rs" | t where "r = Inr t" "s = t @ s'" "length t \<le> n" "set rs' \<subseteq> set rs" "t = [] \<longrightarrow> s = []"
proof (cases rs)
  case Nil
  then show ?thesis using assms by (intro that(2) [of "take n s"]) (auto simp: do_read_def)
next
  case (Cons x xs)
  show ?thesis
  proof (cases x)
    case (Chunk k)
    then show ?thesis using assms Cons by (intro that(2) [of "take (min (Suc k) n) s"]) (auto simp: do_read_def)
  qed (use assms Cons in \<open>auto simp: do_read_def intro: that(1)\<close>)
qed

text \<open>The loop reads a prefix, and all of it unless a call of \<open>read\<close> fails.\<close>

lemma read_loop_prefix:
  assumes "read_loop (rs, s) m c e = (e', c')" "length c \<le> m"
  shows "\<exists>t. c' = c @ t \<and> t = take (length t) s \<and> length c' \<le> m \<and>
    (e' = e \<and> t = take (m - length c) s \<or> ReadFails e' \<in> set rs)"
  using assms
proof (induction "(rs, s)" m c e arbitrary: rs s rule: read_loop.induct)
  case (1 m c e rs s)
  show ?case
  proof (cases "length c < m")
    case False
    then show ?thesis using 1(2,3) by (simp add: read_loop.simps)
  next
    case True
    obtain r rs' s' where d: "do_read (rs, s) (min (m - length c) kBufferSize) = (r, rs', s')" by (metis prod.exhaust)
    have n: "0 < min (m - length c) kBufferSize" using True by (simp add: kBufferSize_def)
    show ?thesis
    proof (cases rule: do_read_cases [OF d n])
      case (1 x)
      then show ?thesis using "1.prems" True d by (auto simp: read_loop.simps [of "(rs, s)"])
    next
      case (2 t)
      show ?thesis
      proof (cases "t = []")
        case t: True
        then have "read_loop (rs, s) m c e = (e, c)" using 2 True d by (subst read_loop.simps) simp
        then show ?thesis using t 2 "1.prems" by simp
      next
        case t: False
        have "read_loop (rs, s) m c e = read_loop (rs', s') m (c @ t) e" using 2 t True d by (subst read_loop.simps) simp
        then have l: "read_loop (rs', s') m (c @ t) e = (e', c')" "length (c @ t) \<le> m"
          using 2 "1.prems" True by auto
        from "1.hyps" [OF True d [symmetric] 2(1) t l]
        obtain u where u: "c' = (c @ t) @ u" "u = take (length u) s'" "length c' \<le> m"
          "e' = e \<and> u = take (m - length (c @ t)) s' \<or> ReadFails e' \<in> set rs'" by blast
        have "t @ u = take (length (t @ u)) s" using 2(2) u(2) by simp
        moreover have "t @ u = take (m - length c) s" if "u = take (m - length (c @ t)) s'"
          using 2(2) l(2) that by simp
        moreover have "e' = e \<and> t @ u = take (m - length c) s \<or> ReadFails e' \<in> set rs" using calculation(2) u(4) 2(4) by blast
        moreover have "c' = c @ t @ u" using u(1) by simp
        ultimately show ?thesis using u(3) by blast
      qed
    qed
  qed
qed



section \<open>What the texts of \<open>/proc\<close> give\<close>

lemma procname_between:
  assumes "CHR ''('' \<notin> set a" "CHR '')'' \<notin> set b"
  shows "procname (a @ ''('' @ nm @ '')'' @ b) = nm"
proof -
  have "strchr (a @ CHR ''('' # nm @ CHR '')'' # b) CHR ''('' = Some (length a)" by (rule strchr_first [OF assms(1)])
  moreover have "strrchr ((a @ CHR ''('' # nm) @ CHR '')'' # b) CHR '')'' = Some (length (a @ CHR ''('' # nm))" by (rule strrchr_last [OF assms(2)])
  ultimately show ?thesis by (simp add: procname_def)
qed

lemma str_find_fits: "str_find s t = Some k \<Longrightarrow> k + length t \<le> length s"
proof (induction s arbitrary: k)
  case (Cons c s)
  have "length t \<le> length (c # s)" if "take (length t) (c # s) = t" using arg_cong [OF that, of length] by simp
  then show ?case using Cons by (auto split: if_splits)
qed (auto split: if_splits)

lemma str_find_append: "str_find s t = Some k \<Longrightarrow> str_find (s @ r) t = Some k"
proof (induction s arbitrary: k)
  case Nil
  then show ?case by (cases r) (auto split: if_splits)
next
  case (Cons c s)
  have "length t \<le> length (c # s)" using str_find_fits [OF Cons(2)] by simp
  then have "take (length t) (c # s @ r) = take (length t) (c # s)" using take_append [of "length t" "c # s" r] by simp
  then show ?case using Cons by (auto split: if_splits)
qed

lemma atoi_show:
  assumes "0 \<le> i" "i \<le> INT_MAX" "s = [] \<or> \<not> isdigit (hd s)" "list_all isspace b"
  shows "atoi (b @ show_int i @ s) = Some i"
proof -
  obtain n where n: "i = int n" using assms(1) nonneg_int_cases by blast
  note d = show_nat_digits [of n]
  have "dropWhile isspace (b @ show_nat n @ s) = show_nat n @ s"
    using assms(4) d isdigit_not_special by (induction b) (cases "show_nat n"; auto)+
  moreover have "takeWhile isdigit (show_nat n @ s) = show_nat n"
    using d assms(3) by (cases s) (auto simp: takeWhile_append)
  ultimately have "scan_dec (b @ show_nat n @ s) = Some i"
    using d isdigit_not_special n by (cases "show_nat n") (auto simp: scan_dec_def Let_def)
  then show ?thesis using assms(1,2) n by (simp add: atoi_def show_int_def cint_def int_limits)
qed

lemma show_int_digits: "0 \<le> i \<Longrightarrow> show_int i \<noteq> [] \<and> (\<forall>c \<in> set (show_int i). isdigit c)"
  using show_nat_digits [of "nat i"] by (simp add: show_int_def)

lemma taskDirFilter_all:
  assumes "list_all (\<lambda>i. 0 \<le> i \<and> i \<le> INT_MAX) ts"
  shows "taskDirFilter (map show_int ts @ ds) acc = taskDirFilter ds (acc @ ts)"
  using assms
proof (induction ts arbitrary: acc)
  case (Cons i ts)
  have "atoi (show_int i) = Some i" using atoi_show [of i "[]" "[]"] Cons(2) by simp
  moreover have "show_int i \<noteq> []" "isdigit (hd (show_int i))" using show_int_digits [of i] Cons(2) by auto
  ultimately show ?case using Cons by simp
qed simp

text \<open>
  What is read out of \<open>/proc\<close>. The name of the process is all between the first opening and the last
  closing parenthesis, so a name may contain parentheses and blanks itself; the number of threads is
  the one behind its label; the threads of the process are the numbers among the directory
  entries, in ascending order, and the open files are counted as the entries that start with a digit.
\<close>

theorem proc_texts_parsed:
  assumes "CHR ''('' \<notin> set a" "CHR '')'' \<notin> set b" "0 \<le> k" "k \<le> INT_MAX" "str_find (p @ ''Threads:'') ''Threads:'' = Some (length p)"
    "list_all (\<lambda>i. 0 \<le> i \<and> i \<le> INT_MAX) ts"
  shows "procname (a @ ''('' @ nm @ '')'' @ b) = nm \<and> numThreads (p @ ''Threads:'' @ [TAB] @ show_int k @ [NL] @ q) = Some k \<and>
    process_threads ([''.'', ''..''] @ map show_int ts) = Some (sort ts) \<and> openedFiles ([''.'', ''..''] @ map show_int ts) = length ts"
proof (intro conjI)
  show "procname (a @ ''('' @ nm @ '')'' @ b) = nm" by (rule procname_between [OF assms(1,2)])
  let ?r = "[TAB] @ show_int k @ [NL] @ q"
  have f: "str_find (p @ ''Threads:'' @ ?r) ''Threads:'' = Some (length p)" using str_find_append [OF assms(5), of ?r] by simp
  have "takeWhile (\<lambda>c. c \<noteq> NUL) ?r = [TAB] @ show_int k @ [NL] @ takeWhile (\<lambda>c. c \<noteq> NUL) q"
    using no_nul_show_int by (simp add: takeWhile_append no_nul_def)
  then show "numThreads (p @ ''Threads:'' @ ?r) = Some k"
    using f atoi_show [OF assms(3,4), of "[NL] @ takeWhile (\<lambda>c. c \<noteq> NUL) q" "[TAB]"]
    by (simp add: numThreads_def isdigit_def isspace_def)
  show "process_threads ([''.'', ''..''] @ map show_int ts) = Some (sort ts)"
    using taskDirFilter_all [OF assms(6), of "[]" "[]"] by (simp add: process_threads_def isdigit_def)
  have "foldl fdDirFilter n (map show_int ts) = n + length ts" for n
    using assms(6)
  proof (induction ts arbitrary: n)
    case (Cons i ts)
    then have "fdDirFilter n (show_int i) = n + 1" using show_int_digits [of i] by (cases "show_int i") (auto simp: fdDirFilter_def)
    then show ?case using Cons by simp
  qed simp
  then show "openedFiles ([''.'', ''..''] @ map show_int ts) = length ts" by (simp add: openedFiles_def fdDirFilter_def isdigit_def)
qed

theorem proc_texts_parsed_witness:
  "procname ''7 (a) (b)) S 1'' = ''a) (b)'' \<and> numThreads (''Pid:7 '' @ ''Threads:'' @ [TAB] @ show_int 3 @ [NL] @ ''x'') = Some 3 \<and>
    process_threads ([''.'', ''..''] @ map show_int [9, 7, 8]) = Some [7, 8, 9] \<and> openedFiles ([''.'', ''..''] @ map show_int [9, 7, 8]) = 3"
  using proc_texts_parsed [of "''7 ''" "'' S 1''" 3 "''Pid:7 ''" "[9, 7, 8]" "''a) (b)''" "''x''"] by (simp add: int_limits)

end
