(* ===== verification/Muduo_Piece.thy ===== *)
theory Muduo_Piece
  imports CString "HOL-Library.Sublist"
begin

text \<open>
  \<open>StringPiece\<close> of \<open>muduo/base/StringPiece.h\<close>: a pointer into some array and a length. The pointer is
  the array and an offset in it, or NULL. Nothing checks the length, so each operation says what it
  reads: an access outside the array, or a negative length turned into \<open>size_t\<close>, is undefined. A
  comparison of no bytes reads nothing, also at NULL. Bytes compare as unsigned characters;
  of the result of \<open>memcmp\<close> only the sign is documented, here it is -1, 0 or 1.
\<close>

section \<open>The operations\<close>

record StringPiece =
  sp_array :: "char list option"
  sp_offset :: int
  sp_length :: int

definition StringPiece_empty :: StringPiece where
  "StringPiece_empty = \<lparr>sp_array = None, sp_offset = 0, sp_length = 0\<rparr>"

text \<open>From a C string (also \<open>set(const char*)\<close>), and from a \<open>std::string\<close>; lengths above \<open>int\<close> are not covered.\<close>

definition StringPiece_cstr :: "char list \<Rightarrow> StringPiece option" where
  "StringPiece_cstr str = do {
     n \<leftarrow> strlen str;
     n \<leftarrow> cint n;
     Some \<lparr>sp_array = Some str, sp_offset = 0, sp_length = n\<rparr> }"

definition StringPiece_string :: "string \<Rightarrow> StringPiece option" where
  "StringPiece_string str = do {
     n \<leftarrow> cint (int (length str));
     Some \<lparr>sp_array = Some (str @ [NUL]), sp_offset = 0, sp_length = n\<rparr> }"

definition StringPiece_range :: "char list \<Rightarrow> int \<Rightarrow> int \<Rightarrow> StringPiece" where
  "StringPiece_range a off n = \<lparr>sp_array = Some a, sp_offset = off, sp_length = n\<rparr>"

definition sp_empty :: "StringPiece \<Rightarrow> bool" where
  "sp_empty p \<longleftrightarrow> sp_length p = 0"

definition sp_clear :: "StringPiece \<Rightarrow> StringPiece" where
  "sp_clear p = p\<lparr>sp_array := None, sp_offset := 0, sp_length := 0\<rparr>"

definition sp_at :: "StringPiece \<Rightarrow> int \<Rightarrow> char option" where
  "sp_at p i = do { a \<leftarrow> sp_array p; aget a (sp_offset p + i) }"

text \<open>The pointer may go to the end of its array, not farther; adding to NULL is defined for 0 only.\<close>

definition remove_prefix :: "StringPiece \<Rightarrow> int \<Rightarrow> StringPiece option" where
  "remove_prefix p n =
     (let off = sp_offset p + n in
      if (case sp_array p of None \<Rightarrow> n = 0 | Some a \<Rightarrow> 0 \<le> off \<and> off \<le> int (length a)) then do {
        l \<leftarrow> cint (sp_length p - n);
        Some (p\<lparr>sp_offset := off, sp_length := l\<rparr>)
      } else None)"

definition remove_suffix :: "StringPiece \<Rightarrow> int \<Rightarrow> StringPiece option" where
  "remove_suffix p n = do { l \<leftarrow> cint (sp_length p - n); Some (p\<lparr>sp_length := l\<rparr>) }"

text \<open>The \<open>n\<close> bytes at the pointer.\<close>

definition sp_bytes :: "StringPiece \<Rightarrow> int \<Rightarrow> char list option" where
  "sp_bytes p n =
     (if n = 0 then Some []
      else case sp_array p of
          None \<Rightarrow> None
        | Some a \<Rightarrow> if 0 < n \<and> 0 \<le> sp_offset p \<and> sp_offset p + n \<le> int (length a)
                    then Some (take (nat n) (drop (nat (sp_offset p)) a)) else None)"

fun byte_cmp :: "char list \<Rightarrow> char list \<Rightarrow> int" where
  "byte_cmp (a # xs) (b # ys) =
     (if (of_char a :: nat) < of_char b then - 1 else if (of_char b :: nat) < of_char a then 1 else byte_cmp xs ys)"
| "byte_cmp _ _ = 0"

definition sp_memcmp :: "StringPiece \<Rightarrow> StringPiece \<Rightarrow> int \<Rightarrow> int option" where
  "sp_memcmp p q n = do { x \<leftarrow> sp_bytes p n; y \<leftarrow> sp_bytes q n; Some (byte_cmp x y) }"

definition sp_eq :: "StringPiece \<Rightarrow> StringPiece \<Rightarrow> bool option" where
  "sp_eq p q =
     (if sp_length p = sp_length q then do { r \<leftarrow> sp_memcmp p q (sp_length p); Some (r = 0) } else Some False)"

definition sp_neq :: "StringPiece \<Rightarrow> StringPiece \<Rightarrow> bool option" where
  "sp_neq p q = do { b \<leftarrow> sp_eq p q; Some (\<not> b) }"

text \<open>\<open>STRINGPIECE_BINARY_PREDICATE(cmp, auxcmp)\<close> and its four instances.\<close>

definition binary_predicate :: "(int \<Rightarrow> int \<Rightarrow> bool) \<Rightarrow> (int \<Rightarrow> int \<Rightarrow> bool) \<Rightarrow> StringPiece \<Rightarrow> StringPiece \<Rightarrow> bool option" where
  "binary_predicate cmp auxcmp p q = do {
     r \<leftarrow> sp_memcmp p q (if sp_length p < sp_length q then sp_length p else sp_length q);
     Some (auxcmp r 0 \<or> r = 0 \<and> cmp (sp_length p) (sp_length q)) }"

definition sp_less :: "StringPiece \<Rightarrow> StringPiece \<Rightarrow> bool option" where "sp_less = binary_predicate (<) (<)"
definition sp_le :: "StringPiece \<Rightarrow> StringPiece \<Rightarrow> bool option" where "sp_le = binary_predicate (\<le>) (<)"
definition sp_ge :: "StringPiece \<Rightarrow> StringPiece \<Rightarrow> bool option" where "sp_ge = binary_predicate (\<ge>) (>)"
definition sp_greater :: "StringPiece \<Rightarrow> StringPiece \<Rightarrow> bool option" where "sp_greater = binary_predicate (>) (>)"

lemmas sp_order_defs = sp_less_def sp_le_def sp_ge_def sp_greater_def

definition sp_compare :: "StringPiece \<Rightarrow> StringPiece \<Rightarrow> int option" where
  "sp_compare p q = do {
     r \<leftarrow> sp_memcmp p q (if sp_length p < sp_length q then sp_length p else sp_length q);
     Some (if r = 0 then (if sp_length p < sp_length q then - 1 else if sp_length p > sp_length q then 1 else r) else r) }"

text \<open>\<open>as_string\<close>, \<open>CopyToString\<close> and \<open>CopyToStdString\<close> make the same string.\<close>

definition as_string :: "StringPiece \<Rightarrow> string option" where
  "as_string p = sp_bytes p (sp_length p)"

definition starts_with :: "StringPiece \<Rightarrow> StringPiece \<Rightarrow> bool option" where
  "starts_with p q =
     (if sp_length p \<ge> sp_length q then do { r \<leftarrow> sp_memcmp p q (sp_length q); Some (r = 0) } else Some False)"

section \<open>A piece as the text it shows\<close>

text \<open>A piece shows a text when its length is the text's and the text stands at the pointer.\<close>

definition piece_shows :: "StringPiece \<Rightarrow> string \<Rightarrow> bool" where
  "piece_shows p s \<longleftrightarrow> sp_length p = int (length s) \<and> int (length s) \<le> INT_MAX \<and>
     (case sp_array p of
        None \<Rightarrow> s = []
      | Some a \<Rightarrow> 0 \<le> sp_offset p \<and> sp_offset p \<le> int (length a) \<and> prefix s (drop (nat (sp_offset p)) a))"

lemma shows_length: "piece_shows p s \<Longrightarrow> sp_length p = int (length s)"
  by (simp add: piece_shows_def)

lemma shows_cases:
  assumes "piece_shows p s"
  obtains "sp_array p = None" "s = []"
  | u v where "sp_array p = Some (u @ s @ v)" "sp_offset p = int (length u)"
proof (cases "sp_array p")
  case None
  then show ?thesis using assms that(1) by (simp add: piece_shows_def)
next
  case (Some a)
  then have f: "0 \<le> sp_offset p" "nat (sp_offset p) \<le> length a" "prefix s (drop (nat (sp_offset p)) a)"
    using assms by (auto simp: piece_shows_def)
  then obtain v where "drop (nat (sp_offset p)) a = s @ v" by (auto simp: prefix_def)
  then have "a = take (nat (sp_offset p)) a @ s @ v" using append_take_drop_id [of "nat (sp_offset p)" a] by simp
  then show ?thesis using that(2) [of "take (nat (sp_offset p)) a" v] Some f(1,2) by simp
qed

lemma shows_bytes:
  assumes "piece_shows p s" "n \<le> length s"
  shows "sp_bytes p (int n) = Some (take n s)"
  using assms(1) by (cases rule: shows_cases) (use assms(2) in \<open>auto simp: sp_bytes_def\<close>)

lemma shows_string: "piece_shows p s \<Longrightarrow> as_string p = Some s"
  using shows_bytes [of p s "length s"] by (simp add: as_string_def shows_length)

lemma shows_at:
  assumes "piece_shows p s" "i < length s"
  shows "sp_at p (int i) = Some (s ! i)"
  using assms(1) by (cases rule: shows_cases) (use assms(2) in \<open>auto simp: sp_at_def aget_def nth_append nat_add_distrib\<close>)

text \<open>The order of byte strings: at the first difference, or the shorter one first.\<close>

definition byte_less :: "string \<Rightarrow> string \<Rightarrow> bool" where
  "byte_less s t \<longleftrightarrow> (s, t) \<in> lexord {(a, b). (of_char a :: nat) < of_char b}"

lemma of_char_less_cases: "a = b \<or> (of_char a :: nat) < of_char b \<or> (of_char b :: nat) < of_char a"
  by (metis linorder_less_linear of_char_eq_iff)

lemma byte_cmp_same: "length s = length t \<Longrightarrow> byte_cmp s t = 0 \<longleftrightarrow> s = t"
  by (induction s t rule: list_induct2) (use of_char_less_cases in auto)

lemma byte_cmp_order:
  "byte_less s t \<longleftrightarrow>
     (let r = byte_cmp (take (min (length s) (length t)) s) (take (min (length s) (length t)) t)
      in r < 0 \<or> r = 0 \<and> length s < length t)"
proof (induction s arbitrary: t)
  case Nil
  then show ?case by (cases t) (simp_all add: byte_less_def)
next
  case (Cons a s)
  then show ?case
  proof (cases t)
    case Nil
    then show ?thesis by (simp add: byte_less_def)
  next
    case c: (Cons b u)
    have "byte_less (a # s) (b # u) \<longleftrightarrow> (of_char a :: nat) < of_char b \<or> a = b \<and> byte_less s u"
      by (simp add: byte_less_def)
    then show ?thesis unfolding c using Cons.IH [of u] of_char_less_cases [of a b] by (auto simp: Let_def)
  qed
qed

lemma byte_cmp_sym: "byte_cmp t s = - byte_cmp s t"
  by (induction s t rule: byte_cmp.induct) auto

lemma byte_cmp_range: "\<bar>byte_cmp s t\<bar> \<le> 1"
  by (induction s t rule: byte_cmp.induct) auto

lemma shows_memcmp:
  assumes "piece_shows p s" "piece_shows q t" "n \<le> length s" "n \<le> length t"
  shows "sp_memcmp p q (int n) = Some (byte_cmp (take n s) (take n t))"
  using shows_bytes [OF assms(1,3)] shows_bytes [OF assms(2,4)] by (simp add: sp_memcmp_def)

lemma shows_min_memcmp:
  assumes "piece_shows p s" "piece_shows q t"
  shows "sp_memcmp p q (if sp_length p < sp_length q then sp_length p else sp_length q) =
    Some (byte_cmp (take (min (length s) (length t)) s) (take (min (length s) (length t)) t))"
proof -
  have "(if sp_length p < sp_length q then sp_length p else sp_length q) = int (min (length s) (length t))"
    using assms by (simp add: shows_length min_def)
  then show ?thesis using shows_memcmp [OF assms, of "min (length s) (length t)"] by simp
qed

lemma string_piece_order_facts:
  assumes "piece_shows p s" "piece_shows q t"
  shows "sp_eq p q = Some (s = t)" "sp_neq p q = Some (s \<noteq> t)"
    "sp_less p q = Some (byte_less s t)" "sp_le p q = Some (\<not> byte_less t s)"
    "sp_ge p q = Some (\<not> byte_less s t)" "sp_greater p q = Some (byte_less t s)"
    "sp_compare p q = Some (if byte_less s t then - 1 else if s = t then 0 else 1)"
    "starts_with p q = Some (prefix t s)"
proof -
  let ?n = "min (length s) (length t)"
  define r where "r = byte_cmp (take ?n s) (take ?n t)"
  note l = shows_length [OF assms(1)] shows_length [OF assms(2)] and m = shows_min_memcmp [OF assms, folded r_def]
  have "byte_cmp (take ?n t) (take ?n s) = - r" unfolding r_def by (rule byte_cmp_sym)
  then have o: "byte_less s t \<longleftrightarrow> r < 0 \<or> r = 0 \<and> length s < length t" "byte_less t s \<longleftrightarrow> 0 < r \<or> r = 0 \<and> length t < length s"
    unfolding byte_cmp_order [of s t] byte_cmp_order [of t s] Let_def min.commute [of "length t"] r_def by auto
  have "r = 0 \<longleftrightarrow> take ?n s = take ?n t" unfolding r_def by (rule byte_cmp_same) simp
  then have e: "s = t \<longleftrightarrow> r = 0 \<and> length s = length t" by auto
  show eq: "sp_eq p q = Some (s = t)"
  proof (cases "length s = length t")
    case True
    then show ?thesis using shows_memcmp [OF assms, of "length s"] l byte_cmp_same [of s t] by (simp add: sp_eq_def)
  qed (auto simp: sp_eq_def l)
  show "sp_neq p q = Some (s \<noteq> t)" by (simp add: sp_neq_def eq)
  show "sp_less p q = Some (byte_less s t)" "sp_le p q = Some (\<not> byte_less t s)"
    "sp_ge p q = Some (\<not> byte_less s t)" "sp_greater p q = Some (byte_less t s)"
    unfolding sp_order_defs binary_predicate_def m o by (auto simp: l)
  have "\<bar>r\<bar> \<le> 1" unfolding r_def by (rule byte_cmp_range)
  then show "sp_compare p q = Some (if byte_less s t then - 1 else if s = t then 0 else 1)"
    unfolding sp_compare_def m o e by (auto simp: l)
  show "starts_with p q = Some (prefix t s)"
  proof (cases "length t \<le> length s")
    case True
    then have "byte_cmp (take (length t) s) t = 0 \<longleftrightarrow> take (length t) s = t" by (intro byte_cmp_same) simp
    then show ?thesis using shows_memcmp [OF assms True] l True by (auto simp: starts_with_def prefix_def) (metis append_take_drop_id)
  qed (auto simp: starts_with_def l dest: prefix_length_le)
qed

text \<open>
  C28: Pieces compare as the texts they show, whatever arrays these stand in: the operators are
  equality and the order of byte strings, \<open>compare\<close> has the sign of this order, \<open>starts_with\<close> is the
  prefix relation, and none of them reads outside its pieces.
\<close>

theorem string_piece_order:
  assumes "piece_shows p s" "piece_shows q t"
  shows "sp_eq p q = Some (s = t) \<and> sp_neq p q = Some (s \<noteq> t) \<and>
    sp_less p q = Some (byte_less s t) \<and> sp_le p q = Some (\<not> byte_less t s) \<and>
    sp_ge p q = Some (\<not> byte_less s t) \<and> sp_greater p q = Some (byte_less t s) \<and>
    sp_compare p q = Some (if byte_less s t then - 1 else if s = t then 0 else 1) \<and>
    starts_with p q = Some (prefix t s)"
  using string_piece_order_facts [OF assms] by (intro conjI)

theorem string_piece_order_witness:
  "sp_less (StringPiece_range ''xab'' 1 2) (StringPiece_range ''abc'' 0 3) = Some True \<and>
   starts_with (StringPiece_range ''abc'' 0 3) (StringPiece_range ''xab'' 1 2) = Some True"
proof -
  have "piece_shows (StringPiece_range ''xab'' 1 2) ''ab''" "piece_shows (StringPiece_range ''abc'' 0 3) ''abc''"
    by (simp_all add: piece_shows_def StringPiece_range_def INT_MAX_def)
  then show ?thesis
    using string_piece_order [of "StringPiece_range ''xab'' 1 2" "''ab''" "StringPiece_range ''abc'' 0 3" "''abc''"]
      string_piece_order [of "StringPiece_range ''abc'' 0 3" "''abc''" "StringPiece_range ''xab'' 1 2" "''ab''"]
    by (simp add: byte_less_def)
qed

lemma string_piece_cuts_facts:
  assumes "piece_shows p s" "n \<le> length s"
  shows "\<exists>p'. remove_prefix p (int n) = Some p' \<and> piece_shows p' (drop n s)"
    "\<exists>p'. remove_suffix p (int n) = Some p' \<and> piece_shows p' (take (length s - n) s)"
proof -
  have b: "0 \<le> int (length s)" "int (length s) \<le> INT_MAX" "sp_length p = int (length s)" using assms(1) by (simp_all add: piece_shows_def)
  then have c: "cint (sp_length p - int n) = Some (int (length s - n))" using assms(2) by (simp add: cint_def int_limits)
  show "\<exists>p'. remove_prefix p (int n) = Some p' \<and> piece_shows p' (drop n s)"
    using assms(1) by (cases rule: shows_cases)
      (use assms(2) b c in \<open>auto simp: remove_prefix_def piece_shows_def nat_add_distrib\<close>)
  have pr: "prefix (take (length s - n) s) (s @ v)" for v by (metis append_prefixD append_take_drop_id prefixI)
  show "\<exists>p'. remove_suffix p (int n) = Some p' \<and> piece_shows p' (take (length s - n) s)"
    using assms(1) by (cases rule: shows_cases)
      (use assms(2) b c pr in \<open>auto simp: remove_suffix_def piece_shows_def\<close>)
qed

text \<open>
  Cutting a piece at either end, and reading it: removing at most as many characters as the piece
  has gives a piece that shows the rest of the text, in the same array.
\<close>

theorem string_piece_cuts:
  assumes "piece_shows p s" "n \<le> length s"
  shows "(\<exists>p'. remove_prefix p (int n) = Some p' \<and> piece_shows p' (drop n s)) \<and>
    (\<exists>p'. remove_suffix p (int n) = Some p' \<and> piece_shows p' (take (length s - n) s))"
  using string_piece_cuts_facts [OF assms] by (intro conjI)

theorem string_piece_cuts_witness:
  "\<exists>p. remove_prefix (StringPiece_range ''key=val'' 0 7) 4 = Some p \<and> as_string p = Some ''val''"
proof -
  have "piece_shows (StringPiece_range ''key=val'' 0 7) ''key=val''"
    by (simp add: piece_shows_def StringPiece_range_def INT_MAX_def)
  then show ?thesis using string_piece_cuts [of "StringPiece_range ''key=val'' 0 7" "''key=val''" 4] by (auto dest: shows_string)
qed

end
