(* ===== verification/Act_Code.thy ===== *)
theory Act_Code
  imports Muduo_Stream
begin

text \<open>
  The retired wrappers of OpenSSL, \<open>src/trash/c_tools/openssl_ulities/aes_base64.c\<close> and \<open>lc_rsa.c\<close>:
  activation codes are encrypted and written in base 64, and read back.

  OpenSSL is the record \<open>ssl\<close>, an argument: AES in CBC mode with the fixed key on whole blocks, the base 64
  filter without newlines, and RSA. What the code relies on are the laws \<open>aes_laws\<close>, \<open>b64_laws\<close> and
  \<open>rsa_laws\<close>. Arrays that are not initialised are arguments \<open>garbage\<close>; RSA objects live in a heap, since
  the code frees them.
\<close>

section \<open>OpenSSL\<close>

record 'k ssl =
  aes_enc :: "string \<Rightarrow> string"
  aes_dec :: "string \<Rightarrow> string"
  b64_enc :: "string \<Rightarrow> string"
  b64_dec :: "string \<Rightarrow> string option"
  pem_pub :: "string \<Rightarrow> 'k option"
  pem_priv :: "string \<Rightarrow> 'k option"
  rsa_size :: "'k \<Rightarrow> nat"
  public_encrypt :: "'k \<Rightarrow> string \<Rightarrow> string option"
  private_decrypt :: "'k \<Rightarrow> string \<Rightarrow> string option"

definition aes_laws :: "'k ssl \<Rightarrow> bool" where
  "aes_laws lib \<longleftrightarrow> (\<forall>x. 16 dvd length x \<longrightarrow> length (aes_enc lib x) = length x \<and> aes_dec lib (aes_enc lib x) = x)"

definition b64_laws :: "'k ssl \<Rightarrow> bool" where
  "b64_laws lib \<longleftrightarrow> (\<forall>x. length (b64_enc lib x) = 4 * ((length x + 2) div 3) \<and> b64_dec lib (b64_enc lib x) = Some x)"

text \<open>The keys belong together; a ciphertext has the size of the key.\<close>

definition rsa_laws :: "'k ssl \<Rightarrow> 'k \<Rightarrow> 'k \<Rightarrow> bool" where
  "rsa_laws lib k k' \<longleftrightarrow> rsa_size lib k' = rsa_size lib k \<and> (\<forall>m c. public_encrypt lib k m = Some c \<longrightarrow>
     length c = rsa_size lib k \<and> length m < rsa_size lib k \<and> private_decrypt lib k' c = Some m)"

section \<open>aes_base64.c\<close>

definition AES_BLOCK_SIZE :: nat where "AES_BLOCK_SIZE = 16"

text \<open>\<open>AES_cbc_encrypt\<close> pads the last block with zeros; decryption writes as many bytes as asked for.\<close>

definition zero_pad :: "string \<Rightarrow> string" where
  "zero_pad p = p @ replicate ((16 - length p mod 16) mod 16) NUL"

definition aes_encrypte :: "'k ssl \<Rightarrow> char list \<Rightarrow> char list \<Rightarrow> nat \<Rightarrow> (nat \<times> char list) option" where
  "aes_encrypte lib plaintext ciphertext len =
     (if len \<le> length plaintext then
        (let c = aes_enc lib (zero_pad (take len plaintext))
         in map_option (Pair ((len div 16 + 1) * 16)) (memcpy_at ciphertext 0 c (length c)))
      else None)"

definition aes_decrypte :: "'k ssl \<Rightarrow> char list \<Rightarrow> char list \<Rightarrow> nat \<Rightarrow> char list option" where
  "aes_decrypte lib ciphertext plaintext len =
     (let n = (len + 15) div 16 * 16
      in if n \<le> length ciphertext then memcpy_at plaintext 0 (take len (aes_dec lib (take n ciphertext))) len else None)"

definition base64_encode :: "'k ssl \<Rightarrow> char list \<Rightarrow> nat \<Rightarrow> char list \<Rightarrow> nat \<Rightarrow> (int \<times> char list) option" where
  "base64_encode lib str str_len encode encode_len =
     (if str_len \<le> length str then
        (let t = b64_enc lib (take str_len str)
         in if length t > encode_len then Some (- 1, encode)
            else do {
              e \<leftarrow> memcpy_at encode 0 t (length t);
              e \<leftarrow> aset e (int (length t)) NUL;
              Some (int (length t), e) })
      else None)"

text \<open>The size of the buffer is not used; \<open>BIO_read\<close> answers -1 when the text is not base 64.\<close>

definition base64_decode :: "'k ssl \<Rightarrow> char list \<Rightarrow> nat \<Rightarrow> char list \<Rightarrow> (int \<times> char list) option" where
  "base64_decode lib str str_len decode =
     (if str_len \<le> length str then
        (case b64_dec lib (take str_len str) of
           None \<Rightarrow> map_option (Pair (- 1)) (aset decode (- 1) NUL)
         | Some t \<Rightarrow> (let t = take str_len t in do {
             d \<leftarrow> memcpy_at decode 0 t (length t);
             d \<leftarrow> aset d (int (length t)) NUL;
             Some (int (length t), d) }))
      else None)"

definition act_code_encrypt_encode ::
  "'k ssl \<Rightarrow> char list \<Rightarrow> char list option \<Rightarrow> nat \<Rightarrow> char list option \<Rightarrow> nat \<Rightarrow> (int \<times> char list option) option" where
  "act_code_encrypt_encode lib garbage act_code len encode_buf encode_buf_len = (case (act_code, encode_buf) of
     (Some a, Some e) \<Rightarrow>
       if encode_buf_len < len then Some (- 1, encode_buf)
       else do {
         (n, ciphertext) \<leftarrow> aes_encrypte lib a garbage len;
         let ciphertext_len = (len div 16 + 1) * 16;
         (r, e) \<leftarrow> base64_encode lib ciphertext ciphertext_len e encode_buf_len;
         Some (r, Some e) }
   | _ \<Rightarrow> Some (- 1, encode_buf))"

text \<open>The function has no \<open>return\<close>: its result is the array \<open>act_code\<close>.\<close>

definition act_code_decrypt_decode :: "'k ssl \<Rightarrow> char list \<Rightarrow> char list \<Rightarrow> nat \<Rightarrow> char list \<Rightarrow> char list option" where
  "act_code_decrypt_decode lib garbage encode encode_len act_code = do {
     (len, ciphertext) \<leftarrow> base64_decode lib encode encode_len garbage;
     aes_decrypte lib ciphertext act_code (nat len) }"

section \<open>lc_rsa.c\<close>

type_synonym 'k rsa_heap = "nat \<rightharpoonup> 'k"

definition PUB_KEY :: int where "PUB_KEY = 1"
definition PRIV_KEY :: int where "PRIV_KEY = 0"

definition RSA_free :: "nat \<Rightarrow> 'k rsa_heap \<Rightarrow> 'k rsa_heap option" where
  "RSA_free a h = (if a \<in> dom h then Some (h(a := None)) else None)"

text \<open>The key as an object at a fresh address \<open>a\<close>, or NULL.\<close>

definition create_RSA :: "'k ssl \<Rightarrow> string \<Rightarrow> int \<Rightarrow> nat \<Rightarrow> 'k rsa_heap \<Rightarrow> nat option \<times> 'k rsa_heap" where
  "create_RSA lib key flag a h =
     (case (if flag = PUB_KEY then pem_pub lib key else if flag = PRIV_KEY then pem_priv lib key else None) of
        None \<Rightarrow> (None, h)
      | Some k \<Rightarrow> (Some a, h(a \<mapsto> k)))"

text \<open>The answer, the array behind \<open>*outstr\<close> (\<^term>\<open>None\<close> when it was freed), and the heap. Memory is not exhausted.\<close>

definition rsa_handle ::
  "'k ssl \<Rightarrow> nat option \<Rightarrow> char list option \<Rightarrow> nat \<Rightarrow> int \<Rightarrow> 'k rsa_heap \<Rightarrow> (int \<times> char list option \<times> 'k rsa_heap) option" where
  "rsa_handle lib rsa_ctx instr inlen type h = (case (rsa_ctx, instr) of
     (Some a, Some s) \<Rightarrow> do {
       k \<leftarrow> h a;
       let outstr = replicate (rsa_size lib k + 1) NUL;
       ret \<leftarrow> (if inlen \<le> length s then
                Some (if type = PUB_KEY then public_encrypt lib k (take inlen s)
                      else if type = PRIV_KEY then private_decrypt lib k (take inlen s) else None)
              else None);
       h \<leftarrow> RSA_free a h;
       (case ret of
          None \<Rightarrow> Some (- 1, None, h)
        | Some t \<Rightarrow> map_option (\<lambda>out. (int (length t), Some out, h)) (memcpy_at outstr 0 t (length t))) }
   | _ \<Rightarrow> Some (- 1, None, h))"

text \<open>\<open>pub_pem\<close> and \<open>priv_pem\<close> are the keys in the arrays \<open>public_key_pair1\<close> and \<open>private_key_pair2\<close>; \<open>garbage\<close> is fresh memory.\<close>

definition rsa_base64 ::
  "'k ssl \<Rightarrow> string \<Rightarrow> string \<Rightarrow> (nat \<Rightarrow> char list) \<Rightarrow> nat \<Rightarrow> char list \<Rightarrow> nat \<Rightarrow> int \<Rightarrow> 'k rsa_heap \<Rightarrow>
   (int \<times> char list option \<times> 'k rsa_heap) option" where
  "rsa_base64 lib pub_pem priv_pem garbage a instr inlen type h =
     (if type = PUB_KEY then
        (case create_RSA lib pub_pem type a h of
           (None, h) \<Rightarrow> Some (- 1, None, h)
         | (Some r, h) \<Rightarrow> do {
             (ret, out, h) \<leftarrow> rsa_handle lib (Some r) (Some instr) inlen type h;
             (if ret < 0 then Some (ret, None, h)
              else do {
                c \<leftarrow> out;
                let len = nat ret div 3 * 4 + 8 * 2;
                (ret, e) \<leftarrow> base64_encode lib c (nat ret) (garbage len) len;
                Some (ret, Some e, h) }) })
      else if type = PRIV_KEY then do {
        (ret, out) \<leftarrow> base64_decode lib instr inlen (replicate inlen NUL);
        (if ret < 0 then Some (ret, None, h)
         else (case create_RSA lib priv_pem type a h of
           (None, h) \<Rightarrow> Some (- 1, None, h)
         | (Some r, h) \<Rightarrow> rsa_handle lib (Some r) (Some out) (nat ret) type h)) }
      else Some (- 1, None, h))"

text \<open>\<open>file\<close> is the key read from the file: \<^term>\<open>None\<close> when it cannot be opened, \<^term>\<open>Some None\<close> when it holds no key.\<close>

definition rsa_pub_crypt ::
  "'k ssl \<Rightarrow> 'k option option \<Rightarrow> nat \<Rightarrow> string \<Rightarrow> 'k rsa_heap \<Rightarrow> (int \<times> char list option \<times> 'k rsa_heap) option" where
  "rsa_pub_crypt lib key a str h = (case key of
     Some (Some k) \<Rightarrow> do {
       (num, out, h) \<leftarrow> rsa_handle lib (Some a) (Some (str @ [NUL])) (length str) PUB_KEY (h(a \<mapsto> k));
       h \<leftarrow> RSA_free a h;
       Some (num, out, h) }
   | _ \<Rightarrow> Some (- 1, None, h))"

definition rsa_prv_crypt ::
  "'k ssl \<Rightarrow> 'k option option \<Rightarrow> nat \<Rightarrow> char list \<Rightarrow> nat \<Rightarrow> 'k rsa_heap \<Rightarrow> int \<times> char list option \<times> 'k rsa_heap" where
  "rsa_prv_crypt lib key a str inlen h = (case key of
     Some (Some k) \<Rightarrow> (- 1, None, h(a \<mapsto> k))
   | _ \<Rightarrow> (- 1, None, h))"

section \<open>Activation codes\<close>

definition cipher_len :: "nat \<Rightarrow> nat" where
  "cipher_len len = (len div 16 + 1) * 16"

definition b64_len :: "nat \<Rightarrow> nat" where
  "b64_len n = 4 * ((n + 2) div 3)"

lemma cipher_len_bounds:
  "n < cipher_len n" "n < 16 * k \<Longrightarrow> cipher_len n \<le> 16 * k" "16 * k \<le> n \<Longrightarrow> 16 * (k + 1) \<le> cipher_len n"
  "(cipher_len n + 15) div 16 * 16 = cipher_len n"
proof -
  define q where "q = n div 16"
  have c: "cipher_len n = 16 * q + 16" by (simp add: cipher_len_def q_def)
  have "n = 16 * q + n mod 16" "n mod 16 < 16" by (simp_all add: q_def)
  then have "16 * q \<le> n" "n < 16 * q + 16" by linarith+
  then have "n < 16 * k \<Longrightarrow> q < k" "16 * k \<le> n \<Longrightarrow> k < q + 1" by linarith+
  with \<open>n < 16 * q + 16\<close> show "n < cipher_len n" "n < 16 * k \<Longrightarrow> cipher_len n \<le> 16 * k" "16 * k \<le> n \<Longrightarrow> 16 * (k + 1) \<le> cipher_len n"
    unfolding c by simp_all
  show "(cipher_len n + 15) div 16 * 16 = cipher_len n" by (simp add: cipher_len_def)
qed

lemma b64_len_ge: "n \<le> b64_len n" "0 < n \<Longrightarrow> n < b64_len n" "b64_len n < n div 3 * 4 + 16"
proof -
  define q r where "q = (n + 2) div 3" and "r = n div 3"
  have "n + 2 = 3 * q + (n + 2) mod 3" "(n + 2) mod 3 < 3" "n = 3 * r + n mod 3" "n mod 3 < 3" by (simp_all add: q_def r_def)
  then have "n \<le> 3 * q" "3 * q \<le> n + 2" "n \<le> 3 * r + 2" by linarith+
  then show "n \<le> b64_len n" "0 < n \<Longrightarrow> n < b64_len n" "b64_len n < n div 3 * 4 + 16"
    unfolding b64_len_def q_def [symmetric] r_def [symmetric] by linarith+
qed

lemma memcpy_front: "length t \<le> length d \<Longrightarrow> memcpy_at d 0 t (length t) = Some (t @ drop (length t) d)"
  by (simp add: memcpy_at_def)

lemma aset_end: "length t < length d \<Longrightarrow> aset (t @ drop (length t) d) (int (length t)) NUL = Some (t @ NUL # drop (Suc (length t)) d)"
  by (simp add: list_update_append Cons_nth_drop_Suc [symmetric])

lemma zero_pad_length:
  assumes "length p mod 16 \<noteq> 0"
  shows "length (zero_pad p) = cipher_len (length p)" "zero_pad p = p @ replicate (cipher_len (length p) - length p) NUL"
proof -
  define q r where "q = length p div 16" and "r = length p mod 16"
  have "length p = 16 * q + r" "0 < r" "r < 16" using assms by (simp_all add: q_def r_def)
  then have "(16 - length p mod 16) mod 16 = cipher_len (length p) - length p" by (simp add: cipher_len_def)
  then show "zero_pad p = p @ replicate (cipher_len (length p) - length p) NUL" by (simp add: zero_pad_def)
  moreover have "length p \<le> cipher_len (length p)" using cipher_len_bounds(1) [of "length p"] by simp
  ultimately show "length (zero_pad p) = cipher_len (length p)" by simp
qed

text \<open>Encoding, as long as the blocks fit the 64 bytes of the array.\<close>

lemma encrypt_encode_fits:
  assumes "aes_laws lib" "b64_laws lib" "length garbage = 64" "len \<le> length a" "len mod 16 \<noteq> 0" "len < 64"
    "c = aes_enc lib (zero_pad (take len a))" "len \<le> elen" "b64_len (cipher_len len) \<le> elen" "elen < length e"
  shows "length c = cipher_len len \<and> length (b64_enc lib c) = b64_len (cipher_len len) \<and>
    act_code_encrypt_encode lib garbage (Some a) len (Some e) elen =
      Some (int (b64_len (cipher_len len)), Some (b64_enc lib c @ NUL # drop (Suc (b64_len (cipher_len len))) e))"
proof -
  have l: "length (take len a) = len" using assms(4) by simp
  have "16 dvd cipher_len len" by (simp add: cipher_len_def)
  then have c: "length c = cipher_len len" using assms(1,7) zero_pad_length(1) [of "take len a"] assms(5) l by (simp add: aes_laws_def)
  have t: "length (b64_enc lib c) = b64_len (cipher_len len)" using assms(2) c by (simp add: b64_laws_def b64_len_def)
  have "cipher_len len \<le> 64" using cipher_len_bounds(2) [of len 4] assms(6) by simp
  then have m: "aes_encrypte lib a garbage len = Some (cipher_len len, c @ drop (cipher_len len) garbage)"
    using assms(3,4,7) c memcpy_front [of c garbage] by (simp add: aes_encrypte_def cipher_len_def Let_def)
  have "base64_encode lib (c @ drop (cipher_len len) garbage) (cipher_len len) e elen =
      Some (int (b64_len (cipher_len len)), b64_enc lib c @ NUL # drop (Suc (b64_len (cipher_len len))) e)"
    using memcpy_front [of "b64_enc lib c" e] aset_end [of "b64_enc lib c" e] assms(9,10) c t by (simp add: base64_encode_def Let_def)
  with m c t assms(8) show ?thesis by (simp add: act_code_encrypt_encode_def cipher_len_def Let_def)
qed

text \<open>
  C36: An activation code of up to 47 characters, not a multiple of 16, survives encryption, base 64 and the
  way back: with a text buffer that is large enough and a result buffer for whole blocks, decoding gives
  the code again, filled up with zero bytes.
\<close>

theorem act_code_roundtrip:
  assumes "aes_laws lib" "b64_laws lib" "length garbage = 64" "length garbage2 = 64" "len \<le> length a" "len mod 16 \<noteq> 0" "len < 48"
    "len \<le> elen" "b64_len (cipher_len len) \<le> elen" "elen < length e" "cipher_len len \<le> length res"
  shows "\<exists>t. act_code_encrypt_encode lib garbage (Some a) len (Some e) elen = Some (int (b64_len (cipher_len len)), Some t) \<and>
    act_code_decrypt_decode lib garbage2 t (b64_len (cipher_len len)) res =
      Some (take len a @ replicate (cipher_len len - len) NUL @ drop (cipher_len len) res)"
proof -
  define p where "p = zero_pad (take len a)"
  define c where "c = aes_enc lib p"
  define n where "n = b64_len (cipher_len len)"
  have E: "length c = cipher_len len" "length (b64_enc lib c) = n"
    "act_code_encrypt_encode lib garbage (Some a) len (Some e) elen = Some (int n, Some (b64_enc lib c @ NUL # drop (Suc n) e))"
    using encrypt_encode_fits [OF assms(1,2,3,5,6) _ _ assms(8,9,10), of c] assms(7) by (simp_all add: c_def p_def n_def)
  have l: "length (take len a) = len" using assms(5) by simp
  have p: "length p = cipher_len len" "p = take len a @ replicate (cipher_len len - len) NUL"
    using zero_pad_length [of "take len a"] l assms(6) by (simp_all add: p_def)
  have c48: "cipher_len len \<le> 48" using cipher_len_bounds(2) [of len 3] assms(7) by simp
  have d: "b64_dec lib (b64_enc lib c) = Some c" "aes_dec lib c = p"
    using assms(1,2) p(1) by (simp_all add: b64_laws_def aes_laws_def c_def cipher_len_def)
  have "take n c = c" using b64_len_ge(1) [of "cipher_len len"] E(1) by (simp add: n_def)
  then have "base64_decode lib (b64_enc lib c @ NUL # drop (Suc n) e) n garbage2 =
      Some (int (cipher_len len), c @ NUL # drop (Suc (cipher_len len)) garbage2)"
    using memcpy_front [of c garbage2] aset_end [of c garbage2] E(1,2) assms(4) c48 d(1) by (simp add: base64_decode_def Let_def)
  moreover have "(cipher_len len + 15) div 16 * 16 = cipher_len len" by (rule cipher_len_bounds(4))
  then have "aes_decrypte lib (c @ NUL # drop (Suc (cipher_len len)) garbage2) res (cipher_len len) = Some (p @ drop (cipher_len len) res)"
    using memcpy_front [of p res] E(1) d(2) p(1) assms(11) by (simp add: aes_decrypte_def Let_def)
  ultimately have "act_code_decrypt_decode lib garbage2 (b64_enc lib c @ NUL # drop (Suc n) e) n res = Some (p @ drop (cipher_len len) res)"
    by (simp add: act_code_decrypt_decode_def)
  then show ?thesis unfolding n_def [symmetric] using E(3) p(2) by (intro exI [of _ "b64_enc lib c @ NUL # drop (Suc n) e"]) simp
qed

text \<open>
  C37: The lengths the functions can take. A code of 49 to 63 characters is encoded, but its text cannot be
  decoded: the zero byte behind the 64 decoded bytes is written outside the array. From 64 characters on the
  encoding itself leaves the array of 64 bytes, whatever the buffers of the caller.
\<close>

theorem act_code_bounds:
  assumes "aes_laws lib" "b64_laws lib" "length garbage = 64" "length garbage2 = 64" "len \<le> length a" "len \<le> elen"
    "b64_len (cipher_len len) \<le> elen" "elen < length e"
  shows "(48 < len \<and> len < 64 \<longrightarrow> (\<exists>t. act_code_encrypt_encode lib garbage (Some a) len (Some e) elen = Some (88, Some t) \<and>
      act_code_decrypt_decode lib garbage2 t 88 res = None)) \<and>
    (64 \<le> len \<longrightarrow> act_code_encrypt_encode lib garbage (Some a) len (Some e) elen = None)"
proof (intro conjI impI)
  assume len: "48 < len \<and> len < 64"
  then have c: "cipher_len len = 64" using cipher_len_bounds(2) [of len 4] cipher_len_bounds(3) [of 3 len] by simp
  then have "len div 16 = 3" by (simp add: cipher_len_def)
  then have "len = 48 + len mod 16" using mult_div_mod_eq [of 16 len] by simp
  then have n: "cipher_len len = 64" "b64_len (cipher_len len) = 88" "len mod 16 \<noteq> 0"
    using len by (simp_all add: c b64_len_def)
  define c where "c = aes_enc lib (zero_pad (take len a))"
  have E: "length c = 64" "length (b64_enc lib c) = 88"
    "act_code_encrypt_encode lib garbage (Some a) len (Some e) elen = Some (88, Some (b64_enc lib c @ NUL # drop 89 e))"
    using encrypt_encode_fits [OF assms(1,2,3,5) n(3) _ c_def assms(6,7,8)] len n by simp_all
  have "b64_dec lib (b64_enc lib c) = Some c" using assms(2) by (simp add: b64_laws_def)
  then have "base64_decode lib (b64_enc lib c @ NUL # drop 89 e) 88 garbage2 = None"
    using E(1,2) assms(4) memcpy_front [of c garbage2] by (simp add: base64_decode_def aset_def)
  then show "\<exists>t. act_code_encrypt_encode lib garbage (Some a) len (Some e) elen = Some (88, Some t) \<and>
      act_code_decrypt_decode lib garbage2 t 88 res = None"
    using E(3) by (auto simp: act_code_decrypt_decode_def)
next
  assume len: "64 \<le> len"
  have "80 \<le> cipher_len len" using cipher_len_bounds(3) [of 4 len] len by simp
  moreover have "length ct = 64" if "aes_encrypte lib a garbage len = Some (k, ct)" for k ct
    using that length_memcpy assms(3) by (auto simp: aes_encrypte_def Let_def split: if_splits)
  ultimately show "act_code_encrypt_encode lib garbage (Some a) len (Some e) elen = None"
    using assms(6) by (cases "aes_encrypte lib a garbage len") (auto simp: act_code_encrypt_encode_def base64_encode_def cipher_len_def)
qed

text \<open>A library with the laws: the last character of a text says how many of its bytes count.\<close>

definition demo_b64_enc :: "string \<Rightarrow> string" where
  "demo_b64_enc x = (let q = (length x + 2) div 3 in
     if q = 0 then [] else x @ replicate (4 * q - length x - 1) CHR ''A'' @ [char_of (3 * q - length x)])"

definition demo_b64_dec :: "string \<Rightarrow> string option" where
  "demo_b64_dec s = (if s = [] then Some [] else Some (take (3 * (length s div 4) - of_char (last s)) s))"

definition demo_ssl :: "unit ssl" where
  "demo_ssl = \<lparr>aes_enc = rev, aes_dec = rev, b64_enc = demo_b64_enc, b64_dec = demo_b64_dec,
     pem_pub = (\<lambda>_. Some ()), pem_priv = (\<lambda>_. Some ()), rsa_size = (\<lambda>_. 128),
     public_encrypt = (\<lambda>_ m. if length m < 128 then Some (m @ replicate (127 - length m) NUL @ [char_of (length m)]) else None),
     private_decrypt = (\<lambda>_ c. if length c = 128 then Some (take (of_char (last c)) c) else None)\<rparr>"

lemma demo_ssl_laws: "aes_laws demo_ssl" "b64_laws demo_ssl" "rsa_laws demo_ssl () ()"
proof -
  show "aes_laws demo_ssl" by (simp add: aes_laws_def demo_ssl_def)
  show "rsa_laws demo_ssl () ()" by (auto simp: rsa_laws_def demo_ssl_def)
  have "length (demo_b64_enc x) = 4 * ((length x + 2) div 3) \<and> demo_b64_dec (demo_b64_enc x) = Some x" for x
  proof (cases "x = []")
    case False
    define n q where "n = length x" and "q = (n + 2) div 3"
    have "n + 2 = 3 * q + (n + 2) mod 3" "(n + 2) mod 3 < 3" by (simp_all add: q_def)
    moreover have "0 < n" using False by (simp add: n_def)
    ultimately have q: "0 < q" "n \<le> 3 * q" "3 * q \<le> n + 2" by linarith+
    have e: "demo_b64_enc x = x @ replicate (4 * q - n - 1) CHR ''A'' @ [char_of (3 * q - n)]"
      unfolding demo_b64_enc_def Let_def n_def [symmetric] q_def [symmetric] using q(1) by simp
    have l: "length (demo_b64_enc x) = 4 * q" unfolding e using q by (simp add: n_def [symmetric])
    have "last (demo_b64_enc x) = char_of (3 * q - n)" "demo_b64_enc x \<noteq> []" unfolding e by simp_all
    then have "demo_b64_dec (demo_b64_enc x) = Some (take n (demo_b64_enc x))"
      using l q by (simp add: demo_b64_dec_def)
    also have "take n (demo_b64_enc x) = x" unfolding e by (simp add: n_def)
    finally show ?thesis using l by (simp add: q_def n_def)
  qed (simp add: demo_b64_enc_def demo_b64_dec_def)
  then show "b64_laws demo_ssl" by (simp add: b64_laws_def demo_ssl_def)
qed

theorem act_code_roundtrip_witness:
  "\<exists>t. act_code_encrypt_encode demo_ssl (replicate 64 CHR ''?'') (Some ''0664064IGAL7IA7DYAH58'') 21 (Some (replicate 80 NUL)) 79 = Some (44, Some t) \<and>
    act_code_decrypt_decode demo_ssl (replicate 64 CHR ''?'') t 44 (replicate 32 NUL) = Some (''0664064IGAL7IA7DYAH58'' @ replicate 11 NUL)"
  using act_code_roundtrip [OF demo_ssl_laws(1,2), of "replicate 64 CHR ''?''" "replicate 64 CHR ''?''" 21 "''0664064IGAL7IA7DYAH58''" 79
      "replicate 80 NUL" "replicate 32 NUL"] by (simp add: cipher_len_def b64_len_def)

theorem act_code_bounds_witness:
  "(\<exists>t. act_code_encrypt_encode demo_ssl (replicate 64 CHR ''?'') (Some (replicate 50 CHR ''x'')) 50 (Some (replicate 100 NUL)) 99 = Some (88, Some t) \<and>
     act_code_decrypt_decode demo_ssl (replicate 64 CHR ''?'') t 88 [] = None) \<and>
   act_code_encrypt_encode demo_ssl (replicate 64 CHR ''?'') (Some (replicate 70 CHR ''x'')) 70 (Some (replicate 200 NUL)) 199 = None"
  using act_code_bounds [OF demo_ssl_laws(1,2), of "replicate 64 CHR ''?''" "replicate 64 CHR ''?''" 50 "replicate 50 CHR ''x''" 99 "replicate 100 NUL" "[]"]
    act_code_bounds [OF demo_ssl_laws(1,2), of "replicate 64 CHR ''?''" "replicate 64 CHR ''?''" 70 "replicate 70 CHR ''x''" 199 "replicate 200 NUL" "[]"]
  by (simp add: cipher_len_def b64_len_def)

section \<open>RSA\<close>

text \<open>A call of \<open>rsa_handle\<close> that succeeds uses the key up.\<close>

lemma rsa_handle_ok:
  assumes "a \<notin> dom h" "n \<le> length s" "length t \<le> rsa_size lib k"
    "type = PUB_KEY \<and> public_encrypt lib k (take n s) = Some t \<or> type = PRIV_KEY \<and> private_decrypt lib k (take n s) = Some t"
  shows "rsa_handle lib (Some a) (Some s) n type (h(a \<mapsto> k)) = Some (int (length t), Some (t @ replicate (rsa_size lib k + 1 - length t) NUL), h)"
proof -
  have "h(a := None) = h" using assms(1) by auto
  then have "RSA_free a (h(a \<mapsto> k)) = Some h" by (simp add: RSA_free_def)
  moreover have "drop (length t) (NUL # replicate (rsa_size lib k) NUL) = replicate (Suc (rsa_size lib k) - length t) NUL"
    using drop_replicate [of "length t" "Suc (rsa_size lib k)" NUL] by simp
  ultimately show ?thesis using assms(2-4) memcpy_front [of t "replicate (rsa_size lib k + 1) NUL"]
    by (auto simp: rsa_handle_def Let_def PUB_KEY_def PRIV_KEY_def)
qed

text \<open>
  What \<open>rsa_base64\<close> encrypts with a public key it decrypts with the private key of that pair: the message
  comes back with its length and a zero byte behind it. The text buffer is always large enough, and every
  key object is freed exactly once.
\<close>

theorem rsa_base64_roundtrip:
  assumes "b64_laws lib" "rsa_laws lib k k'" "pem_pub lib pub = Some k" "pem_priv lib priv = Some k'"
    "public_encrypt lib k msg = Some c" "a \<notin> dom h" "\<forall>n. length (g n) = n"
  shows "\<exists>t res. rsa_base64 lib pub priv0 g a (msg @ r) (length msg) PUB_KEY h = Some (int (b64_len (rsa_size lib k)), Some t, h) \<and>
    rsa_base64 lib pub0 priv g a t (b64_len (rsa_size lib k)) PRIV_KEY h = Some (int (length msg), Some res, h) \<and>
    take (length msg) res = msg \<and> res ! length msg = NUL"
proof -
  let ?N = "rsa_size lib k"
  define n where "n = b64_len ?N"
  have L: "length c = ?N" "length msg < ?N" "private_decrypt lib k' c = Some msg" "rsa_size lib k' = ?N"
    using assms(2,5) by (auto simp: rsa_laws_def)
  have B: "length (b64_enc lib c) = n" "b64_dec lib (b64_enc lib c) = Some c" using assms(1) L(1) by (simp_all add: b64_laws_def n_def b64_len_def)
  have n: "?N < n" "n < ?N div 3 * 4 + 16" using L(2) b64_len_ge(2,3) [of ?N] unfolding n_def by simp_all
  let ?t = "b64_enc lib c @ NUL # drop (Suc n) (g (?N div 3 * 4 + 16))"
  have h1: "rsa_handle lib (Some a) (Some (msg @ r)) (length msg) PUB_KEY (h(a \<mapsto> k)) = Some (int ?N, Some (c @ [NUL]), h)"
    using rsa_handle_ok [OF assms(6), of "length msg" "msg @ r" c lib k PUB_KEY] L(1) assms(5) by simp
  have "base64_encode lib (c @ [NUL]) ?N (g (?N div 3 * 4 + 16)) (?N div 3 * 4 + 16) = Some (int n, ?t)"
    using memcpy_front [of "b64_enc lib c" "g (?N div 3 * 4 + 16)"] aset_end [of "b64_enc lib c" "g (?N div 3 * 4 + 16)"] assms(7) B(1) n L(1)
    by (simp add: base64_encode_def Let_def)
  with h1 have 1: "rsa_base64 lib pub priv0 g a (msg @ r) (length msg) PUB_KEY h = Some (int n, Some ?t, h)"
    using assms(3) by (simp add: rsa_base64_def create_RSA_def Let_def)
  have h2: "rsa_handle lib (Some a) (Some (c @ NUL # drop (Suc ?N) (replicate n NUL))) ?N PRIV_KEY (h(a \<mapsto> k')) =
      Some (int (length msg), Some (msg @ replicate (?N + 1 - length msg) NUL), h)"
    using rsa_handle_ok [OF assms(6), of ?N "c @ NUL # drop (Suc ?N) (replicate n NUL)" msg lib k' PRIV_KEY] L by simp
  have "base64_decode lib ?t n (replicate n NUL) = Some (int ?N, c @ NUL # drop (Suc ?N) (replicate n NUL))"
    using memcpy_front [of c "replicate n NUL"] aset_end [of c "replicate n NUL"] B n L(1) by (simp add: base64_decode_def Let_def)
  with h2 have 2: "rsa_base64 lib pub0 priv g a ?t n PRIV_KEY h = Some (int (length msg), Some (msg @ replicate (?N + 1 - length msg) NUL), h)"
    using assms(4) by (simp add: rsa_base64_def create_RSA_def PUB_KEY_def PRIV_KEY_def)
  show ?thesis unfolding n_def [symmetric] using 1 2 L(2)
    by (intro exI [of _ ?t] exI [of _ "msg @ replicate (?N + 1 - length msg) NUL"]) (simp add: nth_append)
qed

theorem rsa_base64_roundtrip_witness:
  "\<exists>t res. rsa_base64 demo_ssl ''pub'' [] (\<lambda>n. replicate n CHR ''?'') 0 ''DATE:20160831'' 13 PUB_KEY Map.empty = Some (172, Some t, Map.empty) \<and>
    rsa_base64 demo_ssl [] ''priv'' (\<lambda>n. replicate n CHR ''?'') 0 t 172 PRIV_KEY Map.empty = Some (13, Some res, Map.empty) \<and>
    take 13 res = ''DATE:20160831'' \<and> res ! 13 = NUL"
proof -
  define msg where "msg = ''DATE:20160831''"
  have l: "length msg = 13" by (simp add: msg_def)
  then obtain c where c: "public_encrypt demo_ssl () msg = Some c" by (simp add: demo_ssl_def)
  have "rsa_size demo_ssl () = 128" "pem_pub demo_ssl ''pub'' = Some ()" "pem_priv demo_ssl ''priv'' = Some ()" by (simp_all add: demo_ssl_def)
  then show ?thesis
    using rsa_base64_roundtrip [OF demo_ssl_laws(2,3) _ _ c, of "''pub''" "''priv''" 0 Map.empty "\<lambda>n. replicate n CHR ''?''" "[]" "[]" "[]"] l
    unfolding msg_def [symmetric] by (simp add: b64_len_def)
qed

text \<open>The functions that take a key file: encryption frees the key twice, decryption does nothing.\<close>

lemma rsa_file_functions:
  assumes "a \<notin> dom h"
  shows "rsa_pub_crypt lib (Some (Some k)) a str h = None" "fst (rsa_prv_crypt lib key a str' n h) = - 1"
proof -
  have "RSA_free a h' = None" if "rsa_handle lib (Some a) (Some s) n t (h(a \<mapsto> k)) = Some (num, res, h')" for s n t num res h'
    using that by (auto simp: rsa_handle_def RSA_free_def Let_def split: if_splits option.splits bind_splits)
  then show "rsa_pub_crypt lib (Some (Some k)) a str h = None" by (auto simp: rsa_pub_crypt_def split: bind_splits)
  show "fst (rsa_prv_crypt lib key a str' n h) = - 1" by (auto simp: rsa_prv_crypt_def split: option.splits)
qed

end
