(* ===== verification/Hard_Info.thy ===== *)
theory Hard_Info
  imports Muduo_Stream Proc_Name
begin

text \<open>
  The retired \<open>src/trash/c_tools/miscellaneous/get_hardinfo.c\<close>: the names of the network interfaces, their
  addresses, and serial numbers of the machine.

  The constants \<open>SINGLE_MAC_LEN\<close> and \<open>NET_ADAPTER_NUM\<close> come from a header that the repository does not
  have and are arguments, as are the answers of the system: the lines of \<open>/proc/net/dev\<close> as \<open>fgets\<close> gives
  them, the flags and the address of an interface, and the output of the commands that are run.
\<close>

section \<open>Interface names\<close>

definition IFNAMSIZ :: nat where "IFNAMSIZ = 16"

text \<open>The loop of \<open>strcmp\<close> over the first \<open>count\<close> names, from the \<open>i\<close>th.\<close>

fun name_known :: "char list \<Rightarrow> string \<Rightarrow> nat \<Rightarrow> nat \<Rightarrow> bool option" where
  "name_known ifnames name i 0 = Some False"
| "name_known ifnames name i (Suc k) = do {
     s \<leftarrow> cstring (drop (i * IFNAMSIZ) ifnames);
     (if s = name then Some True else name_known ifnames name (Suc i) k) }"

definition add_interface_name :: "char list \<Rightarrow> string \<Rightarrow> nat \<Rightarrow> (char list \<times> nat) option" where
  "add_interface_name ifnames name cnt = do {
     known \<leftarrow> name_known ifnames name 0 cnt;
     (if known then Some (ifnames, cnt)
      else map_option (\<lambda>d. (d, cnt + 1)) (memcpy_at ifnames (cnt * IFNAMSIZ) (strncpy_buf name (IFNAMSIZ - 1)) (IFNAMSIZ - 1))) }"

text \<open>\<open>while (isdigit(*p)) *name++ = *p++;\<close>\<close>

fun copy_digits :: "char list \<Rightarrow> nat \<Rightarrow> string \<Rightarrow> (char list \<times> nat \<times> string) option" where
  "copy_digits name n [] = Some (name, n, [])"
| "copy_digits name n (c # p) =
     (if isdigit c then aset name (int n) c \<bind> (\<lambda>name. copy_digits name (Suc n) p) else Some (name, n, c # p))"

text \<open>The loop of \<open>get_name\<close>: the array, the end of the name in it, and \<open>p\<close>. A number between two colons belongs to the name.\<close>

fun get_name_loop :: "char list \<Rightarrow> nat \<Rightarrow> string \<Rightarrow> (char list \<times> nat \<times> string option) option" where
  "get_name_loop name n [] = Some (name, n, Some [])"
| "get_name_loop name n (c # p) =
     (if isspace c then Some (name, n, Some (c # p))
      else if c = CHR '':'' then do {
        name \<leftarrow> aset name (int n) c;
        (name, n', p') \<leftarrow> copy_digits name (Suc n) p;
        let (q, n) = (if p' = [] \<or> hd p' \<noteq> CHR '':'' then (c # p, n) else (p', n'));
        (if q = [] then Some (name, n, None) else Some (name, n, Some (tl q)))
      } else aset name (int n) c \<bind> (\<lambda>name. get_name_loop name (Suc n) p))"

definition get_name :: "char list \<Rightarrow> string \<Rightarrow> (char list \<times> string option) option" where
  "get_name name p = do {
     (name, n, r) \<leftarrow> get_name_loop name 0 (dropWhile isspace p);
     (case r of None \<Rightarrow> Some (name, None)
      | Some r \<Rightarrow> map_option (\<lambda>name. (name, Some r)) (aset name (int n) NUL)) }"

fun procnet_lines :: "string list \<Rightarrow> char list \<Rightarrow> nat \<Rightarrow> (char list \<times> nat) option" where
  "procnet_lines [] ifnames cnt = Some (ifnames, cnt)"
| "procnet_lines (buf # ls) ifnames cnt = do {
     (name, r) \<leftarrow> get_name (replicate IFNAMSIZ NUL) buf;
     nm \<leftarrow> cstring name;
     (ifnames, cnt) \<leftarrow> add_interface_name ifnames nm cnt;
     procnet_lines ls ifnames cnt }"

definition get_procnet_list :: "string list option \<Rightarrow> char list \<Rightarrow> nat \<Rightarrow> (int \<times> char list \<times> nat) option" where
  "get_procnet_list fh ifnames cnt = (case fh of
     None \<Rightarrow> Some (- 1, ifnames, cnt)
   | Some ls \<Rightarrow> map_option (Pair 0) (procnet_lines (drop 2 ls) ifnames cnt))"

section \<open>Addresses\<close>

text \<open>The flag \<open>IFF_LOOPBACK\<close> and the six bytes of the address, where \<open>ioctl\<close> gives them.\<close>

record net_dev =
  nd_loopback :: "string \<Rightarrow> bool option"
  nd_hwaddr :: "string \<Rightarrow> nat list option"

definition hex2 :: "nat \<Rightarrow> string" where
  "hex2 n = [digitsHex ! (n div 16 mod 16), digitsHex ! (n mod 16)]"

fun mac_text :: "nat list \<Rightarrow> string" where
  "mac_text [] = []"
| "mac_text [b] = hex2 b"
| "mac_text (b # bs) = hex2 b @ '':'' @ mac_text bs"

text \<open>The body of the loop for an interface with an address. The search for the same address sets \<open>ok\<close> to the value it has.\<close>

definition store_mac :: "nat \<Rightarrow> nat \<Rightarrow> char list \<Rightarrow> nat list \<Rightarrow> char list list \<Rightarrow> nat \<Rightarrow> (int + (char list list \<times> nat)) option" where
  "store_mac mac_len adapters tmp_mac hw addr got = do {
     tmp_mac \<leftarrow> snprintf_to tmp_mac 0 mac_len (mac_text hw);
     tmp_mac \<leftarrow> aset tmp_mac (int mac_len) NUL;
     (if got \<ge> adapters then Some (Inl (- 1))
      else do {
        row \<leftarrow> memcpy_at (addr ! got) 0 tmp_mac mac_len;
        row \<leftarrow> aset row (int mac_len) NUL;
        Some (Inr (addr[got := row], got + 1)) }) }"

fun mac_loop :: "net_dev \<Rightarrow> nat \<Rightarrow> nat \<Rightarrow> char list \<Rightarrow> char list \<Rightarrow> nat \<Rightarrow> nat \<Rightarrow> char list list \<Rightarrow> nat \<Rightarrow> (int + (char list list \<times> nat)) option" where
  "mac_loop dev mac_len adapters tmp ifnames i 0 addr got = Some (Inr (addr, got))"
| "mac_loop dev mac_len adapters tmp ifnames i (Suc k) addr got = do {
     nm \<leftarrow> cstring (drop (i * IFNAMSIZ) ifnames);
     (if length nm \<ge> IFNAMSIZ then None
      else case (nd_loopback dev nm, nd_hwaddr dev nm) of
        (Some False, Some hw) \<Rightarrow> do {
          r \<leftarrow> store_mac mac_len adapters tmp hw addr got;
          (case r of Inl e \<Rightarrow> Some (Inl e) | Inr (addr, got) \<Rightarrow> mac_loop dev mac_len adapters tmp ifnames (Suc i) k addr got) }
      | _ \<Rightarrow> mac_loop dev mac_len adapters tmp ifnames (Suc i) k addr got) }"

definition mac_addr_sys ::
  "bool \<Rightarrow> string list option \<Rightarrow> net_dev \<Rightarrow> nat \<Rightarrow> nat \<Rightarrow> char list \<Rightarrow> char list list \<Rightarrow> (int + (char list list \<times> nat)) option" where
  "mac_addr_sys socket_ok fh dev mac_len adapters tmp addr =
     (if \<not> socket_ok then Some (Inl (- 1))
      else do {
        (r, ifnames, cnt) \<leftarrow> get_procnet_list fh (replicate 2048 NUL) 0;
        (if r \<noteq> 0 then Some (Inl (- 1)) else mac_loop dev mac_len adapters tmp ifnames 0 cnt addr 0) })"

text \<open>The loop that writes the addresses one after the other.\<close>

fun join_macs :: "nat \<Rightarrow> char list list \<Rightarrow> char list \<Rightarrow> int \<Rightarrow> (char list \<times> int) option" where
  "join_macs mac_len [] mac_buf len = Some (mac_buf, len)"
| "join_macs mac_len (row # addr) mac_buf len = do {
     b \<leftarrow> memcpy_at mac_buf (nat len) row (mac_len - 1);
     b \<leftarrow> aset b (len + int (mac_len - 1)) CHR ''-'';
     join_macs mac_len addr b (len + int mac_len) }"

definition get_all_mac ::
  "bool \<Rightarrow> string list option \<Rightarrow> net_dev \<Rightarrow> nat \<Rightarrow> nat \<Rightarrow> char list \<Rightarrow> char list \<Rightarrow> int \<Rightarrow> (int \<times> char list) option" where
  "get_all_mac socket_ok fh dev mac_len adapters tmp mac_buf buf_len = do {
     r \<leftarrow> mac_addr_sys socket_ok fh dev mac_len adapters tmp (replicate adapters (replicate mac_len NUL));
     (case r of
        Inl e \<Rightarrow> Some (- 1, mac_buf)
      | Inr (addr, num) \<Rightarrow>
          if buf_len \<le> int (num * mac_len) then Some (- 1, mac_buf)
          else do {
            (b, len) \<leftarrow> join_macs mac_len (take num addr) mac_buf 0;
            b \<leftarrow> aset b (len - 1) NUL;
            Some (0, b) }) }"

section \<open>Serial numbers\<close>

definition CPU_ID_LEN :: nat where "CPU_ID_LEN = 24"

text \<open>\<open>sys\<close> is the answer of \<open>system\<close>, \<open>result\<close> the file the command wrote, if it can be opened.\<close>

definition get_cpu_id :: "int \<Rightarrow> int \<Rightarrow> string option \<Rightarrow> char list \<Rightarrow> int \<Rightarrow> (int \<times> char list) option" where
  "get_cpu_id uid sys result cpu_buf cpu_len =
     (if uid \<noteq> 0 then Some (- 1, cpu_buf)
      else if cpu_len < int CPU_ID_LEN then Some (- 1, cpu_buf)
      else if sys \<noteq> 0 then Some (- 1, cpu_buf)
      else (case result of
        None \<Rightarrow> Some (0, cpu_buf)
      | Some t \<Rightarrow> (let s = take (CPU_ID_LEN - 1) (drop 1 t) in do {
          b \<leftarrow> memcpy_at cpu_buf 0 s (length s);
          map_option (Pair 0) (aset b (int CPU_ID_LEN - 1) NUL) })))"

definition get_baseboard_id :: "int \<Rightarrow> int \<Rightarrow> string option \<Rightarrow> char list \<Rightarrow> int \<Rightarrow> (int \<times> char list) option" where
  "get_baseboard_id uid sys result baseboard_buf baseboard_len =
     (if uid \<noteq> 0 then Some (- 1, baseboard_buf)
      else if sys \<noteq> 0 then Some (- 1, baseboard_buf)
      else (case result of
        None \<Rightarrow> Some (0, baseboard_buf)
      | Some t \<Rightarrow> do {
          s \<leftarrow> cstring (take 512 (t @ replicate 512 NUL));
          (if int (length s) > baseboard_len then Some (- 1, baseboard_buf)
           else do {
             b \<leftarrow> memcpy_at baseboard_buf 0 s (length s);
             map_option (Pair 0) (aset b (int (length s) - 1) NUL) }) }))"

text \<open>\<open>serial_no\<close> is the array of the structure from the field on.\<close>

definition get_disk_id :: "bool \<Rightarrow> bool \<Rightarrow> char list \<Rightarrow> char list \<Rightarrow> nat \<Rightarrow> (int \<times> char list) option" where
  "get_disk_id opened identified serial_no disk_buf disk_len =
     (if \<not> opened \<or> \<not> identified then Some (- 1, disk_buf)
      else do {
        s \<leftarrow> cstring serial_no;
        (if disk_len < length s then Some (- 1, disk_buf)
         else map_option (Pair 0) (memcpy_at disk_buf 0 (s @ [NUL]) (length s + 1))) })"

lemma strlen_bound: "strlen b = Some n \<Longrightarrow> n \<le> int (length b)"
  by (auto simp: strlen_def cstring_def length_takeWhile_le split: if_splits)

text \<open>The length of the string is computed anew in every round.\<close>

function cut_newlines :: "char list \<Rightarrow> nat \<Rightarrow> int \<Rightarrow> (int \<times> char list) option" where
  "cut_newlines b i ret = (case strlen b of
     None \<Rightarrow> None
   | Some n \<Rightarrow> if int i < n then (if b ! i = NL then cut_newlines (b[i := NUL]) (Suc i) 0 else cut_newlines b (Suc i) ret)
       else Some (ret, b))"
  by pat_completeness auto
termination by (relation "measure (\<lambda>(b, i, r). length b - i)") (use strlen_bound in \<open>fastforce+\<close>)

declare cut_newlines.simps [simp del]

definition get_mboard_sin :: "int \<Rightarrow> int \<Rightarrow> string option \<Rightarrow> char list \<Rightarrow> int \<Rightarrow> (int \<times> char list) option" where
  "get_mboard_sin uid sys result sin_buf buf_len =
     (if uid \<noteq> 0 then Some (- 1, sin_buf)
      else if buf_len < 128 then Some (- 1, sin_buf)
      else if sys \<noteq> 0 then Some (- 1, sin_buf)
      else (case result of
        None \<Rightarrow> Some (- 1, sin_buf)
      | Some t \<Rightarrow> (let s = take 128 t in do {
          b \<leftarrow> memcpy_at sin_buf 0 s (length s);
          (if length s < 11 then Some (- 1, b) else cut_newlines b 0 (int (length s))) })))"

section \<open>The list of interfaces\<close>

lemma aset_at: "aset (pre @ x # g) (int (length pre)) c = Some (pre @ c # g)"
  by (simp add: list_update_append)

lemma copy_digits_store:
  "list_all isdigit ds \<Longrightarrow> r = [] \<or> \<not> isdigit (hd r) \<Longrightarrow> length ds \<le> length g \<Longrightarrow>
   copy_digits (pre @ g) (length pre) (ds @ r) = Some (pre @ ds @ drop (length ds) g, length pre + length ds, r)"
proof (induction ds arbitrary: pre g)
  case Nil
  then show ?case by (cases r) auto
next
  case (Cons d ds)
  obtain x g' where g: "g = x # g'" using Cons(4) by (cases g) auto
  show ?case using Cons.IH [of g' "pre @ [d]"] Cons.prems aset_at [of pre x g' d] by (simp add: g)
qed

definition name_char :: "char \<Rightarrow> bool" where
  "name_char c \<longleftrightarrow> \<not> isspace c \<and> c \<noteq> CHR '':'' \<and> c \<noteq> NUL"

text \<open>A line of the file: blanks, the name, a colon, and numbers, the first possibly without a blank before it.\<close>

definition if_line :: "string \<Rightarrow> string \<Rightarrow> string \<Rightarrow> string \<Rightarrow> string" where
  "if_line b nm ds r = b @ nm @ '':'' @ ds @ r"

definition if_line_ok :: "string \<Rightarrow> string \<Rightarrow> string \<Rightarrow> string \<Rightarrow> bool" where
  "if_line_ok b nm ds r \<longleftrightarrow> list_all isspace b \<and> nm \<noteq> [] \<and> list_all name_char nm \<and> list_all isdigit ds \<and>
     (r = [] \<or> \<not> isdigit (hd r) \<and> hd r \<noteq> CHR '':'') \<and> length nm + 1 + length ds \<le> IFNAMSIZ"

lemma get_name_loop_store:
  assumes "list_all name_char nm" "list_all isdigit ds" "r = [] \<or> \<not> isdigit (hd r) \<and> hd r \<noteq> CHR '':''"
    "length nm + 1 + length ds \<le> length g"
  shows "get_name_loop (pre @ g) (length pre) (nm @ CHR '':'' # ds @ r) =
    Some (pre @ nm @ CHR '':'' # ds @ drop (length nm + 1 + length ds) g, length pre + length nm, Some (ds @ r))"
  using assms
proof (induction nm arbitrary: pre g)
  case Nil
  then obtain x g' where g: "g = x # g'" by (cases g) auto
  have "copy_digits (pre @ CHR '':'' # g') (Suc (length pre)) (ds @ r) =
      Some (pre @ CHR '':'' # ds @ drop (length ds) g', Suc (length pre) + length ds, r)"
    using copy_digits_store [of ds r g' "pre @ [CHR '':'']"] Nil by (auto simp: g)
  then show ?case using Nil aset_at [of pre x g' "CHR '':''"] by (auto simp: g isspace_def)
next
  case (Cons c nm)
  then obtain x g' where g: "g = x # g'" by (cases g) auto
  show ?case using Cons.IH [of g' "pre @ [c]"] Cons.prems aset_at [of pre x g' c] by (simp add: g name_char_def)
qed

lemma get_name_line:
  assumes "if_line_ok b nm ds r"
  shows "\<exists>g. get_name (replicate IFNAMSIZ NUL) (if_line b nm ds r) = Some (nm @ NUL # g, Some (ds @ r))"
proof -
  let ?g = "replicate IFNAMSIZ NUL"
  obtain c nm' where nm: "nm = c # nm'" "\<not> isspace c" using assms by (cases nm) (auto simp: if_line_ok_def name_char_def)
  have "dropWhile isspace (b @ c # s) = c # s" for s
    using assms nm(2) by (auto simp: if_line_ok_def list_all_iff dropWhile_append)
  then have "dropWhile isspace (if_line b nm ds r) = nm @ CHR '':'' # ds @ r" by (simp add: if_line_def nm(1))
  moreover have "get_name_loop ?g 0 (nm @ CHR '':'' # ds @ r) =
      Some (nm @ CHR '':'' # ds @ drop (length nm + 1 + length ds) ?g, length nm, Some (ds @ r))"
    using get_name_loop_store [of nm ds r ?g "[]"] assms by (simp add: if_line_ok_def)
  ultimately show ?thesis using aset_at [of nm "CHR '':''" _ NUL] by (simp add: get_name_def)
qed

text \<open>The array of names: sixteen bytes each.\<close>

definition names_buf :: "string list \<Rightarrow> char list" where
  "names_buf ns = concat (map (\<lambda>nm. strncpy_buf nm 15 @ [NUL]) ns) @ replicate (2048 - 16 * length ns) NUL"

definition names_ok :: "string list \<Rightarrow> bool" where
  "names_ok ns \<longleftrightarrow> list_all (\<lambda>nm. no_nul nm \<and> length nm \<le> 15) ns \<and> length ns \<le> 128"

lemma length_names: "names_ok ns \<Longrightarrow> length (concat (map (\<lambda>nm. strncpy_buf nm 15 @ [NUL]) ns)) = 16 * length ns"
  by (induction ns) (auto simp: names_ok_def strncpy_buf_def)

lemma names_buf_split: "names_ok (ns @ nm # ms) \<Longrightarrow> cstring (drop (16 * length ns) (names_buf (ns @ nm # ms))) = Some nm"
proof -
  assume ok: "names_ok (ns @ nm # ms)"
  then have n: "names_ok ns" "no_nul nm" "length nm \<le> 15" by (auto simp: names_ok_def)
  have e: "strncpy_buf nm 15 @ NUL # z = nm @ NUL # (replicate (15 - length nm) NUL @ z)" for z
    using n(3) by (simp add: strncpy_buf_def replicate_app_Cons_same)
  show ?thesis using length_names [OF n(1)] n(2) by (simp add: names_buf_def e)
qed

lemma name_known_suffix:
  assumes "names_ok (ns @ ms)"
  shows "name_known (names_buf (ns @ ms)) nm (length ns) (length ms) = Some (nm \<in> set ms)"
  using assms
proof (induction ms arbitrary: ns)
  case (Cons x ms)
  have "cstring (drop (length ns * IFNAMSIZ) (names_buf (ns @ x # ms))) = Some x"
    using names_buf_split [OF Cons(2)] by (simp add: IFNAMSIZ_def mult.commute)
  then show ?case using Cons(1) [of "ns @ [x]"] Cons(2) by auto
qed simp

lemma add_new_name:
  assumes "names_ok (ns @ [nm])" "nm \<notin> set ns"
  shows "add_interface_name (names_buf ns) nm (length ns) = Some (names_buf (ns @ [nm]), length (ns @ [nm]))"
proof -
  have ok: "names_ok ns" "length nm \<le> 15" "length ns < 128" using assms(1) by (auto simp: names_ok_def)
  define A where "A = concat (map (\<lambda>nm. strncpy_buf nm 15 @ [NUL]) ns)"
  have A: "length A = 16 * length ns" unfolding A_def by (rule length_names [OF ok(1)])
  have b: "length (strncpy_buf nm 15) = 15" using ok(2) by (simp add: strncpy_buf_def)
  obtain k where k: "2048 - 16 * length ns = 16 + k" "2048 - 16 * length (ns @ [nm]) = k"
    using ok(3) by (intro that [of "2048 - 16 * length ns - 16"]) simp_all
  have "replicate (16 + k) NUL = replicate 15 NUL @ NUL # replicate k NUL" by (simp add: replicate_add eval_nat_numeral)
  then have N: "names_buf ns = A @ replicate 15 NUL @ NUL # replicate k NUL" by (simp only: names_buf_def A_def k(1))
  have M: "names_buf (ns @ [nm]) = A @ strncpy_buf nm 15 @ NUL # replicate k NUL"
    unfolding names_buf_def A_def k(2) by simp
  have "memcpy_at (names_buf ns) (length ns * IFNAMSIZ) (strncpy_buf nm (IFNAMSIZ - 1)) (IFNAMSIZ - 1) = Some (names_buf (ns @ [nm]))"
    unfolding N M using A b by (simp add: memcpy_at_def IFNAMSIZ_def mult.commute)
  moreover have "name_known (names_buf ns) nm 0 (length ns) = Some False"
    using name_known_suffix [of "[]" ns nm] ok(1) assms(2) by simp
  ultimately show ?thesis by (simp add: add_interface_name_def)
qed

lemma procnet_lines_names:
  assumes "list_all (\<lambda>(b, nm, ds, r). if_line_ok b nm ds r) ifs" "distinct (ns @ map (fst \<circ> snd) ifs)" "names_ok (ns @ map (fst \<circ> snd) ifs)"
  shows "procnet_lines (map (\<lambda>(b, nm, ds, r). if_line b nm ds r) ifs) (names_buf ns) (length ns) =
    Some (names_buf (ns @ map (fst \<circ> snd) ifs), length (ns @ map (fst \<circ> snd) ifs))"
  using assms
proof (induction ifs arbitrary: ns)
  case (Cons f ifs)
  obtain b nm ds r where f: "f = (b, nm, ds, r)" by (metis prod.exhaust)
  obtain g where g: "get_name (replicate IFNAMSIZ NUL) (if_line b nm ds r) = Some (nm @ NUL # g, Some (ds @ r))"
    using get_name_line Cons(2) by (fastforce simp: f)
  have n: "names_ok (ns @ [nm])" "nm \<notin> set ns" "no_nul nm" using Cons(3,4) by (auto simp: f names_ok_def)
  show ?case using Cons.IH [of "ns @ [nm]"] Cons.prems g n(3) add_new_name [OF n(1,2)] by (simp add: f)
qed simp

text \<open>
  The interfaces of \<open>/proc/net/dev\<close>. For up to 128 interfaces with different names, each line with any
  blanks before the name and with its first number next to the colon or not, as long as name, colon and that
  number fit sixteen bytes, the list has all names in order, one in every sixteen bytes, and nothing is
  written outside the arrays.
\<close>

theorem interface_names_listed:
  assumes "list_all (\<lambda>(b, nm, ds, r). if_line_ok b nm ds r) ifs" "distinct (map (fst \<circ> snd) ifs)" "length ifs \<le> 128"
  shows "\<exists>buf. get_procnet_list (Some ([t1, t2] @ map (\<lambda>(b, nm, ds, r). if_line b nm ds r) ifs)) (replicate 2048 NUL) 0 = Some (0, buf, length ifs) \<and>
    (\<forall>i < length ifs. cstring (drop (i * IFNAMSIZ) buf) = Some (fst (snd (ifs ! i))))"
proof -
  let ?ns = "map (fst \<circ> snd) ifs"
  have ok: "names_ok ?ns"
    using assms(1,3) by (fastforce simp: names_ok_def list_all_iff if_line_ok_def no_nul_def name_char_def IFNAMSIZ_def)
  have z: "replicate 2048 NUL = names_buf []" by (simp add: names_buf_def)
  have "get_procnet_list (Some ([t1, t2] @ map (\<lambda>(b, nm, ds, r). if_line b nm ds r) ifs)) (replicate 2048 NUL) 0 = Some (0, names_buf ?ns, length ifs)"
    using procnet_lines_names [of ifs "[]"] assms(1,2) ok unfolding z by (simp add: get_procnet_list_def)
  moreover have "cstring (drop (i * IFNAMSIZ) (names_buf ?ns)) = Some (fst (snd (ifs ! i)))" if "i < length ifs" for i
  proof -
    have "?ns = take i ?ns @ ?ns ! i # drop (Suc i) ?ns" using that by (intro id_take_nth_drop) simp
    then have e: "take i ?ns @ ?ns ! i # drop (Suc i) ?ns = ?ns" by (rule sym)
    from names_buf_split [of "take i ?ns" "?ns ! i" "drop (Suc i) ?ns", unfolded e, OF ok]
    show ?thesis using that by (simp add: IFNAMSIZ_def mult.commute min_def)
  qed
  ultimately show ?thesis by blast
qed

theorem interface_names_listed_witness:
  "\<exists>buf. get_procnet_list (Some ([''Inter-'', '' face''] @ [if_line '' '' ''lo'' [] '' 12'', if_line [] ''eth0'' ''7'' '' 9''])) (replicate 2048 NUL) 0 =
      Some (0, buf, 2) \<and> cstring buf = Some ''lo'' \<and> cstring (drop IFNAMSIZ buf) = Some ''eth0''"
  using interface_names_listed [of "[('' '', ''lo'', [], '' 12''), ([], ''eth0'', ''7'', '' 9'')]" "''Inter-''" "'' face''"]
  by (force simp: if_line_ok_def name_char_def isspace_def isdigit_def IFNAMSIZ_def less_Suc_eq)

section \<open>The addresses\<close>

lemma store_mac_undefined: "length tmp = mac_len \<Longrightarrow> store_mac mac_len adapters tmp hw addr got = None"
proof -
  assume l: "length tmp = mac_len"
  have "aset t (int mac_len) NUL = None" if "snprintf_to tmp 0 mac_len (mac_text hw) = Some t" for t
    using length_memcpy that l by (force simp: snprintf_to_def Let_def aset_def)
  then show ?thesis by (cases "snprintf_to tmp 0 mac_len (mac_text hw)") (auto simp: store_mac_def)
qed

lemma mac_loop_empty:
  "length tmp = mac_len \<Longrightarrow> mac_loop dev mac_len adapters tmp ifnames i k addr got = Some r \<Longrightarrow> r = Inr (addr, got)"
  by (induction k arbitrary: i) (auto simp: store_mac_undefined split: bind_splits if_splits option.splits bool.splits)

text \<open>
  \<open>get_all_mac\<close> cannot succeed. Whatever the interfaces and the buffer, the call fails with -1 or is
  undefined: for an interface with an address, the terminator is written behind the array of
  \<open>SINGLE_MAC_LEN\<close> bytes, and when there is no such interface the last separator that is to be replaced
  is the byte before the buffer.
\<close>

theorem get_all_mac_never_succeeds:
  assumes "length tmp = mac_len" "get_all_mac socket_ok fh dev mac_len adapters tmp mac_buf buf_len = Some (ret, buf)"
  shows "ret = - 1 \<and> buf = mac_buf"
proof -
  obtain r where r: "mac_addr_sys socket_ok fh dev mac_len adapters tmp (replicate adapters (replicate mac_len NUL)) = Some r"
    using assms(2) by (auto simp: get_all_mac_def split: bind_splits)
  then have "(\<exists>e. r = Inl e) \<or> r = Inr (replicate adapters (replicate mac_len NUL), 0)"
    using mac_loop_empty [OF assms(1)] by (fastforce simp: mac_addr_sys_def split: bind_splits if_splits)
  then show ?thesis using assms(2) r by (auto simp: get_all_mac_def aset_def split: if_splits)
qed

theorem get_all_mac_never_succeeds_witness:
  "get_all_mac True None \<lparr>nd_loopback = (\<lambda>_. None), nd_hwaddr = (\<lambda>_. None)\<rparr> 18 8 (replicate 18 NUL) ''?'' 1 = Some (- 1, ''?'')"
proof -
  let ?r = "get_all_mac True None \<lparr>nd_loopback = (\<lambda>_. None), nd_hwaddr = (\<lambda>_. None)\<rparr> 18 8 (replicate 18 NUL) ''?'' 1"
  obtain ret buf where "?r = Some (ret, buf)" by (simp add: get_all_mac_def mac_addr_sys_def get_procnet_list_def)
  with get_all_mac_never_succeeds [OF _ this] show ?thesis by simp
qed

section \<open>The serial number of the main board\<close>

lemma cut_newlines_line:
  assumes "NL \<notin> set s" "no_nul s" "NUL \<in> set z" "i \<le> length s"
  shows "cut_newlines (s @ NL # z) i ret = Some (0, s @ NUL # z)"
  using assms(4)
proof (induction "length s - i" arbitrary: i)
  case 0
  obtain n where n: "strlen (s @ NL # z) = Some n" "int (length s) < n"
    using assms(2,3) by (auto simp: strlen_def cstring_def takeWhile_append no_nul_def)
  have "cut_newlines (s @ NUL # z) (Suc (length s)) 0 = Some (0, s @ NUL # z)"
    using assms(2) by (subst cut_newlines.simps) simp
  moreover have "i = length s" "(s @ NL # z) ! i = NL" using 0 by (simp_all add: nth_append)
  ultimately show ?case using n by (subst cut_newlines.simps) (simp add: list_update_append)
next
  case (Suc k)
  obtain n where n: "strlen (s @ NL # z) = Some n" "int (length s) < n"
    using assms(2,3) by (auto simp: strlen_def cstring_def takeWhile_append no_nul_def)
  have "i < length s" using Suc(2) by simp
  then have "(s @ NL # z) ! i \<noteq> NL" using assms(1) nth_mem [of i s] by (metis nth_append)
  then show ?case using Suc n by (subst cut_newlines.simps) simp
qed

text \<open>The output of the command is one line: the result is the line without its newline, provided the buffer has a zero byte behind it.\<close>

lemma mboard_sin_line:
  assumes "NL \<notin> set s" "no_nul s" "10 \<le> length s" "length s < 127" "length b = 128" "NUL \<in> set (drop (length s + 1) b)" "128 \<le> n"
  shows "\<exists>b'. get_mboard_sin 0 0 (Some (s @ [NL])) b n = Some (0, b') \<and> cstring b' = Some s"
proof -
  have "memcpy_at b 0 (s @ [NL]) (length (s @ [NL])) = Some (s @ NL # drop (length s + 1) b)" using assms(4,5) by (simp add: memcpy_at_def)
  then have "get_mboard_sin 0 0 (Some (s @ [NL])) b n = Some (0, s @ NUL # drop (length s + 1) b)"
    using cut_newlines_line [OF assms(1,2,6), of 0] assms(3,4,7) by (simp add: get_mboard_sin_def Let_def)
  then show ?thesis using assms(2) by simp
qed

end
