(* ===== verification/Err_Report.thy ===== *)
theory Err_Report
  imports Muduo_Stream
begin

text \<open>
  The error functions of \<open>src/trash/src/public/src/err.c\<close> and their client
  \<open>src/trash/src/unix_pro/file_and_dir/fcntl_FL.c\<close>. The expansion of the format and its arguments is
  an argument \<open>msg\<close>, the texts of \<open>strerror\<close> and the value of \<open>errno\<close> are parameters. Of the standard
  streams the model keeps what \<open>stdout\<close> still buffers and the writes that reached descriptors 1 and 2,
  in order; \<open>stderr\<close> is not buffered. The functions return, exit or abort.
\<close>

unbundle bit_operations_syntax

section \<open>The functions\<close>

definition MAXLINE :: nat where "MAXLINE = 4096"

record stdio =
  so_pending :: string
  shown :: "(nat \<times> string) list"

datatype fate = Returned | Exited int | Aborted

definition fflush_stdout :: "stdio \<Rightarrow> stdio" where
  "fflush_stdout io =
     (if so_pending io = [] then io else io\<lparr>so_pending := [], shown := shown io @ [(1, so_pending io)]\<rparr>)"

definition printf_stdout :: "string \<Rightarrow> stdio \<Rightarrow> stdio" where
  "printf_stdout s io = io\<lparr>so_pending := so_pending io @ s\<rparr>"

definition fputs_stderr :: "string \<Rightarrow> stdio \<Rightarrow> stdio" where
  "fputs_stderr s io = io\<lparr>shown := shown io @ [(2, s)]\<rparr>"

text \<open>
  \<open>buf\<close> is the array on the stack before the call. A size of zero makes \<open>snprintf\<close> write nothing;
  \<open>strcat\<close> writes the newline and the NUL over the end of the text.
\<close>

definition snprintf_n :: "char list \<Rightarrow> nat \<Rightarrow> nat \<Rightarrow> string \<Rightarrow> char list option" where
  "snprintf_n d at sz t = (if sz = 0 then Some d else snprintf_to d at sz t)"

definition err_doit :: "(int \<Rightarrow> string) \<Rightarrow> char list \<Rightarrow> int \<Rightarrow> int \<Rightarrow> string \<Rightarrow> stdio \<Rightarrow> stdio option" where
  "err_doit strerror buf errnoflag err msg io = do {
     buf \<leftarrow> snprintf_n buf 0 (MAXLINE - 1) msg;
     buf \<leftarrow> (if errnoflag \<noteq> 0 then do {
               n \<leftarrow> strlen buf;
               snprintf_n buf (nat n) (MAXLINE - nat n - 1) ('': '' @ strerror err)
             } else Some buf);
     n \<leftarrow> strlen buf;
     buf \<leftarrow> memcpy_at buf (nat n) [NL, NUL] 2;
     let io = fflush_stdout io;
     s \<leftarrow> cstring buf;
     let io = fputs_stderr s io;
     Some (fflush_stdout io) }"

type_synonym err_fun = "(int \<Rightarrow> string) \<Rightarrow> char list \<Rightarrow> int \<Rightarrow> string \<Rightarrow> stdio \<Rightarrow> (fate \<times> stdio) option"

definition err_ret :: err_fun where
  "err_ret strerror buf errno msg io = do { io \<leftarrow> err_doit strerror buf 1 errno msg io; Some (Returned, io) }"

definition err_sys :: err_fun where
  "err_sys strerror buf errno msg io = do { io \<leftarrow> err_doit strerror buf 1 errno msg io; Some (Exited 1, io) }"

definition err_cont :: err_fun where
  "err_cont strerror buf err msg io = do { io \<leftarrow> err_doit strerror buf 1 err msg io; Some (Returned, io) }"

definition err_exit :: err_fun where
  "err_exit strerror buf err msg io = do { io \<leftarrow> err_doit strerror buf 1 err msg io; Some (Exited 1, io) }"

definition err_dump :: err_fun where
  "err_dump strerror buf errno msg io = do { io \<leftarrow> err_doit strerror buf 1 errno msg io; Some (Aborted, io) }"

definition err_msg :: err_fun where
  "err_msg strerror buf errno msg io = do { io \<leftarrow> err_doit strerror buf 0 0 msg io; Some (Returned, io) }"

definition err_quit :: err_fun where
  "err_quit strerror buf errno msg io = do { io \<leftarrow> err_doit strerror buf 0 0 msg io; Some (Exited 1, io) }"

section \<open>The file status flags of a descriptor\<close>

definition O_ACCMODE :: int where "O_ACCMODE = 3"

text \<open>
  \<open>getfl\<close> is the result of \<open>fcntl(fd, F_GETFL, 0)\<close>; \<open>fsync_flag\<close> is the value of \<open>O_FSYNC\<close> when the block
  that tests it is compiled. Leaving \<open>main\<close> flushes \<open>stdout\<close>.
\<close>

definition fl_mode :: "int \<Rightarrow> string option" where
  "fl_mode val =
     (let m = val AND O_ACCMODE in
      if m = 0 then Some ''read only'' else if m = 1 then Some ''write only''
      else if m = 2 then Some ''read write'' else None)"

definition fl_main ::
  "(int \<Rightarrow> string) \<Rightarrow> char list \<Rightarrow> int \<Rightarrow> (int \<Rightarrow> int) \<Rightarrow> int option \<Rightarrow> string list \<Rightarrow> stdio \<Rightarrow> (fate \<times> stdio) option" where
  "fl_main strerror buf errno getfl fsync_flag argv io =
     (if length argv \<noteq> 2 then err_quit strerror buf errno ''Usage: a.out <descriptor>'' io
      else do {
        fd \<leftarrow> atoi (argv ! 1);
        let val = getfl fd;
        if val < 0 then err_sys strerror buf errno (''fcntl error for fd '' @ show_int fd) io
        else case fl_mode val of
            None \<Rightarrow> err_dump strerror buf errno ''unknown access mode'' io
          | Some mode \<Rightarrow> do {
              let io = printf_stdout mode io;
              let io = (case fsync_flag of
                  None \<Rightarrow> io
                | Some f \<Rightarrow> if val AND f \<noteq> 0 then printf_stdout '', sysnchronous write.'' io else io);
              let io = printf_stdout [NL] io;
              Some (Exited 0, fflush_stdout io) } })"

section \<open>The line that is written\<close>

text \<open>The text of the message in the buffer, cut so that the newline and the NUL still fit.\<close>

definition err_line :: "(int \<Rightarrow> string) \<Rightarrow> bool \<Rightarrow> int \<Rightarrow> string \<Rightarrow> string" where
  "err_line strerror with_errno err msg =
     take (MAXLINE - 2) (msg @ (if with_errno then '': '' @ strerror err else [])) @ [NL]"

text \<open>Printed text that was still buffered goes out first.\<close>

definition report :: "stdio \<Rightarrow> string \<Rightarrow> stdio" where
  "report io s = \<lparr>so_pending = [], shown = shown (fflush_stdout io) @ [(2, s)]\<rparr>"

lemma memcpy_all: "at + length s \<le> length d \<Longrightarrow> memcpy_at d at s (length s) = Some (take at d @ s @ drop (at + length s) d)"
  by (simp add: memcpy_at_def)

lemma snprintf_n_text:
  assumes "take at d = pre" "length pre = at" "at + length (take (sz - 1) t) < length d" "0 < sz"
  shows "\<exists>z. snprintf_n d at sz t = Some (pre @ take (sz - 1) t @ NUL # z) \<and> length (pre @ take (sz - 1) t @ NUL # z) = length d"
proof -
  let ?s = "take (sz - 1) t @ [NUL]"
  have "at + length ?s \<le> length d" using assms(3) by simp
  then have "snprintf_n d at sz t = Some (pre @ ?s @ drop (at + length ?s) d)"
    using assms(1,4) unfolding snprintf_n_def snprintf_to_def Let_def by (simp only: memcpy_all) simp
  moreover have "length (pre @ ?s @ drop (at + length ?s) d) = length d" using assms(2,3) by simp
  ultimately show ?thesis by (intro exI [of _ "drop (at + length ?s) d"]) simp
qed

lemma rest_fits: "\<lbrakk>(a :: nat) \<le> M - 2; 2 < M; b \<le> M - a - 1 - 1; l = M\<rbrakk> \<Longrightarrow> a + b < l" "(a :: nat) \<le> M - 2 \<Longrightarrow> 2 < M \<Longrightarrow> 0 < M - a - 1"
  by linarith+

text \<open>The newline behind a text that leaves room for it.\<close>

lemma append_newline:
  assumes "no_nul t" "length (t @ NUL # x) = n" "length t \<le> n - 2" "2 < n"
  shows "memcpy_at (t @ NUL # x) (length t) [NL, NUL] 2 = Some (t @ NL # NUL # drop 1 x)"
    "cstring (t @ NL # NUL # drop 1 x) = Some (t @ [NL])"
    "strlen (t @ NUL # x) = Some (int (length t))"
proof -
  have "1 \<le> length x" using assms(2-4) by simp
  then show "memcpy_at (t @ NUL # x) (length t) [NL, NUL] 2 = Some (t @ NL # NUL # drop 1 x)" by (simp add: memcpy_at_def)
  show "cstring (t @ NL # NUL # drop 1 x) = Some (t @ [NL])"
    using cstring_terminated [of "t @ [NL]" "drop 1 x"] assms(1) by (simp del: cstring_terminated)
qed (simp add: assms(1))

lemma err_doit_line:
  assumes "length buf = MAXLINE" "no_nul msg" "fl \<noteq> 0 \<Longrightarrow> no_nul (strerror err)"
  shows "err_doit strerror buf fl err msg io = Some (report io (err_line strerror (fl \<noteq> 0) err msg))"
proof -
  let ?m = "take (MAXLINE - 2) msg" and ?e = "'': '' @ strerror err"
  have M: "MAXLINE - 1 - 1 = MAXLINE - 2" "2 < MAXLINE" by (simp_all add: MAXLINE_def)
  obtain z where z: "snprintf_n buf 0 (MAXLINE - 1) msg = Some (?m @ NUL # z)" "length (?m @ NUL # z) = MAXLINE"
    using snprintf_n_text [of 0 buf "[]" "MAXLINE - 1" msg] assms(1) M by (auto simp: min_less_iff_disj)
  let ?sz = "MAXLINE - length ?m - 1"
  have lm: "length ?m \<le> MAXLINE - 2" by simp
  have "length (take (?sz - 1) ?e) \<le> ?sz - 1" by (simp only: length_take min.cobounded2)
  note p = rest_fits(1) [OF lm M(2) this z(2)] rest_fits(2) [OF lm M(2)]
  have q: "take (length ?m) (?m @ NUL # z) = ?m" by (simp only: take_append take_all diff_self_eq_0 take_0 append_Nil2)
  obtain y where y: "snprintf_n (?m @ NUL # z) (length ?m) ?sz ?e = Some (?m @ take (?sz - 1) ?e @ NUL # y)"
      "length (?m @ take (?sz - 1) ?e @ NUL # y) = MAXLINE"
    using snprintf_n_text [OF q refl p] unfolding z(2) by blast
  have cut: "?m @ take (?sz - 1) ?e = take (MAXLINE - 2) (msg @ ?e)" by (simp add: min_def)
  let ?t = "take (MAXLINE - 2) (msg @ (if fl \<noteq> 0 then ?e else []))"
  obtain x where x: "(if fl \<noteq> 0 then do { n \<leftarrow> strlen (?m @ NUL # z); snprintf_n (?m @ NUL # z) (nat n) (MAXLINE - nat n - 1) ?e }
      else Some (?m @ NUL # z)) = Some (?t @ NUL # x)" "length (?t @ NUL # x) = MAXLINE"
  proof (cases "fl = 0")
    case True
    then show ?thesis using that [of z] z(2) by simp
  next
    case False
    then show ?thesis using that [of y] y assms(2) unfolding append_assoc [symmetric] cut by simp
  qed
  have nt: "no_nul ?t" using assms(2,3) by simp
  have "length ?t \<le> MAXLINE - 2" by (simp only: length_take min.cobounded2)
  note l = append_newline [OF nt x(2) this M(2)]
  show ?thesis unfolding err_doit_def z(1) Option.bind.bind_lunit x(1) l nat_int Let_def
    by (simp add: report_def err_line_def fflush_stdout_def fputs_stderr_def)
qed

lemma err_functions_line_facts:
  assumes "length buf = MAXLINE" "no_nul msg" "no_nul (strerror e)"
  shows "err_ret strerror buf e msg io = Some (Returned, report io (err_line strerror True e msg))"
    "err_sys strerror buf e msg io = Some (Exited 1, report io (err_line strerror True e msg))"
    "err_cont strerror buf e msg io = Some (Returned, report io (err_line strerror True e msg))"
    "err_exit strerror buf e msg io = Some (Exited 1, report io (err_line strerror True e msg))"
    "err_dump strerror buf e msg io = Some (Aborted, report io (err_line strerror True e msg))"
    "err_msg strerror buf e msg io = Some (Returned, report io (err_line strerror False 0 msg))"
    "err_quit strerror buf e msg io = Some (Exited 1, report io (err_line strerror False 0 msg))"
    "length (err_line strerror b e msg) < MAXLINE"
  using err_doit_line [OF assms(1,2)] assms(3)
  by (simp_all add: err_ret_def err_sys_def err_cont_def err_exit_def err_dump_def err_msg_def err_quit_def err_line_def MAXLINE_def)

text \<open>
  C35: The error functions never leave their buffer, however long the message and the text of the
  error are: each writes one line, the message and for five of them the text of \<open>errno\<close> or of the error
  given, cut to \<open>MAXLINE - 2\<close> characters and ended by a newline, after everything that \<open>stdout\<close> still
  buffered; then it returns, exits with status 1 or aborts.
\<close>

theorem err_functions_line:
  assumes "length buf = MAXLINE" "no_nul msg" "no_nul (strerror e)"
  shows "err_ret strerror buf e msg io = Some (Returned, report io (err_line strerror True e msg)) \<and>
    err_sys strerror buf e msg io = Some (Exited 1, report io (err_line strerror True e msg)) \<and>
    err_cont strerror buf e msg io = Some (Returned, report io (err_line strerror True e msg)) \<and>
    err_exit strerror buf e msg io = Some (Exited 1, report io (err_line strerror True e msg)) \<and>
    err_dump strerror buf e msg io = Some (Aborted, report io (err_line strerror True e msg)) \<and>
    err_msg strerror buf e msg io = Some (Returned, report io (err_line strerror False 0 msg)) \<and>
    err_quit strerror buf e msg io = Some (Exited 1, report io (err_line strerror False 0 msg)) \<and>
    length (err_line strerror b e msg) < MAXLINE"
  using err_functions_line_facts [of buf msg strerror e, OF assms] by (intro conjI)

theorem err_functions_line_witness:
  "err_sys (\<lambda>_. ''busy'') (replicate MAXLINE NUL) 16 ''open'' \<lparr>so_pending = ''a'', shown = []\<rparr> =
     Some (Exited 1, \<lparr>so_pending = [], shown = [(1, ''a''), (2, ''open: busy'' @ [NL])]\<rparr>)"
  using err_functions_line [of "replicate MAXLINE NUL" "''open''" "\<lambda>_. ''busy''" 16 "\<lparr>so_pending = ''a'', shown = []\<rparr>"]
  by (simp add: report_def err_line_def fflush_stdout_def MAXLINE_def)

lemma fl_main_reports_facts:
  assumes "length buf = MAXLINE" "\<forall>e. no_nul (strerror e)" "atoi (argv ! 1) = Some fd"
  shows "length argv \<noteq> 2 \<Longrightarrow> fl_main strerror buf errno getfl None argv io =
      Some (Exited 1, report io (''Usage: a.out <descriptor>'' @ [NL]))"
    "length argv = 2 \<Longrightarrow> getfl fd = - 1 \<Longrightarrow> fl_main strerror buf errno getfl None argv io =
      Some (Exited 1, report io (err_line strerror True errno (''fcntl error for fd '' @ show_int fd)))"
    "length argv = 2 \<Longrightarrow> 0 \<le> getfl fd \<Longrightarrow> fl_mode (getfl fd) = Some mode \<Longrightarrow> fl_main strerror buf errno getfl None argv io =
      Some (Exited 0, \<lparr>so_pending = [], shown = shown io @ [(1, so_pending io @ mode @ [NL])]\<rparr>)"
proof -
  have "no_nul (''fcntl error for fd '' @ show_int fd)" by (simp add: no_nul_show_int)
  then have f: "err_doit strerror buf 1 errno (''fcntl error for fd '' @ show_int fd) io =
      Some (report io (err_line strerror True errno (''fcntl error for fd '' @ show_int fd)))"
    using err_doit_line [OF assms(1)] assms(2) by simp
  have u: "err_doit strerror buf 0 0 ''Usage: a.out <descriptor>'' io = Some (report io (''Usage: a.out <descriptor>'' @ [NL]))"
    using err_doit_line [OF assms(1), of "''Usage: a.out <descriptor>''" 0] by (simp add: err_line_def MAXLINE_def)
  show "length argv \<noteq> 2 \<Longrightarrow> fl_main strerror buf errno getfl None argv io =
      Some (Exited 1, report io (''Usage: a.out <descriptor>'' @ [NL]))"
    unfolding fl_main_def err_quit_def u by simp
  show "length argv = 2 \<Longrightarrow> getfl fd = - 1 \<Longrightarrow> fl_main strerror buf errno getfl None argv io =
      Some (Exited 1, report io (err_line strerror True errno (''fcntl error for fd '' @ show_int fd)))"
    unfolding fl_main_def err_sys_def assms(3) Option.bind.bind_lunit Let_def f by simp
  show "length argv = 2 \<Longrightarrow> 0 \<le> getfl fd \<Longrightarrow> fl_mode (getfl fd) = Some mode \<Longrightarrow> fl_main strerror buf errno getfl None argv io =
      Some (Exited 0, \<lparr>so_pending = [], shown = shown io @ [(1, so_pending io @ mode @ [NL])]\<rparr>)"
    using assms(3) by (simp add: fl_main_def Let_def printf_stdout_def fflush_stdout_def)
qed

text \<open>
  The program that prints the file status flags: for one argument that names an open descriptor,
  it prints the access mode on one line and ends with status 0; for a wrong number of arguments or a
  descriptor that is not open it prints one line of error and ends with status 1.
\<close>

theorem fl_main_reports:
  assumes "length buf = MAXLINE" "\<forall>e. no_nul (strerror e)" "atoi (argv ! 1) = Some fd"
  shows "(length argv \<noteq> 2 \<longrightarrow> fl_main strerror buf errno getfl None argv io =
      Some (Exited 1, report io (''Usage: a.out <descriptor>'' @ [NL]))) \<and>
    (length argv = 2 \<and> getfl fd = - 1 \<longrightarrow> fl_main strerror buf errno getfl None argv io =
      Some (Exited 1, report io (err_line strerror True errno (''fcntl error for fd '' @ show_int fd)))) \<and>
    (length argv = 2 \<and> 0 \<le> getfl fd \<and> fl_mode (getfl fd) = Some mode \<longrightarrow> fl_main strerror buf errno getfl None argv io =
      Some (Exited 0, \<lparr>so_pending = [], shown = shown io @ [(1, so_pending io @ mode @ [NL])]\<rparr>))"
  by (intro conjI impI; (elim conjE)?; rule fl_main_reports_facts [OF assms]; assumption)

theorem fl_main_reports_witness:
  "fl_main (\<lambda>_. ''bad'') (replicate MAXLINE NUL) 9 (\<lambda>fd. if fd < 3 then fd + 32768 else - 1) None [''a.out'', ''2''] \<lparr>so_pending = [], shown = []\<rparr> =
     Some (Exited 0, \<lparr>so_pending = [], shown = [(1, ''read write'' @ [NL])]\<rparr>)"
proof -
  have "atoi ([''a.out'', ''2''] ! 1) = Some 2" "fl_mode 32770 = Some ''read write''" by code_simp+
  then show ?thesis
    using fl_main_reports [of "replicate MAXLINE NUL" "\<lambda>_. ''bad''" "[''a.out'', ''2'']" 2 9 "\<lambda>fd. if fd < 3 then fd + 32768 else - 1"
        "\<lparr>so_pending = [], shown = []\<rparr>" "''read write''"]
    by simp
qed

end
