(* ===== verification/Sniffer.thy ===== *)
theory Sniffer
  imports Packet CString
begin

text \<open>
  The retired sniffer (\<open>src/trash/sniffer\<close>): \<open>sniffer.c\<close> dumps live packets to a file and remembers the
  first session, \<open>packet_analyse.c\<close> reads the file back. The headers are those of \<^theory_text>\<open>Packet\<close>, but stay in
  network order; ports and addresses are kept as their bytes. A member of the packet information that
  was not assigned is \<^term>\<open>None\<close>, and using it is undefined. The capture library is the sequence of
  packets it delivers and of packets it is told to dump.
\<close>

section \<open>Capturing\<close>

record sniff_pkt =
  sk_ip :: "nat option"
  sk_tcp :: "nat option"
  sk_payload :: "nat option"

record sniff_session =
  ss_src :: "byte list"
  ss_sport :: "byte list"
  ss_des :: "byte list"
  ss_dport :: "byte list"

definition SNIFF_TH_SYN :: byte where "SNIFF_TH_SYN = 0x02"

text \<open>All flags but PUSH.\<close>

definition SNIFF_TH_FLAGS :: byte where "SNIFF_TH_FLAGS = 0x01 OR 0x02 OR 0x04 OR 0x10 OR 0x20 OR 0x40 OR 0x80"

definition no_pkt :: sniff_pkt where
  "no_pkt = \<lparr>sk_ip = None, sk_tcp = None, sk_payload = None\<rparr>"

definition get_payload :: "byte list \<Rightarrow> sniff_pkt \<Rightarrow> (nat option \<times> sniff_pkt) option" where
  "get_payload m pkt = do {
     let pkt = pkt\<lparr>sk_ip := Some SNIFF_SIZE_ETHERNET\<rparr>;
     vh1 \<leftarrow> ld8 m SNIFF_SIZE_ETHERNET;
     let size_ip = SNIFF_IP_HL vh1 * 4;
     if size_ip < 10 then Some (None, pkt)
     else do {
       let th = SNIFF_SIZE_ETHERNET + size_ip;
       let pkt = pkt\<lparr>sk_tcp := Some th\<rparr>;
       offx2 \<leftarrow> ld8 m (th + 12);
       let size_tcp = SNIFF_TH_OFF offx2 * 4;
       if size_tcp < 20 then Some (None, pkt)
       else let pay = SNIFF_SIZE_ETHERNET + size_ip + size_tcp in Some (Some pay, pkt\<lparr>sk_payload := Some pay\<rparr>) } }"

record sniffer =
  sn_ses :: sniff_session
  ses_init_flag :: int
  sn_dumped :: "byte list list"
  sn_lens :: "int list"

definition sniff_read_session :: "byte list \<Rightarrow> nat \<Rightarrow> nat \<Rightarrow> sniff_session option" where
  "sniff_read_session m i t = do {
     src \<leftarrow> ldn m (i + 12) 4;
     sp \<leftarrow> ldn m t 2;
     dst \<leftarrow> ldn m (i + 16) 4;
     dp \<leftarrow> ldn m (t + 2) 2;
     Some \<lparr>ss_src = src, ss_sport = sp, ss_des = dst, ss_dport = dp\<rparr> }"

text \<open>\<open>wlen\<close> is the length on the wire that the header of the packet names; its line is printed first.\<close>

definition got_packet :: "int \<Rightarrow> byte list \<Rightarrow> sniffer \<Rightarrow> sniffer option" where
  "got_packet wlen m s = do {
     let s = s\<lparr>sn_lens := sn_lens s @ [wlen]\<rparr>;
     (_, pkt) \<leftarrow> get_payload m no_pkt;
     s \<leftarrow> (if ses_init_flag s = 0 then do {
              t \<leftarrow> sk_tcp pkt;
              fl \<leftarrow> ld8 m (t + 13);
              if fl AND SNIFF_TH_FLAGS = SNIFF_TH_SYN then do {
                i \<leftarrow> sk_ip pkt;
                ses \<leftarrow> sniff_read_session m i t;
                Some (s\<lparr>sn_ses := ses, ses_init_flag := 1\<rparr>)
              } else Some s
            } else Some s);
     Some (s\<lparr>sn_dumped := sn_dumped s @ [m]\<rparr>) }"

text \<open>\<open>pcap_loop\<close> in \<open>main\<close> stops after \<open>n\<close> packets (1000) or when there are no more.\<close>

fun sniff_loop :: "nat \<Rightarrow> (int \<times> byte list) list \<Rightarrow> sniffer \<Rightarrow> sniffer option" where
  "sniff_loop (Suc n) ((wlen, m) # ps) s = do { s \<leftarrow> got_packet wlen m s; sniff_loop n ps s }"
| "sniff_loop _ _ s = Some s"

definition new_sniffer :: sniffer where
  "new_sniffer = \<lparr>sn_ses = \<lparr>ss_src = [0, 0, 0, 0], ss_sport = [0, 0], ss_des = [0, 0, 0, 0], ss_dport = [0, 0]\<rparr>,
     ses_init_flag = 0, sn_dumped = [], sn_lens = []\<rparr>"

section \<open>Reading the file back\<close>

text \<open>
  The array of flag names: eight rows of five bytes, one after the other; a name of five characters
  leaves no room for its NUL.
\<close>

definition flag_row :: "string \<Rightarrow> char list" where
  "flag_row s = take 5 (s @ replicate 5 NUL)"

definition analyse_flags :: "char list" where
  "analyse_flags = concat (map flag_row [''FIN '', ''SYN '', ''RST '', ''PUSH '', ''ACK '', ''URG '', ''ECE '', ''CWR ''])"

fun print_flags :: "byte \<Rightarrow> nat list \<Rightarrow> string option" where
  "print_flags fl [] = Some []"
| "print_flags fl (i # is) = do {
     out \<leftarrow> (if drop_bit i fl AND 1 \<noteq> 0 then do { s \<leftarrow> cstring (drop (5 * i) analyse_flags); Some (s @ '' '') } else Some []);
     rest \<leftarrow> print_flags fl is;
     Some (out @ rest) }"

text \<open>\<open>read_packet\<close> of \<open>packet_analyse.c\<close>, whose \<open>slice_packet\<close> is the \<open>get_payload\<close> of the sniffer: the counter and the printed text.\<close>

definition analyse_packet :: "byte list \<Rightarrow> int \<Rightarrow> (int \<times> string) option" where
  "analyse_packet m n = do {
     (pay, pkt) \<leftarrow> get_payload m no_pkt;
     case pay of
       None \<Rightarrow> Some (n, [])
     | Some _ \<Rightarrow> do {
         n \<leftarrow> cint (n + 1);
         t \<leftarrow> sk_tcp pkt;
         fl \<leftarrow> ld8 m (t + 13);
         out \<leftarrow> print_flags fl [0..<8];
         Some (n, out @ ''count : '' @ show_int n @ [NL]) } }"

fun analyse_file :: "byte list list \<Rightarrow> int \<Rightarrow> (int \<times> string) option" where
  "analyse_file [] n = Some (n, [])"
| "analyse_file (m # ms) n = do { (n, out) \<leftarrow> analyse_packet m n; (n, rest) \<leftarrow> analyse_file ms n; Some (n, out @ rest) }"

section \<open>Well-formed packets\<close>

lemma get_payload_wire:
  assumes "wire_ok w"
  shows "get_payload (wire_bytes w) no_pkt = Some (Some (14 + SNIFF_IP_HL (w_vh1 w) * 4 + SNIFF_TH_OFF (w_offx2 w) * 4),
    \<lparr>sk_ip = Some 14, sk_tcp = Some (14 + SNIFF_IP_HL (w_vh1 w) * 4), sk_payload = Some (14 + SNIFF_IP_HL (w_vh1 w) * 4 + SNIFF_TH_OFF (w_offx2 w) * 4)\<rparr>)"
proof -
  have "\<not> SNIFF_IP_HL (w_vh1 w) * 4 < 10" "\<not> SNIFF_TH_OFF (w_offx2 w) * 4 < 20" using assms by (auto simp: wire_ok_def)
  moreover have "wire_bytes w = host_bytes False w" by (simp add: wire_bytes_def host_bytes_def)
  ultimately show ?thesis using wire_vh1 [OF assms] wire_fields(7) [OF assms, of False]
    by (simp add: get_payload_def Let_def no_pkt_def SNIFF_SIZE_ETHERNET_def)
qed

definition wire_session :: "wire \<Rightarrow> sniff_session" where
  "wire_session w = \<lparr>ss_src = w_src w, ss_sport = bytes16 (w_sport w), ss_des = w_dst w, ss_dport = bytes16 (w_dport w)\<rparr>"

definition opens_session :: "wire \<Rightarrow> bool" where
  "opens_session w \<longleftrightarrow> w_flags w AND SNIFF_TH_FLAGS = SNIFF_TH_SYN"

lemma read_session_wire:
  assumes "wire_ok w"
  shows "sniff_read_session (wire_bytes w) 14 (14 + SNIFF_IP_HL (w_vh1 w) * 4) = Some (wire_session w)"
proof -
  have hb: "wire_bytes w = host_bytes False w" by (simp add: wire_bytes_def host_bytes_def)
  let ?pre = "w_eth w @ wire_ip False w"
  have pre: "length ?pre = 14 + SNIFF_IP_HL (w_vh1 w) * 4" using assms by (simp add: wire_ok_def wire_ip_def)
  have "ldn (wire_bytes w) (14 + SNIFF_IP_HL (w_vh1 w) * 4) 2 = Some (bytes16 (w_sport w))"
    "ldn (wire_bytes w) (14 + SNIFF_IP_HL (w_vh1 w) * 4 + 2) 2 = Some (bytes16 (w_dport w))"
    using pre ldn_at [of ?pre _ "bytes16 (w_sport w)" 2] ldn_at [of "?pre @ bytes16 (w_sport w)" _ "bytes16 (w_dport w)" 2]
    by (simp_all add: wire_bytes_def wire_tcp_def)
  then show ?thesis using wire_fields(1,2) [OF assms, of False]
    by (simp add: sniff_read_session_def hb wire_session_def)
qed

lemma got_packet_wire:
  assumes "wire_ok w"
  shows "got_packet wlen (wire_bytes w) s =
    Some ((if ses_init_flag s = 0 \<and> opens_session w then s\<lparr>sn_ses := wire_session w, ses_init_flag := 1\<rparr> else s)
      \<lparr>sn_dumped := sn_dumped s @ [wire_bytes w], sn_lens := sn_lens s @ [wlen]\<rparr>)"
proof -
  have hb: "wire_bytes w = host_bytes False w" by (simp add: wire_bytes_def host_bytes_def)
  then have "ld8 (wire_bytes w) (14 + SNIFF_IP_HL (w_vh1 w) * 4 + 13) = Some (w_flags w)" using wire_fields(8) [OF assms, of False] by simp
  then show ?thesis using read_session_wire [OF assms]
    by (simp add: got_packet_def Let_def get_payload_wire [OF assms] opens_session_def)
qed

text \<open>
  The sniffer on well-formed packets: the first 1000 packets are dumped, all of them and in order,
  whether or not they belong to the session; the session it remembers is that of the first packet
  that opens_session a connection (SYN set and no other flag, PUSH apart), and stays unset without one.
\<close>

theorem sniffer_dumps_all:
  assumes "list_all (\<lambda>p. wire_ok (snd p)) ps"
  shows "\<exists>s. sniff_loop 1000 (map (\<lambda>(wlen, w). (wlen, wire_bytes w)) ps) new_sniffer = Some s \<and>
    sn_dumped s = map (\<lambda>p. wire_bytes (snd p)) (take 1000 ps) \<and> sn_lens s = map fst (take 1000 ps) \<and>
    (case filter opens_session (map snd (take 1000 ps)) of
       [] \<Rightarrow> ses_init_flag s = 0 \<and> sn_ses s = sn_ses new_sniffer
     | w # _ \<Rightarrow> ses_init_flag s = 1 \<and> sn_ses s = wire_session w)"
proof -
  have "\<exists>s. sniff_loop n (map (\<lambda>(wlen, w). (wlen, wire_bytes w)) ps) s0 = Some s \<and>
      sn_dumped s = sn_dumped s0 @ map (\<lambda>p. wire_bytes (snd p)) (take n ps) \<and> sn_lens s = sn_lens s0 @ map fst (take n ps) \<and>
      (case if ses_init_flag s0 = 0 then filter opens_session (map snd (take n ps)) else [] of
         [] \<Rightarrow> ses_init_flag s = ses_init_flag s0 \<and> sn_ses s = sn_ses s0
       | w # _ \<Rightarrow> ses_init_flag s = 1 \<and> sn_ses s = wire_session w)" for n and s0 :: sniffer
    using assms
  proof (induction ps arbitrary: n s0)
    case (Cons p ps)
    then show ?case
    proof (cases n)
      case (Suc k)
      obtain wlen w where p: "p = (wlen, w)" by (cases p)
      let ?s = "(if ses_init_flag s0 = 0 \<and> opens_session w then s0\<lparr>sn_ses := wire_session w, ses_init_flag := 1\<rparr> else s0)
        \<lparr>sn_dumped := sn_dumped s0 @ [wire_bytes w], sn_lens := sn_lens s0 @ [wlen]\<rparr>"
      have "wire_ok w" "list_all (\<lambda>p. wire_ok (snd p)) ps" using Cons.prems p by auto
      then show ?thesis using Cons.IH [of k ?s] by (auto simp: p Suc got_packet_wire split: if_splits list.splits)
    qed simp
  qed (cases n; simp)
  note g = this [of 1000 new_sniffer]
  have f: "ses_init_flag new_sniffer = 0" "sn_dumped new_sniffer = []" "sn_lens new_sniffer = []" by (simp_all add: new_sniffer_def)
  show ?thesis using g unfolding f append_Nil if_P [OF refl] .
qed

definition syn_wire :: wire where "syn_wire = demo_wire\<lparr>w_flags := 0x0a\<rparr>"

theorem sniffer_dumps_all_witness:
  "\<exists>s. sniff_loop 1000 [(57, wire_bytes demo_wire), (57, wire_bytes syn_wire)] new_sniffer = Some s \<and>
     sn_dumped s = [wire_bytes demo_wire, wire_bytes syn_wire] \<and> sn_ses s = wire_session syn_wire"
proof -
  have "wire_ok syn_wire" using demo_wire_ok by (simp add: wire_ok_def syn_wire_def)
  moreover have "\<not> opens_session demo_wire" "opens_session syn_wire"
    by (simp_all add: opens_session_def syn_wire_def demo_wire_def SNIFF_TH_FLAGS_def SNIFF_TH_SYN_def)
  ultimately show ?thesis using sniffer_dumps_all [of "[(57, demo_wire), (57, syn_wire)]"] demo_wire_ok by auto
qed

text \<open>What is printed for the flag of a bit: its name, but PUSH runs on into the next row.\<close>

definition shown_flag :: "nat \<Rightarrow> string" where
  "shown_flag i = (if i = 3 then ''PUSH ACK  '' else [''FIN  '', ''SYN  '', ''RST  '', [], ''ACK  '', ''URG  '', ''ECE  '', ''CWR  ''] ! i)"

lemma bit_tested: "drop_bit i (fl :: byte) AND 1 \<noteq> 0 \<longleftrightarrow> bit fl i"
  by (simp add: and_one_eq bit_iff_odd_drop_bit odd_iff_mod_2_eq_one)

lemma flag_row_shown:
  assumes "i < 8"
  shows "\<exists>s. cstring (drop (5 * i) analyse_flags) = Some s \<and> s @ '' '' = shown_flag i"
proof -
  have "i \<in> set [0..<8]" using assms by simp
  then show ?thesis by (auto simp: upt_rec analyse_flags_def flag_row_def cstring_def shown_flag_def numeral_eq_Suc)
qed

lemma print_flags_shown:
  "list_all (\<lambda>i. i < 8) is \<Longrightarrow> print_flags fl is = Some (concat (map shown_flag (filter (bit fl) is)))"
proof (induction "is")
  case (Cons i "is")
  then show ?case using flag_row_shown [of i] by (auto simp: bit_tested)
qed simp

text \<open>
  Reading back what the sniffer dumped: each packet is counted and its flags are printed in the
  order of their bits, but a packet with PUSH set is shown as if ACK were set too, since the name of
  five characters has no end in its row of five bytes.
\<close>

theorem analyse_reads_back:
  assumes "list_all wire_ok ws" "0 \<le> n" "n + int (length ws) \<le> INT_MAX"
  shows "analyse_file (map wire_bytes ws) n = Some (n + int (length ws),
    concat (map (\<lambda>i. concat (map shown_flag (filter (bit (w_flags (ws ! i))) [0..<8])) @ ''count : '' @ show_int (n + 1 + int i) @ [NL])
      [0..<length ws]))"
  using assms
proof (induction ws arbitrary: n)
  case (Cons w ws)
  let ?fl = "concat (map shown_flag (filter (bit (w_flags w)) [0..<8]))"
  have w: "wire_ok w" using Cons.prems by simp
  have "ld8 (wire_bytes w) (14 + SNIFF_IP_HL (w_vh1 w) * 4 + 13) = Some (w_flags w)"
    using wire_fields(8) [OF w, of False] by (simp add: wire_bytes_def host_bytes_def)
  moreover have "cint (n + 1) = Some (n + 1)" using Cons.prems by (simp add: cint_def int_limits)
  moreover have "print_flags (w_flags w) [0..<8] = Some ?fl" by (rule print_flags_shown) (simp add: list_all_iff)
  ultimately have p: "analyse_packet (wire_bytes w) n = Some (n + 1, ?fl @ ''count : '' @ show_int (n + 1) @ [NL])"
    by (simp add: analyse_packet_def get_payload_wire [OF w] del: upt.simps)
  have "analyse_file (map wire_bytes ws) (n + 1) = Some (n + 1 + int (length ws),
      concat (map (\<lambda>i. concat (map shown_flag (filter (bit (w_flags (ws ! i))) [0..<8])) @ ''count : '' @ show_int (n + 1 + 1 + int i) @ [NL])
        [0..<length ws]))"
    using Cons.IH [of "n + 1"] Cons.prems by simp
  then show ?case unfolding list.map analyse_file.simps p length_Cons map_upt_Suc by (simp add: ac_simps)
qed simp

theorem analyse_reads_back_witness:
  "analyse_file (map wire_bytes [syn_wire, demo_wire]) 0 =
     Some (2, ''SYN  PUSH ACK  count : 1'' @ [NL] @ ''SYN  ACK  count : 2'' @ [NL])"
proof -
  have "wire_ok syn_wire" using demo_wire_ok by (simp add: wire_ok_def syn_wire_def)
  moreover have "filter (bit (w_flags syn_wire)) [0..<8] = [1, 3]" "filter (bit (w_flags demo_wire)) [0..<8] = [1, 4]"
    "show_int 1 = ''1''" "show_int 2 = ''2''" by code_simp+
  ultimately show ?thesis using analyse_reads_back [of "[syn_wire, demo_wire]" 0] demo_wire_ok
    by (simp add: INT_MAX_def shown_flag_def upt_rec [of _ "Suc _"] del: upt.simps)
qed

end
